(* ===== verification/Prelude.thy ===== *)
theory Prelude
  imports Main "HOL-Library.Word"
begin

text \<open>
  Shared vocabulary of the BESM-666 development: the machine integer types of
  \<^verbatim>\<open>include/besm-666/riscv-types.hpp\<close>, the error values that stand for the exceptions, failed
  assertions, aborts and undefined operations of the code, sequencing of operations that may
  fail, little-endian byte strings, and the generic facts about words, bits and lists that the
  component theories use.  Facts about single bits of an expression are collected in
  \<open>bit_facts\<close>, the unfolding rules of small accessors in \<open>access_simps\<close>, and the facts that
  discharge checks of well-formed states in \<open>wf_intros\<close>.
\<close>

unbundle bit_operations_syntax

named_theorems bit_facts
named_theorems access_simps
named_theorems wf_intros

section \<open>Machine integers\<close>

text \<open>
  The unsigned types are words, so that addition wraps as in C++.  A signed value
  (\<^verbatim>\<open>RV64DWord\<close>, \<^verbatim>\<open>RV64Word\<close>, ...) is the integer it denotes.
\<close>

type_synonym u8 = "8 word"
type_synonym u16 = "16 word"
type_synonym u32 = "32 word"
type_synonym u64 = "64 word"

type_synonym RV64UChar = u8
type_synonym RV64UHWord = u16
type_synonym RV64UWord = u32
type_synonym RV64UDWord = u64
type_synonym RV64Ptr = u64
type_synonym RV64Size = u64
type_synonym Register = u8

section \<open>Errors and sequencing\<close>

text \<open>
  Every way an operation can end other than by returning: the exception classes the code
  throws, a failed \<^verbatim>\<open>assert\<close>, \<^verbatim>\<open>std::terminate\<close>, and an operation whose behaviour the C++
  language leaves undefined (a shift by the width or more, a read through a bad pointer).
  \<open>OutOfFuel\<close> is no result of the code: a loop modelled with a bound on its iterations returns it
  when the bound is reached, and the theorems about such a loop show that it is not.
\<close>

datatype besm_error =
    InvalidAddressError
  | UnalignedAddressError
  | MappingIntersection
  | InvalidArgument
  | OutOfRange
  | BadAlloc
  | InvalidELFFormat
  | UnavailableELFRequirements
  | InvalidConfiguration
  | AssertFailed
  | Terminated
  | UndefinedBehaviour
  | OutOfFuel

type_synonym 'a res = "besm_error + 'a"

definition bindE :: "'a res \<Rightarrow> ('a \<Rightarrow> 'b res) \<Rightarrow> 'b res" where
  "bindE m f = (case m of Inl e \<Rightarrow> Inl e | Inr x \<Rightarrow> f x)"

lemma bindE_Inl [simp]: "bindE (Inl e) f = Inl e"
  and bindE_Inr [simp]: "bindE (Inr x) f = f x"
  by (simp_all add: bindE_def)

lemma bindE_eq_Inr_iff: "bindE m f = Inr y \<longleftrightarrow> (\<exists>x. m = Inr x \<and> f x = Inr y)"
  by (cases m) auto

lemma bindE_assoc: "bindE (bindE m f) g = bindE m (\<lambda>x. bindE (f x) g)"
  by (cases m) auto

lemma bindE_InrE [elim?]:
  assumes "bindE m f = Inr y"
  obtains x where "m = Inr x" and "f x = Inr y"
  using assms by (cases m) auto

definition assertE :: "bool \<Rightarrow> unit res" where
  "assertE b = (if b then Inr () else Inl AssertFailed)"

lemma assertE_True [simp]: "b \<Longrightarrow> assertE b = Inr ()"
  and assertE_False [simp]: "\<not> b \<Longrightarrow> assertE b = Inl AssertFailed"
  by (simp_all add: assertE_def)

section \<open>Bits of words\<close>

lemma bit_word_beyond: "LENGTH('a) \<le> n \<Longrightarrow> \<not> bit (w :: 'a::len word) n"
  by (rule impossible_bit) simp

lemma exp_minus_1_eq_mask [bit_facts]: "(2 ^ n - 1 :: 'a::len word) = mask n"
  by (simp add: mask_eq_exp_minus_1)

lemma even_word_iff_bit: "even (w :: 'a::len word) \<longleftrightarrow> \<not> bit w 0"
  by (simp add: bit_0)

lemma unat_add_no_wrap:
  "unat a + unat b < 2 ^ LENGTH('a) \<Longrightarrow> unat (a + b :: 'a::len word) = unat a + unat b"
  by (simp add: unat_word_ariths)

lemma unat_ucast_up:
  "LENGTH('a) \<le> LENGTH('b) \<Longrightarrow> unat (ucast (w :: 'a::len word) :: 'b::len word) = unat w"
  by (simp add: unsigned_ucast_eq take_bit_nat_eq_self less_le_trans [OF unsigned_less])

lemma ucast_up_inject:
  "LENGTH('a) \<le> LENGTH('b) \<Longrightarrow>
     (ucast (v :: 'a::len word) :: 'b::len word) = ucast w \<longleftrightarrow> v = w"
  by (metis unat_ucast_up word_unat_eq_iff)

lemma ucast_up_eq_iff:
  assumes "LENGTH('a) \<le> LENGTH('b)" and "(ucast (c :: 'a::len word) :: 'b::len word) = k"
  shows "(ucast (v :: 'a word) :: 'b word) = k \<longleftrightarrow> v = c"
  unfolding assms(2) [symmetric] using assms(1) by (rule ucast_up_inject)

section \<open>Little-endian byte strings\<close>

text \<open>
  The memory layout a \<^verbatim>\<open>reinterpret_cast\<close> of a byte pointer reads and writes on the
  little-endian hosts the simulator runs on.
\<close>

primrec le_bytes :: "nat \<Rightarrow> 'a::len word \<Rightarrow> u8 list" where
  "le_bytes 0 w = []"
| "le_bytes (Suc n) w = ucast w # le_bytes n (drop_bit 8 w)"

primrec le_word :: "u8 list \<Rightarrow> 'a::len word" where
  "le_word [] = 0"
| "le_word (b # bs) = ucast b OR push_bit 8 (le_word bs)"

lemma length_le_bytes [simp]: "length (le_bytes n w) = n"
  by (induction n arbitrary: w) auto

lemma le_bytes_nth: "i < n \<Longrightarrow> le_bytes n w ! i = ucast (drop_bit (8 * i) w)"
proof (induction n arbitrary: w i)
  case 0
  then show ?case by simp
next
  case (Suc n)
  then show ?case by (cases i) (simp_all add: add.commute)
qed

lemma bit_le_word [bit_facts]:
  "bit (le_word bs :: 'a::len word) k \<longleftrightarrow>
     k < LENGTH('a) \<and> k div 8 < length bs \<and> bit (bs ! (k div 8)) (k mod 8)"
proof (induction bs arbitrary: k)
  case Nil
  then show ?case by simp
next
  case (Cons b bs)
  show ?case
  proof (cases "k < 8")
    case True
    then show ?thesis
      by (auto simp: bit_or_iff bit_ucast_iff bit_push_bit_iff)
  next
    case False
    then have "k div 8 = Suc ((k - 8) div 8)" and "k mod 8 = (k - 8) mod 8"
      by (simp_all add: le_div_geq le_mod_geq)
    moreover have "\<not> bit b k"
      using False by (simp add: bit_word_beyond)
    ultimately show ?thesis
      using False Cons.IH [of "k - 8"]
      by (auto simp: bit_or_iff bit_ucast_iff bit_push_bit_iff)
  qed
qed

lemma le_word_le_bytes:
  assumes "LENGTH('a) = 8 * n"
  shows "le_word (le_bytes n w) = (w :: 'a::len word)"
proof (rule bit_word_eqI)
  fix k
  assume k: "k < LENGTH('a)"
  then have "k div 8 < n" using assms by (simp add: less_mult_imp_div_less mult.commute)
  moreover have "8 * (k div 8) + k mod 8 = k" by simp
  ultimately show "bit (le_word (le_bytes n w) :: 'a word) k = bit w k"
    using k by (simp add: bit_le_word le_bytes_nth bit_ucast_iff bit_drop_bit_eq)
qed

end
