(* ===== verification/HostMem.thy ===== *)
theory HostMem
  imports Prelude
begin

text \<open>
  The host memory the simulated RAM lives in.  Memory is a list of blocks, one for each mapping the
  operating system granted; a pointer names a block and an offset, or is null, or is the value
  \<^verbatim>\<open>MAP_FAILED\<close>.  Reading or writing outside a block, and arithmetic on a pointer that names no
  block, are undefined operations of C++ and are the error \<open>UndefinedBehaviour\<close>.

  The system calls behind \<^verbatim>\<open>besm666_mmap\<close> and \<^verbatim>\<open>besm666_munmap\<close>
  (\<^verbatim>\<open>src/memory/mmap-wrapper.cpp\<close>) and \<^verbatim>\<open>getpagesize\<close> are not part of the repository: they are
  the record \<open>os\<close>, a parameter of every definition that allocates.  \<open>mmap_ok\<close> is the documented
  behaviour of an anonymous private mapping that is granted: a fresh zero-filled area of the
  requested size.
\<close>

datatype hptr = NullPtr | MapFailed | Ptr nat nat

type_synonym host = "(nat \<times> (nat \<Rightarrow> u8)) list"

record os =
  os_mmap :: "host \<Rightarrow> u64 \<Rightarrow> hptr \<times> host"
  os_munmap :: "hptr \<Rightarrow> u64 \<Rightarrow> host \<Rightarrow> host"
  os_getpagesize :: u64

definition besm666_mmap :: "os \<Rightarrow> u64 \<Rightarrow> host \<Rightarrow> hptr \<times> host" where
  "besm666_mmap E len h = os_mmap E h len"

definition besm666_munmap :: "os \<Rightarrow> hptr \<Rightarrow> u64 \<Rightarrow> host \<Rightarrow> host" where
  "besm666_munmap E p len h = os_munmap E p len h"

definition mmap_ok :: "os \<Rightarrow> bool" where
  "mmap_ok E \<longleftrightarrow>
     (\<forall>h n. 0 < n \<longrightarrow> os_mmap E h n = (Ptr (length h) 0, h @ [(unat n, \<lambda>_. 0)]))"

definition hptr_add :: "hptr \<Rightarrow> nat \<Rightarrow> hptr res" where
  "hptr_add p n =
     (case p of
        Ptr b x \<Rightarrow> Inr (Ptr b (x + n))
      | NullPtr \<Rightarrow> (if n = 0 then Inr NullPtr else Inl UndefinedBehaviour)
      | MapFailed \<Rightarrow> Inl UndefinedBehaviour)"

definition hptr_less :: "hptr \<Rightarrow> hptr \<Rightarrow> bool res" where
  "hptr_less p q =
     (case (p, q) of
        (Ptr b x, Ptr c y) \<Rightarrow> (if b = c then Inr (x < y) else Inl UndefinedBehaviour)
      | (NullPtr, NullPtr) \<Rightarrow> Inr False
      | _ \<Rightarrow> Inl UndefinedBehaviour)"

definition host_read :: "nat \<Rightarrow> hptr \<Rightarrow> host \<Rightarrow> u8 list res" where
  "host_read n p h =
     (case p of
        Ptr b x \<Rightarrow>
          (if b < length h \<and> x + n \<le> fst (h ! b)
           then Inr (map (snd (h ! b)) [x ..< x + n]) else Inl UndefinedBehaviour)
      | _ \<Rightarrow> Inl UndefinedBehaviour)"

definition write_bytes :: "u8 list \<Rightarrow> nat \<Rightarrow> (nat \<Rightarrow> u8) \<Rightarrow> nat \<Rightarrow> u8" where
  "write_bytes bs x f = (\<lambda>k. if x \<le> k \<and> k < x + length bs then bs ! (k - x) else f k)"

definition host_write :: "u8 list \<Rightarrow> hptr \<Rightarrow> host \<Rightarrow> host res" where
  "host_write bs p h =
     (case p of
        Ptr b x \<Rightarrow>
          (if b < length h \<and> x + length bs \<le> fst (h ! b)
           then Inr (h[b := (fst (h ! b), write_bytes bs x (snd (h ! b)))]) else Inl UndefinedBehaviour)
      | _ \<Rightarrow> Inl UndefinedBehaviour)"

lemma hptr_simps [simp]:
  "hptr_add (Ptr b x) n = Inr (Ptr b (x + n))"
  "hptr_add MapFailed n = Inl UndefinedBehaviour"
  "hptr_less (Ptr b x) (Ptr b y) = Inr (x < y)"
  by (simp_all add: hptr_add_def hptr_less_def)

lemma host_read_Ptr:
  "b < length h \<Longrightarrow> x + n \<le> fst (h ! b) \<Longrightarrow> host_read n (Ptr b x) h = Inr (map (snd (h ! b)) [x ..< x + n])"
  by (simp add: host_read_def)

lemma host_write_Ptr:
  "b < length h \<Longrightarrow> x + length bs \<le> fst (h ! b) \<Longrightarrow>
     host_write bs (Ptr b x) h = Inr (h[b := (fst (h ! b), write_bytes bs x (snd (h ! b)))])"
  by (simp add: host_write_def)

text \<open>An operating system that always has memory, for the examples.\<close>

definition plenty :: os where
  "plenty = \<lparr>os_mmap = \<lambda>h n. (Ptr (length h) 0, h @ [(unat n, \<lambda>_. 0)]),
             os_munmap = \<lambda>p n h. h, os_getpagesize = 4096\<rparr>"

lemma mmap_ok_plenty: "mmap_ok plenty"
  by (simp add: mmap_ok_def plenty_def)

end
