(* ===== verification/BitMagic.thy ===== *)
theory BitMagic
  imports Prelude
begin

text \<open>
  The bit-level utilities of \<^verbatim>\<open>include/besm-666/util/bit-magic.hpp\<close> and
  \<^verbatim>\<open>include/besm-666/util/math.hpp\<close>, one definition per template.  Template arguments
  (\<^verbatim>\<open>SignBits\<close>, \<^verbatim>\<open>Bits\<close>, \<^verbatim>\<open>From\<close>, \<^verbatim>\<open>Mask\<close>, ...) become leading arguments, the type
  argument \<^verbatim>\<open>Type\<close> the word length.  The two recursive templates \<^verbatim>\<open>MaskedExtractor\<close> and
  \<^verbatim>\<open>MaskedInserter\<close> keep their run-by-run recursion; the lemmas show that they gather and
  scatter the bits selected by the mask.
\<close>

section \<open>Fixed fields\<close>

definition SignExtend :: "nat \<Rightarrow> 'a::len word \<Rightarrow> 'a word" where
  "SignExtend SignBits value =
     (let Mask = push_bit SignBits 1 - 1;
          SignbitMask = push_bit (SignBits - 1) 1;
          cleanUppermostBitsValue = value AND Mask
      in (cleanUppermostBitsValue XOR SignbitMask) - SignbitMask)"

definition BitMask :: "nat \<Rightarrow> nat \<Rightarrow> 'a::len word" where
  "BitMask Bits Where = push_bit Where (push_bit Bits 1 - 1)"

definition ExtractBits :: "nat \<Rightarrow> nat \<Rightarrow> 'a::len word \<Rightarrow> 'a word" where
  "ExtractBits Bits From value = drop_bit From (value AND BitMask Bits From)"

definition ExtractBits_ret :: "nat \<Rightarrow> nat \<Rightarrow> 'a::len word \<Rightarrow> 'b::len word" where
  "ExtractBits_ret Bits From value = ucast (ExtractBits Bits From value)"

definition ClearBits :: "nat \<Rightarrow> nat \<Rightarrow> 'a::len word \<Rightarrow> 'a word" where
  "ClearBits Bits From value = value AND NOT (BitMask Bits From)"

definition ChangeBits :: "nat \<Rightarrow> nat \<Rightarrow> 'a::len word \<Rightarrow> 'a word \<Rightarrow> 'a word" where
  "ChangeBits Bits From value newBits =
     ClearBits Bits From value OR push_bit From (ExtractBits Bits 0 newBits)"

text \<open>\<^verbatim>\<open>SUConverter\<close> reinterprets the bits of a two's complement integer.\<close>

definition Signify :: "'a::len word \<Rightarrow> int" where
  "Signify value = sint value"

definition Unsignify :: "int \<Rightarrow> 'a::len word" where
  "Unsignify value = word_of_int value"

section \<open>Masked fields\<close>

function MaskedExtractor ::
    "'a::len word \<Rightarrow> nat \<Rightarrow> nat \<Rightarrow> nat \<Rightarrow> nat \<Rightarrow> 'a word \<Rightarrow> 'a word" where
  "MaskedExtractor Mask Pos Series Filled Count value =
     (if Count \<le> Pos then
        (let SeriesMaskOffset = Count - Series
         in if SeriesMaskOffset = Count then 0
            else push_bit Filled (ExtractBits Series SeriesMaskOffset value))
      else if ExtractBits 1 Pos Mask \<noteq> 0 then
        MaskedExtractor Mask (Pos + 1) (Series + 1) Filled Count value
      else
        (let SeriesMaskOffset = Pos - Series
         in push_bit Filled (ExtractBits Series SeriesMaskOffset value) OR
            MaskedExtractor Mask (Pos + 1) 0 (Filled + Series) Count value))"
  by pat_completeness auto
termination
  by (relation "measure (\<lambda>(_, Pos, _, _, Count, _). Count - Pos)") auto

declare MaskedExtractor.simps [simp del]

definition ExtractMasked :: "'a::len word \<Rightarrow> 'a word \<Rightarrow> 'a word" where
  "ExtractMasked Mask value =
     (if Mask = NOT 0 then value
      else MaskedExtractor Mask 0 0 0 LENGTH('a) value)"

function MaskedInserter ::
    "'a::len word \<Rightarrow> nat \<Rightarrow> nat \<Rightarrow> nat \<Rightarrow> nat \<Rightarrow> 'a word \<Rightarrow> 'a word \<Rightarrow> 'a word" where
  "MaskedInserter Mask Pos Series Set Count value setPlace =
     (if Count \<le> Pos then
        (let SeriesMaskOffset = Count - Series
         in if SeriesMaskOffset = Count then setPlace
            else ChangeBits Series SeriesMaskOffset setPlace (ExtractBits Series Set value))
      else if ExtractBits 1 Pos Mask \<noteq> 0 then
        MaskedInserter Mask (Pos + 1) (Series + 1) Set Count value setPlace
      else
        (let SeriesMaskOffset = Pos - Series;
             newSetPlace = ChangeBits Series SeriesMaskOffset setPlace (ExtractBits Series Set value)
         in MaskedInserter Mask (Pos + 1) 0 (Set + Series) Count value newSetPlace))"
  by pat_completeness auto
termination
  by (relation "measure (\<lambda>(_, Pos, _, _, Count, _, _). Count - Pos)") auto

declare MaskedInserter.simps [simp del]

definition InsertMasked :: "'a::len word \<Rightarrow> 'a word \<Rightarrow> 'a word \<Rightarrow> 'a word" where
  "InsertMasked Mask value setPlace =
     (if Mask = NOT 0 then value
      else MaskedInserter Mask 0 0 0 LENGTH('a) value setPlace)"

section \<open>Powers of two\<close>

definition Is2Pow :: "'a::len word \<Rightarrow> bool" where
  "Is2Pow value \<longleftrightarrow> value = 0 \<or> value AND (value - 1) = 0"

definition Nearest2PowDivident :: "'a::len word \<Rightarrow> 'a word \<Rightarrow> 'a word" where
  "Nearest2PowDivident value divider2pow = (value + divider2pow) AND NOT (divider2pow - 1)"

section \<open>What the fixed-field operations compute\<close>

lemma bit_BitMask [bit_facts]:
  "bit (BitMask n k :: 'a::len word) i \<longleftrightarrow> k \<le> i \<and> i < k + n \<and> i < LENGTH('a)"
  by (auto simp: BitMask_def bit_push_bit_iff exp_minus_1_eq_mask bit_mask_iff)

lemma bit_ExtractBits [bit_facts]:
  "bit (ExtractBits n k w :: 'a::len word) i \<longleftrightarrow> i < n \<and> bit w (k + i)"
  by (auto simp: ExtractBits_def bit_drop_bit_eq bit_and_iff bit_BitMask dest: bit_imp_le_length)

lemma bit_ExtractBits_ret [bit_facts]:
  "bit (ExtractBits_ret n k (w :: 'a::len word) :: 'b::len word) i \<longleftrightarrow>
     i < LENGTH('b) \<and> i < n \<and> bit w (k + i)"
  by (auto simp: ExtractBits_ret_def bit_ucast_iff bit_ExtractBits)

lemma bit_ClearBits [bit_facts]:
  "bit (ClearBits n k w :: 'a::len word) i \<longleftrightarrow> bit w i \<and> \<not> (k \<le> i \<and> i < k + n)"
  by (auto simp: ClearBits_def bit_and_iff bit_not_iff bit_BitMask dest: bit_imp_le_length)

lemma bit_ChangeBits [bit_facts]:
  "bit (ChangeBits n k w v :: 'a::len word) i \<longleftrightarrow>
     i < LENGTH('a) \<and> (if k \<le> i \<and> i < k + n then bit v (i - k) else bit w i)"
  by (auto simp: ChangeBits_def bit_or_iff bit_push_bit_iff bit_ClearBits bit_ExtractBits
      dest: bit_imp_le_length)

lemma ExtractBits_eq: "ExtractBits n k w = take_bit n (drop_bit k w)"
  by (rule bit_word_eqI) (simp add: bit_ExtractBits bit_take_bit_iff bit_drop_bit_eq)

lemma ExtractBits_0 [simp]: "ExtractBits 0 k w = 0"
  by (rule bit_word_eqI) (simp add: bit_ExtractBits)

lemma ExtractBits_1_iff: "ExtractBits (Suc 0) k w = 0 \<longleftrightarrow> \<not> bit w k"
proof
  assume "ExtractBits (Suc 0) k w = 0"
  then have "\<not> bit (ExtractBits (Suc 0) k w) 0" by simp
  then show "\<not> bit w k" by (simp add: bit_ExtractBits)
next
  assume "\<not> bit w k"
  then show "ExtractBits (Suc 0) k w = 0" by (intro bit_word_eqI) (auto simp: bit_ExtractBits)
qed

lemma unat_ExtractBits_bound: "unat (ExtractBits n k w :: 'a::len word) < 2 ^ n"
proof -
  have "unat (ExtractBits n k w) = take_bit n (unat (drop_bit k w))"
    by (simp add: ExtractBits_eq unsigned_take_bit_eq)
  then show ?thesis by simp
qed

text \<open>Sign extension by exclusive or and subtraction reads the low bits as two's complement.\<close>

lemma SignExtend_eq_signed_take_bit:
  assumes "0 < n"
  shows "SignExtend n w = (signed_take_bit (n - 1) w :: 'a::len word)"
proof -
  define m where "m = n - 1"
  with assms have n: "n = Suc m" by simp
  have clean: "w AND (push_bit n 1 - 1) = take_bit n w"
    by (simp add: exp_minus_1_eq_mask take_bit_eq_mask)
  have flip: "take_bit (Suc m) w XOR 2 ^ m = take_bit (Suc m) w + 2 ^ m - 2 ^ Suc m * of_bool (bit w m)"
  proof (cases "bit w m")
    case True
    then have "take_bit (Suc m) w XOR 2 ^ m = take_bit m w"
      by (intro bit_word_eqI) (auto simp: bit_xor_iff bit_take_bit_iff bit_exp_iff less_Suc_eq)
    moreover have "take_bit m w AND 2 ^ m = 0"
      by (intro bit_word_eqI) (auto simp: bit_and_iff bit_take_bit_iff bit_exp_iff)
    then have "take_bit m w + 2 ^ m = take_bit m w OR 2 ^ m"
      by (rule disjunctive_add_eq_or)
    moreover have "take_bit m w OR 2 ^ m = take_bit (Suc m) w"
      using True
      by (intro bit_word_eqI) (auto simp: bit_or_iff bit_take_bit_iff bit_exp_iff less_Suc_eq)
    ultimately show ?thesis using True by (simp add: eq_diff_eq)
  next
    case False
    then have "take_bit (Suc m) w AND 2 ^ m = 0"
      by (intro bit_word_eqI) (auto simp: bit_and_iff bit_take_bit_iff bit_exp_iff)
    then show ?thesis
      using False disjunctive_add_eq_xor [of "take_bit (Suc m) w" "2 ^ m"] by simp
  qed
  have "SignExtend n w = (take_bit (Suc m) w XOR 2 ^ m) - 2 ^ m"
    using clean by (simp add: SignExtend_def Let_def n)
  also have "\<dots> = signed_take_bit m w"
    by (simp add: flip signed_take_bit_eq_take_bit_minus)
  finally show ?thesis by (simp add: m_def)
qed

section \<open>What the masked operations compute\<close>

text \<open>
  The rank of position \<open>j\<close> in a mask is the number of selected positions below it.  Gathering
  moves the bit at a selected position \<open>j\<close> to position \<open>rank m j\<close>; scattering does the converse.
\<close>

definition rank :: "'a::len word \<Rightarrow> nat \<Rightarrow> nat" where
  "rank m j = card {k. k < j \<and> bit m k}"

lemma rank_0 [simp]: "rank m 0 = 0"
  by (simp add: rank_def)

lemma rank_Suc [simp]: "rank m (Suc j) = rank m j + of_bool (bit m j)"
proof -
  have "{k. k < Suc j \<and> bit m k} = (if bit m j then insert j {k. k < j \<and> bit m k} else {k. k < j \<and> bit m k})"
    by (auto simp: less_Suc_eq)
  then show ?thesis by (simp add: rank_def)
qed

lemma rank_mono: "i \<le> j \<Longrightarrow> rank m i \<le> rank m j"
  by (induction j) (auto simp: le_Suc_eq)

lemma rank_le: "rank m j \<le> j"
  by (induction j) auto

lemma rank_strict: "i < j \<Longrightarrow> bit m i \<Longrightarrow> rank m i < rank m j"
  using rank_mono [of "Suc i" j m] by simp

lemma rank_inj: "bit m i \<Longrightarrow> bit m j \<Longrightarrow> rank m i = rank m j \<longleftrightarrow> i = j"
  by (metis less_irrefl nat_neq_iff rank_strict)

lemma rank_run:
  assumes "\<And>k. s \<le> k \<Longrightarrow> k < s + n \<Longrightarrow> bit m k"
  shows "rank m (s + n) = rank m s + n"
  using assms by (induction n) auto

lemma ex_rank: "i < rank m n \<Longrightarrow> \<exists>j<n. bit m j \<and> rank m j = i"
proof (induction n)
  case 0
  then show ?case by simp
next
  case (Suc n)
  show ?case
  proof (cases "i < rank m n")
    case True
    with Suc.IH show ?thesis by (auto intro: less_SucI)
  next
    case False
    with Suc.prems have "bit m n" and "rank m n = i" by (cases "bit m n"; simp)+
    then show ?thesis by blast
  qed
qed

lemma rank_all_ones: "rank (- 1 :: 'a::len word) j = min j LENGTH('a)"
  by (induction j) auto

text \<open>A run of selected positions ending at \<open>p\<close> is gathered contiguously.\<close>

lemma bit_gathered_run:
  fixes m v :: "'a::len word"
  assumes run: "\<And>k. p - s \<le> k \<Longrightarrow> k < p \<Longrightarrow> bit m k" and "s \<le> p" and "p \<le> LENGTH('a)"
  shows "bit (push_bit (rank m (p - s)) (ExtractBits s (p - s) v)) i \<longleftrightarrow>
           (\<exists>j. p - s \<le> j \<and> j < p \<and> bit m j \<and> rank m j = i \<and> bit v j)" (is "?l \<longleftrightarrow> ?r")
proof
  let ?b = "p - s"
  have rk: "rank m (?b + n) = rank m ?b + n" if "n \<le> s" for n
    using that assms(2) by (intro rank_run run) auto
  assume ?l
  then obtain n where n: "i = rank m ?b + n" "n < s" "bit v (?b + n)"
    by (auto simp: bit_push_bit_iff bit_ExtractBits le_iff_add)
  then show ?r
    using rk [of n] run [of "?b + n"] assms(2) by (intro exI [of _ "?b + n"]) auto
next
  let ?b = "p - s"
  assume ?r
  then obtain n where n: "n < s" "rank m (?b + n) = i" "bit v (?b + n)" "bit m (?b + n)"
    using assms(2) by (auto simp: le_iff_add)
  have "rank m (?b + n) = rank m ?b + n"
    using n(1) assms(2) by (intro rank_run run) auto
  moreover have "i < LENGTH('a)"
    using n bit_imp_le_length [OF n(3)] rank_le [of m "?b + n"] by simp
  ultimately show ?l
    using n by (auto simp: bit_push_bit_iff bit_ExtractBits)
qed

text \<open>Skipping a position that is not selected.\<close>

lemma ex_skip:
  fixes p :: nat
  assumes "\<not> P p"
  shows "(\<exists>j. p - s \<le> j \<and> P j \<and> Q j) \<longleftrightarrow>
           (\<exists>j. p - s \<le> j \<and> j < p \<and> P j \<and> Q j) \<or> (\<exists>j. p + 1 \<le> j \<and> P j \<and> Q j)" (is "?all \<longleftrightarrow> ?below \<or> ?above")
proof
  assume ?all
  then obtain j where j: "p - s \<le> j" "P j" "Q j" by blast
  with assms have "j < p \<or> p + 1 \<le> j" by (cases "j = p") auto
  with j show "?below \<or> ?above" by blast
next
  assume "?below \<or> ?above"
  moreover have "p - s \<le> j" if "p + 1 \<le> j" for j :: nat using that by simp
  ultimately show ?all by blast
qed

lemma bit_MaskedExtractor:
  fixes m v :: "'a::len word"
  assumes "s \<le> p" "p \<le> LENGTH('a)" "\<And>k. p - s \<le> k \<Longrightarrow> k < p \<Longrightarrow> bit m k"
    and "f = rank m (p - s)"
  shows "bit (MaskedExtractor m p s f LENGTH('a) v) i \<longleftrightarrow>
           (\<exists>j. p - s \<le> j \<and> bit m j \<and> rank m j = i \<and> bit v j)"
  using assms
proof (induction m p s f "LENGTH('a)" v rule: MaskedExtractor.induct)
  case (1 m p s f v)
  note run = bit_gathered_run [of p s m v i, OF "1.prems"(3,1,2)]
  show ?case
  proof (cases "LENGTH('a) \<le> p")
    case True
    with "1.prems"(2) have p: "p = LENGTH('a)" by simp
    have "MaskedExtractor m p s f LENGTH('a) v = push_bit f (ExtractBits s (p - s) v)"
      using p by (cases s) (simp_all add: MaskedExtractor.simps [of m "LENGTH('a)"] Let_def)
    moreover have "j < p" if "bit m j" for j
      using that bit_imp_le_length p by blast
    ultimately show ?thesis using run "1.prems"(4) by auto
  next
    case False
    note unf = MaskedExtractor.simps [of m p s f "LENGTH('a)" v]
    show ?thesis
    proof (cases "bit m p")
      case True
      with False "1.prems" have "bit (MaskedExtractor m (p + 1) (s + 1) f LENGTH('a) v) i \<longleftrightarrow>
           (\<exists>j. p - s \<le> j \<and> bit m j \<and> rank m j = i \<and> bit v j)"
        by (subst "1.hyps"(1)) (auto simp: ExtractBits_1_iff less_Suc_eq)
      with True False show ?thesis by (simp add: unf ExtractBits_1_iff)
    next
      case not: False
      have f': "f + s = rank m (p + 1)"
        using "1.prems" not rank_run [of "p - s" s m] by simp
      have "bit (MaskedExtractor m (p + 1) 0 (f + s) LENGTH('a) v) i \<longleftrightarrow>
           (\<exists>j. p + 1 \<le> j \<and> bit m j \<and> rank m j = i \<and> bit v j)"
        using False not f' by (subst "1.hyps"(2)) (auto simp: ExtractBits_1_iff)
      then have "bit (MaskedExtractor m p s f LENGTH('a) v) i \<longleftrightarrow>
           (\<exists>j. p - s \<le> j \<and> j < p \<and> bit m j \<and> rank m j = i \<and> bit v j) \<or>
           (\<exists>j. p + 1 \<le> j \<and> bit m j \<and> rank m j = i \<and> bit v j)"
        unfolding unf using False not run "1.prems"(4)
        by (simp add: ExtractBits_1_iff bit_or_iff)
      then show ?thesis
        using ex_skip [where P = "bit m" and Q = "\<lambda>j. rank m j = i \<and> bit v j" and p = p and s = s] not by simp
    qed
  qed
qed

theorem bit_ExtractMasked [bit_facts]:
  "bit (ExtractMasked m v) i \<longleftrightarrow> (\<exists>j. bit m j \<and> rank m j = i \<and> bit v j)"
proof (cases "m = NOT 0")
  case True
  have "j < LENGTH('a) \<and> rank m j = j" if "bit m j" for j
    using that bit_imp_le_length [OF that] by (simp add: True rank_all_ones)
  moreover have "bit m j" if "bit v j" for j
    using bit_imp_le_length [OF that] by (simp add: True bit_not_iff)
  ultimately show ?thesis by (auto simp: ExtractMasked_def True)
next
  case False
  then show ?thesis by (simp add: ExtractMasked_def bit_MaskedExtractor)
qed

text \<open>A run of selected positions ending at \<open>p\<close> is filled from consecutive bits.\<close>

lemma bit_scattered_run:
  fixes m v w :: "'a::len word"
  assumes run: "\<And>k. p - s \<le> k \<Longrightarrow> k < p \<Longrightarrow> bit m k" and "s \<le> p" and "p \<le> LENGTH('a)"
  shows "bit (ChangeBits s (p - s) w (ExtractBits s (rank m (p - s)) v)) i \<longleftrightarrow>
           (if p - s \<le> i \<and> i < p then bit v (rank m i) else bit w i)"
proof (cases "p - s \<le> i \<and> i < p")
  case True
  then obtain n where n: "i = p - s + n" "n < s" by (auto simp: le_iff_add)
  have "rank m (p - s + n) = rank m (p - s) + n"
    using n assms(2) by (intro rank_run run) auto
  with True n assms(3) show ?thesis by (simp add: bit_ChangeBits bit_ExtractBits)
next
  case False
  with assms(2,3) show ?thesis by (auto simp: bit_ChangeBits dest: bit_imp_le_length)
qed

lemma MaskedInserter_end:
  fixes m v w :: "'a::len word"
  shows "MaskedInserter m LENGTH('a) s f LENGTH('a) v w = ChangeBits s (LENGTH('a) - s) w (ExtractBits s f v)"
proof (cases s)
  case 0
  then show ?thesis
    by (intro bit_word_eqI) (simp add: MaskedInserter.simps [of m "LENGTH('a)"] Let_def bit_ChangeBits)
next
  case (Suc n)
  moreover have "LENGTH('a) - Suc n \<noteq> LENGTH('a)"
    using len_gt_0 [where 'a = 'a] by arith
  ultimately show ?thesis by (simp add: MaskedInserter.simps [of m "LENGTH('a)"] Let_def)
qed

lemma bit_MaskedInserter:
  fixes m v w :: "'a::len word"
  assumes "s \<le> p" "p \<le> LENGTH('a)" "\<And>k. p - s \<le> k \<Longrightarrow> k < p \<Longrightarrow> bit m k"
    and "f = rank m (p - s)"
  shows "bit (MaskedInserter m p s f LENGTH('a) v w) i \<longleftrightarrow>
           (if p - s \<le> i \<and> bit m i then bit v (rank m i) else bit w i)"
  using assms
proof (induction m p s f "LENGTH('a)" v w rule: MaskedInserter.induct)
  case (1 m p s f v w)
  note run = bit_scattered_run [of p s m w v i, OF "1.prems"(3,1,2)]
  show ?case
  proof (cases "LENGTH('a) \<le> p")
    case True
    with "1.prems"(2) have p: "p = LENGTH('a)" by simp
    have "MaskedInserter m p s f LENGTH('a) v w = ChangeBits s (p - s) w (ExtractBits s f v)"
      unfolding p by (rule MaskedInserter_end)
    moreover have "p - s \<le> i \<and> i < p \<longleftrightarrow> p - s \<le> i \<and> bit m i"
      using "1.prems"(3) [of i] bit_imp_le_length [of m i] p by blast
    ultimately show ?thesis using run by (simp only: "1.prems"(4))
  next
    case False
    note unf = MaskedInserter.simps [of m p s f "LENGTH('a)" v w]
    show ?thesis
    proof (cases "bit m p")
      case True
      with False "1.prems" have "bit (MaskedInserter m (p + 1) (s + 1) f LENGTH('a) v w) i \<longleftrightarrow>
           (if p - s \<le> i \<and> bit m i then bit v (rank m i) else bit w i)"
        by (subst "1.hyps"(1)) (auto simp: ExtractBits_1_iff less_Suc_eq)
      with True False show ?thesis by (simp add: unf ExtractBits_1_iff)
    next
      case not: False
      let ?w = "ChangeBits s (p - s) w (ExtractBits s f v)"
      have f': "f + s = rank m (p + 1)"
        using "1.prems" not rank_run [of "p - s" s m] by simp
      have "bit (MaskedInserter m (p + 1) 0 (f + s) LENGTH('a) v ?w) i \<longleftrightarrow>
           (if p + 1 \<le> i \<and> bit m i then bit v (rank m i) else bit ?w i)"
        using False not f' by (subst "1.hyps"(2)) (auto simp: ExtractBits_1_iff)
      moreover have "MaskedInserter m p s f LENGTH('a) v w =
          MaskedInserter m (p + 1) 0 (f + s) LENGTH('a) v ?w"
        unfolding unf using False not by (simp add: ExtractBits_1_iff Let_def)
      moreover have "bit ?w i = (if p - s \<le> i \<and> i < p then bit v (rank m i) else bit w i)"
        using run by (simp only: "1.prems"(4))
      moreover have "p + 1 \<le> i \<longleftrightarrow> \<not> i < p" if "bit m i"
        using that not by (cases "i = p") auto
      moreover have "bit m i" if "p - s \<le> i" "i < p"
        using that by (rule "1.prems"(3))
      ultimately show ?thesis by (cases "bit m i"; cases "i < p"; cases "p - s \<le> i") simp_all
    qed
  qed
qed

theorem bit_InsertMasked [bit_facts]:
  "bit (InsertMasked m v w) i \<longleftrightarrow> (if bit m i then bit v (rank m i) else bit w i)"
proof (cases "m = - 1")
  case True
  then show ?thesis
    by (auto simp: InsertMasked_def rank_all_ones dest: bit_imp_le_length bit_word_beyond)
next
  case False
  then show ?thesis by (simp add: InsertMasked_def bit_MaskedInserter)
qed

section \<open>Laws of the masked operations\<close>

lemma rank_less_total: "bit m j \<Longrightarrow> rank m j < rank m LENGTH('a)" for m :: "'a::len word"
  by (rule rank_strict) (auto dest: bit_imp_le_length)

text \<open>Reading a field just written gives the low bits of the value, as many as the mask selects.\<close>

lemma ExtractMasked_InsertMasked:
  fixes m v w :: "'a::len word"
  shows "ExtractMasked m (InsertMasked m v w) = take_bit (rank m LENGTH('a)) v"
proof (rule bit_word_eqI)
  fix i
  have "(\<exists>j. bit m j \<and> rank m j = i) \<longleftrightarrow> i < rank m LENGTH('a)"
    using ex_rank [of i m "LENGTH('a)"] rank_less_total [of m] by blast
  then show "bit (ExtractMasked m (InsertMasked m v w)) i = bit (take_bit (rank m LENGTH('a)) v) i"
    by (auto simp: bit_ExtractMasked bit_InsertMasked bit_take_bit_iff)
qed

text \<open>Writing back what was read restores the field of the source word.\<close>

lemma InsertMasked_ExtractMasked:
  fixes m v w :: "'a::len word"
  shows "InsertMasked m (ExtractMasked m v) w = (v AND m) OR (w AND NOT m)"
proof (rule bit_word_eqI)
  fix i
  assume "i < LENGTH('a)"
  moreover have "(\<exists>j. bit m j \<and> rank m j = rank m i \<and> bit v j) \<longleftrightarrow> bit v i" if "bit m i"
    using that rank_inj [of m _ i] by blast
  ultimately show "bit (InsertMasked m (ExtractMasked m v) w) i = bit ((v AND m) OR (w AND NOT m)) i"
    by (auto simp: bit_InsertMasked bit_ExtractMasked bit_or_iff bit_and_iff bit_not_iff)
qed

lemma ExtractMasked_InsertMasked_disjoint:
  fixes m n v w :: "'a::len word"
  assumes "m AND n = 0"
  shows "ExtractMasked n (InsertMasked m v w) = ExtractMasked n w"
proof (rule bit_word_eqI)
  fix i
  have "\<not> bit m j" if "bit n j" for j
    using assms that by (metis bit_0_eq bit_and_iff bot_apply bot_bool_def)
  then show "bit (ExtractMasked n (InsertMasked m v w)) i = bit (ExtractMasked n w) i"
    by (auto simp: bit_ExtractMasked bit_InsertMasked)
qed

lemma ExtractMasked_zero [simp]: "ExtractMasked m 0 = 0"
  by (rule bit_word_eqI) (simp add: bit_ExtractMasked)

lemma rank_lowest: "(\<And>k. k < n \<Longrightarrow> bit m k) \<Longrightarrow> rank m n = n"
  using rank_run [of 0 n m] by simp

section \<open>Laws of the power-of-two tests\<close>

lemma word_and_minus_1_exp: "(2 ^ k :: 'a::len word) AND (2 ^ k - 1) = 0"
  by (rule bit_word_eqI) (auto simp: exp_minus_1_eq_mask bit_and_iff bit_mask_iff bit_exp_iff)

lemma word_and_minus_1_eq_0:
  assumes "x \<noteq> 0" and "x AND (x - 1) = 0"
  shows "\<exists>k<LENGTH('a). x = (2 ^ k :: 'a::len word)"
proof -
  define k where "k = (LEAST k. bit x k)"
  obtain i where "bit x i" using assms(1) by (auto simp: bit_eq_iff)
  then have k: "bit x k" and below: "\<And>j. j < k \<Longrightarrow> \<not> bit x j"
    unfolding k_def by (rule LeastI) (rule not_less_Least)
  define y where "y = x AND NOT (mask (Suc k))"
  have bity: "bit y j \<longleftrightarrow> k < j \<and> bit x j" for j
    by (auto simp: y_def bit_and_iff bit_not_iff bit_mask_iff dest: bit_imp_le_length)
  have "y AND 2 ^ k = 0"
    by (rule bit_word_eqI) (auto simp: bit_and_iff bity bit_exp_iff)
  then have "y + 2 ^ k = y OR 2 ^ k" by (rule disjunctive_add_eq_or)
  also have "\<dots> = x"
  proof (rule bit_word_eqI)
    fix j
    assume "j < LENGTH('a)"
    then show "bit (y OR 2 ^ k) j = bit x j"
      using k below by (cases j k rule: linorder_cases) (auto simp: bit_or_iff bity bit_exp_iff)
  qed
  finally have x: "x = y + 2 ^ k" ..
  have dis: "y AND mask k = 0"
    by (rule bit_word_eqI) (auto simp: bit_and_iff bity bit_mask_iff)
  have "x - 1 = y + mask k" by (simp add: x exp_minus_1_eq_mask [symmetric])
  also have "\<dots> = y OR mask k" using dis by (rule disjunctive_add_eq_or)
  finally have xm: "x - 1 = y OR mask k" .
  have "bit (x AND (x - 1)) j = bit y j" for j
    unfolding xm using below [of j] by (auto simp: bit_and_iff bit_or_iff bity bit_mask_iff)
  then have "y = 0" using assms(2) by (simp add: bit_eq_iff)
  with x k show ?thesis by (auto dest: bit_imp_le_length)
qed

lemma Is2Pow_exp: "Is2Pow (2 ^ k :: 'a::len word)"
  by (simp add: Is2Pow_def word_and_minus_1_exp)

lemma Is2Pow_cases:
  assumes "Is2Pow (x :: 'a::len word)" "x \<noteq> 0"
  obtains k where "k < LENGTH('a)" "x = 2 ^ k"
  using assms word_and_minus_1_eq_0 by (auto simp: Is2Pow_def)

lemma unat_and_not_mask: "unat (x AND NOT (mask k) :: 'a::len word) = 2 ^ k * (unat x div 2 ^ k)"
proof -
  have "take_bit k x AND (x AND NOT (mask k)) = 0"
    by (rule bit_word_eqI) (auto simp: bit_and_iff bit_take_bit_iff bit_not_iff bit_mask_iff)
  then have "take_bit k x + (x AND NOT (mask k)) = take_bit k x OR (x AND NOT (mask k))"
    by (rule disjunctive_add_eq_or)
  also have "\<dots> = x"
    by (rule bit_word_eqI) (auto simp: bit_and_iff bit_or_iff bit_take_bit_iff bit_not_iff bit_mask_iff)
  finally have eq: "x AND NOT (mask k) = x - take_bit k x" by (simp add: algebra_simps)
  have tk: "unat (take_bit k x) = unat x mod 2 ^ k"
    by (simp add: unsigned_take_bit_eq flip: take_bit_eq_mod)
  then have "take_bit k x \<le> x" by (simp add: word_le_nat_alt)
  then have "unat (x - take_bit k x) = unat x - unat x mod 2 ^ k"
    by (simp add: unat_sub tk)
  then show ?thesis by (simp add: eq minus_mod_eq_mult_div)
qed

lemma unat_exp: "k < LENGTH('a) \<Longrightarrow> unat (2 ^ k :: 'a::len word) = 2 ^ k"
  using unat_of_nat [where 'a = 'a, of "2 ^ k"] by simp

text \<open>
  \<^verbatim>\<open>Nearest2PowDivident\<close> is the least multiple of the divider strictly above the value: an
  exact multiple is moved up by a whole divider.
\<close>

lemma unat_Nearest2PowDivident:
  fixes v :: "'a::len word"
  assumes "k < LENGTH('a)" and "unat v + 2 ^ k < 2 ^ LENGTH('a)"
  shows "unat (Nearest2PowDivident v (2 ^ k)) = 2 ^ k * (unat v div 2 ^ k + 1)"
proof -
  have "unat (v + 2 ^ k) = unat v + 2 ^ k"
    using assms by (simp add: unat_add_no_wrap unat_exp)
  then show ?thesis
    by (simp add: Nearest2PowDivident_def exp_minus_1_eq_mask unat_and_not_mask
        div_add_self2 algebra_simps)
qed

end
