(* ===== verification/Ram.thy ===== *)
theory Ram
  imports HostMem BitMagic
begin

text \<open>
  The RAM device of \<^verbatim>\<open>include/besm-666/memory/ram.hpp\<close> and \<^verbatim>\<open>src/memory/ram.cpp\<close>: pages of host
  memory allocated on the first store to them, out of chunks obtained from the operating system.
  Operations take and return the host memory explicitly.  The template member functions
  \<^verbatim>\<open>load\<close> and \<^verbatim>\<open>store\<close> are polymorphic in the word length; \<^verbatim>\<open>sizeof\<close> is the length in bytes.
\<close>

section \<open>Chunks\<close>

record Chunk =
  ch_data :: hptr
  ch_rower :: hptr
  ch_size :: u64
  ch_pageSize :: u64

definition mkChunk :: "os \<Rightarrow> u64 \<Rightarrow> u64 \<Rightarrow> host \<Rightarrow> (Chunk \<times> host) res" where
  "mkChunk E ps cs h =
     bindE (assertE (cs \<noteq> 0)) (\<lambda>_.
     bindE (assertE (ps \<noteq> 0)) (\<lambda>_.
     bindE (assertE (Is2Pow ps)) (\<lambda>_.
     bindE (assertE (cs div ps \<noteq> 0)) (\<lambda>_.
     let hostPageSize = os_getpagesize E;
         hostMmapSize = Nearest2PowDivident cs hostPageSize;
         (data, h') = besm666_mmap E hostMmapSize h
     in if data = NullPtr then Inl BadAlloc
        else Inr (\<lparr>ch_data = data, ch_rower = data, ch_size = hostMmapSize, ch_pageSize = ps\<rparr>, h')))))"

definition chunk_move :: "Chunk \<Rightarrow> Chunk \<times> Chunk" where
  "chunk_move other =
     (other, \<lparr>ch_data = NullPtr, ch_rower = NullPtr, ch_size = 0, ch_pageSize = 0\<rparr>)"

definition chunk_destroy :: "os \<Rightarrow> Chunk \<Rightarrow> host \<Rightarrow> Chunk \<times> host" where
  "chunk_destroy E c h =
     (if ch_data c \<noteq> NullPtr
      then (c\<lparr>ch_data := NullPtr, ch_rower := NullPtr, ch_size := 0, ch_pageSize := 0\<rparr>,
            besm666_munmap E (ch_data c) (ch_size c) h)
      else (c, h))"

definition chunk_allocPage :: "Chunk \<Rightarrow> (hptr \<times> Chunk) res" where
  "chunk_allocPage c =
     bindE (hptr_add (ch_data c) (unat (ch_size c))) (\<lambda>limit.
     bindE (hptr_less (ch_rower c) limit) (\<lambda>room.
     if room then
       bindE (hptr_add (ch_rower c) (unat (ch_pageSize c))) (\<lambda>rower.
       Inr (ch_rower c, c\<lparr>ch_rower := rower\<rparr>))
     else Inr (NullPtr, c)))"

section \<open>The page allocator\<close>

record RAMPageAllocator =
  al_chunkSize :: u64
  al_pageSize :: u64
  chunks :: "Chunk list"

definition mkRAMPageAllocator :: "u64 \<Rightarrow> u64 \<Rightarrow> RAMPageAllocator res" where
  "mkRAMPageAllocator ps cs =
     bindE (assertE (cs \<noteq> 0)) (\<lambda>_.
     bindE (assertE (ps \<noteq> 0)) (\<lambda>_.
     bindE (assertE (Is2Pow ps)) (\<lambda>_.
     bindE (assertE (cs div ps \<noteq> 0)) (\<lambda>_.
     Inr \<lparr>al_chunkSize = cs, al_pageSize = ps, chunks = []\<rparr>))))"

definition alloc_last :: "RAMPageAllocator \<Rightarrow> (hptr \<times> RAMPageAllocator) res" where
  "alloc_last a =
     (if chunks a = [] then Inr (NullPtr, a)
      else bindE (chunk_allocPage (last (chunks a))) (\<lambda>(page, c).
           Inr (page, a\<lparr>chunks := butlast (chunks a) @ [c]\<rparr>)))"

definition allocPage :: "os \<Rightarrow> RAMPageAllocator \<Rightarrow> host \<Rightarrow> (hptr \<times> RAMPageAllocator \<times> host) res" where
  "allocPage E a h =
     bindE (alloc_last a) (\<lambda>(page, a).
     if page = NullPtr then
       bindE (mkChunk E (al_pageSize a) (al_chunkSize a) h) (\<lambda>(c, h).
       bindE (alloc_last (a\<lparr>chunks := chunks a @ [c]\<rparr>)) (\<lambda>(page, a).
       Inr (page, a, h)))
     else Inr (page, a, h))"

section \<open>The device\<close>

record RAM =
  ramSize :: u64
  pageSize :: u64
  allocator :: RAMPageAllocator
  pagemap :: "u64 \<rightharpoonup> hptr"

text \<open>The allocator member is constructed before the checks in the constructor body run.\<close>

definition mkRAM :: "u64 \<Rightarrow> u64 \<Rightarrow> u64 \<Rightarrow> RAM res" where
  "mkRAM rs ps cs =
     bindE (mkRAMPageAllocator ps cs) (\<lambda>a.
     if rs = 0 then Inl InvalidArgument
     else if ps = 0 \<or> \<not> Is2Pow ps then Inl InvalidArgument
     else if cs div ps = 0 then Inl InvalidArgument
     else Inr \<lparr>ramSize = rs, pageSize = ps, allocator = a, pagemap = (\<lambda>_. None)\<rparr>)"

definition ram_getSize :: "RAM \<Rightarrow> u64" where
  "ram_getSize r = ramSize r"

definition getPageId :: "RAM \<Rightarrow> RV64Ptr \<Rightarrow> u64" where
  "getPageId r address = address div pageSize r"

definition getPageOffset :: "RAM \<Rightarrow> RV64Ptr \<Rightarrow> u64" where
  "getPageOffset r address = address mod pageSize r"

definition getPageAddress :: "RAM \<Rightarrow> RV64Ptr \<Rightarrow> hptr" where
  "getPageAddress r address =
     (case pagemap r (getPageId r address) of None \<Rightarrow> NullPtr | Some mem \<Rightarrow> mem)"

definition touchPageAddress :: "os \<Rightarrow> RV64Ptr \<Rightarrow> RAM \<Rightarrow> host \<Rightarrow> (hptr \<times> RAM \<times> host) res" where
  "touchPageAddress E address r h =
     (let pageId = getPageId r address
      in case pagemap r pageId of
           None \<Rightarrow>
             bindE (allocPage E (allocator r) h) (\<lambda>(newPageAddress, a, h).
             Inr (newPageAddress, r\<lparr>allocator := a, pagemap := (pagemap r)(pageId \<mapsto> newPageAddress)\<rparr>, h))
         | Some mem \<Rightarrow> Inr (mem, r, h))"

definition validateAddressBounds :: "RAM \<Rightarrow> RV64Ptr \<Rightarrow> unit res" where
  "validateAddressBounds r address = (if address \<ge> ramSize r then Inl InvalidAddressError else Inr ())"

definition validateAddressAlignment :: "nat \<Rightarrow> RV64Ptr \<Rightarrow> unit res" where
  "validateAddressAlignment n address =
     (if address mod of_nat n \<noteq> 0 then Inl UnalignedAddressError else Inr ())"

definition ram_getHostAddress :: "RV64Ptr \<Rightarrow> RAM \<Rightarrow> (hptr \<times> u64) res" where
  "ram_getHostAddress address r =
     (let offset = getPageOffset r address;
          hostAddress = getPageAddress r address
      in if hostAddress = NullPtr then Inr (NullPtr, 0)
         else bindE (hptr_add hostAddress (unat offset)) (\<lambda>p. Inr (p, pageSize r - offset)))"

definition ram_touchHostAddress :: "os \<Rightarrow> RV64Ptr \<Rightarrow> RAM \<Rightarrow> host \<Rightarrow> ((hptr \<times> u64) \<times> RAM \<times> host) res" where
  "ram_touchHostAddress E address r h =
     (let offset = getPageOffset r address
      in bindE (touchPageAddress E address r h) (\<lambda>(page, r, h).
         bindE (hptr_add page (unat offset)) (\<lambda>p.
         Inr ((p, pageSize r - offset), r, h))))"

definition ram_load :: "RV64Ptr \<Rightarrow> RAM \<Rightarrow> host \<Rightarrow> 'a::len word res" where
  "ram_load address r h =
     (let size = LENGTH('a) div 8
      in bindE (validateAddressAlignment size address) (\<lambda>_.
         bindE (ram_getHostAddress address r) (\<lambda>(hostAddress, _).
         if hostAddress = NullPtr then Inr 0
         else bindE (host_read size hostAddress h) (\<lambda>bs. Inr (le_word bs)))))"

definition ram_store :: "os \<Rightarrow> RV64Ptr \<Rightarrow> 'a::len word \<Rightarrow> RAM \<Rightarrow> host \<Rightarrow> (RAM \<times> host) res" where
  "ram_store E address v r h =
     (let size = LENGTH('a) div 8
      in bindE (validateAddressAlignment size address) (\<lambda>_.
         bindE (ram_touchHostAddress E address r h) (\<lambda>((hostAddress, _), r, h).
         bindE (host_write (le_bytes size v) hostAddress h) (\<lambda>h.
         Inr (r, h)))))"

definition ram_loadByte :: "RV64Ptr \<Rightarrow> RAM \<Rightarrow> host \<Rightarrow> RV64UChar res" where
  "ram_loadByte address r h = ram_load address r h"
definition ram_loadHWord :: "RV64Ptr \<Rightarrow> RAM \<Rightarrow> host \<Rightarrow> RV64UHWord res" where
  "ram_loadHWord address r h = ram_load address r h"
definition ram_loadWord :: "RV64Ptr \<Rightarrow> RAM \<Rightarrow> host \<Rightarrow> RV64UWord res" where
  "ram_loadWord address r h = ram_load address r h"
definition ram_loadDWord :: "RV64Ptr \<Rightarrow> RAM \<Rightarrow> host \<Rightarrow> RV64UDWord res" where
  "ram_loadDWord address r h = ram_load address r h"

definition ram_storeByte :: "os \<Rightarrow> RV64Ptr \<Rightarrow> RV64UChar \<Rightarrow> RAM \<Rightarrow> host \<Rightarrow> (RAM \<times> host) res" where
  "ram_storeByte E address v r h = ram_store E address v r h"
definition ram_storeHWord :: "os \<Rightarrow> RV64Ptr \<Rightarrow> RV64UHWord \<Rightarrow> RAM \<Rightarrow> host \<Rightarrow> (RAM \<times> host) res" where
  "ram_storeHWord E address v r h = ram_store E address v r h"
definition ram_storeWord :: "os \<Rightarrow> RV64Ptr \<Rightarrow> RV64UWord \<Rightarrow> RAM \<Rightarrow> host \<Rightarrow> (RAM \<times> host) res" where
  "ram_storeWord E address v r h = ram_store E address v r h"
definition ram_storeDWord :: "os \<Rightarrow> RV64Ptr \<Rightarrow> RV64UDWord \<Rightarrow> RAM \<Rightarrow> host \<Rightarrow> (RAM \<times> host) res" where
  "ram_storeDWord E address v r h = ram_store E address v r h"

end
