(* ===== verification/RangeUtil.thy ===== *)
theory RangeUtil
  imports Prelude
begin

text \<open>
  The half-open address range of \<^verbatim>\<open>include/besm-666/util/range.hpp\<close>.  The two overloads of
  \<^verbatim>\<open>contains\<close> are \<open>contains_pos\<close> and \<open>contains_range\<close>.  The lemmas compare them with the set
  of positions \<open>range_set\<close> the class comment \<^verbatim>\<open>[leftBorder, rightBorder)\<close> names.
\<close>

record 'a Range =
  leftBorder :: 'a
  rightBorder :: 'a

definition mkRange :: "'a \<Rightarrow> 'a \<Rightarrow> 'a Range" where
  "mkRange l r = \<lparr>leftBorder = l, rightBorder = r\<rparr>"

definition range_size :: "('a::minus) Range \<Rightarrow> 'a" where
  "range_size R = rightBorder R - leftBorder R"

definition contains_pos :: "('a::ord) Range \<Rightarrow> 'a \<Rightarrow> bool" where
  "contains_pos R position \<longleftrightarrow> leftBorder R \<le> position \<and> position < rightBorder R"

definition contains_range :: "('a::ord) Range \<Rightarrow> 'a Range \<Rightarrow> bool" where
  "contains_range R r \<longleftrightarrow> leftBorder R \<le> leftBorder r \<and> rightBorder r < rightBorder R"

definition intersects :: "('a::ord) Range \<Rightarrow> 'a Range \<Rightarrow> bool" where
  "intersects R r \<longleftrightarrow>
     contains_pos R (leftBorder r) \<or> contains_pos R (rightBorder r) \<or>
     contains_pos r (leftBorder R) \<or> contains_pos r (rightBorder R)"

definition range_less :: "('a::ord) Range \<Rightarrow> 'a Range \<Rightarrow> bool" where
  "range_less lhv rhv \<longleftrightarrow> leftBorder lhv < leftBorder rhv"

lemma mkRange_sel [simp]: "leftBorder (mkRange l r) = l" "rightBorder (mkRange l r) = r"
  by (simp_all add: mkRange_def)

section \<open>Comparison with sets of positions\<close>

definition range_set :: "('a::ord) Range \<Rightarrow> 'a set" where
  "range_set R = {p. contains_pos R p}"

lemma in_range_set [simp]: "p \<in> range_set R \<longleftrightarrow> contains_pos R p"
  by (simp add: range_set_def)

lemma contains_range_subset: "contains_range R r \<Longrightarrow> range_set r \<subseteq> range_set R"
  for R :: "('a::linorder) Range"
  by (auto simp: contains_range_def contains_pos_def)

lemma range_set_overlap_iff:
  fixes R r :: "('a::linorder) Range"
  assumes "leftBorder R < rightBorder R" and "leftBorder r < rightBorder r"
  shows "range_set R \<inter> range_set r \<noteq> {} \<longleftrightarrow>
           contains_pos R (leftBorder r) \<or> contains_pos r (leftBorder R)"
  using assms unfolding contains_pos_def range_set_def
  by (auto simp: disjoint_iff)

text \<open>Overlapping ranges intersect; the converse fails exactly for ranges that touch.\<close>

lemma intersects_iff:
  fixes R r :: "('a::linorder) Range"
  assumes "leftBorder R < rightBorder R" and "leftBorder r < rightBorder r"
  shows "intersects R r \<longleftrightarrow> range_set R \<inter> range_set r \<noteq> {} \<or>
           rightBorder R = leftBorder r \<or> rightBorder r = leftBorder R"
  unfolding range_set_overlap_iff [OF assms] using assms
  by (auto simp: intersects_def contains_pos_def not_less not_le)

lemma contains_range_strict:
  fixes R :: "('a::linorder) Range"
  shows "\<not> contains_range R R"
  by (simp add: contains_range_def)

end
