(* ===== verification/ElfParser.thy ===== *)
theory ElfParser
  imports Prelude
begin

text \<open>
  Selection of the loadable segments of an executable, \<^verbatim>\<open>include/besm-666/util/elf-parser.hpp\<close> and
  \<^verbatim>\<open>src/util/elf-parser.cpp\<close>.  The file format is read by the third-party library ELFIO: what it
  reports about a file, and the constants of its header, are the parameter record \<open>elfio\<close>.
\<close>

record elf_segment =
  seg_type :: nat
  seg_virtual_address :: RV64Ptr
  seg_data :: "u8 list"
  seg_file_size :: RV64Size

record elf_reader =
  rd_class :: nat
  rd_encoding :: nat
  rd_machine :: nat
  rd_segments :: "elf_segment list"

record elfio =
  elfio_load :: "string \<Rightarrow> elf_reader option"
  ELFCLASS64 :: nat
  ELFDATA2LSB :: nat
  EM_RISCV :: nat
  PT_LOAD :: nat

record LoadableSegment =
  ls_address :: RV64Ptr
  ls_data :: "u8 list"
  ls_size :: RV64Size

record ElfParser =
  reader :: elf_reader
  loadableSegments :: "LoadableSegment list"

text \<open>What the library documents: the data of a segment has the bytes its size in the file announces.\<close>

definition elfio_ok :: "elfio \<Rightarrow> bool" where
  "elfio_ok L \<longleftrightarrow> (\<forall>p r. elfio_load L p = Some r \<longrightarrow> (\<forall>s\<in>set (rd_segments r). unat (seg_file_size s) \<le> length (seg_data s)))"

definition checkRequirements :: "elfio \<Rightarrow> elf_reader \<Rightarrow> unit res" where
  "checkRequirements L r =
     (if rd_class r \<noteq> ELFCLASS64 L then Inl UnavailableELFRequirements
      else if rd_encoding r \<noteq> ELFDATA2LSB L then Inl UnavailableELFRequirements
      else if rd_machine r \<noteq> EM_RISCV L then Inl UnavailableELFRequirements
      else Inr ())"

definition mkElfParser :: "elfio \<Rightarrow> string \<Rightarrow> ElfParser res" where
  "mkElfParser L elfPath =
     (case elfio_load L elfPath of
        None \<Rightarrow> Inl InvalidELFFormat
      | Some r \<Rightarrow> bindE (checkRequirements L r) (\<lambda>_. Inr \<lparr>reader = r, loadableSegments = []\<rparr>))"

definition createParser :: "elfio \<Rightarrow> string \<Rightarrow> ElfParser res" where
  "createParser L elfPath = mkElfParser L elfPath"

definition mkLoadableSegment :: "RV64Ptr \<Rightarrow> u8 list \<Rightarrow> RV64Size \<Rightarrow> LoadableSegment" where
  "mkLoadableSegment a d s = \<lparr>ls_address = a, ls_data = d, ls_size = s\<rparr>"

primrec collect_segments :: "elfio \<Rightarrow> elf_segment list \<Rightarrow> LoadableSegment list \<Rightarrow> LoadableSegment list" where
  "collect_segments L [] acc = acc"
| "collect_segments L (seg # segs) acc =
     collect_segments L segs
       (if seg_type seg = PT_LOAD L
        then acc @ [mkLoadableSegment (seg_virtual_address seg) (seg_data seg) (seg_file_size seg)]
        else acc)"

definition getLoadableSegments :: "elfio \<Rightarrow> ElfParser \<Rightarrow> LoadableSegment list \<times> ElfParser" where
  "getLoadableSegments L p =
     (let segs = (if loadableSegments p = [] then collect_segments L (rd_segments (reader p)) []
                  else loadableSegments p)
      in (segs, p\<lparr>loadableSegments := segs\<rparr>))"

text \<open>Move construction leaves the source with the moved-to object's initial values, which are its own.\<close>

definition segment_move :: "LoadableSegment \<Rightarrow> LoadableSegment \<times> LoadableSegment" where
  "segment_move other = (other, other)"

definition segment_move_assign :: "LoadableSegment \<Rightarrow> LoadableSegment \<Rightarrow> LoadableSegment \<times> LoadableSegment" where
  "segment_move_assign this other = (other, \<lparr>ls_address = 0, ls_data = [], ls_size = 0\<rparr>)"

lemma collect_segments_eq:
  "collect_segments L segs acc =
     acc @ map (\<lambda>s. mkLoadableSegment (seg_virtual_address s) (seg_data s) (seg_file_size s))
             (filter (\<lambda>s. seg_type s = PT_LOAD L) segs)"
  by (induction segs arbitrary: acc) auto

lemma createParser_ok_iff:
  "createParser L p = Inr q \<longleftrightarrow>
     (\<exists>r. elfio_load L p = Some r \<and> rd_class r = ELFCLASS64 L \<and> rd_encoding r = ELFDATA2LSB L \<and>
          rd_machine r = EM_RISCV L \<and> q = \<lparr>reader = r, loadableSegments = []\<rparr>)"
  by (auto simp: createParser_def mkElfParser_def checkRequirements_def split: option.splits)

lemma segments_complete:
  assumes "elfio_ok L" and "createParser L p = Inr q" and "s \<in> set (fst (getLoadableSegments L q))"
  shows "unat (ls_size s) \<le> length (ls_data s)"
  using assms by (auto simp: createParser_ok_iff getLoadableSegments_def collect_segments_eq elfio_ok_def mkLoadableSegment_def Let_def)

lemma getLoadableSegments_cached:
  "getLoadableSegments L (snd (getLoadableSegments L p)) = getLoadableSegments L p"
  by (simp add: getLoadableSegments_def Let_def)

text \<open>
  C37: opening an executable and asking for its loadable segments.  The parser is created exactly for
  files the library can read that are 64-bit little-endian RISC-V files, otherwise the exception
  names the reason; the segments are the \<^verbatim>\<open>PT_LOAD\<close> ones in file order with address, data and file
  size; asking again returns the same list.
\<close>
theorem elf_segments_correct:
  "(case elfio_load L p of
      None \<Rightarrow> createParser L p = Inl InvalidELFFormat
    | Some r \<Rightarrow>
        if rd_class r = ELFCLASS64 L \<and> rd_encoding r = ELFDATA2LSB L \<and> rd_machine r = EM_RISCV L
        then \<exists>q. createParser L p = Inr q \<and>
               fst (getLoadableSegments L q) =
                 map (\<lambda>s. mkLoadableSegment (seg_virtual_address s) (seg_data s) (seg_file_size s))
                   (filter (\<lambda>s. seg_type s = PT_LOAD L) (rd_segments r)) \<and>
               getLoadableSegments L (snd (getLoadableSegments L q)) = getLoadableSegments L q
        else createParser L p = Inl UnavailableELFRequirements)"
  by (auto simp: createParser_def mkElfParser_def checkRequirements_def getLoadableSegments_def
      collect_segments_eq Let_def split: option.splits)

end
