(* ===== verification/PhysMem.thy ===== *)
theory PhysMem
  imports Ram RangeUtil ElfParser
begin

text \<open>
  Physical memory, \<^verbatim>\<open>include/besm-666/memory/phys-mem.hpp\<close> and \<^verbatim>\<open>src/memory/phys-mem.cpp\<close>: the
  devices by address range, the cached last range, the builder that maps devices and the loader
  of executables.  \<^verbatim>\<open>RAM\<close> is the only device of the program.  Shared device objects are indices
  into \<open>rams\<close>; the ordered map of ranges is a list sorted by left border.  Even a load returns the
  state, because it may change the cached range.
\<close>

section \<open>State\<close>

record PhysMem =
  devices :: "(RV64Ptr Range \<times> nat) list"
  lastAccessedRange :: "RV64Ptr Range"
  lastAccessedDevice :: "nat option"
  rams :: "RAM list"
  pm_host :: host

datatype DeviceType = RAM_type | UART_type | TIMER_type | NUM_TYPES

primrec getTypeName :: "DeviceType \<Rightarrow> string" where
  "getTypeName RAM_type = ''RAM''"
| "getTypeName UART_type = ''UART''"
| "getTypeName TIMER_type = ''TIMER''"
| "getTypeName NUM_TYPES = ''Undefined''"

section \<open>Finding a device\<close>

definition findDevice :: "RV64Ptr \<Rightarrow> PhysMem \<Rightarrow> ((RV64Ptr Range \<times> nat) \<times> PhysMem) res" where
  "findDevice address pm =
     (if contains_pos (lastAccessedRange pm) address
      then (case lastAccessedDevice pm of
              None \<Rightarrow> Inl UndefinedBehaviour
            | Some d \<Rightarrow> Inr ((lastAccessedRange pm, d), pm))
      else case find (\<lambda>(r, d). contains_pos r address) (devices pm) of
             None \<Rightarrow> Inl InvalidAddressError
           | Some (r, d) \<Rightarrow> Inr ((r, d), pm\<lparr>lastAccessedRange := r, lastAccessedDevice := Some d\<rparr>))"

section \<open>Accesses\<close>

definition pm_load :: "(RV64Ptr \<Rightarrow> RAM \<Rightarrow> host \<Rightarrow> 'v res) \<Rightarrow> RV64Ptr \<Rightarrow> PhysMem \<Rightarrow> ('v \<times> PhysMem) res" where
  "pm_load ld address pm =
     bindE (findDevice address pm) (\<lambda>((r, d), pm).
     bindE (ld (address - leftBorder r) (rams pm ! d) (pm_host pm)) (\<lambda>v.
     Inr (v, pm)))"

definition pm_store :: "(RV64Ptr \<Rightarrow> 'v \<Rightarrow> RAM \<Rightarrow> host \<Rightarrow> (RAM \<times> host) res) \<Rightarrow> RV64Ptr \<Rightarrow> 'v \<Rightarrow> PhysMem \<Rightarrow> PhysMem res" where
  "pm_store st address v pm =
     bindE (findDevice address pm) (\<lambda>((r, d), pm).
     bindE (st (address - leftBorder r) v (rams pm ! d) (pm_host pm)) (\<lambda>(ram, h).
     Inr (pm\<lparr>rams := (rams pm)[d := ram], pm_host := h\<rparr>)))"

definition pm_loadByte :: "RV64Ptr \<Rightarrow> PhysMem \<Rightarrow> (RV64UChar \<times> PhysMem) res" where
  "pm_loadByte = pm_load ram_loadByte"
definition pm_loadHWord :: "RV64Ptr \<Rightarrow> PhysMem \<Rightarrow> (RV64UHWord \<times> PhysMem) res" where
  "pm_loadHWord = pm_load ram_loadHWord"
definition pm_loadWord :: "RV64Ptr \<Rightarrow> PhysMem \<Rightarrow> (RV64UWord \<times> PhysMem) res" where
  "pm_loadWord = pm_load ram_loadWord"
definition pm_loadDWord :: "RV64Ptr \<Rightarrow> PhysMem \<Rightarrow> (RV64UDWord \<times> PhysMem) res" where
  "pm_loadDWord = pm_load ram_loadDWord"

definition pm_storeByte :: "os \<Rightarrow> RV64Ptr \<Rightarrow> RV64UChar \<Rightarrow> PhysMem \<Rightarrow> PhysMem res" where
  "pm_storeByte E = pm_store (ram_storeByte E)"
definition pm_storeHWord :: "os \<Rightarrow> RV64Ptr \<Rightarrow> RV64UHWord \<Rightarrow> PhysMem \<Rightarrow> PhysMem res" where
  "pm_storeHWord E = pm_store (ram_storeHWord E)"
definition pm_storeWord :: "os \<Rightarrow> RV64Ptr \<Rightarrow> RV64UWord \<Rightarrow> PhysMem \<Rightarrow> PhysMem res" where
  "pm_storeWord E = pm_store (ram_storeWord E)"
definition pm_storeDWord :: "os \<Rightarrow> RV64Ptr \<Rightarrow> RV64UDWord \<Rightarrow> PhysMem \<Rightarrow> PhysMem res" where
  "pm_storeDWord E = pm_store (ram_storeDWord E)"

definition pm_getHostAddress :: "RV64Ptr \<Rightarrow> PhysMem \<Rightarrow> ((hptr \<times> u64) \<times> PhysMem) res" where
  "pm_getHostAddress address pm =
     bindE (findDevice address pm) (\<lambda>((r, d), pm).
     bindE (ram_getHostAddress (address - leftBorder r) (rams pm ! d)) (\<lambda>p.
     Inr (p, pm)))"

definition pm_touchHostAddress :: "os \<Rightarrow> RV64Ptr \<Rightarrow> PhysMem \<Rightarrow> ((hptr \<times> u64) \<times> PhysMem) res" where
  "pm_touchHostAddress E address pm =
     bindE (findDevice address pm) (\<lambda>((r, d), pm).
     bindE (ram_touchHostAddress E (address - leftBorder r) (rams pm ! d) (pm_host pm)) (\<lambda>(p, ram, h).
     Inr (p, pm\<lparr>rams := (rams pm)[d := ram], pm_host := h\<rparr>)))"

text \<open>
  The copy loop.  Every iteration advances \<open>i\<close>, so the number of bytes bounds the iterations; the
  first argument is that bound.
\<close>

primrec storeContArea_loop :: "nat \<Rightarrow> os \<Rightarrow> RV64Ptr \<Rightarrow> u8 list \<Rightarrow> nat \<Rightarrow> PhysMem \<Rightarrow> PhysMem res" where
  "storeContArea_loop 0 E address data i pm =
     (if i < length data then Inl OutOfFuel else Inr pm)"
| "storeContArea_loop (Suc fuel) E address data i pm =
     (if i < length data then
        bindE (pm_touchHostAddress E (address + of_nat i) pm) (\<lambda>((hostAddress, hostSize), pm).
        if hostAddress = NullPtr then
          bindE (pm_storeByte E (address + of_nat i) (data ! i) pm) (\<lambda>pm.
          storeContArea_loop fuel E address data (i + 1) pm)
        else
          (let cpySize = min (length data - i) (unat hostSize)
           in bindE (host_write (take cpySize (drop i data)) hostAddress (pm_host pm)) (\<lambda>h.
              storeContArea_loop fuel E address data (i + cpySize) (pm\<lparr>pm_host := h\<rparr>))))
      else Inr pm)"

definition storeContArea :: "os \<Rightarrow> RV64Ptr \<Rightarrow> u8 list \<Rightarrow> PhysMem \<Rightarrow> PhysMem res" where
  "storeContArea E address data pm = storeContArea_loop (length data) E address data 0 pm"

definition getDevices :: "PhysMem \<Rightarrow> (RV64Ptr Range \<times> RAM) list" where
  "getDevices pm = map (\<lambda>(r, d). (r, rams pm ! d)) (devices pm)"

section \<open>Building\<close>

record PhysMemBuilder =
  b_devices :: "(RV64Ptr Range \<times> nat) list"
  b_rams :: "RAM list"

text \<open>Insertion into \<^verbatim>\<open>std::map\<close> ordered by left border: an equal key keeps the old entry.\<close>

primrec map_insert :: "RV64Ptr Range \<times> nat \<Rightarrow> (RV64Ptr Range \<times> nat) list \<Rightarrow> (RV64Ptr Range \<times> nat) list" where
  "map_insert e [] = [e]"
| "map_insert e (x # xs) =
     (if range_less (fst e) (fst x) then e # x # xs
      else if range_less (fst x) (fst e) then x # map_insert e xs
      else x # xs)"

definition mapDevice :: "RAM \<Rightarrow> RV64Ptr \<Rightarrow> PhysMemBuilder \<Rightarrow> PhysMemBuilder res" where
  "mapDevice dev address b =
     (let range = mkRange address (address + ram_getSize dev)
      in if \<exists>e\<in>set (b_devices b). contains_range range (fst e) then Inl MappingIntersection
         else Inr (b\<lparr>b_devices := map_insert (range, length (b_rams b)) (b_devices b),
                     b_rams := b_rams b @ [dev]\<rparr>))"

definition mapRAM :: "RV64Ptr \<Rightarrow> u64 \<Rightarrow> u64 \<Rightarrow> u64 \<Rightarrow> PhysMemBuilder \<Rightarrow> PhysMemBuilder res" where
  "mapRAM address rs ps cs b =
     bindE (mkRAM rs ps cs) (\<lambda>ram. mapDevice ram address b)"

definition mkPhysMemBuilder :: PhysMemBuilder where
  "mkPhysMemBuilder = \<lparr>b_devices = [], b_rams = []\<rparr>"

definition build :: "host \<Rightarrow> PhysMemBuilder \<Rightarrow> PhysMem" where
  "build h b =
     \<lparr>devices = b_devices b, lastAccessedRange = mkRange 0 0, lastAccessedDevice = None,
      rams = b_rams b, pm_host = h\<rparr>"

section \<open>Loading\<close>

text \<open>
  A segment is copied from its data buffer; a buffer shorter than the size of the segment would be
  read past its end.
\<close>

primrec store_segments :: "os \<Rightarrow> LoadableSegment list \<Rightarrow> PhysMem \<Rightarrow> PhysMem res" where
  "store_segments E [] pm = Inr pm"
| "store_segments E (s # ss) pm =
     (if length (ls_data s) < unat (ls_size s) then Inl UndefinedBehaviour
      else bindE (storeContArea E (ls_address s) (take (unat (ls_size s)) (ls_data s)) pm) (store_segments E ss))"

definition loadElf :: "os \<Rightarrow> elfio \<Rightarrow> string \<Rightarrow> PhysMem \<Rightarrow> PhysMem res" where
  "loadElf E L elfPath pm =
     bindE (createParser L elfPath) (\<lambda>parser.
     store_segments E (fst (getLoadableSegments L parser)) pm)"

end
