(* ===== verification/MemSpec.thy ===== *)
theory MemSpec
  imports Prelude
begin

text \<open>
  The abstract specification of memory: a function from addresses to bytes, read and written in
  little-endian groups.  The locale \<open>mem_device\<close> is the contract of the interface
  \<^verbatim>\<open>IPhysMemDevice\<close> (\<^verbatim>\<open>include/besm-666/memory/phys-mem-device.hpp\<close>), which the physical memory
  and the MMU offer with the same eight access functions: every load reads the flat memory, every
  store updates it, for the areas the device admits.  Clients use the lemmas proved inside it.
\<close>

section \<open>Flat memory\<close>

type_synonym flat = "RV64Ptr \<Rightarrow> u8"

definition mem_get :: "nat \<Rightarrow> RV64Ptr \<Rightarrow> flat \<Rightarrow> u8 list" where
  "mem_get n a f = map (\<lambda>i. f (a + of_nat i)) [0 ..< n]"

definition in_area :: "RV64Ptr \<Rightarrow> nat \<Rightarrow> RV64Ptr \<Rightarrow> bool" where
  "in_area a n a' \<longleftrightarrow> unat a \<le> unat a' \<and> unat a' < unat a + n"

definition mem_put :: "RV64Ptr \<Rightarrow> u8 list \<Rightarrow> flat \<Rightarrow> flat" where
  "mem_put a bs f = (\<lambda>a'. if in_area a (length bs) a' then bs ! (unat a' - unat a) else f a')"

lemma le_bytes_numeral: "le_bytes (numeral k) w = ucast w # le_bytes (pred_numeral k) (drop_bit 8 w)"
  by (simp add: numeral_eq_Suc)

lemma length_mem_get [simp]: "length (mem_get n a f) = n"
  by (simp add: mem_get_def)

lemma mem_get_nth [simp]: "i < n \<Longrightarrow> mem_get n a f ! i = f (a + of_nat i)"
  by (simp add: mem_get_def)

lemma unat_add_offset:
  assumes "unat a + n \<le> 2 ^ 64" and "i < n"
  shows "unat (a + of_nat i :: u64) = unat a + i"
proof -
  have "unat (of_nat i :: u64) = i" using assms by (simp add: unat_of_nat)
  then show ?thesis using assms by (simp add: unat_add_no_wrap)
qed

lemma mem_get_put_same:
  assumes "unat a + length bs \<le> 2 ^ 64"
  shows "mem_get (length bs) a (mem_put a bs f) = bs"
  by (rule nth_equalityI) (simp_all add: mem_put_def in_area_def unat_add_offset [OF assms])

lemma mem_get_put_inside:
  assumes "unat a + length bs \<le> 2 ^ 64" and "k + n \<le> length bs"
  shows "mem_get n (a + of_nat k) (mem_put a bs f) = take n (drop k bs)"
proof (rule nth_equalityI)
  fix i
  assume "i < length (mem_get n (a + of_nat k) (mem_put a bs f))"
  then have i: "i < n" by simp
  have "a + of_nat k + of_nat i = a + of_nat (k + i)" by simp
  moreover have "unat (a + of_nat (k + i) :: u64) = unat a + (k + i)"
    using unat_add_offset [OF assms(1), of "k + i"] assms(2) i by simp
  ultimately show "mem_get n (a + of_nat k) (mem_put a bs f) ! i = take n (drop k bs) ! i"
    using i assms(2) by (simp add: mem_put_def in_area_def add.assoc)
qed (use assms in simp)

lemma mem_get_put_disjoint:
  assumes "unat a' + n \<le> 2 ^ 64" and "unat a + length bs \<le> unat a' \<or> unat a' + n \<le> unat a"
  shows "mem_get n a' (mem_put a bs f) = mem_get n a' f"
  using assms(2)
  by (intro nth_equalityI) (auto simp: mem_put_def in_area_def unat_add_offset [OF assms(1)])

lemma mem_put_append:
  assumes "unat a + length (bs @ cs) < 2 ^ 64"
  shows "mem_put a (bs @ cs) f = mem_put (a + of_nat (length bs)) cs (mem_put a bs f)"
proof
  fix a'
  have "unat (a + of_nat (length bs)) = unat a + length bs"
    using unat_add_offset [of a "length (bs @ cs) + 1" "length bs"] assms by simp
  then show "mem_put a (bs @ cs) f a' = mem_put (a + of_nat (length bs)) cs (mem_put a bs f) a'"
    by (auto simp: mem_put_def in_area_def nth_append)
qed

lemma mem_put_Nil [simp]: "mem_put a [] f = f"
  by (rule ext) (auto simp: mem_put_def in_area_def)

section \<open>The contract of a memory device\<close>

locale mem_device =
  fixes inv :: "'s \<Rightarrow> bool"
    and peek :: "'s \<Rightarrow> flat"
    and area :: "'s \<Rightarrow> RV64Ptr \<Rightarrow> nat \<Rightarrow> bool"
    and ldB :: "RV64Ptr \<Rightarrow> 's \<Rightarrow> (u8 \<times> 's) res"
    and ldH :: "RV64Ptr \<Rightarrow> 's \<Rightarrow> (u16 \<times> 's) res"
    and ldW :: "RV64Ptr \<Rightarrow> 's \<Rightarrow> (u32 \<times> 's) res"
    and ldD :: "RV64Ptr \<Rightarrow> 's \<Rightarrow> (u64 \<times> 's) res"
    and stB :: "RV64Ptr \<Rightarrow> u8 \<Rightarrow> 's \<Rightarrow> 's res"
    and stH :: "RV64Ptr \<Rightarrow> u16 \<Rightarrow> 's \<Rightarrow> 's res"
    and stW :: "RV64Ptr \<Rightarrow> u32 \<Rightarrow> 's \<Rightarrow> 's res"
    and stD :: "RV64Ptr \<Rightarrow> u64 \<Rightarrow> 's \<Rightarrow> 's res"
  assumes area_fits: "inv s \<Longrightarrow> area s a n \<Longrightarrow> unat a + n \<le> 2 ^ 64"
    and loadB: "inv s \<Longrightarrow> area s a 1 \<Longrightarrow>
          \<exists>s'. ldB a s = Inr (le_word (mem_get 1 a (peek s)), s') \<and> inv s' \<and> peek s' = peek s \<and> area s' = area s"
    and loadH: "inv s \<Longrightarrow> area s a 2 \<Longrightarrow>
          \<exists>s'. ldH a s = Inr (le_word (mem_get 2 a (peek s)), s') \<and> inv s' \<and> peek s' = peek s \<and> area s' = area s"
    and loadW: "inv s \<Longrightarrow> area s a 4 \<Longrightarrow>
          \<exists>s'. ldW a s = Inr (le_word (mem_get 4 a (peek s)), s') \<and> inv s' \<and> peek s' = peek s \<and> area s' = area s"
    and loadD: "inv s \<Longrightarrow> area s a 8 \<Longrightarrow>
          \<exists>s'. ldD a s = Inr (le_word (mem_get 8 a (peek s)), s') \<and> inv s' \<and> peek s' = peek s \<and> area s' = area s"
    and storeB: "inv s \<Longrightarrow> area s a 1 \<Longrightarrow>
          \<exists>s'. stB a vB s = Inr s' \<and> inv s' \<and> peek s' = mem_put a (le_bytes 1 vB) (peek s) \<and> area s' = area s"
    and storeH: "inv s \<Longrightarrow> area s a 2 \<Longrightarrow>
          \<exists>s'. stH a vH s = Inr s' \<and> inv s' \<and> peek s' = mem_put a (le_bytes 2 vH) (peek s) \<and> area s' = area s"
    and storeW: "inv s \<Longrightarrow> area s a 4 \<Longrightarrow>
          \<exists>s'. stW a vW s = Inr s' \<and> inv s' \<and> peek s' = mem_put a (le_bytes 4 vW) (peek s) \<and> area s' = area s"
    and storeD: "inv s \<Longrightarrow> area s a 8 \<Longrightarrow>
          \<exists>s'. stD a vD s = Inr s' \<and> inv s' \<and> peek s' = mem_put a (le_bytes 8 vD) (peek s) \<and> area s' = area s"
begin

lemma load_stored_byte:
  assumes "inv s" "area s a 1" "stB a v s = Inr s'"
  shows "\<exists>s''. ldB a s' = Inr (v, s'')"
proof -
  have s': "inv s'" "peek s' = mem_put a (le_bytes 1 v) (peek s)" "area s' a 1"
    using storeB [OF assms(1,2), of v] assms(2,3) by auto
  have "mem_get 1 a (peek s') = le_bytes 1 v"
    using mem_get_put_same [of a "le_bytes 1 v"] area_fits [OF assms(1,2)] by (simp add: s')
  then show ?thesis
    using loadB [OF s'(1,3)] le_word_le_bytes [where 'a = 8, of 1 v] by auto
qed

lemma load_stored_half:
  assumes "inv s" "area s a 2" "stH a v s = Inr s'"
  shows "\<exists>s''. ldH a s' = Inr (v, s'')"
proof -
  have s': "inv s'" "peek s' = mem_put a (le_bytes 2 v) (peek s)" "area s' a 2"
    using storeH [OF assms(1,2), of v] assms(2,3) by auto
  have "mem_get 2 a (peek s') = le_bytes 2 v"
    using mem_get_put_same [of a "le_bytes 2 v"] area_fits [OF assms(1,2)] unfolding s' by simp
  then show ?thesis
    using loadH [OF s'(1,3)] le_word_le_bytes [where 'a = 16, of 2 v] by auto
qed

lemma load_stored_word:
  assumes "inv s" "area s a 4" "stW a v s = Inr s'"
  shows "\<exists>s''. ldW a s' = Inr (v, s'')"
proof -
  have s': "inv s'" "peek s' = mem_put a (le_bytes 4 v) (peek s)" "area s' a 4"
    using storeW [OF assms(1,2), of v] assms(2,3) by auto
  have "mem_get 4 a (peek s') = le_bytes 4 v"
    using mem_get_put_same [of a "le_bytes 4 v"] area_fits [OF assms(1,2)] unfolding s' by simp
  then show ?thesis
    using loadW [OF s'(1,3)] le_word_le_bytes [where 'a = 32, of 4 v] by auto
qed

lemma load_stored_double:
  assumes "inv s" "area s a 8" "stD a v s = Inr s'"
  shows "\<exists>s''. ldD a s' = Inr (v, s'')"
proof -
  have s': "inv s'" "peek s' = mem_put a (le_bytes 8 v) (peek s)" "area s' a 8"
    using storeD [OF assms(1,2), of v] assms(2,3) by auto
  have "mem_get 8 a (peek s') = le_bytes 8 v"
    using mem_get_put_same [of a "le_bytes 8 v"] area_fits [OF assms(1,2)] unfolding s' by simp
  then show ?thesis
    using loadD [OF s'(1,3)] le_word_le_bytes [where 'a = 64, of 8 v] by auto
qed

text \<open>A store leaves every area it does not touch as it was.\<close>

lemma store_frame:
  assumes "inv s" "area s a 8" "stD a v s = Inr s'"
    and "area s a' n" and "unat a + 8 \<le> unat a' \<or> unat a' + n \<le> unat a"
  shows "mem_get n a' (peek s') = mem_get n a' (peek s)"
  using storeD [OF assms(1,2), of v] assms(3,5) area_fits [OF assms(1,4)]
  by (auto intro: mem_get_put_disjoint)

text \<open>The narrow loads see the bytes of a wide store in little-endian order.\<close>

lemma byte_of_double:
  assumes "inv s" "area s a 8" "stD a v s = Inr s'" and "k < 8" and "area s (a + of_nat k) 1"
  shows "\<exists>s''. ldB (a + of_nat k) s' = Inr (ucast (drop_bit (8 * k) v), s'')"
proof -
  have s': "inv s'" "peek s' = mem_put a (le_bytes 8 v) (peek s)" "area s' (a + of_nat k) 1"
    using storeD [OF assms(1,2), of v] assms(3,5) by auto
  have "mem_get 1 (a + of_nat k) (peek s') = take 1 (drop k (le_bytes 8 v))"
    unfolding s'(2) using assms(4) area_fits [OF assms(1,2)] by (intro mem_get_put_inside) simp_all
  also have "\<dots> = [ucast (drop_bit (8 * k) v)]"
    using assms(4) by (simp add: take_Suc hd_drop_conv_nth le_bytes_nth)
  finally show ?thesis using loadB [OF s'(1,3)] by auto
qed

end

end
