(* ===== verification/RamRefinement.thy ===== *)
theory RamRefinement
  imports Ram MemSpec
begin

text \<open>
  The RAM device implements a flat array of bytes.  \<open>ram_peek\<close> is the byte a RAM holds at an
  address: the byte of the host page the address is mapped to, or zero when the page was never
  touched.  \<open>ram_ok\<close> is the invariant that makes this an abstraction: pages lie inside their
  chunks, no two page numbers share a page, and the part of the current chunk that was not handed
  out yet is zero.  It needs a page size of at least eight bytes that divides the host page size
  (\<open>cfg_ok\<close>); the last section shows what happens without that.
\<close>

section \<open>Invariant and abstraction\<close>

definition cfg_ok :: "os \<Rightarrow> u64 \<Rightarrow> u64 \<Rightarrow> bool" where
  "cfg_ok E ps cs \<longleftrightarrow>
     (\<exists>k j. 3 \<le> k \<and> k \<le> j \<and> j < 64 \<and> ps = 2 ^ k \<and> os_getpagesize E = 2 ^ j \<and>
            unat cs + 2 ^ j < 2 ^ 64) \<and> cs div ps \<noteq> 0"

definition chunk_block :: "Chunk \<Rightarrow> nat" where
  "chunk_block c = (case ch_data c of Ptr b _ \<Rightarrow> b | _ \<Rightarrow> 0)"

definition chunk_used :: "Chunk \<Rightarrow> nat" where
  "chunk_used c = (case ch_rower c of Ptr _ x \<Rightarrow> x | _ \<Rightarrow> 0)"

definition chunk_ok :: "host \<Rightarrow> nat \<Rightarrow> Chunk \<Rightarrow> bool" where
  "chunk_ok h P c \<longleftrightarrow>
     ch_data c = Ptr (chunk_block c) 0 \<and> ch_rower c = Ptr (chunk_block c) (chunk_used c) \<and>
     chunk_block c < length h \<and> fst (h ! chunk_block c) = unat (ch_size c) \<and>
     chunk_used c \<le> unat (ch_size c) \<and> P dvd chunk_used c \<and> P dvd unat (ch_size c) \<and>
     unat (ch_pageSize c) = P"

definition alloc_ok :: "os \<Rightarrow> host \<Rightarrow> RAMPageAllocator \<Rightarrow> bool" where
  "alloc_ok E h a \<longleftrightarrow>
     cfg_ok E (al_pageSize a) (al_chunkSize a) \<and>
     (\<forall>c\<in>set (chunks a). chunk_ok h (unat (al_pageSize a)) c) \<and>
     distinct (map chunk_block (chunks a)) \<and>
     (chunks a \<noteq> [] \<longrightarrow>
       (\<forall>k\<ge>chunk_used (last (chunks a)). snd (h ! chunk_block (last (chunks a))) k = 0))"

definition owned :: "RAMPageAllocator \<Rightarrow> nat set" where
  "owned a = chunk_block ` set (chunks a)"

definition page_in :: "RAMPageAllocator \<Rightarrow> nat \<Rightarrow> nat \<Rightarrow> bool" where
  "page_in a b x \<longleftrightarrow>
     (\<exists>c\<in>set (chunks a). chunk_block c = b \<and> unat (al_pageSize a) dvd x \<and>
        x + unat (al_pageSize a) \<le> chunk_used c)"

definition ram_ok :: "os \<Rightarrow> host \<Rightarrow> RAM \<Rightarrow> bool" where
  "ram_ok E h r \<longleftrightarrow>
     alloc_ok E h (allocator r) \<and> pageSize r = al_pageSize (allocator r) \<and>
     (\<forall>i p. pagemap r i = Some p \<longrightarrow> (\<exists>b x. p = Ptr b x \<and> page_in (allocator r) b x)) \<and>
     inj_on (pagemap r) (dom (pagemap r))"

definition ram_peek :: "host \<Rightarrow> RAM \<Rightarrow> RV64Ptr \<Rightarrow> u8" where
  "ram_peek h r address =
     (case getPageAddress r address of
        Ptr b x \<Rightarrow> snd (h ! b) (x + unat (getPageOffset r address))
      | _ \<Rightarrow> 0)"

definition ram_owned :: "RAM \<Rightarrow> nat set" where
  "ram_owned r = owned (allocator r)"

section \<open>Allocation\<close>

lemma cfg_okE:
  assumes "cfg_ok E ps cs"
  obtains k j where "3 \<le> k" "k \<le> j" "j < 64" "ps = 2 ^ k" "os_getpagesize E = 2 ^ j"
    "unat cs + 2 ^ j < 2 ^ 64" "unat ps = 2 ^ k" "cs div ps \<noteq> 0"
  using assms unat_exp [where 'a = 64] unfolding cfg_ok_def by fastforce

lemma cfg_ok_facts:
  assumes "cfg_ok E ps cs"
  shows "cs \<noteq> 0" "ps \<noteq> 0" "Is2Pow ps" "cs div ps \<noteq> 0" "8 \<le> unat ps"
    and "unat ps dvd unat (Nearest2PowDivident cs (os_getpagesize E))"
    and "0 < unat (Nearest2PowDivident cs (os_getpagesize E))"
proof -
  obtain k j where kj: "3 \<le> k" "k \<le> j" "j < 64" "ps = 2 ^ k" "os_getpagesize E = 2 ^ j"
    "unat cs + 2 ^ j < 2 ^ 64" "unat ps = 2 ^ k" "cs div ps \<noteq> 0"
    using cfg_okE [OF assms] by blast
  show "cs div ps \<noteq> 0" by fact
  then show "cs \<noteq> 0" by auto
  show "Is2Pow ps" using kj by (simp add: Is2Pow_exp)
  have "(2::nat) ^ 3 \<le> 2 ^ k" using kj(1) by (rule power_increasing) simp
  then show "8 \<le> unat ps" using kj by simp
  then show "ps \<noteq> 0" by auto
  have n: "unat (Nearest2PowDivident cs (os_getpagesize E)) = 2 ^ j * (unat cs div 2 ^ j + 1)"
    using unat_Nearest2PowDivident [of j cs] kj by simp
  show "unat ps dvd unat (Nearest2PowDivident cs (os_getpagesize E))"
    unfolding n kj(7) by (rule dvd_mult2) (rule le_imp_power_dvd [OF kj(2)])
  show "0 < unat (Nearest2PowDivident cs (os_getpagesize E))"
    unfolding n by simp
qed

lemma chunk_allocPage_eq:
  assumes "chunk_ok h P c"
  shows "chunk_allocPage c =
    (if chunk_used c < unat (ch_size c)
     then Inr (Ptr (chunk_block c) (chunk_used c), c\<lparr>ch_rower := Ptr (chunk_block c) (chunk_used c + P)\<rparr>)
     else Inr (NullPtr, c))"
  using assms by (simp add: chunk_allocPage_def chunk_ok_def)

lemma multiple_room: "x < s \<Longrightarrow> P dvd x \<Longrightarrow> P dvd s \<Longrightarrow> x + P \<le> s" for x s P :: nat
  by (metis dvd_diff_nat dvd_imp_le le_add_diff_inverse less_imp_le nat_add_left_cancel_le zero_less_diff)

lemma chunk_ok_rower:
  assumes "chunk_ok h P c" and "chunk_used c < unat (ch_size c)"
  shows "chunk_ok h P (c\<lparr>ch_rower := Ptr (chunk_block c) (chunk_used c + P)\<rparr>)"
  using assms multiple_room [of "chunk_used c" "unat (ch_size c)" P]
  by (simp add: chunk_ok_def chunk_block_def chunk_used_def)

lemma chunk_sel_rower [simp]:
  "chunk_block (c\<lparr>ch_rower := Ptr b x\<rparr>) = chunk_block c"
  "chunk_used (c\<lparr>ch_rower := Ptr b x\<rparr>) = x"
  by (simp_all add: chunk_block_def chunk_used_def)

lemma chunk_ok_append: "chunk_ok h P c \<Longrightarrow> chunk_ok (h @ s) P c"
  by (simp add: chunk_ok_def nth_append)

text \<open>What a successful allocation promises.\<close>

definition fresh_page :: "os \<Rightarrow> RAMPageAllocator \<Rightarrow> host \<Rightarrow> nat \<Rightarrow> nat \<Rightarrow> RAMPageAllocator \<Rightarrow> host \<Rightarrow> bool" where
  "fresh_page E a h b x a' h' \<longleftrightarrow>
     alloc_ok E h' a' \<and> al_pageSize a' = al_pageSize a \<and> al_chunkSize a' = al_chunkSize a \<and>
     page_in a' b x \<and> \<not> page_in a b x \<and> (\<forall>c y. page_in a c y \<longrightarrow> page_in a' c y) \<and>
     (\<forall>k\<ge>x. snd (h' ! b) k = 0) \<and> (\<exists>s. h' = h @ s) \<and>
     owned a \<subseteq> owned a' \<and> owned a' \<subseteq> owned a \<union> {length h ..< length h'}"

lemma alloc_last_room:
  assumes ok: "alloc_ok E h a" and ne: "chunks a \<noteq> []"
    and room: "chunk_used (last (chunks a)) < unat (ch_size (last (chunks a)))"
  defines "c \<equiv> last (chunks a)"
  shows "\<exists>a'. alloc_last a = Inr (Ptr (chunk_block c) (chunk_used c), a') \<and>
           fresh_page E a h (chunk_block c) (chunk_used c) a' h"
proof -
  let ?P = "unat (al_pageSize a)"
  let ?c = "c\<lparr>ch_rower := Ptr (chunk_block c) (chunk_used c + ?P)\<rparr>"
  let ?a = "a\<lparr>chunks := butlast (chunks a) @ [?c]\<rparr>"
  have split: "chunks a = butlast (chunks a) @ [c]" using ne by (simp add: c_def)
  have cin: "c \<in> set (chunks a)" using ne by (simp add: c_def)
  have cok: "chunk_ok h ?P c" using ok cin by (simp add: alloc_ok_def)
  have P: "0 < ?P" "?P dvd chunk_used c"
    using ok cfg_ok_facts(5) [of E "al_pageSize a" "al_chunkSize a"] cok by (simp_all add: alloc_ok_def chunk_ok_def)
  have eq: "alloc_last a = Inr (Ptr (chunk_block c) (chunk_used c), ?a)"
    using ne room chunk_allocPage_eq [OF cok] by (simp add: alloc_last_def c_def)
  have dist: "distinct (map chunk_block (butlast (chunks a) @ [c]))"
    using ok split by (simp add: alloc_ok_def)
  have others: "d \<in> set (chunks a) \<Longrightarrow> chunk_block d = chunk_block c \<Longrightarrow> d = c" for d
    using dist split by (metis Un_iff distinct_map inj_onD list.set_intros(1) set_append)
  have keep: "page_in ?a b x" if pg: "page_in a b x" for b x
  proof -
    obtain d where d: "d \<in> set (chunks a)" "chunk_block d = b" "?P dvd x" "x + ?P \<le> chunk_used d"
      using pg by (auto simp: page_in_def)
    show ?thesis
    proof (cases "d = c")
      case True
      then show ?thesis using d by (auto simp: page_in_def)
    next
      case False
      then have "d \<in> set (butlast (chunks a))" using d(1) split by (metis Un_iff empty_iff empty_set set_ConsD set_append)
      then show ?thesis using d by (auto simp: page_in_def)
    qed
  qed
  have "alloc_ok E h ?a"
    using ok chunk_ok_rower [OF cok] room dist split
    by (auto simp: alloc_ok_def c_def in_set_butlastD)
  moreover have "page_in ?a (chunk_block c) (chunk_used c)"
    using P by (auto simp: page_in_def)
  moreover have "\<not> page_in a (chunk_block c) (chunk_used c)"
    using P(1) by (auto simp: page_in_def dest!: others)
  moreover have "\<forall>k\<ge>chunk_used c. snd (h ! chunk_block c) k = 0"
    using ok ne by (simp add: alloc_ok_def c_def)
  moreover have "owned ?a = owned a"
    unfolding owned_def by (subst (2) split) simp
  ultimately have "fresh_page E a h (chunk_block c) (chunk_used c) ?a h"
    using keep by (simp add: fresh_page_def)
  then show ?thesis using eq by blast
qed

lemma alloc_last_full:
  assumes "alloc_ok E h a"
    and "chunks a = [] \<or> \<not> chunk_used (last (chunks a)) < unat (ch_size (last (chunks a)))"
  shows "alloc_last a = Inr (NullPtr, a)"
proof (cases "chunks a = []")
  case False
  then have "chunk_ok h (unat (al_pageSize a)) (last (chunks a))"
    using assms(1) by (simp add: alloc_ok_def)
  from chunk_allocPage_eq [OF this] show ?thesis
    using assms(2) False by (simp add: alloc_last_def)
qed (simp add: alloc_last_def)

lemma new_chunk:
  assumes ok: "alloc_ok E h a" and mm: "mmap_ok E"
  defines "s \<equiv> Nearest2PowDivident (al_chunkSize a) (os_getpagesize E)"
  defines "c \<equiv> \<lparr>ch_data = Ptr (length h) 0, ch_rower = Ptr (length h) 0, ch_size = s, ch_pageSize = al_pageSize a\<rparr>"
  defines "h' \<equiv> h @ [(unat s, \<lambda>_. 0)]"
  shows "mkChunk E (al_pageSize a) (al_chunkSize a) h = Inr (c, h')"
    and "alloc_ok E h' (a\<lparr>chunks := chunks a @ [c]\<rparr>)"
    and "chunk_block c = length h" "chunk_used c = 0" "0 < unat (ch_size c)"
proof -
  have cfg: "cfg_ok E (al_pageSize a) (al_chunkSize a)" using ok by (simp add: alloc_ok_def)
  note C = cfg_ok_facts [OF cfg]
  have s: "0 < s" "0 < unat s" using C(7) by (simp_all add: s_def word_less_nat_alt)
  then have m: "os_mmap E h s = (Ptr (length h) 0, h')" using mm by (simp add: mmap_ok_def h'_def)
  show "mkChunk E (al_pageSize a) (al_chunkSize a) h = Inr (c, h')"
    using C m by (simp add: mkChunk_def besm666_mmap_def s_def [symmetric] c_def)
  show cb: "chunk_block c = length h" "chunk_used c = 0" "0 < unat (ch_size c)"
    using s by (simp_all add: c_def chunk_block_def chunk_used_def)
  have "chunk_ok h' (unat (al_pageSize a)) c"
    unfolding chunk_ok_def cb using C(6) by (simp add: c_def h'_def s_def)
  moreover have "\<forall>d\<in>set (chunks a). chunk_block d \<noteq> length h"
    using ok by (auto simp: alloc_ok_def chunk_ok_def)
  moreover have "\<forall>d\<in>set (chunks a). chunk_ok h' (unat (al_pageSize a)) d"
    using ok by (simp add: alloc_ok_def h'_def chunk_ok_append)
  ultimately show "alloc_ok E h' (a\<lparr>chunks := chunks a @ [c]\<rparr>)"
    using ok cb by (auto simp: alloc_ok_def h'_def)
qed

lemma allocPage_fresh:
  assumes ok: "alloc_ok E h a" and mm: "mmap_ok E"
  shows "\<exists>b x a' h'. allocPage E a h = Inr (Ptr b x, a', h') \<and> fresh_page E a h b x a' h'"
proof (cases "chunks a \<noteq> [] \<and> chunk_used (last (chunks a)) < unat (ch_size (last (chunks a)))")
  case True
  then show ?thesis
    using alloc_last_room [OF ok] by (fastforce simp: allocPage_def)
next
  case False
  define s where "s = Nearest2PowDivident (al_chunkSize a) (os_getpagesize E)"
  define c where "c = \<lparr>ch_data = Ptr (length h) 0, ch_rower = Ptr (length h) 0, ch_size = s, ch_pageSize = al_pageSize a\<rparr>"
  define h' where "h' = h @ [(unat s, \<lambda>_. 0 :: u8)]"
  note N = new_chunk [OF ok mm, folded s_def, folded c_def h'_def]
  let ?a = "a\<lparr>chunks := chunks a @ [c]\<rparr>"
  obtain a' where a': "alloc_last ?a = Inr (Ptr (length h) 0, a')" "fresh_page E ?a h' (length h) 0 a' h'"
    using alloc_last_room [OF N(2)] N(3-5) by auto
  have "alloc_last a = Inr (NullPtr, a)" using alloc_last_full [OF ok] False by blast
  then have "allocPage E a h = Inr (Ptr (length h) 0, a', h')"
    using N(1) a'(1) by (simp add: allocPage_def)
  moreover have "\<not> page_in a (length h) 0"
    using ok by (auto simp: page_in_def alloc_ok_def chunk_ok_def)
  moreover have "page_in ?a b x" if "page_in a b x" for b x
    using that by (auto simp: page_in_def)
  moreover have "owned ?a = insert (length h) (owned a)"
    using N(3) by (simp add: owned_def)
  ultimately have "fresh_page E a h (length h) 0 a' h'"
    using a'(2) by (auto simp: fresh_page_def h'_def)
  then show ?thesis using \<open>allocPage E a h = Inr (Ptr (length h) 0, a', h')\<close> by blast
qed

section \<open>Touching a page\<close>

definition host_ext :: "host \<Rightarrow> host \<Rightarrow> bool" where
  "host_ext h h' \<longleftrightarrow> (\<exists>s. h' = h @ s)"

lemma host_ext_nth: "host_ext h h' \<Longrightarrow> b < length h \<Longrightarrow> h' ! b = h ! b"
  by (auto simp: host_ext_def nth_append)

lemma host_ext_length: "host_ext h h' \<Longrightarrow> length h \<le> length h'"
  by (auto simp: host_ext_def)

lemma page_in_bounds:
  assumes "alloc_ok E h a" and "page_in a b x"
  shows "b < length h" and "x + unat (al_pageSize a) \<le> fst (h ! b)" and "b \<in> owned a"
  using assms by (auto simp: page_in_def alloc_ok_def chunk_ok_def owned_def)

lemma ram_page:
  assumes "ram_ok E h r" and "pagemap r i = Some p"
  obtains b x where "p = Ptr b x" "page_in (allocator r) b x" "b < length h" "x + unat (pageSize r) \<le> fst (h ! b)"
    "b \<in> ram_owned r"
  using assms page_in_bounds [of E h "allocator r"] unfolding ram_ok_def ram_owned_def by metis

lemma ram_ok_pageSize: "ram_ok E h r \<Longrightarrow> 8 \<le> unat (pageSize r)"
  using cfg_ok_facts(5) [of E "al_pageSize (allocator r)" "al_chunkSize (allocator r)"] by (simp add: ram_ok_def alloc_ok_def)

lemma ram_peek_ext:
  assumes "ram_ok E h r" and "host_ext h h'"
  shows "ram_peek h' r = ram_peek h r"
proof
  fix a
  show "ram_peek h' r a = ram_peek h r a"
  proof (cases "pagemap r (getPageId r a)")
    case None
    then show ?thesis by (simp add: ram_peek_def getPageAddress_def)
  next
    case (Some p)
    then obtain b x where "p = Ptr b x" "b < length h" using ram_page [OF assms(1) Some] by metis
    then show ?thesis using Some host_ext_nth [OF assms(2)] by (simp add: ram_peek_def getPageAddress_def)
  qed
qed

lemma page_geometry_update [simp]:
  "getPageId (r\<lparr>allocator := al, pagemap := m\<rparr>) a = getPageId r a"
  "getPageOffset (r\<lparr>allocator := al, pagemap := m\<rparr>) a = getPageOffset r a"
  by (simp_all add: getPageId_def getPageOffset_def)

text \<open>\<open>touched\<close>: the effect of \<^verbatim>\<open>touchPageAddress\<close>; the bytes the RAM holds do not change.\<close>

definition touched :: "os \<Rightarrow> RV64Ptr \<Rightarrow> RAM \<Rightarrow> host \<Rightarrow> nat \<Rightarrow> nat \<Rightarrow> RAM \<Rightarrow> host \<Rightarrow> bool" where
  "touched E address r h b x r' h' \<longleftrightarrow>
     ram_ok E h' r' \<and> pagemap r' (getPageId r address) = Some (Ptr b x) \<and>
     ram_peek h' r' = ram_peek h r \<and> host_ext h h' \<and>
     ramSize r' = ramSize r \<and> pageSize r' = pageSize r \<and> pagemap r \<subseteq>\<^sub>m pagemap r' \<and>
     ram_owned r \<subseteq> ram_owned r' \<and> ram_owned r' \<subseteq> ram_owned r \<union> {length h ..< length h'}"

lemma touch_new_page:
  assumes r: "ram_ok E h r" and none: "pagemap r i = None"
    and f: "fresh_page E (allocator r) h b x a' h'"
  defines "r' \<equiv> r\<lparr>allocator := a', pagemap := (pagemap r)(i \<mapsto> Ptr b x)\<rparr>"
  shows "ram_ok E h' r'" and "ram_peek h' r' = ram_peek h r"
proof -
  have new: "page_in a' b x" "\<not> page_in (allocator r) b x" and zero: "\<forall>k\<ge>x. snd (h' ! b) k = 0"
    and keep: "\<And>c y. page_in (allocator r) c y \<Longrightarrow> page_in a' c y" and ext: "host_ext h h'"
    and a': "alloc_ok E h' a'" "al_pageSize a' = al_pageSize (allocator r)"
    using f by (auto simp: fresh_page_def host_ext_def)
  have old: "\<exists>c y. p = Ptr c y \<and> page_in (allocator r) c y" if "pagemap r j = Some p" for j p
    using r that by (simp add: ram_ok_def)
  then have notold: "pagemap r j \<noteq> Some (Ptr b x)" for j using new(2) by blast
  have inj: "inj_on (pagemap r') (dom (pagemap r'))"
    using r notold unfolding ram_ok_def inj_on_def r'_def by (auto simp: dom_def)
  show "ram_ok E h' r'"
    unfolding ram_ok_def
  proof (intro conjI allI impI inj)
    fix j p
    assume "pagemap r' j = Some p"
    then show "\<exists>b x. p = Ptr b x \<and> page_in (allocator r') b x"
      using old keep new(1) by (force simp: r'_def split: if_splits)
  qed (use r a' in \<open>simp_all add: r'_def ram_ok_def\<close>)
  show "ram_peek h' r' = ram_peek h r"
  proof
    fix a
    show "ram_peek h' r' a = ram_peek h r a"
    proof (cases "getPageId r a = i")
      case True
      then show ?thesis
        using none zero by (simp add: ram_peek_def getPageAddress_def r'_def)
    next
      case False
      then have "ram_peek h' r' a = ram_peek h' r a"
        by (simp add: ram_peek_def getPageAddress_def r'_def split: option.split hptr.split)
      then show ?thesis using ram_peek_ext [OF r ext] by simp
    qed
  qed
qed

lemma touchPageAddress_ok:
  assumes r: "ram_ok E h r" and mm: "mmap_ok E"
  shows "\<exists>b x r' h'. touchPageAddress E address r h = Inr (Ptr b x, r', h') \<and> touched E address r h b x r' h'"
proof (cases "pagemap r (getPageId r address)")
  case None
  have "alloc_ok E h (allocator r)" using r by (simp add: ram_ok_def)
  from allocPage_fresh [OF this mm] obtain b x a' h' where
    al: "allocPage E (allocator r) h = Inr (Ptr b x, a', h')" and f: "fresh_page E (allocator r) h b x a' h'"
    by blast
  note T = touch_new_page [OF r None f]
  have "touchPageAddress E address r h =
    Inr (Ptr b x, r\<lparr>allocator := a', pagemap := (pagemap r)(getPageId r address \<mapsto> Ptr b x)\<rparr>, h')"
    using None al by (simp add: touchPageAddress_def)
  moreover have "touched E address r h b x
      (r\<lparr>allocator := a', pagemap := (pagemap r)(getPageId r address \<mapsto> Ptr b x)\<rparr>) h'"
    using T f None by (auto simp: touched_def fresh_page_def host_ext_def ram_owned_def map_le_def)
  ultimately show ?thesis by blast
next
  case (Some p)
  then obtain b x where "p = Ptr b x" using ram_page [OF r Some] by metis
  then show ?thesis
    using Some r by (auto simp: touchPageAddress_def touched_def host_ext_def intro!: exI [of _ "[]"])
qed

section \<open>Writing inside a page\<close>

lemma pages_apart:
  assumes "P dvd x" "P dvd y" "x \<noteq> y" "0 < P" "f < P" "g < P"
  shows "x + f \<noteq> y + (g :: nat)"
proof
  assume e: "x + f = y + g"
  obtain u v where uv: "x = P * u" "y = P * v" using assms by (auto elim!: dvdE)
  have "(P * u + f) div P = (P * v + g) div P" using e uv by simp
  then show False using assms uv by simp
qed

lemma pages_apart_area:
  fixes x y f g n P :: nat
  assumes "P dvd x" "P dvd y" "y \<noteq> x" "0 < P" "f < P" "g + n \<le> P"
  shows "\<not> (x + g \<le> y + f \<and> y + f < x + g + n)"
proof
  assume i: "x + g \<le> y + f \<and> y + f < x + g + n"
  define k where "k = y + f - x"
  have "y + f = x + k" "k < P" using i assms(6) unfolding k_def by linarith+
  then show False using pages_apart [of P y x f k] assms by blast
qed

lemma page_address:
  assumes "ram_ok E h r"
  shows "unat (getPageOffset r a) < unat (pageSize r)"
    and "getPageId r a = getPageId r a' \<Longrightarrow>
         unat a' - unat a = unat (getPageOffset r a') - unat (getPageOffset r a)"
    and "unat a = unat (pageSize r) * unat (getPageId r a) + unat (getPageOffset r a)"
proof -
  let ?P = "unat (pageSize r)"
  have P: "0 < ?P" using ram_ok_pageSize [OF assms] by simp
  have id: "unat (getPageId r b) = unat b div ?P" "unat (getPageOffset r b) = unat b mod ?P" for b
    by (simp_all add: getPageId_def getPageOffset_def unat_div_distrib unat_mod_distrib)
  show eq: "unat b = ?P * unat (getPageId r b) + unat (getPageOffset r b)" for b
    unfolding id by simp
  show "unat (getPageOffset r a) < ?P" using P by (simp add: id)
  assume "getPageId r a = getPageId r a'"
  then show "unat a' - unat a = unat (getPageOffset r a') - unat (getPageOffset r a)"
    using eq [of a] eq [of a'] by (metis diff_cancel2 add.commute)
qed

lemma in_page_area:
  assumes "ram_ok E h r" and fit: "unat (getPageOffset r a) + n \<le> unat (pageSize r)"
  shows "unat a \<le> unat a' \<and> unat a' < unat a + n \<longleftrightarrow>
    getPageId r a' = getPageId r a \<and> unat (getPageOffset r a) \<le> unat (getPageOffset r a') \<and>
    unat (getPageOffset r a') < unat (getPageOffset r a) + n" (is "?l \<longleftrightarrow> ?r")
proof -
  let ?P = "unat (pageSize r)"
  let ?i = "\<lambda>a. unat (getPageId r a)" and ?f = "\<lambda>a. unat (getPageOffset r a)"
  have f: "?f a < ?P" "?f a' < ?P" using page_address(1) [OF assms(1)] by blast+
  have eq: "unat a = ?P * ?i a + ?f a" "unat a' = ?P * ?i a' + ?f a'" using page_address(3) [OF assms(1)] by blast+
  show ?thesis
  proof
    assume l: ?l
    have "?i a' = ?i a"
    proof -
      have "unat a div ?P \<le> unat a' div ?P" using l by (intro div_le_mono) simp
      moreover have "unat a' < ?P * (?i a + 1)" using l fit unfolding eq(1) by simp
      then have "unat a' div ?P < ?i a + 1" by (simp add: less_mult_imp_div_less mult.commute)
      moreover have "unat a div ?P = ?i a" "unat a' div ?P = ?i a'" using f eq by simp_all
      ultimately show ?thesis by simp
    qed
    then show ?r using l eq by (simp add: word_unat_eq_iff)
  next
    assume ?r
    then show ?l using eq by simp
  qed
qed

lemma ram_ok_write:
  assumes r: "ram_ok E h r" and pg: "page_in (allocator r) b x" and n: "f + length bs \<le> unat (pageSize r)"
  shows "ram_ok E (h[b := (fst (h ! b), write_bytes bs (x + f) (snd (h ! b)))]) r" (is "ram_ok E ?h r")
proof -
  let ?a = "allocator r"
  have a: "alloc_ok E h ?a" and ps: "pageSize r = al_pageSize ?a" using r by (simp_all add: ram_ok_def)
  have b: "b < length h" by (rule page_in_bounds(1) [OF a pg])
  have sizes: "fst (?h ! c) = fst (h ! c)" for c
    using b by (simp add: nth_list_update)
  have zero: "snd (?h ! chunk_block (last (chunks ?a))) k = 0"
    if ne: "chunks ?a \<noteq> []" and k: "chunk_used (last (chunks ?a)) \<le> k" for k
  proof (cases "chunk_block (last (chunks ?a)) = b")
    case True
    obtain d where d: "d \<in> set (chunks ?a)" "chunk_block d = b" "x + unat (al_pageSize ?a) \<le> chunk_used d"
      using pg by (auto simp: page_in_def)
    have "d = last (chunks ?a)"
      using d True a ne unfolding alloc_ok_def distinct_map by (metis inj_onD last_in_set)
    then show ?thesis using True a b d k n ne ps by (auto simp: alloc_ok_def write_bytes_def)
  next
    case False
    then show ?thesis using a ne k by (simp add: alloc_ok_def)
  qed
  have "alloc_ok E ?h ?a"
    using a zero unfolding alloc_ok_def chunk_ok_def sizes by simp
  then show ?thesis using r by (simp add: ram_ok_def)
qed

lemma ram_peek_write:
  assumes r: "ram_ok E h r" and pg: "pagemap r (getPageId r a) = Some (Ptr b x)"
    and fit: "unat (getPageOffset r a) + length bs \<le> unat (pageSize r)"
  shows "ram_peek (h[b := (fst (h ! b), write_bytes bs (x + unat (getPageOffset r a)) (snd (h ! b)))]) r =
    mem_put a bs (ram_peek h r)" (is "ram_peek ?h r = ?g")
proof
  fix a'
  let ?P = "unat (pageSize r)" and ?f = "\<lambda>a. unat (getPageOffset r a)"
  have P: "0 < ?P" using ram_ok_pageSize [OF r] by simp
  have f: "?f a < ?P" "?f a' < ?P" using page_address(1) [OF r] by blast+
  obtain pin: "page_in (allocator r) b x" and b: "b < length h"
    using ram_page [OF r pg] by (metis hptr.inject)
  have put: "?g a' = (if unat a \<le> unat a' \<and> unat a' < unat a + length bs then bs ! (unat a' - unat a) else ram_peek h r a')"
    by (simp add: mem_put_def in_area_def)
  note area = in_page_area [OF r fit, of a']
  have "ram_peek ?h r a' =
    (if unat a \<le> unat a' \<and> unat a' < unat a + length bs then bs ! (unat a' - unat a) else ram_peek h r a')"
  proof (cases "pagemap r (getPageId r a')")
    case None
    then have "\<not> (unat a \<le> unat a' \<and> unat a' < unat a + length bs)" using area pg by auto
    then show ?thesis using None by (auto simp: ram_peek_def getPageAddress_def)
  next
    case (Some p)
    then obtain c y where p: "p = Ptr c y" "page_in (allocator r) c y" using ram_page [OF r Some] by metis
    have peek: "ram_peek k r a' = snd (k ! c) (y + ?f a')" for k
      using Some p by (simp add: ram_peek_def getPageAddress_def)
    show ?thesis
    proof (cases "getPageId r a' = getPageId r a")
      case True
      then have cy: "c = b" "y = x" using Some p pg by auto
      show ?thesis
        unfolding peek area cy using True b page_address(2) [OF r True [symmetric]]
        by (simp add: write_bytes_def)
    next
      case False
      have "Ptr c y \<noteq> Ptr b x"
        using False Some p pg r unfolding ram_ok_def inj_on_def by (metis domI)
      then have "c = b \<Longrightarrow> y \<noteq> x" by blast
      moreover have "?P dvd x" "?P dvd y" using pin p(2) r by (auto simp: page_in_def ram_ok_def)
      ultimately have "\<not> (x + ?f a \<le> y + ?f a' \<and> y + ?f a' < x + ?f a + length bs)" if "c = b"
        using pages_apart_area [of ?P x y "?f a'" "?f a" "length bs"] P f(2) fit that by blast
      then have "ram_peek ?h r a' = ram_peek h r a'"
        using b unfolding peek write_bytes_def
        by (cases "c = b") (simp_all only: nth_list_update_eq nth_list_update_neq snd_conv if_False)
      then show ?thesis using area False by auto
    qed
  qed
  then show "ram_peek ?h r a' = ?g a'" by (simp only: put)
qed

section \<open>Loads and stores\<close>

definition access_width :: "nat \<Rightarrow> bool" where
  "access_width n \<longleftrightarrow> n = 1 \<or> n = 2 \<or> n = 4 \<or> n = 8"

lemma access_width_dvd: "access_width n \<Longrightarrow> n dvd 8 \<and> 0 < n"
  by (auto simp: access_width_def)

lemma ram_ok_pageSize_exp:
  assumes "ram_ok E h r"
  obtains k where "3 \<le> k" "unat (pageSize r) = 2 ^ k"
  using assms cfg_okE [of E "al_pageSize (allocator r)" "al_chunkSize (allocator r)"]
  unfolding ram_ok_def alloc_ok_def by metis

lemma width_divides_page: "ram_ok E h r \<Longrightarrow> access_width n \<Longrightarrow> n dvd unat (pageSize r)"
proof -
  assume r: "ram_ok E h r" and n: "access_width n"
  obtain k where k: "3 \<le> k" "unat (pageSize r) = 2 ^ k" using ram_ok_pageSize_exp [OF r] by blast
  have "(8 :: nat) dvd 2 ^ k" using le_imp_power_dvd [OF k(1), of "2 :: nat"] by simp
  then show "n dvd unat (pageSize r)" using access_width_dvd [OF n] k(2) dvd_trans by metis
qed

lemma alignment_check:
  assumes "access_width n"
  shows "validateAddressAlignment n a = (if n dvd unat a then Inr () else Inl UnalignedAddressError)"
proof -
  have "unat (of_nat n :: u64) = n" using assms by (auto simp: access_width_def)
  then have "unat (a mod of_nat n) = unat a mod n" by (simp add: unat_mod_distrib)
  then have "a mod of_nat n = 0 \<longleftrightarrow> unat a mod n = 0" by (metis unat_eq_zero)
  then show ?thesis by (simp add: validateAddressAlignment_def dvd_eq_mod_eq_0)
qed

lemma aligned_fits:
  assumes "ram_ok E h r" and "access_width n" and "n dvd unat a"
  shows "unat (getPageOffset r a) + n \<le> unat (pageSize r)" and "unat a + n \<le> 2 ^ 64"
proof -
  let ?P = "unat (pageSize r)"
  have nP: "n dvd ?P" by (rule width_divides_page [OF assms(1,2)])
  have "n dvd unat a mod ?P" using assms(3) nP by (simp add: dvd_mod)
  then show "unat (getPageOffset r a) + n \<le> ?P"
    using multiple_room [of "unat (getPageOffset r a)" ?P n] page_address(1) [OF assms(1)] nP
    by (simp add: getPageOffset_def unat_mod_distrib)
  have "n dvd 2 ^ 64" using assms(2) by (auto simp: access_width_def)
  then show "unat a + n \<le> 2 ^ 64"
    using multiple_room [of "unat a" "2 ^ 64" n] assms(3) unsigned_less [where 'a = nat, of a] by simp
qed

lemma ram_load_eq:
  assumes r: "ram_ok E h r" and n: "LENGTH('a) = 8 * n" "access_width n"
  shows "(ram_load a r h :: 'a::len word res) =
    (if n dvd unat a then Inr (le_word (mem_get n a (ram_peek h r))) else Inl UnalignedAddressError)"
proof (cases "n dvd unat a")
  case False
  then show ?thesis using n by (simp add: ram_load_def alignment_check)
next
  case al: True
  note fit = aligned_fits [OF r n(2) al]
  have off: "getPageId r (a + of_nat i) = getPageId r a"
    "unat (getPageOffset r (a + of_nat i)) = unat (getPageOffset r a) + i" if "i < n" for i
  proof -
    have u: "unat (a + of_nat i) = unat a + i" by (rule unat_add_offset [OF fit(2) that])
    then show id: "getPageId r (a + of_nat i) = getPageId r a"
      using in_page_area [OF r fit(1), of "a + of_nat i"] that by simp
    show "unat (getPageOffset r (a + of_nat i)) = unat (getPageOffset r a) + i"
      using in_page_area [OF r fit(1), of "a + of_nat i"] that page_address(2) [OF r id [symmetric]]
      unfolding u by linarith
  qed
  show ?thesis
  proof (cases "pagemap r (getPageId r a)")
    case None
    have "le_word (mem_get n a (ram_peek h r)) = (0 :: 'a word)"
    proof (rule bit_word_eqI)
      fix k
      have "bit (mem_get n a (ram_peek h r) ! (k div 8)) (k mod 8) = False" if "k div 8 < n"
        using that None by (simp add: ram_peek_def getPageAddress_def off)
      then show "bit (le_word (mem_get n a (ram_peek h r)) :: 'a word) k = bit (0 :: 'a word) k"
        by (auto simp: bit_le_word)
    qed
    then show ?thesis
      using None al n by (simp add: ram_load_def alignment_check ram_getHostAddress_def getPageAddress_def Let_def)
  next
    case (Some p)
    then obtain b x where p: "p = Ptr b x" "b < length h" "x + unat (pageSize r) \<le> fst (h ! b)"
      using ram_page [OF r Some] by metis
    have "map (snd (h ! b)) [x + unat (getPageOffset r a) ..< x + unat (getPageOffset r a) + n] =
          mem_get n a (ram_peek h r)"
      by (rule nth_equalityI)
         (simp_all add: ram_peek_def getPageAddress_def off Some p(1) add.assoc)
    then show ?thesis
      using Some p al n fit(1)
      by (simp add: ram_load_def alignment_check ram_getHostAddress_def getPageAddress_def Let_def host_read_Ptr)
  qed
qed

text \<open>\<open>ram_step\<close>: a RAM operation changes only blocks the RAM owns, and owns no foreign block after it.\<close>

definition ram_step :: "os \<Rightarrow> RAM \<Rightarrow> host \<Rightarrow> RAM \<Rightarrow> host \<Rightarrow> bool" where
  "ram_step E r h r' h' \<longleftrightarrow>
     ram_ok E h' r' \<and> ramSize r' = ramSize r \<and> pageSize r' = pageSize r \<and> pagemap r \<subseteq>\<^sub>m pagemap r' \<and>
     length h \<le> length h' \<and> (\<forall>b<length h. b \<notin> ram_owned r \<longrightarrow> h' ! b = h ! b) \<and>
     (\<forall>b<length h. fst (h' ! b) = fst (h ! b)) \<and>
     ram_owned r \<subseteq> ram_owned r' \<and> ram_owned r' \<subseteq> ram_owned r \<union> {length h ..< length h'}"

lemma touched_step: "touched E a r h b x r' h' \<Longrightarrow> ram_step E r h r' h'"
  by (auto simp: touched_def ram_step_def host_ext_nth host_ext_length)

lemma touch_write:
  assumes r: "ram_ok E h r" and t: "touched E a r h b x r' h'"
    and fit: "unat (getPageOffset r a) + length bs \<le> unat (pageSize r)"
  defines "h'' \<equiv> h'[b := (fst (h' ! b), write_bytes bs (x + unat (getPageOffset r a)) (snd (h' ! b)))]"
  shows "host_write bs (Ptr b (x + unat (getPageOffset r a))) h' = Inr h''"
    and "ram_step E r h r' h''" and "ram_peek h'' r' = mem_put a bs (ram_peek h r)"
proof -
  have r': "ram_ok E h' r'" and pg: "pagemap r' (getPageId r a) = Some (Ptr b x)"
    and peek: "ram_peek h' r' = ram_peek h r" and ps: "pageSize r' = pageSize r"
    using t by (simp_all add: touched_def)
  have geo: "getPageId r' c = getPageId r c" "getPageOffset r' c = getPageOffset r c" for c
    using ps by (simp_all add: getPageId_def getPageOffset_def)
  obtain pin: "page_in (allocator r') b x" and b: "b < length h'" "x + unat (pageSize r) \<le> fst (h' ! b)" "b \<in> ram_owned r'"
    using ram_page [OF r' pg] ps by (metis hptr.inject)
  show "host_write bs (Ptr b (x + unat (getPageOffset r a))) h' = Inr h''"
    using b fit by (simp add: host_write_Ptr h''_def)
  show "ram_peek h'' r' = mem_put a bs (ram_peek h r)"
    using ram_peek_write [OF r', of a b x bs] pg fit unfolding geo ps peek h''_def by blast
  have "ram_ok E h'' r'"
    unfolding h''_def using fit ps by (intro ram_ok_write [OF r' pin]) simp
  moreover have "\<forall>c<length h. c \<notin> ram_owned r \<longrightarrow> h'' ! c = h ! c"
  proof (intro allI impI)
    fix c
    assume c: "c < length h" "c \<notin> ram_owned r"
    then have "c \<noteq> b" using touched_step [OF t] b(3) unfolding ram_step_def by auto
    then show "h'' ! c = h ! c"
      using touched_step [OF t] c unfolding ram_step_def h''_def by simp
  qed
  moreover have "\<forall>c<length h. fst (h'' ! c) = fst (h ! c)"
    using touched_step [OF t] b(1) unfolding ram_step_def h''_def by (auto simp: nth_list_update)
  ultimately show "ram_step E r h r' h''"
    using touched_step [OF t] by (simp add: ram_step_def h''_def)
qed

lemma touchHostAddress_ok:
  assumes "ram_ok E h r" and "mmap_ok E"
  shows "\<exists>b x r' h'. ram_touchHostAddress E a r h =
           Inr ((Ptr b (x + unat (getPageOffset r a)), pageSize r - getPageOffset r a), r', h') \<and>
           touched E a r h b x r' h'"
proof -
  obtain b x r' h' where t: "touchPageAddress E a r h = Inr (Ptr b x, r', h')" "touched E a r h b x r' h'"
    using touchPageAddress_ok [OF assms] by blast
  moreover have "pageSize r' = pageSize r" using t(2) by (simp add: touched_def)
  ultimately have "ram_touchHostAddress E a r h =
      Inr ((Ptr b (x + unat (getPageOffset r a)), pageSize r - getPageOffset r a), r', h')"
    by (simp add: ram_touchHostAddress_def Let_def)
  then show ?thesis using t(2) by blast
qed

lemma ram_store_eq:
  fixes v :: "'a::len word"
  assumes r: "ram_ok E h r" and mm: "mmap_ok E" and n: "LENGTH('a) = 8 * n" "access_width n"
  shows "if n dvd unat a
    then \<exists>r' h'. ram_store E a v r h = Inr (r', h') \<and> ram_step E r h r' h' \<and>
           ram_peek h' r' = mem_put a (le_bytes n v) (ram_peek h r)
    else ram_store E a v r h = Inl UnalignedAddressError"
proof (cases "n dvd unat a")
  case False
  then show ?thesis using n by (simp add: ram_store_def alignment_check)
next
  case True
  obtain b x r' h' where t: "ram_touchHostAddress E a r h =
      Inr ((Ptr b (x + unat (getPageOffset r a)), pageSize r - getPageOffset r a), r', h')"
    "touched E a r h b x r' h'"
    using touchHostAddress_ok [OF r mm] by blast
  have fit: "unat (getPageOffset r a) + length (le_bytes n v) \<le> unat (pageSize r)"
    using aligned_fits(1) [OF r n(2) True] by simp
  note W = touch_write [OF r t(2) fit]
  show ?thesis using True n W t(1) by (simp add: ram_store_def alignment_check)
qed

lemma ram_ok_mkRAM [wf_intros]:
  assumes "cfg_ok E ps cs" and "mkRAM rs ps cs = Inr r"
  shows "ram_ok E h r" and "ram_peek h r = (\<lambda>_. 0)" and "ramSize r = rs" and "ram_owned r = {}"
  using assms(2) cfg_ok_facts(1-4) [OF assms(1)] assms(1)
  by (auto simp: mkRAM_def mkRAMPageAllocator_def ram_ok_def alloc_ok_def ram_peek_def
      getPageAddress_def ram_owned_def owned_def split: if_splits)

section \<open>The RAM is a memory device\<close>

definition ram_ld :: "(RV64Ptr \<Rightarrow> RAM \<Rightarrow> host \<Rightarrow> 'v res) \<Rightarrow> RV64Ptr \<Rightarrow> RAM \<times> host \<Rightarrow> ('v \<times> RAM \<times> host) res" where
  "ram_ld f a s = bindE (f a (fst s) (snd s)) (\<lambda>v. Inr (v, s))"

definition ram_st :: "(RV64Ptr \<Rightarrow> 'v \<Rightarrow> RAM \<Rightarrow> host \<Rightarrow> (RAM \<times> host) res) \<Rightarrow> RV64Ptr \<Rightarrow> 'v \<Rightarrow> RAM \<times> host \<Rightarrow> (RAM \<times> host) res" where
  "ram_st f a v s = f a v (fst s) (snd s)"

definition ram_inv :: "os \<Rightarrow> RAM \<times> host \<Rightarrow> bool" where
  "ram_inv E s \<longleftrightarrow> mmap_ok E \<and> ram_ok E (snd s) (fst s)"

definition ram_area :: "RAM \<times> host \<Rightarrow> RV64Ptr \<Rightarrow> nat \<Rightarrow> bool" where
  "ram_area s a n \<longleftrightarrow> access_width n \<and> n dvd unat a"

definition ram_flat :: "RAM \<times> host \<Rightarrow> flat" where
  "ram_flat s = ram_peek (snd s) (fst s)"

lemma ram_ld_law:
  assumes "ram_inv E s" "ram_area s a n" "LENGTH('a) = 8 * n"
  shows "ram_ld (ram_load :: _ \<Rightarrow> _ \<Rightarrow> _ \<Rightarrow> 'a::len word res) a s = Inr (le_word (mem_get n a (ram_flat s)), s)"
  using assms ram_load_eq [of E "snd s" "fst s" n a, where 'a = 'a]
  by (simp add: ram_inv_def ram_area_def ram_ld_def ram_flat_def)

lemma ram_st_law:
  fixes v :: "'a::len word"
  assumes "ram_inv E s" "ram_area s a n" "LENGTH('a) = 8 * n"
  shows "\<exists>s'. ram_st (ram_store E) a v s = Inr s' \<and> ram_inv E s' \<and>
           ram_flat s' = mem_put a (le_bytes n v) (ram_flat s) \<and> ram_area s' = ram_area s"
  using assms ram_store_eq [of E "snd s" "fst s" n a v]
  by (auto simp: ram_inv_def ram_area_def ram_st_def ram_flat_def ram_step_def fun_eq_iff)

interpretation ram: mem_device "ram_inv E" ram_flat ram_area
    "ram_ld ram_loadByte" "ram_ld ram_loadHWord" "ram_ld ram_loadWord" "ram_ld ram_loadDWord"
    "ram_st (ram_storeByte E)" "ram_st (ram_storeHWord E)" "ram_st (ram_storeWord E)" "ram_st (ram_storeDWord E)"
  for E
proof
  fix s a n
  assume "ram_inv E s" "ram_area s a n"
  then show "unat a + n \<le> 2 ^ 64"
    using aligned_fits(2) [of E "snd s" "fst s" n a] by (simp add: ram_inv_def ram_area_def)
qed (unfold ram_loadByte_def [abs_def] ram_loadHWord_def [abs_def] ram_loadWord_def [abs_def]
      ram_loadDWord_def [abs_def] ram_storeByte_def [abs_def] ram_storeHWord_def [abs_def]
      ram_storeWord_def [abs_def] ram_storeDWord_def [abs_def],
    (rule ram_st_law, assumption+, simp | simp add: ram_ld_law)+)

lemma mkRAM_eq:
  "mkRAM rs ps cs =
     (if cs = 0 \<or> ps = 0 \<or> \<not> Is2Pow ps \<or> cs div ps = 0 then Inl AssertFailed
      else if rs = 0 then Inl InvalidArgument
      else Inr \<lparr>ramSize = rs, pageSize = ps,
                allocator = \<lparr>al_chunkSize = cs, al_pageSize = ps, chunks = []\<rparr>, pagemap = (\<lambda>_. None)\<rparr>)"
  by (simp add: mkRAM_def mkRAMPageAllocator_def assertE_def)

section \<open>Properties\<close>

text \<open>
  C13: a store to RAM refines the update of a flat byte array.  For each of the four access widths,
  an aligned store succeeds, keeps the invariant, and changes exactly the bytes it addresses to the
  little-endian bytes of the value, whether or not the page existed before; blocks of host memory
  the RAM does not own keep their content.  An unaligned store is refused.
\<close>
theorem ram_store_refines:
  fixes v :: "'a::len word"
  assumes "ram_ok E h r" and "mmap_ok E" and "LENGTH('a) = 8 * n" and "access_width n"
  shows "if n dvd unat a
    then \<exists>r' h'. ram_store E a v r h = Inr (r', h') \<and> ram_ok E h' r' \<and>
           ram_peek h' r' = mem_put a (le_bytes n v) (ram_peek h r) \<and>
           (\<forall>b<length h. b \<notin> ram_owned r \<longrightarrow> h' ! b = h ! b)
    else ram_store E a v r h = Inl UnalignedAddressError"
  using ram_store_eq [OF assms, of a v] by (auto simp: ram_step_def split: if_splits)

lemma cfg_ok_plenty: "cfg_ok plenty 4096 65536"
  unfolding cfg_ok_def plenty_def
  by (intro conjI exI [of _ 12]) simp_all

definition demo_ram :: RAM where
  "demo_ram = \<lparr>ramSize = 0x100000, pageSize = 4096,
     allocator = \<lparr>al_chunkSize = 65536, al_pageSize = 4096, chunks = []\<rparr>, pagemap = (\<lambda>_. None)\<rparr>"

lemma demo_ram_ok: "mkRAM 0x100000 4096 65536 = Inr demo_ram" "ram_ok plenty h demo_ram" "ram_peek h demo_ram = (\<lambda>_. 0)"
proof -
  show m: "mkRAM 0x100000 4096 65536 = Inr demo_ram"
    using cfg_ok_facts(3) [OF cfg_ok_plenty] by (simp add: mkRAM_def mkRAMPageAllocator_def demo_ram_def)
  show "ram_ok plenty h demo_ram" "ram_peek h demo_ram = (\<lambda>_. 0)"
    by (rule ram_ok_mkRAM [OF cfg_ok_plenty m])+
qed

theorem ram_store_refines_witness:
  "\<exists>r h. ram_store plenty 0x1008 (0x11223344 :: u32) demo_ram [] = Inr (r, h) \<and>
         ram_peek h r 0x1008 = 0x44 \<and> ram_peek h r 0x100B = 0x11 \<and> ram_peek h r 0x100C = 0"
proof -
  have "access_width 4" "(4 :: nat) dvd unat (0x1008 :: u64)" by (simp_all add: access_width_def)
  with ram_store_refines [where 'a = 32 and n = 4, OF demo_ram_ok(2) mmap_ok_plenty, of "0x1008" "0x11223344" "[]"]
  obtain r' h' where s: "ram_store plenty 0x1008 (0x11223344 :: u32) demo_ram [] = Inr (r', h')"
    and p: "ram_peek h' r' = mem_put 0x1008 (le_bytes 4 (0x11223344 :: u32)) (\<lambda>_. 0)"
    by (auto simp: demo_ram_ok(3))
  have "ram_peek h' r' 0x1008 = 0x44 \<and> ram_peek h' r' 0x100B = 0x11 \<and> ram_peek h' r' 0x100C = 0"
    unfolding p by (simp add: mem_put_def in_area_def le_bytes_numeral drop_bit_eq_div)
  then show ?thesis using s by blast
qed

text \<open>
  C14: a load from RAM reads the flat byte array: an aligned load returns the little-endian value of
  the bytes at the address, zero for memory never written, and allocates nothing; an unaligned load
  is refused.
\<close>
theorem ram_load_refines:
  assumes "ram_ok E h r" and "LENGTH('a) = 8 * n" and "access_width n"
  shows "(ram_load a r h :: 'a::len word res) =
    (if n dvd unat a then Inr (le_word (mem_get n a (ram_peek h r))) else Inl UnalignedAddressError)"
  by (rule ram_load_eq [OF assms])

theorem ram_load_refines_witness:
  "ram_load 0x2000 demo_ram [] = Inr (0 :: u16) \<and>
   ram_load 0x2001 demo_ram [] = (Inl UnalignedAddressError :: u16 res)"
proof -
  have "(ram_load a demo_ram [] :: u16 res) =
    (if 2 dvd unat a then Inr (le_word (mem_get 2 a (ram_peek [] demo_ram))) else Inl UnalignedAddressError)" for a
    by (rule ram_load_refines [OF demo_ram_ok(2)]) (simp_all add: access_width_def)
  moreover have "(le_word (mem_get 2 a (ram_peek [] demo_ram)) :: u16) = 0" for a
    by (simp add: demo_ram_ok(3) mem_get_def upt_rec)
  ultimately show ?thesis by simp
qed

text \<open>
  The result of the RAM constructor on every argument.  The page allocator is constructed
  first, so bad page and chunk sizes fail its assertions; the checks that would throw
  \<^verbatim>\<open>std::invalid_argument\<close> for them are never reached, and only a zero RAM size is reported by
  an exception.
\<close>
theorem mkRAM_result:
  "mkRAM rs ps cs =
     (if cs = 0 \<or> ps = 0 \<or> \<not> Is2Pow ps \<or> cs div ps = 0 then Inl AssertFailed
      else if rs = 0 then Inl InvalidArgument
      else Inr \<lparr>ramSize = rs, pageSize = ps,
                allocator = \<lparr>al_chunkSize = cs, al_pageSize = ps, chunks = []\<rparr>, pagemap = (\<lambda>_. None)\<rparr>)"
  by (rule mkRAM_eq)

theorem mkRAM_result_witness:
  "mkRAM 0 4096 65536 = Inl InvalidArgument \<and> mkRAM 4096 3 65536 = Inl AssertFailed"
  using mkRAM_result [of 0 4096 65536] mkRAM_result [of 4096 3 65536] cfg_ok_facts(3) [OF cfg_ok_plenty]
  by (simp add: Is2Pow_def)

text \<open>
  A failed mapping is not noticed.  When the operating system answers \<^verbatim>\<open>MAP_FAILED\<close>, which is
  not the null pointer the code tests for, the first store to a fresh RAM does not throw
  \<^verbatim>\<open>std::bad_alloc\<close> but goes on with the invalid pointer.
\<close>
theorem mmap_failure_unnoticed:
  fixes v :: u64
  assumes "\<forall>n. os_mmap E h n = (MapFailed, h)" and "mkRAM rs ps cs = Inr r" and "8 dvd unat a"
  shows "ram_store E a v r h = Inl UndefinedBehaviour"
proof -
  have r: "cs \<noteq> 0" "ps \<noteq> 0" "Is2Pow ps" "cs div ps \<noteq> 0"
    and alloc: "allocator r = \<lparr>al_chunkSize = cs, al_pageSize = ps, chunks = []\<rparr>" and pm: "pagemap r = (\<lambda>_. None)"
    using assms(2) by (auto simp: mkRAM_eq split: if_splits)
  have "allocPage E (allocator r) h = Inl UndefinedBehaviour"
    using r assms(1)
    by (simp add: alloc allocPage_def alloc_last_def mkChunk_def besm666_mmap_def chunk_allocPage_def)
  then show ?thesis
    using assms(3) alignment_check [of 8 a]
    by (simp add: ram_store_def access_width_def ram_touchHostAddress_def touchPageAddress_def pm)
qed

theorem mmap_failure_unnoticed_witness:
  "ram_store \<lparr>os_mmap = \<lambda>h n. (MapFailed, h), os_munmap = \<lambda>p n h. h, os_getpagesize = 4096\<rparr>
     0x10 (7 :: u64) demo_ram [] = Inl UndefinedBehaviour"
  by (rule mmap_failure_unnoticed [OF _ demo_ram_ok(1)]) simp_all

text \<open>Taking pages from a chunk one after the other.\<close>

primrec alloc_pages :: "nat \<Rightarrow> Chunk \<Rightarrow> (hptr list \<times> Chunk) res" where
  "alloc_pages 0 c = Inr ([], c)"
| "alloc_pages (Suc n) c =
     bindE (chunk_allocPage c) (\<lambda>(page, c). bindE (alloc_pages n c) (\<lambda>(pages, c). Inr (page # pages, c)))"

lemma alloc_pages_from:
  assumes "ch_data c = Ptr b 0" "ch_rower c = Ptr b (k * P)" "unat (ch_pageSize c) = P"
    and "\<forall>j<n. (k + j) * P < unat (ch_size c)"
  shows "alloc_pages n c = Inr (map (\<lambda>j. Ptr b (j * P)) [k ..< k + n], c\<lparr>ch_rower := Ptr b ((k + n) * P)\<rparr>)"
  using assms
proof (induction n arbitrary: k c)
  case (Suc n)
  let ?c = "c\<lparr>ch_rower := Ptr b (Suc k * P)\<rparr>"
  have "k * P < unat (ch_size c)" using Suc.prems(4) by (auto dest: spec [of _ 0])
  then have "chunk_allocPage c = Inr (Ptr b (k * P), ?c)" using Suc.prems(1-3) by (simp add: chunk_allocPage_def add.commute)
  moreover have "\<forall>j<n. (Suc k + j) * P < unat (ch_size ?c)" using Suc.prems(4) by (auto dest: spec [of _ "Suc _"])
  then have "alloc_pages n ?c = Inr (map (\<lambda>j. Ptr b (j * P)) [Suc k ..< Suc k + n], ?c\<lparr>ch_rower := Ptr b ((Suc k + n) * P)\<rparr>)"
    using Suc.IH [of ?c "Suc k"] Suc.prems(1,3) by simp
  ultimately show ?case by (simp add: upt_rec [of k])
qed simp

lemma mkChunk_result:
  assumes "mmap_ok E" and "mkChunk E ps cs h = Inr (c, h')" and "ch_size c \<noteq> 0"
  shows "ch_data c = Ptr (length h) 0" "ch_rower c = Ptr (length h) 0" "ch_pageSize c = ps" "0 < unat ps"
    "fst (h' ! length h) = unat (ch_size c)" "length h' = Suc (length h)" "0 < unat (ch_size c)"
proof -
  let ?s = "Nearest2PowDivident cs (os_getpagesize E)"
  have "ps \<noteq> 0" and s: "ch_size c = ?s"
    using assms(2) by (auto simp: mkChunk_def bindE_eq_Inr_iff assertE_def Let_def split: if_splits prod.splits)
  then have "os_mmap E h ?s = (Ptr (length h) 0, h @ [(unat ?s, \<lambda>_. 0)])"
    using assms(1,3) by (simp add: mmap_ok_def word_less_nat_alt unat_gt_0)
  then have "c = \<lparr>ch_data = Ptr (length h) 0, ch_rower = Ptr (length h) 0, ch_size = ?s, ch_pageSize = ps\<rparr>"
      "h' = h @ [(unat ?s, \<lambda>_. 0)]"
    using assms(2) by (auto simp: mkChunk_def besm666_mmap_def bindE_eq_Inr_iff assertE_def Let_def split: if_splits)
  then show "ch_data c = Ptr (length h) 0" "ch_rower c = Ptr (length h) 0" "ch_pageSize c = ps" "0 < unat ps"
    "fst (h' ! length h) = unat (ch_size c)" "length h' = Suc (length h)" "0 < unat (ch_size c)"
    using \<open>ps \<noteq> 0\<close> assms(3) by (simp_all add: unat_gt_0)
qed

lemma last_page:
  fixes P S :: nat
  assumes "0 < P" "0 < S"
  defines "q \<equiv> (S - 1) div P"
  shows "q * P < S" "S \<le> q * P + P" "(\<forall>k\<le>q. k * P + P \<le> S) \<longleftrightarrow> P dvd S"
proof -
  have "q * P \<le> S - 1" unfolding q_def by (rule div_times_less_eq_dividend)
  then show lo: "q * P < S" using assms(2) by linarith
  show hi: "S \<le> q * P + P" using dividend_less_div_times [OF assms(1), of "S - 1"] assms(2) by (simp add: q_def add.commute)
  have "k * P < S" if "k \<le> q" for k using lo mult_le_mono1 [OF that, of P] by linarith
  moreover have "P dvd S" if "\<forall>k\<le>q. k * P + P \<le> S"
  proof -
    have "S = (q + 1) * P" using that hi by (auto simp: algebra_simps)
    then show ?thesis by simp
  qed
  ultimately show "(\<forall>k\<le>q. k * P + P \<le> S) \<longleftrightarrow> P dvd S" using multiple_room by auto
qed

text \<open>
  C38: the pages of a chunk.  A new chunk of \<open>S\<close> bytes hands out, one after the other, the pages of
  \<open>P\<close> bytes that start below \<open>S\<close>, and then no more.  All of them lie inside the mapping exactly when
  \<open>P\<close> divides \<open>S\<close>: the size is rounded to host pages, not to RAM pages, and otherwise the last byte
  of the last page is outside, where an access is undefined.
\<close>
theorem chunk_pages:
  assumes "mmap_ok E" and "mkChunk E ps cs h = Inr (c, h')" and "ch_size c \<noteq> 0"
  shows "let P = unat ps; S = unat (ch_size c); n = Suc ((S - 1) div P); b = length h
     in \<exists>c'. alloc_pages n c = Inr (map (\<lambda>k. Ptr b (k * P)) [0 ..< n], c') \<and> chunk_allocPage c' = Inr (NullPtr, c') \<and>
        ((\<forall>k<n. k * P + P \<le> fst (h' ! b)) \<longleftrightarrow> P dvd S) \<and>
        (P dvd S \<or> host_write [v] (Ptr b ((n - 1) * P + (P - 1))) h' = Inl UndefinedBehaviour)"
proof -
  note C = mkChunk_result [OF assms]
  let ?P = "unat ps" and ?S = "unat (ch_size c)" and ?b = "length h"
  let ?q = "(?S - 1) div ?P"
  note L = last_page [OF C(4,7)]
  have "(0 + j) * ?P < ?S" if "j < Suc ?q" for j
  proof -
    have "j * ?P \<le> ?q * ?P" using that by (intro mult_le_mono1) simp
    then show ?thesis unfolding add_0 using L(1) by (rule le_less_trans)
  qed
  then have pages: "alloc_pages (Suc ?q) c = Inr (map (\<lambda>k. Ptr ?b (k * ?P)) [0 ..< Suc ?q], c\<lparr>ch_rower := Ptr ?b (Suc ?q * ?P)\<rparr>)"
    using alloc_pages_from [of c ?b 0 ?P "Suc ?q"] C(1-3) by simp
  moreover have "chunk_allocPage (c\<lparr>ch_rower := Ptr ?b (Suc ?q * ?P)\<rparr>) = Inr (NullPtr, c\<lparr>ch_rower := Ptr ?b (Suc ?q * ?P)\<rparr>)"
    using C(1) L(2) by (simp add: chunk_allocPage_def)
  moreover have "(\<forall>k<Suc ?q. k * ?P + ?P \<le> fst (h' ! ?b)) \<longleftrightarrow> ?P dvd ?S" using L(3) C(5) by (simp add: less_Suc_eq_le)
  moreover have "host_write [v] (Ptr ?b (?q * ?P + (?P - 1))) h' = Inl UndefinedBehaviour" if "\<not> ?P dvd ?S"
  proof -
    have "\<not> ?q * ?P + ?P \<le> ?S" using that L(2) by (metis dvd_add dvd_refl dvd_triv_right le_antisym)
    then have "\<not> ?q * ?P + (?P - 1) + 1 \<le> ?S" using C(4) by linarith
    then show ?thesis using C(5) by (simp add: host_write_def del: One_nat_def)
  qed
  ultimately show ?thesis unfolding Let_def diff_Suc_1 by blast
qed

theorem chunk_pages_witness:
  "\<exists>c h' c'. mkChunk plenty 8192 8192 [] = Inr (c, h') \<and> alloc_pages (Suc (Suc 0)) c = Inr ([Ptr 0 0, Ptr 0 8192], c') \<and>
     host_write [1] (Ptr 0 16383) h' = Inl UndefinedBehaviour"
proof -
  let ?c = "\<lparr>ch_data = Ptr 0 0, ch_rower = Ptr 0 0, ch_size = 12288, ch_pageSize = 8192\<rparr>" and ?h = "[(12288, \<lambda>_. 0)] :: host"
  have "Nearest2PowDivident (8192 :: u64) 4096 = 12288" "Is2Pow (8192 :: u64)" by (simp_all add: Nearest2PowDivident_def Is2Pow_def)
  then have "mkChunk plenty 8192 8192 [] = Inr (?c, ?h)" by (simp add: mkChunk_def besm666_mmap_def plenty_def assertE_def Let_def)
  then show ?thesis using chunk_pages [OF mmap_ok_plenty, of 8192 8192 "[]" ?c ?h 1] by (simp add: Let_def del: alloc_pages.simps) blast
qed

end
