(* ===== verification/PhysMemRefinement.thy ===== *)
theory PhysMemRefinement
  imports PhysMem RamRefinement
begin

text \<open>
  Physical memory with disjoint RAM ranges implements one flat byte array, \<open>pm_peek\<close>, at the
  addresses the ranges cover: the cached last range never changes what an access finds, an access
  to one device leaves the others alone, and the copy loop of the loader writes exactly the bytes
  it is given.  The last section shows what the mapping check lets through.
\<close>

section \<open>Invariant and abstraction\<close>

definition dev_ok :: "RAM list \<Rightarrow> RV64Ptr Range \<times> nat \<Rightarrow> bool" where
  "dev_ok rs e \<longleftrightarrow> snd e < length rs \<and> leftBorder (fst e) \<le> rightBorder (fst e) \<and>
     ramSize (rs ! snd e) = range_size (fst e)"

definition apart :: "(RV64Ptr Range \<times> nat) list \<Rightarrow> bool" where
  "apart ds \<longleftrightarrow>
     (\<forall>e\<in>set ds. \<forall>f\<in>set ds. e \<noteq> f \<longrightarrow> snd e \<noteq> snd f \<and> range_set (fst e) \<inter> range_set (fst f) = {})"

definition cache_hit_ok :: "PhysMem \<Rightarrow> bool" where
  "cache_hit_ok pm \<longleftrightarrow>
     (case lastAccessedDevice pm of
        None \<Rightarrow> leftBorder (lastAccessedRange pm) = rightBorder (lastAccessedRange pm)
      | Some d \<Rightarrow> (lastAccessedRange pm, d) \<in> set (devices pm))"

definition rams_ok :: "os \<Rightarrow> host \<Rightarrow> RAM list \<Rightarrow> bool" where
  "rams_ok E h rs \<longleftrightarrow>
     (\<forall>d<length rs. ram_ok E h (rs ! d)) \<and>
     (\<forall>d<length rs. \<forall>e<length rs. d \<noteq> e \<longrightarrow> ram_owned (rs ! d) \<inter> ram_owned (rs ! e) = {})"

definition pm_ok :: "os \<Rightarrow> PhysMem \<Rightarrow> bool" where
  "pm_ok E pm \<longleftrightarrow> (\<forall>e\<in>set (devices pm). dev_ok (rams pm) e) \<and> apart (devices pm) \<and>
     cache_hit_ok pm \<and> rams_ok E (pm_host pm) (rams pm)"

definition dev_at :: "PhysMem \<Rightarrow> RV64Ptr \<Rightarrow> (RV64Ptr Range \<times> nat) option" where
  "dev_at pm a = find (\<lambda>(r, d). contains_pos r a) (devices pm)"

definition pm_peek :: "PhysMem \<Rightarrow> flat" where
  "pm_peek pm a =
     (case dev_at pm a of
        None \<Rightarrow> 0
      | Some (r, d) \<Rightarrow> ram_peek (pm_host pm) (rams pm ! d) (a - leftBorder r))"

definition same_memory :: "PhysMem \<Rightarrow> PhysMem \<Rightarrow> bool" where
  "same_memory pm pm' \<longleftrightarrow> devices pm' = devices pm \<and> rams pm' = rams pm \<and> pm_host pm' = pm_host pm"

lemma same_memory_peek: "same_memory pm pm' \<Longrightarrow> pm_peek pm' = pm_peek pm"
  by (rule ext) (simp add: same_memory_def pm_peek_def dev_at_def split: option.split)

section \<open>The cached range is transparent\<close>

lemma dev_at_SomeD:
  assumes "dev_at pm a = Some e"
  shows "e \<in> set (devices pm)" and "contains_pos (fst e) a"
proof -
  obtain i where "i < length (devices pm)" "devices pm ! i = e" "contains_pos (fst e) a"
    using assms by (auto simp: dev_at_def find_Some_iff split_beta)
  then show "e \<in> set (devices pm)" and "contains_pos (fst e) a" using nth_mem by blast+
qed

lemma apartD:
  assumes "apart ds" "e \<in> set ds" "f \<in> set ds" "contains_pos (fst e) a" "contains_pos (fst f) a"
  shows "e = f"
proof (rule ccontr)
  assume "e \<noteq> f"
  then have "range_set (fst e) \<inter> range_set (fst f) = {}" using assms(1-3) by (simp add: apart_def)
  moreover have "a \<in> range_set (fst e) \<inter> range_set (fst f)" using assms(4,5) by simp
  ultimately show False by simp
qed

lemma dev_at_iff:
  assumes "apart (devices pm)"
  shows "dev_at pm a = Some (r, d) \<longleftrightarrow> (r, d) \<in> set (devices pm) \<and> contains_pos r a"
proof
  assume "dev_at pm a = Some (r, d)"
  then show "(r, d) \<in> set (devices pm) \<and> contains_pos r a"
    using dev_at_SomeD [of pm a "(r, d)"] by simp
next
  assume rd: "(r, d) \<in> set (devices pm) \<and> contains_pos r a"
  then have "dev_at pm a \<noteq> None" by (auto simp: dev_at_def find_None_iff)
  then obtain r' d' where f: "dev_at pm a = Some (r', d')" by auto
  then have "(r', d') \<in> set (devices pm)" "contains_pos r' a" using dev_at_SomeD [OF f] by simp_all
  then have "(r', d') = (r, d)"
    using apartD [OF assms, of "(r', d')" "(r, d)" a] rd by auto
  then show "dev_at pm a = Some (r, d)" using f by simp
qed

lemma dev_at_None_iff: "dev_at pm a = None \<longleftrightarrow> (\<forall>e\<in>set (devices pm). \<not> contains_pos (fst e) a)"
  by (auto simp: dev_at_def find_None_iff)

lemma findDevice_eq:
  assumes "pm_ok E pm"
  shows "case dev_at pm a of
      None \<Rightarrow> findDevice a pm = Inl InvalidAddressError
    | Some e \<Rightarrow> \<exists>pm'. findDevice a pm = Inr (e, pm') \<and> pm_ok E pm' \<and> same_memory pm pm'"
proof (cases "contains_pos (lastAccessedRange pm) a")
  case True
  then have "leftBorder (lastAccessedRange pm) \<noteq> rightBorder (lastAccessedRange pm)"
    by (auto simp: contains_pos_def)
  then obtain d where d: "lastAccessedDevice pm = Some d" "(lastAccessedRange pm, d) \<in> set (devices pm)"
    using assms by (auto simp: pm_ok_def cache_hit_ok_def split: option.splits)
  then have "dev_at pm a = Some (lastAccessedRange pm, d)"
    using True assms by (simp add: dev_at_iff pm_ok_def)
  then show ?thesis using True d assms by (simp add: findDevice_def same_memory_def)
next
  case False
  show ?thesis
  proof (cases "dev_at pm a")
    case None
    then show ?thesis using False by (simp add: findDevice_def dev_at_def)
  next
    case (Some e)
    then have "e \<in> set (devices pm)" by (rule dev_at_SomeD)
    then have "pm_ok E (pm\<lparr>lastAccessedRange := fst e, lastAccessedDevice := Some (snd e)\<rparr>)"
      using assms by (simp add: pm_ok_def cache_hit_ok_def)
    moreover have "same_memory pm (pm\<lparr>lastAccessedRange := fst e, lastAccessedDevice := Some (snd e)\<rparr>)"
      by (simp add: same_memory_def)
    ultimately show ?thesis using Some False by (auto simp: findDevice_def dev_at_def split: prod.splits)
  qed
qed

lemma findDevice_at:
  assumes "pm_ok E pm" and "(r, d) \<in> set (devices pm)" and "contains_pos r a"
  obtains pm' where "findDevice a pm = Inr ((r, d), pm')" "pm_ok E pm'" "same_memory pm pm'"
  using findDevice_eq [OF assms(1), of a] assms dev_at_iff [of pm a r d] by (auto simp: pm_ok_def)

section \<open>Areas inside one device\<close>

definition pm_area :: "PhysMem \<Rightarrow> RV64Ptr \<Rightarrow> nat \<Rightarrow> bool" where
  "pm_area pm a n \<longleftrightarrow> access_width n \<and>
     (\<exists>(r, d)\<in>set (devices pm). leftBorder r \<le> a \<and> unat a + n \<le> unat (rightBorder r) \<and>
        n dvd unat (a - leftBorder r))"

lemma pm_areaE:
  assumes "pm_area pm a n"
  obtains r d where "(r, d) \<in> set (devices pm)" "contains_pos r a" "access_width n"
    "leftBorder r \<le> a" "unat a + n \<le> unat (rightBorder r)" "n dvd unat (a - leftBorder r)"
proof -
  from assms obtain r d where rd: "(r, d) \<in> set (devices pm)" "leftBorder r \<le> a"
    "unat a + n \<le> unat (rightBorder r)" "n dvd unat (a - leftBorder r)" "access_width n"
    by (auto simp: pm_area_def)
  moreover have "0 < n" using access_width_dvd [OF rd(5)] by simp
  then have "contains_pos r a" using rd by (simp add: contains_pos_def word_less_nat_alt)
  ultimately show thesis using that by blast
qed

lemma pm_area_fits: "pm_area pm a n \<Longrightarrow> unat a + n \<le> 2 ^ 64"
proof -
  assume "pm_area pm a n"
  then obtain r :: "RV64Ptr Range" where "unat a + n \<le> unat (rightBorder r)" by (auto elim: pm_areaE)
  then show ?thesis using unsigned_less [where 'a = nat, of "rightBorder r"] by simp
qed

lemma pm_peek_in:
  assumes "apart (devices pm)" and "(r, d) \<in> set (devices pm)" and "contains_pos r a"
  shows "pm_peek pm a = ram_peek (pm_host pm) (rams pm ! d) (a - leftBorder r)"
  using dev_at_iff [OF assms(1), of a r d] assms(2,3) by (simp add: pm_peek_def)

lemma mem_get_device:
  assumes "apart (devices pm)" and "(r, d) \<in> set (devices pm)"
    and "leftBorder r \<le> a" and "unat a + n \<le> unat (rightBorder r)"
  shows "mem_get n (a - leftBorder r) (ram_peek (pm_host pm) (rams pm ! d)) = mem_get n a (pm_peek pm)"
proof (rule nth_equalityI)
  fix i
  assume "i < length (mem_get n (a - leftBorder r) (ram_peek (pm_host pm) (rams pm ! d)))"
  then have i: "i < n" by simp
  have "unat a + n \<le> 2 ^ 64" using assms(4) unsigned_less [where 'a = nat, of "rightBorder r"] by simp
  then have "unat (a + of_nat i) = unat a + i" using i by (rule unat_add_offset)
  then have "contains_pos r (a + of_nat i)"
    using assms(3,4) i by (simp add: contains_pos_def word_less_nat_alt word_le_nat_alt)
  then show "mem_get n (a - leftBorder r) (ram_peek (pm_host pm) (rams pm ! d)) ! i = mem_get n a (pm_peek pm) ! i"
    using i pm_peek_in [OF assms(1,2)] by (simp add: algebra_simps)
qed simp

section \<open>Loads\<close>

lemma pm_load_law:
  assumes ok: "pm_ok E pm" and area: "pm_area pm a n" and len: "LENGTH('a) = 8 * n"
  shows "\<exists>pm'. pm_load (ram_load :: _ \<Rightarrow> _ \<Rightarrow> _ \<Rightarrow> 'a::len word res) a pm = Inr (le_word (mem_get n a (pm_peek pm)), pm') \<and>
           pm_ok E pm' \<and> same_memory pm pm'"
proof -
  obtain r d where rd: "(r, d) \<in> set (devices pm)" "contains_pos r a" "access_width n"
    "leftBorder r \<le> a" "unat a + n \<le> unat (rightBorder r)" "n dvd unat (a - leftBorder r)"
    using area by (rule pm_areaE)
  obtain pm' where f: "findDevice a pm = Inr ((r, d), pm')" "pm_ok E pm'" "same_memory pm pm'"
    using findDevice_at [OF ok rd(1,2)] by blast
  have mem: "rams pm' = rams pm" "pm_host pm' = pm_host pm" using f(3) by (simp_all add: same_memory_def)
  have "apart (devices pm)" "ram_ok E (pm_host pm) (rams pm ! d)"
    using ok rd(1) by (auto simp: pm_ok_def dev_ok_def rams_ok_def)
  then have "(ram_load (a - leftBorder r) (rams pm ! d) (pm_host pm) :: 'a word res) =
      Inr (le_word (mem_get n a (pm_peek pm)))"
    using ram_load_eq [OF _ len rd(3), of E "pm_host pm" "rams pm ! d" "a - leftBorder r"] rd(6)
      mem_get_device [OF _ rd(1,4,5)] by simp
  then show ?thesis using f mem by (simp add: pm_load_def)
qed

section \<open>Stores\<close>

lemma ram_owned_bound: "ram_ok E h r \<Longrightarrow> b \<in> ram_owned r \<Longrightarrow> b < length h"
  by (auto simp: ram_ok_def alloc_ok_def chunk_ok_def ram_owned_def owned_def)

lemma ram_frame:
  assumes r: "ram_ok E h r" and len: "length h \<le> length h'" and same: "\<And>b. b \<in> ram_owned r \<Longrightarrow> h' ! b = h ! b"
  shows "ram_ok E h' r" and "ram_peek h' r = ram_peek h r"
proof -
  have own: "chunk_block c \<in> ram_owned r" if "c \<in> set (chunks (allocator r))" for c
    using that by (simp add: ram_owned_def owned_def)
  have "chunk_ok h' P c" if "c \<in> set (chunks (allocator r))" "chunk_ok h P c" for c P
    using that(2) same [OF own [OF that(1)]] len by (simp add: chunk_ok_def)
  moreover have "snd (h' ! chunk_block (last (chunks (allocator r)))) k = snd (h ! chunk_block (last (chunks (allocator r)))) k"
    if "chunks (allocator r) \<noteq> []" for k
    using same [OF own [OF last_in_set [OF that]]] by simp
  ultimately have "alloc_ok E h' (allocator r)"
    using r by (simp add: ram_ok_def alloc_ok_def)
  then show "ram_ok E h' r" using r by (simp add: ram_ok_def)
  show "ram_peek h' r = ram_peek h r"
  proof
    fix a
    show "ram_peek h' r a = ram_peek h r a"
    proof (cases "pagemap r (getPageId r a)")
      case None
      then show ?thesis by (simp add: ram_peek_def getPageAddress_def)
    next
      case (Some p)
      then obtain b x where "p = Ptr b x" "b \<in> ram_owned r" using ram_page [OF r Some] by metis
      then show ?thesis using Some same by (simp add: ram_peek_def getPageAddress_def)
    qed
  qed
qed

lemma rams_okD:
  "rams_ok E h rs \<Longrightarrow> d < length rs \<Longrightarrow> e < length rs \<Longrightarrow> e \<noteq> d \<Longrightarrow> b \<in> ram_owned (rs ! e) \<Longrightarrow> b \<notin> ram_owned (rs ! d)"
  unfolding rams_ok_def by (metis disjoint_iff)

lemma rams_step:
  assumes ok: "rams_ok E h rs" and d: "d < length rs" and step: "ram_step E (rs ! d) h r' h'"
  shows "rams_ok E h' (rs[d := r'])"
    and "e < length rs \<Longrightarrow> e \<noteq> d \<Longrightarrow> ram_peek h' (rs ! e) = ram_peek h (rs ! e)"
proof -
  have frame: "ram_ok E h' (rs ! e) \<and> ram_peek h' (rs ! e) = ram_peek h (rs ! e)" if e: "e < length rs" "e \<noteq> d" for e
  proof -
    have eok: "ram_ok E h (rs ! e)" using ok e by (simp add: rams_ok_def)
    have "h' ! b = h ! b" if "b \<in> ram_owned (rs ! e)" for b
    proof -
      have "b \<notin> ram_owned (rs ! d)" using rams_okD [OF ok d e(1)] e(2) that by blast
      then show ?thesis using step ram_owned_bound [OF eok that] by (simp add: ram_step_def)
    qed
    moreover have "length h \<le> length h'" using step by (simp add: ram_step_def)
    ultimately show ?thesis using ram_frame [OF eok] by blast
  qed
  show "ram_peek h' (rs ! e) = ram_peek h (rs ! e)" if "e < length rs" "e \<noteq> d"
    using frame [OF that] ..
  have dis: "ram_owned r' \<inter> ram_owned (rs ! e) = {}" if e: "e < length rs" "e \<noteq> d" for e
  proof -
    have eok: "ram_ok E h (rs ! e)" using ok e by (simp add: rams_ok_def)
    have "ram_owned r' \<subseteq> ram_owned (rs ! d) \<union> {length h ..< length h'}" using step by (simp add: ram_step_def)
    then have "b \<in> ram_owned (rs ! d)" if "b \<in> ram_owned r'" "b < length h" for b using that by auto
    then show ?thesis using rams_okD [OF ok d e] ram_owned_bound [OF eok] by blast
  qed
  show "rams_ok E h' (rs[d := r'])"
    unfolding rams_ok_def
  proof (intro conjI allI impI)
    fix e
    assume "e < length (rs[d := r'])"
    then show "ram_ok E h' (rs[d := r'] ! e)"
      using frame [of e] step d by (cases "e = d") (simp_all add: ram_step_def)
  next
    fix e f
    assume ef: "e < length (rs[d := r'])" "f < length (rs[d := r'])" "e \<noteq> f"
    show "ram_owned (rs[d := r'] ! e) \<inter> ram_owned (rs[d := r'] ! f) = {}"
    proof (cases "e = d \<or> f = d")
      case True
      then show ?thesis using ef d dis [of e] dis [of f] by (auto simp: nth_list_update)
    next
      case False
      then show ?thesis using ef rams_okD [OF ok, of f e] by auto
    qed
  qed
qed

lemma cache_hit_ok_update: "cache_hit_ok (pm\<lparr>rams := rs, pm_host := h\<rparr>) = cache_hit_ok pm"
  by (simp add: cache_hit_ok_def split: option.split)

text \<open>\<open>pm_ext\<close>: the memory after an operation has the same devices, and every page is where it was.\<close>

definition pm_ext :: "PhysMem \<Rightarrow> PhysMem \<Rightarrow> bool" where
  "pm_ext pm pm' \<longleftrightarrow> devices pm' = devices pm \<and> length (rams pm') = length (rams pm) \<and>
     (\<forall>d<length (rams pm). pageSize (rams pm' ! d) = pageSize (rams pm ! d) \<and>
        pagemap (rams pm ! d) \<subseteq>\<^sub>m pagemap (rams pm' ! d))"

lemma pm_ext_same: "same_memory pm pm' \<Longrightarrow> pm_ext pm pm'"
  by (simp add: same_memory_def pm_ext_def map_le_def)

lemma pm_ext_trans: "pm_ext pm pm' \<Longrightarrow> pm_ext pm' pm'' \<Longrightarrow> pm_ext pm pm''"
  by (auto simp: pm_ext_def intro: map_le_trans)

lemma pm_step_ok:
  assumes ok: "pm_ok E pm" and d: "d < length (rams pm)"
    and step: "ram_step E (rams pm ! d) (pm_host pm) ram h"
  shows "pm_ok E (pm\<lparr>rams := (rams pm)[d := ram], pm_host := h\<rparr>)"
    and "pm_ext pm (pm\<lparr>rams := (rams pm)[d := ram], pm_host := h\<rparr>)"
proof -
  have "rams_ok E h ((rams pm)[d := ram])"
    using rams_step(1) [OF _ d step] ok by (simp add: pm_ok_def)
  moreover have "dev_ok ((rams pm)[d := ram]) e" if "dev_ok (rams pm) e" for e
    using that step d by (cases "snd e = d") (auto simp: dev_ok_def ram_step_def)
  ultimately show "pm_ok E (pm\<lparr>rams := (rams pm)[d := ram], pm_host := h\<rparr>)"
    using ok by (simp add: pm_ok_def cache_hit_ok_update)
  show "pm_ext pm (pm\<lparr>rams := (rams pm)[d := ram], pm_host := h\<rparr>)"
    unfolding pm_ext_def
  proof (intro conjI allI impI)
    fix e
    assume "e < length (rams pm)"
    then show "pageSize (rams (pm\<lparr>rams := (rams pm)[d := ram], pm_host := h\<rparr>) ! e) = pageSize (rams pm ! e)"
      and "pagemap (rams pm ! e) \<subseteq>\<^sub>m pagemap (rams (pm\<lparr>rams := (rams pm)[d := ram], pm_host := h\<rparr>) ! e)"
      using step d by (cases "e = d"; simp add: ram_step_def)+
  qed simp_all
qed

text \<open>Replacing the RAM of one device by one whose bytes were updated updates the physical memory.\<close>

lemma in_area_shift:
  assumes "l \<le> a" "l \<le> (a' :: u64)"
  shows "in_area (a - l) n (a' - l) \<longleftrightarrow> in_area a n a'" and "unat (a' - l) - unat (a - l) = unat a' - unat a"
proof -
  have "unat (a' - l) = unat a' - unat l" "unat l \<le> unat a'" "unat (a - l) = unat a - unat l" "unat l \<le> unat a"
    using assms by (simp_all add: unat_sub word_le_nat_alt)
  then show "in_area (a - l) n (a' - l) \<longleftrightarrow> in_area a n a'" "unat (a' - l) - unat (a - l) = unat a' - unat a"
    by (auto simp: in_area_def)
qed

lemma pm_update:
  assumes ok: "pm_ok E pm" and rd: "(r, d) \<in> set (devices pm)" "contains_pos r a"
    and fit: "unat a + length bs \<le> unat (rightBorder r)"
    and step: "ram_step E (rams pm ! d) (pm_host pm) ram h"
    and put: "ram_peek h ram = mem_put (a - leftBorder r) bs (ram_peek (pm_host pm) (rams pm ! d))"
  defines "pm' \<equiv> pm\<lparr>rams := (rams pm)[d := ram], pm_host := h\<rparr>"
  shows "pm_ok E pm'" and "pm_peek pm' = mem_put a bs (pm_peek pm)"
proof -
  have d: "d < length (rams pm)" and left: "leftBorder r \<le> a" and ap: "apart (devices pm)" and ro: "rams_ok E (pm_host pm) (rams pm)"
    using ok rd by (auto simp: pm_ok_def dev_ok_def contains_pos_def)
  note R = rams_step [OF ro d step]
  show "pm_ok E pm'" unfolding pm'_def by (rule pm_step_ok(1) [OF ok d step])
  show "pm_peek pm' = mem_put a bs (pm_peek pm)"
  proof
    fix a'
    have dev: "dev_at pm' a' = dev_at pm a'" by (simp add: dev_at_def pm'_def)
    show "pm_peek pm' a' = mem_put a bs (pm_peek pm) a'"
    proof (cases "dev_at pm a' = Some (r, d)")
      case True
      then have c: "contains_pos r a'" using dev_at_iff [OF ap] by blast
      then have "leftBorder r \<le> a'" by (simp add: contains_pos_def)
      note in_area_shift(1) [OF left this, of "length bs"] in_area_shift(2) [OF left this]
      then show ?thesis
        using True d by (simp add: pm_peek_def dev mem_put_def) (simp add: pm'_def put mem_put_def)
    next
      case False
      have "\<not> in_area a (length bs) a'"
      proof
        assume i: "in_area a (length bs) a'"
        then have "contains_pos r a'"
          using left fit by (auto simp: in_area_def contains_pos_def word_le_nat_alt word_less_nat_alt)
        then show False using False rd(1) dev_at_iff [OF ap] by blast
      qed
      moreover have "pm_peek pm' a' = pm_peek pm a'"
      proof (cases "dev_at pm a'")
        case None
        then show ?thesis by (simp add: pm_peek_def dev)
      next
        case (Some e)
        then have e: "e \<in> set (devices pm)" "e \<noteq> (r, d)" using False dev_at_iff [OF ap] by (cases e, auto)+
        then have "snd e \<noteq> d" using ap rd(1) unfolding apart_def by (metis snd_conv)
        moreover have "snd e < length (rams pm)" using ok e(1) by (simp add: pm_ok_def dev_ok_def)
        ultimately show ?thesis
          using R(2) [of "snd e"] Some by (cases e) (simp add: pm_peek_def dev, simp add: pm'_def)
      qed
      ultimately show ?thesis by (simp add: mem_put_def)
    qed
  qed
qed

lemma pm_store_law:
  fixes v :: "'a::len word"
  assumes ok: "pm_ok E pm" and mm: "mmap_ok E" and area: "pm_area pm a n" and len: "LENGTH('a) = 8 * n"
  shows "\<exists>pm'. pm_store (ram_store E) a v pm = Inr pm' \<and> pm_ok E pm' \<and>
           pm_peek pm' = mem_put a (le_bytes n v) (pm_peek pm) \<and> devices pm' = devices pm"
proof -
  obtain r d where rd: "(r, d) \<in> set (devices pm)" "contains_pos r a" "access_width n"
    "leftBorder r \<le> a" "unat a + n \<le> unat (rightBorder r)" "n dvd unat (a - leftBorder r)"
    using area by (rule pm_areaE)
  obtain pm1 where f: "findDevice a pm = Inr ((r, d), pm1)" "pm_ok E pm1" "same_memory pm pm1"
    using findDevice_at [OF ok rd(1,2)] by blast
  have mem: "devices pm1 = devices pm" using f(3) by (simp_all add: same_memory_def)
  have "ram_ok E (pm_host pm1) (rams pm1 ! d)"
    using f(2) rd(1) mem by (auto simp: pm_ok_def dev_ok_def rams_ok_def)
  from ram_store_eq [OF this mm len rd(3), of "a - leftBorder r" v] rd(6)
  obtain ram h where s: "ram_store E (a - leftBorder r) v (rams pm1 ! d) (pm_host pm1) = Inr (ram, h)"
    "ram_step E (rams pm1 ! d) (pm_host pm1) ram h"
    "ram_peek h ram = mem_put (a - leftBorder r) (le_bytes n v) (ram_peek (pm_host pm1) (rams pm1 ! d))"
    by auto
  note U = pm_update [OF f(2) _ rd(2) _ s(2,3)]
  have "pm_store (ram_store E) a v pm = Inr (pm1\<lparr>rams := (rams pm1)[d := ram], pm_host := h\<rparr>)"
    using f(1) s(1) by (simp add: pm_store_def)
  then show ?thesis
    using U rd mem same_memory_peek [OF f(3)] by simp
qed

text \<open>A store that succeeds keeps the invariant, wherever the address lies.\<close>

lemma pm_store_keeps:
  fixes v :: "'a::len word"
  assumes ok: "pm_ok E pm" and mm: "mmap_ok E" and len: "LENGTH('a) = 8 * n" "access_width n"
    and st: "pm_store (ram_store E) a v pm = Inr pm'"
  shows "pm_ok E pm' \<and> pm_ext pm pm'"
proof -
  obtain r d pm1 where f: "findDevice a pm = Inr ((r, d), pm1)"
    using st by (cases "findDevice a pm") (auto simp: pm_store_def)
  obtain e where e: "dev_at pm a = Some e"
    using findDevice_eq [OF ok, of a] f by (cases "dev_at pm a") auto
  have ok1: "pm_ok E pm1" "same_memory pm pm1" "e = (r, d)"
    using findDevice_eq [OF ok, of a] f e by auto
  have d: "d < length (rams pm1)" "ram_ok E (pm_host pm1) (rams pm1 ! d)"
    using dev_at_SomeD(1) [OF e] ok1 by (auto simp: pm_ok_def dev_ok_def rams_ok_def same_memory_def)
  obtain ram h where s: "ram_store E (a - leftBorder r) v (rams pm1 ! d) (pm_host pm1) = Inr (ram, h)"
    and pm': "pm' = pm1\<lparr>rams := (rams pm1)[d := ram], pm_host := h\<rparr>"
    using st f by (auto simp: pm_store_def bindE_eq_Inr_iff)
  have "ram_step E (rams pm1 ! d) (pm_host pm1) ram h"
    using ram_store_eq [OF d(2) mm len, of "a - leftBorder r" v] s by (auto split: if_splits)
  from pm_step_ok [OF ok1(1) d(1) this] show ?thesis
    using pm_ext_trans [OF pm_ext_same [OF ok1(2)]] unfolding pm' by blast
qed

lemma findDevice_keeps:
  assumes "pm_ok E pm" and "findDevice a pm = Inr (e, pm')"
  shows "pm_ok E pm' \<and> same_memory pm pm' \<and> e \<in> set (devices pm) \<and> contains_pos (fst e) a"
proof -
  obtain f where f: "dev_at pm a = Some f"
    using findDevice_eq [OF assms(1), of a] assms(2) by (cases "dev_at pm a") auto
  then show ?thesis using findDevice_eq [OF assms(1), of a] assms(2) dev_at_SomeD [OF f] by auto
qed

lemma pm_load_keeps: "pm_ok E pm \<Longrightarrow> pm_load ld a pm = Inr (v, pm') \<Longrightarrow> pm_ok E pm' \<and> same_memory pm pm'"
  using findDevice_keeps by (fastforce simp: pm_load_def bindE_eq_Inr_iff)

section \<open>Physical memory is a memory device\<close>

definition pm_inv :: "os \<Rightarrow> PhysMem \<Rightarrow> bool" where
  "pm_inv E pm \<longleftrightarrow> mmap_ok E \<and> pm_ok E pm"

lemma pm_area_devices: "devices pm' = devices pm \<Longrightarrow> pm_area pm' = pm_area pm"
  by (simp add: pm_area_def fun_eq_iff)

lemma pm_ld_device:
  assumes "pm_inv E pm" "pm_area pm a n" "LENGTH('a) = 8 * n"
  shows "\<exists>pm'. pm_load (ram_load :: _ \<Rightarrow> _ \<Rightarrow> _ \<Rightarrow> 'a::len word res) a pm = Inr (le_word (mem_get n a (pm_peek pm)), pm') \<and>
           pm_inv E pm' \<and> pm_peek pm' = pm_peek pm \<and> pm_area pm' = pm_area pm"
  using pm_load_law [of E pm a n, where 'a = 'a] assms same_memory_peek
  by (metis pm_area_devices pm_inv_def same_memory_def)

lemma pm_st_device:
  fixes v :: "'a::len word"
  assumes "pm_inv E pm" "pm_area pm a n" "LENGTH('a) = 8 * n"
  shows "\<exists>pm'. pm_store (ram_store E) a v pm = Inr pm' \<and> pm_inv E pm' \<and>
           pm_peek pm' = mem_put a (le_bytes n v) (pm_peek pm) \<and> pm_area pm' = pm_area pm"
  using pm_store_law [of E pm a n v] assms by (metis pm_area_devices pm_inv_def)

lemma ram_access_defs:
  "ram_loadByte = ram_load" "ram_loadHWord = ram_load" "ram_loadWord = ram_load" "ram_loadDWord = ram_load"
  "ram_storeByte E = ram_store E" "ram_storeHWord E = ram_store E"
  "ram_storeWord E = ram_store E" "ram_storeDWord E = ram_store E"
  by (simp_all add: fun_eq_iff ram_loadByte_def ram_loadHWord_def ram_loadWord_def ram_loadDWord_def
      ram_storeByte_def ram_storeHWord_def ram_storeWord_def ram_storeDWord_def)

lemmas pm_access_defs =
  pm_loadByte_def pm_loadHWord_def pm_loadWord_def pm_loadDWord_def
  pm_storeByte_def pm_storeHWord_def pm_storeWord_def pm_storeDWord_def ram_access_defs

interpretation pm: mem_device "pm_inv E" pm_peek pm_area
    pm_loadByte pm_loadHWord pm_loadWord pm_loadDWord
    "pm_storeByte E" "pm_storeHWord E" "pm_storeWord E" "pm_storeDWord E"
  for E
proof
  fix s a n
  assume "pm_area s a n"
  then show "unat a + n \<le> 2 ^ 64" by (rule pm_area_fits)
qed (unfold pm_access_defs, (rule pm_st_device pm_ld_device, assumption+, simp)+)

section \<open>Copying an area\<close>

definition whole_pages :: "PhysMem \<Rightarrow> bool" where
  "whole_pages pm \<longleftrightarrow>
     (\<forall>e\<in>set (devices pm). unat (pageSize (rams pm ! snd e)) dvd unat (range_size (fst e)))"

definition covered :: "PhysMem \<Rightarrow> RV64Ptr \<Rightarrow> nat \<Rightarrow> bool" where
  "covered pm a n \<longleftrightarrow> unat a + n < 2 ^ 64 \<and> (\<forall>i<n. dev_at pm (a + of_nat i) \<noteq> None)"

lemma page_rest_in_range:
  assumes ok: "pm_ok E pm" and wp: "whole_pages pm" and rd: "(r, d) \<in> set (devices pm)" "contains_pos r a"
  defines "rest \<equiv> unat (pageSize (rams pm ! d) - getPageOffset (rams pm ! d) (a - leftBorder r))"
  shows "0 < rest" and "unat a + rest \<le> unat (rightBorder r)"
    and "unat (getPageOffset (rams pm ! d) (a - leftBorder r)) + rest = unat (pageSize (rams pm ! d))"
proof -
  let ?P = "unat (pageSize (rams pm ! d))" and ?L = "unat (leftBorder r)" and ?R = "unat (rightBorder r)"
  let ?f = "unat (getPageOffset (rams pm ! d) (a - leftBorder r))"
  have ram: "ram_ok E (pm_host pm) (rams pm ! d)"
    using ok rd(1) by (auto simp: pm_ok_def dev_ok_def rams_ok_def)
  have lr: "?L \<le> unat a" "unat a < ?R"
    using rd(2) by (simp_all add: contains_pos_def word_le_nat_alt word_less_nat_alt)
  have sub: "unat (a - leftBorder r) = unat a - ?L"
    using rd(2) by (simp add: contains_pos_def unat_sub)
  have size: "unat (range_size r) = ?R - ?L"
    using lr by (simp add: range_size_def unat_sub word_le_nat_alt)
  have f: "?f = (unat a - ?L) mod ?P"
    by (simp add: getPageOffset_def unat_mod_distrib sub)
  have fP: "?f < ?P" by (rule page_address(1) [OF ram])
  then have rest: "rest = ?P - ?f"
    by (simp add: rest_def unat_sub word_le_nat_alt)
  show "0 < rest" and "?f + rest = ?P" using fP rest by simp_all
  have "?P dvd ?R - ?L" using wp rd(1) size by (auto simp: whole_pages_def)
  moreover have "?P dvd (unat a - ?L) - ?f" unfolding f by (rule dvd_minus_mod)
  moreover have "(unat a - ?L) - ?f < ?R - ?L" using lr by simp
  ultimately have "(unat a - ?L) - ?f + ?P \<le> ?R - ?L" by (intro multiple_room)
  moreover have "?f \<le> unat a - ?L" unfolding f by simp
  ultimately show "unat a + rest \<le> ?R" using rest fP lr by linarith
qed

lemma storeContArea_step:
  assumes ok: "pm_ok E pm" and mm: "mmap_ok E" and wp: "whole_pages pm" and c: "dev_at pm b \<noteq> None"
  shows "\<exists>p n pm1. pm_touchHostAddress E b pm = Inr ((p, n), pm1) \<and> p \<noteq> NullPtr \<and> 0 < unat n \<and>
    (\<forall>bs. length bs \<le> unat n \<longrightarrow>
      (\<exists>h. host_write bs p (pm_host pm1) = Inr h \<and> pm_ok E (pm1\<lparr>pm_host := h\<rparr>) \<and>
           pm_peek (pm1\<lparr>pm_host := h\<rparr>) = mem_put b bs (pm_peek pm) \<and>
           devices pm1 = devices pm \<and> whole_pages (pm1\<lparr>pm_host := h\<rparr>)))"
proof -
  obtain r d where rd: "(r, d) \<in> set (devices pm)" "contains_pos r b"
    using c dev_at_SomeD by fastforce
  obtain pm1 where f: "findDevice b pm = Inr ((r, d), pm1)" "pm_ok E pm1" "same_memory pm pm1"
    using findDevice_at [OF ok rd] by blast
  have mem: "devices pm1 = devices pm" "rams pm1 = rams pm" "pm_host pm1 = pm_host pm"
    using f(3) by (simp_all add: same_memory_def)
  let ?ram = "rams pm ! d"
  have d: "d < length (rams pm)" and ram: "ram_ok E (pm_host pm) ?ram"
    using ok rd(1) by (auto simp: pm_ok_def dev_ok_def rams_ok_def)
  obtain k x r' h' where t: "ram_touchHostAddress E (b - leftBorder r) ?ram (pm_host pm) =
      Inr ((Ptr k (x + unat (getPageOffset ?ram (b - leftBorder r))), pageSize ?ram - getPageOffset ?ram (b - leftBorder r)), r', h')"
    "touched E (b - leftBorder r) ?ram (pm_host pm) k x r' h'"
    using touchHostAddress_ok [OF ram mm] by blast
  let ?n = "pageSize ?ram - getPageOffset ?ram (b - leftBorder r)"
  let ?p = "Ptr k (x + unat (getPageOffset ?ram (b - leftBorder r)))"
  let ?pm = "pm1\<lparr>rams := (rams pm)[d := r'], pm_host := h'\<rparr>"
  note P = page_rest_in_range [OF ok wp rd]
  have "pm_touchHostAddress E b pm = Inr ((?p, ?n), ?pm)"
    using f(1) t(1) mem by (simp add: pm_touchHostAddress_def)
  moreover have "\<exists>h. host_write bs ?p (pm_host ?pm) = Inr h \<and> pm_ok E (?pm\<lparr>pm_host := h\<rparr>) \<and>
      pm_peek (?pm\<lparr>pm_host := h\<rparr>) = mem_put b bs (pm_peek pm) \<and> devices ?pm = devices pm \<and>
      whole_pages (?pm\<lparr>pm_host := h\<rparr>)"
    if bs: "length bs \<le> unat ?n" for bs
  proof -
    define h where "h = h'[k := (fst (h' ! k), write_bytes bs (x + unat (getPageOffset ?ram (b - leftBorder r))) (snd (h' ! k)))]"
    have fit: "unat (getPageOffset ?ram (b - leftBorder r)) + length bs \<le> unat (pageSize ?ram)"
      using bs P(3) by linarith
    note W = touch_write [OF ram t(2) fit, folded h_def]
    have upd: "?pm\<lparr>pm_host := h\<rparr> = pm1\<lparr>rams := (rams pm1)[d := r'], pm_host := h\<rparr>"
      using mem by simp
    have U: "pm_ok E (pm1\<lparr>rams := (rams pm1)[d := r'], pm_host := h\<rparr>)"
      "pm_peek (pm1\<lparr>rams := (rams pm1)[d := r'], pm_host := h\<rparr>) = mem_put b bs (pm_peek pm1)"
      using pm_update [OF f(2) _ rd(2), of d bs r' h] W(2,3) rd(1) mem bs P(2) by simp_all
    have "whole_pages (pm1\<lparr>rams := (rams pm1)[d := r'], pm_host := h\<rparr>)"
      using wp W(2) d mem unfolding whole_pages_def ram_step_def by (auto simp: nth_list_update)
    then show ?thesis using W(1) U mem same_memory_peek [OF f(3)] unfolding upd by simp
  qed
  ultimately show ?thesis using P(1) by blast
qed

lemma covered_advance:
  assumes "covered pm a n" "k \<le> n" "devices pm' = devices pm"
  shows "covered pm' (a + of_nat k) (n - k)"
proof -
  have "unat a + (n + 1) \<le> 2 ^ 64" using assms(1) by (simp add: covered_def)
  then have "unat (a + of_nat k) = unat a + k" using assms(2) by (intro unat_add_offset [of a "n + 1"]) simp_all
  moreover have "dev_at pm' (a + of_nat k + of_nat i) \<noteq> None" if "i < n - k" for i
  proof -
    have "k + i < n" using that by simp
    then have "dev_at pm (a + of_nat (k + i)) \<noteq> None" using assms(1) unfolding covered_def by blast
    then show ?thesis using assms(3) by (simp add: dev_at_def add.assoc)
  qed
  ultimately show ?thesis using assms(1,2) by (simp add: covered_def)
qed

lemma mem_put_take_drop:
  assumes "unat (a + of_nat i) + length (drop i data) < 2 ^ 64" and "length (take k (drop i data)) = k"
  shows "mem_put (a + of_nat (i + k)) (drop (i + k) data) (mem_put (a + of_nat i) (take k (drop i data)) f) =
    mem_put (a + of_nat i) (drop i data) f"
proof -
  have "drop i data = take k (drop i data) @ drop (i + k) data"
    by (metis add.commute append_take_drop_id drop_drop)
  then show ?thesis
    using mem_put_append [of "a + of_nat i" "take k (drop i data)" "drop (i + k) data" f] assms by (simp add: add.assoc)
qed

lemma storeContArea_loop_ok:
  assumes "mmap_ok E" and "pm_ok E pm" and "whole_pages pm"
    and "covered pm (a + of_nat i) (length data - i)" and "i \<le> length data" and "length data - i \<le> fuel"
  shows "\<exists>pm'. storeContArea_loop fuel E a data i pm = Inr pm' \<and> pm_ok E pm' \<and> devices pm' = devices pm \<and>
           whole_pages pm' \<and> pm_peek pm' = mem_put (a + of_nat i) (drop i data) (pm_peek pm)"
  using assms(2-)
proof (induction fuel arbitrary: i pm)
  case 0
  then show ?case by simp
next
  case (Suc fuel)
  show ?case
  proof (cases "i < length data")
    case False
    then show ?thesis using Suc.prems by simp
  next
    case True
    have "0 < length data - i" using True by simp
    then have "dev_at pm (a + of_nat i + of_nat 0) \<noteq> None"
      using Suc.prems(3) unfolding covered_def by blast
    then have "dev_at pm (a + of_nat i) \<noteq> None" by simp
    from storeContArea_step [OF Suc.prems(1) assms(1) Suc.prems(2) this]
    obtain p n pm1 where T: "pm_touchHostAddress E (a + of_nat i) pm = Inr ((p, n), pm1)" "p \<noteq> NullPtr" "0 < unat n"
      and W: "\<And>bs. length bs \<le> unat n \<Longrightarrow>
        \<exists>h. host_write bs p (pm_host pm1) = Inr h \<and> pm_ok E (pm1\<lparr>pm_host := h\<rparr>) \<and>
           pm_peek (pm1\<lparr>pm_host := h\<rparr>) = mem_put (a + of_nat i) bs (pm_peek pm) \<and>
           devices pm1 = devices pm \<and> whole_pages (pm1\<lparr>pm_host := h\<rparr>)"
      by blast
    define k where "k = min (length data - i) (unat n)"
    have k: "0 < k" "i + k \<le> length data" "length (take k (drop i data)) = k" "k \<le> unat n"
      using True T(3) by (auto simp: k_def)
    obtain h where h: "host_write (take k (drop i data)) p (pm_host pm1) = Inr h" "pm_ok E (pm1\<lparr>pm_host := h\<rparr>)"
        "pm_peek (pm1\<lparr>pm_host := h\<rparr>) = mem_put (a + of_nat i) (take k (drop i data)) (pm_peek pm)"
        "devices pm1 = devices pm" "whole_pages (pm1\<lparr>pm_host := h\<rparr>)"
      using W [of "take k (drop i data)"] k(3,4) by metis
    have cov: "covered (pm1\<lparr>pm_host := h\<rparr>) (a + of_nat (i + k)) (length data - (i + k))"
      using covered_advance [OF Suc.prems(3), of k "pm1\<lparr>pm_host := h\<rparr>"] k h(4) by (simp add: add.assoc)
    have fuel: "length data - (i + k) \<le> fuel" using Suc.prems(5) k(1) by simp
    obtain pm' where pm': "storeContArea_loop fuel E a data (i + k) (pm1\<lparr>pm_host := h\<rparr>) = Inr pm'" "pm_ok E pm'"
        "devices pm' = devices (pm1\<lparr>pm_host := h\<rparr>)" "whole_pages pm'"
        "pm_peek pm' = mem_put (a + of_nat (i + k)) (drop (i + k) data) (pm_peek (pm1\<lparr>pm_host := h\<rparr>))"
      using Suc.IH [OF h(2,5) cov k(2) fuel] by blast
    have "storeContArea_loop (Suc fuel) E a data i pm = Inr pm'"
      using True T h(1) pm'(1) by (simp add: k_def Let_def)
    moreover have "unat (a + of_nat i) + length (drop i data) < 2 ^ 64"
      using Suc.prems(3) by (simp add: covered_def)
    then have "pm_peek pm' = mem_put (a + of_nat i) (drop i data) (pm_peek pm)"
      unfolding pm'(5) h(3) by (rule mem_put_take_drop) (rule k(3))
    ultimately show ?thesis using pm'(2-4) h(4) by (intro exI [of _ pm']) simp
  qed
qed

section \<open>Building\<close>

definition b_ok :: "os \<Rightarrow> PhysMemBuilder \<Rightarrow> bool" where
  "b_ok E b \<longleftrightarrow>
     (\<forall>e\<in>set (b_devices b). dev_ok (b_rams b) e \<and> leftBorder (fst e) < rightBorder (fst e)) \<and>
     apart (b_devices b) \<and>
     (\<forall>r\<in>set (b_rams b). ram_owned r = {} \<and> (\<forall>h. ram_ok E h r \<and> ram_peek h r = (\<lambda>_. 0)))"

lemma set_map_insert:
  "\<forall>x\<in>set xs. leftBorder (fst x) \<noteq> leftBorder (fst e) \<Longrightarrow> set (map_insert e xs) = insert e (set xs)"
  by (induction xs) (auto simp: range_less_def)

lemma apart_insert:
  assumes "set ds' = insert e (set ds)" "apart ds"
    and "\<And>f. f \<in> set ds \<Longrightarrow> snd f \<noteq> snd e \<and> range_set (fst f) \<inter> range_set (fst e) = {}"
  shows "apart ds'"
  unfolding apart_def
proof (intro ballI impI)
  fix f g
  assume fg: "f \<in> set ds'" "g \<in> set ds'" "f \<noteq> g"
  then consider "f \<in> set ds" "g \<in> set ds" | "f = e" "g \<in> set ds" | "g = e" "f \<in> set ds"
    using assms(1) by auto
  then show "snd f \<noteq> snd g \<and> range_set (fst f) \<inter> range_set (fst g) = {}"
  proof cases
    case 1
    then show ?thesis using fg(3) assms(2) unfolding apart_def by blast
  next
    case 2
    then show ?thesis using assms(3) [of g] by (metis Int_commute)
  next
    case 3
    then show ?thesis using assms(3) [of f] by blast
  qed
qed

lemma b_ok_empty [wf_intros]: "b_ok E mkPhysMemBuilder"
  by (simp add: b_ok_def mkPhysMemBuilder_def apart_def)

lemma mapRAM_ok:
  assumes b: "b_ok E b" and cfg: "cfg_ok E ps cs" and rs: "rs \<noteq> 0" "unat address + unat rs < 2 ^ 64"
    and free: "\<forall>e\<in>set (b_devices b). range_set (fst e) \<inter> range_set (mkRange address (address + rs)) = {}"
  shows "\<exists>b'. mapRAM address rs ps cs b = Inr b' \<and> b_ok E b' \<and>
    set (b_devices b') = insert (mkRange address (address + rs), length (b_rams b)) (set (b_devices b))"
proof -
  let ?R = "mkRange address (address + rs)" and ?n = "length (b_rams b)"
  obtain ram where ram: "mkRAM rs ps cs = Inr ram"
    using cfg_ok_facts(1-4) [OF cfg] rs(1) by (simp add: mkRAM_eq)
  note fresh = ram_ok_mkRAM [OF cfg ram]
  have right: "unat (address + rs) = unat address + unat rs" by (rule unat_add_no_wrap) (use rs in simp)
  have pos: "0 < unat rs" using rs(1) by (simp add: unat_gt_0)
  then have nonempty: "leftBorder ?R < rightBorder ?R" by (simp add: word_less_nat_alt right)
  then have self: "contains_pos ?R address" by (simp add: contains_pos_def)
  have dis: "\<not> contains_pos ?R (leftBorder (fst e))" "\<not> contains_pos (fst e) address" if e: "e \<in> set (b_devices b)" for e
  proof -
    have "contains_pos (fst e) (leftBorder (fst e))" using b e by (simp add: b_ok_def contains_pos_def)
    then show "\<not> contains_pos ?R (leftBorder (fst e))" "\<not> contains_pos (fst e) address"
      using free e self by (auto simp: disjoint_iff)
  qed
  have "\<not> contains_range ?R (fst e)" if e: "e \<in> set (b_devices b)" for e
  proof
    assume c: "contains_range ?R (fst e)"
    have "leftBorder (fst e) < rightBorder (fst e)" using b e by (simp add: b_ok_def)
    then have "contains_pos ?R (leftBorder (fst e))" using c by (auto simp: contains_range_def contains_pos_def)
    then show False using dis(1) [OF e] by blast
  qed
  then have map: "mapRAM address rs ps cs b =
      Inr (b\<lparr>b_devices := map_insert (?R, ?n) (b_devices b), b_rams := b_rams b @ [ram]\<rparr>)"
    using ram fresh(3) by (auto simp: mapRAM_def mapDevice_def ram_getSize_def Let_def)
  have "leftBorder (fst x) \<noteq> leftBorder ?R" if "x \<in> set (b_devices b)" for x
    using dis(1) [OF that] nonempty by (auto simp: contains_pos_def)
  then have set: "set (map_insert (?R, ?n) (b_devices b)) = insert (?R, ?n) (set (b_devices b))"
    by (intro set_map_insert) simp
  have old: "dev_ok (b_rams b @ [ram]) e \<and> snd e \<noteq> ?n" if "e \<in> set (b_devices b)" for e
    using b that by (auto simp: b_ok_def dev_ok_def nth_append)
  have new: "dev_ok (b_rams b @ [ram]) (?R, ?n)"
    using fresh(3) nonempty by (simp add: dev_ok_def range_size_def)
  have "apart (map_insert (?R, ?n) (b_devices b))"
    using b old free by (intro apart_insert [OF set]) (auto simp: b_ok_def)
  then have "b_ok E (b\<lparr>b_devices := map_insert (?R, ?n) (b_devices b), b_rams := b_rams b @ [ram]\<rparr>)"
    using b old new nonempty fresh(4) ram_ok_mkRAM(1,2) [OF cfg ram] by (simp add: b_ok_def set)
  then show ?thesis using map set by auto
qed

lemma build_ok [wf_intros]:
  assumes "b_ok E b"
  shows "pm_ok E (build h b)" and "pm_peek (build h b) = (\<lambda>_. 0)"
proof -
  have r: "ram_ok E h (b_rams b ! d)" "ram_owned (b_rams b ! d) = {}" "ram_peek h (b_rams b ! d) = (\<lambda>_. 0)"
    if "d < length (b_rams b)" for d
    using assms that by (simp_all add: b_ok_def)
  show "pm_ok E (build h b)"
    using assms r by (simp add: pm_ok_def build_def b_ok_def cache_hit_ok_def rams_ok_def)
  show "pm_peek (build h b) = (\<lambda>_. 0)"
  proof
    fix a
    show "pm_peek (build h b) a = 0"
    proof (cases "dev_at (build h b) a")
      case (Some e)
      then have "e \<in> set (b_devices b)" using dev_at_SomeD(1) by (fastforce simp: build_def)
      then have "snd e < length (b_rams b)" using assms by (simp add: b_ok_def dev_ok_def)
      then show ?thesis using Some r(3) by (cases e) (simp add: pm_peek_def, simp add: build_def)
    qed (simp add: pm_peek_def)
  qed
qed

section \<open>Properties\<close>

text \<open>A machine with one mebibyte of RAM at address zero, for the examples.\<close>

definition demo_pm :: PhysMem where
  "demo_pm = \<lparr>devices = [(mkRange 0 0x100000, 0)], lastAccessedRange = mkRange 0 0,
     lastAccessedDevice = None, rams = [demo_ram], pm_host = []\<rparr>"

lemma demo_pm_ok: "pm_ok plenty demo_pm" "pm_peek demo_pm = (\<lambda>_. 0)" "whole_pages demo_pm"
proof -
  have own: "ram_owned demo_ram = {}" by (rule ram_ok_mkRAM(4) [OF cfg_ok_plenty demo_ram_ok(1)])
  show "pm_ok plenty demo_pm"
    using demo_ram_ok(2) own
    by (simp add: pm_ok_def demo_pm_def dev_ok_def apart_def cache_hit_ok_def rams_ok_def range_size_def
        demo_ram_def [THEN arg_cong, of ramSize])
  show "pm_peek demo_pm = (\<lambda>_. 0)"
    by (rule ext) (auto simp: pm_peek_def dev_at_def demo_pm_def demo_ram_ok(3) split: option.split)
  show "whole_pages demo_pm"
    by (simp add: whole_pages_def demo_pm_def demo_ram_def range_size_def)
qed

lemma demo_pm_area: "a \<le> 0xFFFF8 \<Longrightarrow> 8 dvd unat a \<Longrightarrow> pm_area demo_pm a 8"
  by (simp add: pm_area_def demo_pm_def access_width_def word_le_nat_alt)

text \<open>
  C21: a value stored to physical memory is read back.  A double-word store inside one device
  succeeds, keeps the invariant, updates exactly the addressed bytes of the flat memory whichever
  devices the other addresses belong to, and a load of the same address returns the value.
\<close>
theorem phys_mem_store_load:
  assumes "pm_ok E pm" and "mmap_ok E" and "pm_area pm a 8"
  shows "\<exists>pm' pm''. pm_storeDWord E a v pm = Inr pm' \<and> pm_ok E pm' \<and>
           pm_peek pm' = mem_put a (le_bytes 8 v) (pm_peek pm) \<and>
           pm_loadDWord a pm' = Inr (v, pm'')"
proof -
  have inv: "pm_inv E pm" using assms(1,2) by (simp add: pm_inv_def)
  obtain pm' where "pm_storeDWord E a v pm = Inr pm'" "pm_inv E pm'"
      "pm_peek pm' = mem_put a (le_bytes 8 v) (pm_peek pm)"
    using pm.storeD [OF inv assms(3), of v] by blast
  moreover obtain pm'' where "pm_loadDWord a pm' = Inr (v, pm'')"
    using pm.load_stored_double [OF inv assms(3) calculation(1)] by blast
  ultimately show ?thesis by (auto simp: pm_inv_def)
qed

theorem phys_mem_store_load_witness:
  "\<exists>pm' pm''. pm_storeDWord plenty 0x1010 0x1122334455667788 demo_pm = Inr pm' \<and>
     pm_loadDWord 0x1010 pm' = Inr (0x1122334455667788, pm'')"
proof -
  have "pm_area demo_pm 0x1010 8" by (rule demo_pm_area) (simp_all add: word_le_nat_alt)
  from phys_mem_store_load [OF demo_pm_ok(1) mmap_ok_plenty this] show ?thesis by blast
qed

text \<open>
  The cached last range is transparent.  In a memory with disjoint ranges the device found for an
  address is the one whose range holds it, whatever was accessed before, and an address no range
  holds is an error; finding a device changes nothing but the cache.
\<close>
theorem findDevice_transparent:
  assumes "pm_ok E pm"
  shows "case dev_at pm a of
      None \<Rightarrow> findDevice a pm = Inl InvalidAddressError
    | Some e \<Rightarrow> \<exists>pm'. findDevice a pm = Inr (e, pm') \<and> pm_ok E pm' \<and> pm_peek pm' = pm_peek pm \<and>
                 devices pm' = devices pm"
proof (cases "dev_at pm a")
  case None
  then show ?thesis using findDevice_eq [OF assms, of a] by simp
next
  case (Some e)
  then obtain pm' where "findDevice a pm = Inr (e, pm')" "pm_ok E pm'" "same_memory pm pm'"
    using findDevice_eq [OF assms, of a] by auto
  then show ?thesis using Some same_memory_peek [of pm pm'] by (simp add: same_memory_def)
qed

theorem findDevice_transparent_witness:
  "(\<exists>pm'. findDevice 0x80 demo_pm = Inr ((mkRange 0 0x100000, 0), pm')) \<and>
   findDevice 0x100000 demo_pm = Inl InvalidAddressError"
proof -
  have "dev_at demo_pm 0x80 = Some (mkRange 0 0x100000, 0)" "dev_at demo_pm 0x100000 = None"
    by (simp_all add: dev_at_def demo_pm_def contains_pos_def word_less_nat_alt)
  then show ?thesis
    using findDevice_transparent [OF demo_pm_ok(1), of "0x80"] findDevice_transparent [OF demo_pm_ok(1), of "0x100000"]
    by auto
qed

text \<open>
  C15: copying an area into memory terminates and writes exactly the given bytes.  When every byte of
  the area belongs to some device and the devices consist of whole pages, the loop of
  \<^verbatim>\<open>storeContArea\<close> ends without an error, across page and device borders, and the flat memory
  afterwards differs from the one before in the bytes of the area only, which are the data.
\<close>
theorem storeContArea_correct:
  assumes "pm_ok E pm" and "mmap_ok E" and "whole_pages pm" and "covered pm a (length data)"
  shows "\<exists>pm'. storeContArea E a data pm = Inr pm' \<and> pm_ok E pm' \<and> devices pm' = devices pm \<and>
           pm_peek pm' = mem_put a data (pm_peek pm)"
  using storeContArea_loop_ok [OF assms(2,1,3), of a 0 data "length data"] assms(4)
  by (auto simp: storeContArea_def)

theorem storeContArea_correct_witness:
  "\<exists>pm'. storeContArea plenty 0xFFE [1, 2, 3, 4] demo_pm = Inr pm' \<and>
         map (pm_peek pm') [0xFFD, 0xFFE, 0xFFF, 0x1000, 0x1001, 0x1002] = [0, 1, 2, 3, 4, 0]"
proof -
  have "dev_at demo_pm a \<noteq> None" if "a < 0x100000" for a
    using that by (simp add: dev_at_def demo_pm_def contains_pos_def)
  moreover have "0xFFE + of_nat i < (0x100000 :: u64)" if "i < 4" for i
    using that by (simp add: word_less_nat_alt unat_add_offset [of _ 4])
  ultimately have "covered demo_pm 0xFFE (length [1, 2, 3, 4 :: u8])"
    unfolding covered_def by simp
  from storeContArea_correct [OF demo_pm_ok(1) mmap_ok_plenty demo_pm_ok(3) this]
  obtain pm' where "storeContArea plenty 0xFFE [1, 2, 3, 4] demo_pm = Inr pm'"
    "pm_peek pm' = mem_put 0xFFE [1, 2, 3, 4] (\<lambda>_. 0)"
    by (auto simp: demo_pm_ok(2))
  then show ?thesis by (auto simp: mem_put_def in_area_def)
qed

text \<open>
  Mapping a RAM into free address space builds a well-formed memory.  If the new range meets none
  of the mapped ones and does not wrap around, the builder accepts it, keeps what was mapped, and
  the memory built from the result satisfies the invariant and reads as zero.
\<close>
theorem mapRAM_builds:
  assumes "b_ok E b" and "cfg_ok E ps cs" and "rs \<noteq> 0" and "unat address + unat rs < 2 ^ 64"
    and "\<forall>e\<in>set (b_devices b). range_set (fst e) \<inter> range_set (mkRange address (address + rs)) = {}"
  shows "\<exists>b'. mapRAM address rs ps cs b = Inr b' \<and> b_ok E b' \<and>
    set (b_devices b') = insert (mkRange address (address + rs), length (b_rams b)) (set (b_devices b)) \<and>
    pm_ok E (build h b') \<and> pm_peek (build h b') = (\<lambda>_. 0)"
  using mapRAM_ok [OF assms] build_ok by blast

theorem mapRAM_builds_witness:
  "\<exists>b'. mapRAM 0x1000 0x2000 4096 65536 mkPhysMemBuilder = Inr b' \<and> pm_ok plenty (build [] b')"
  using mapRAM_builds [OF b_ok_empty cfg_ok_plenty, of "0x2000" "0x1000" "[]"]
  by (auto simp: mkPhysMemBuilder_def)

lemma mapRAM_two:
  assumes "mkRAM s1 ps1 cs1 = Inr ram1" and "mkRAM s2 ps2 cs2 = Inr ram2" and "l1 \<noteq> l2"
    and "\<not> contains_range (mkRange l2 (l2 + s2)) (mkRange l1 (l1 + s1))"
  defines "R1 \<equiv> mkRange l1 (l1 + s1)" and "R2 \<equiv> mkRange l2 (l2 + s2)"
  shows "\<exists>b1 b2. mapRAM l1 s1 ps1 cs1 mkPhysMemBuilder = Inr b1 \<and> mapRAM l2 s2 ps2 cs2 b1 = Inr b2 \<and>
    set (b_devices b2) = {(R1, 0), (R2, 1)}"
proof -
  have "ramSize ram1 = s1" "ramSize ram2 = s2" using assms(1,2) by (auto simp: mkRAM_eq split: if_splits)
  then show ?thesis
    using assms(3,4) unfolding R1_def R2_def
    by (auto simp: mapRAM_def assms(1,2) mapDevice_def mkPhysMemBuilder_def ram_getSize_def Let_def range_less_def)
qed

text \<open>An address only one mapped range holds is found in that range, which is then remembered.\<close>

lemma findDevice_remembers:
  assumes "set (b_devices b) = {(R, d), (Q, e)}" and "contains_pos R p" "\<not> contains_pos Q p" and "contains_pos R a"
  shows "\<exists>pm pm'. findDevice p (build h b) = Inr ((R, d), pm) \<and> findDevice a pm = Inr ((R, d), pm')"
proof -
  have "find (\<lambda>(r, d). contains_pos r p) (b_devices b) \<noteq> None"
    using assms(1,2) by (auto simp: find_None_iff)
  then obtain x where x: "find (\<lambda>(r, d). contains_pos r p) (b_devices b) = Some x" by blast
  then have "x \<in> set (b_devices b) \<and> (case x of (r, d) \<Rightarrow> contains_pos r p)" unfolding find_Some_iff by (metis nth_mem)
  then have "x = (R, d)" using assms(1,3) by auto
  moreover have "\<not> contains_pos (mkRange 0 0) p" by (simp add: contains_pos_def)
  ultimately show ?thesis using x assms(4) by (simp add: findDevice_def build_def)
qed

text \<open>
  C39: the check for intersecting mappings only rejects a range that reaches beyond an old one at its
  right end and does not start after it.  Any two RAMs that start at different addresses are accepted
  otherwise, however they overlap; and an address of the overlap belongs to the first device after an
  access to an address that only the first holds, and to the second after one that only the second
  holds.
\<close>
theorem overlapping_ram_accepted:
  assumes "mkRAM s1 ps1 cs1 = Inr ram1" and "mkRAM s2 ps2 cs2 = Inr ram2" and "l1 \<noteq> l2"
    and "R1 = mkRange l1 (l1 + s1)" and "R2 = mkRange l2 (l2 + s2)" and "\<not> contains_range R2 R1"
  shows "\<exists>b1 b2. mapRAM l1 s1 ps1 cs1 mkPhysMemBuilder = Inr b1 \<and> mapRAM l2 s2 ps2 cs2 b1 = Inr b2 \<and>
     (\<forall>h a p. contains_pos R1 a \<and> contains_pos R2 a \<longrightarrow>
        (contains_pos R1 p \<and> \<not> contains_pos R2 p \<longrightarrow>
           (\<exists>pm pm'. findDevice p (build h b2) = Inr ((R1, 0), pm) \<and> findDevice a pm = Inr ((R1, 0), pm'))) \<and>
        (contains_pos R2 p \<and> \<not> contains_pos R1 p \<longrightarrow>
           (\<exists>pm pm'. findDevice p (build h b2) = Inr ((R2, 1), pm) \<and> findDevice a pm = Inr ((R2, 1), pm'))))"
proof -
  obtain b1 b2 where b: "mapRAM l1 s1 ps1 cs1 mkPhysMemBuilder = Inr b1" "mapRAM l2 s2 ps2 cs2 b1 = Inr b2"
      and d: "set (b_devices b2) = {(R1, 0), (R2, 1)}"
    using mapRAM_two [OF assms(1-3)] assms(4-6) by blast
  from d have e: "set (b_devices b2) = {(R2, 1), (R1, 0)}" by blast
  show ?thesis
    using b findDevice_remembers [OF d] findDevice_remembers [OF e] by blast
qed

theorem overlapping_ram_accepted_witness:
  "\<exists>b1 b2 pm pm'. mapRAM 0 0x2000 4096 65536 mkPhysMemBuilder = Inr b1 \<and> mapRAM 0x1000 0x2000 4096 65536 b1 = Inr b2 \<and>
     findDevice 0x2800 (build [] b2) = Inr ((mkRange 0x1000 0x3000, 1), pm) \<and> findDevice 0x1800 pm = Inr ((mkRange 0x1000 0x3000, 1), pm')"
proof -
  have "\<exists>ram. mkRAM 0x2000 4096 65536 = Inr ram" using cfg_ok_facts(3) [OF cfg_ok_plenty] by (simp add: mkRAM_eq)
  then obtain ram where ram: "mkRAM 0x2000 4096 65536 = Inr ram" by blast
  let ?R1 = "mkRange 0 0x2000 :: RV64Ptr Range" and ?R2 = "mkRange 0x1000 0x3000 :: RV64Ptr Range"
  have pos: "contains_pos ?R1 0x1800 \<and> contains_pos ?R2 0x1800" "contains_pos ?R2 0x2800 \<and> \<not> contains_pos ?R1 0x2800"
    by (simp_all add: contains_pos_def word_less_nat_alt word_le_nat_alt)
  have "\<not> contains_range ?R2 ?R1" by (simp add: contains_range_def word_le_nat_alt)
  from overlapping_ram_accepted [OF ram ram, of 0 "0x1000" ?R1 ?R2, OF _ _ _ this]
  obtain b1 b2 where b: "mapRAM 0 0x2000 4096 65536 mkPhysMemBuilder = Inr b1" "mapRAM 0x1000 0x2000 4096 65536 b1 = Inr b2"
    and "\<forall>h a p. contains_pos ?R1 a \<and> contains_pos ?R2 a \<longrightarrow> contains_pos ?R2 p \<and> \<not> contains_pos ?R1 p \<longrightarrow>
           (\<exists>pm pm'. findDevice p (build h b2) = Inr ((?R2, 1), pm) \<and> findDevice a pm = Inr ((?R2, 1), pm'))" by auto
  then show ?thesis using pos by blast
qed

end
