(* ===== verification/Mmu.thy ===== *)
theory Mmu
  imports PhysMemRefinement
begin

text \<open>
  The MMU (\<^verbatim>\<open>include/besm-666/memory/mmu.hpp\<close>, \<^verbatim>\<open>src/memory/mmu.cpp\<close>), whose translation is the
  identity, and the instruction prefetcher (\<^verbatim>\<open>include/besm-666/memory/prefetcher.hpp\<close>,
  \<^verbatim>\<open>src/memory/prefetcher.cpp\<close>), which keeps a host pointer into the page it last read from.  The
  MMU's only state is the physical memory it refers to.  Its wider stores take signed arguments.
  The model is that of a build with assertions: the fetch of an address that is not aligned within
  the remembered page fails one, where a build with \<^verbatim>\<open>NDEBUG\<close> goes on and reads the word at
  the offset rounded down to a multiple of four.
\<close>

section \<open>The MMU\<close>

definition translateAddress :: "RV64Ptr \<Rightarrow> RV64Ptr" where
  "translateAddress address = address"

definition mmu_loadByte :: "RV64Ptr \<Rightarrow> PhysMem \<Rightarrow> (RV64UChar \<times> PhysMem) res" where
  "mmu_loadByte address pm = (let paddr = translateAddress address in pm_loadByte address pm)"
definition mmu_loadHWord :: "RV64Ptr \<Rightarrow> PhysMem \<Rightarrow> (RV64UHWord \<times> PhysMem) res" where
  "mmu_loadHWord address pm = (let paddr = translateAddress address in pm_loadHWord paddr pm)"
definition mmu_loadWord :: "RV64Ptr \<Rightarrow> PhysMem \<Rightarrow> (RV64UWord \<times> PhysMem) res" where
  "mmu_loadWord address pm = (let paddr = translateAddress address in pm_loadWord paddr pm)"
definition mmu_loadDWord :: "RV64Ptr \<Rightarrow> PhysMem \<Rightarrow> (RV64UDWord \<times> PhysMem) res" where
  "mmu_loadDWord address pm = (let paddr = translateAddress address in pm_loadDWord paddr pm)"

definition mmu_storeByte :: "os \<Rightarrow> RV64Ptr \<Rightarrow> RV64UChar \<Rightarrow> PhysMem \<Rightarrow> PhysMem res" where
  "mmu_storeByte E address v pm = (let paddr = translateAddress address in pm_storeByte E paddr v pm)"
definition mmu_storeHWord :: "os \<Rightarrow> RV64Ptr \<Rightarrow> int \<Rightarrow> PhysMem \<Rightarrow> PhysMem res" where
  "mmu_storeHWord E address v pm =
     (let paddr = translateAddress address in pm_storeHWord E paddr (word_of_int v) pm)"
definition mmu_storeWord :: "os \<Rightarrow> RV64Ptr \<Rightarrow> int \<Rightarrow> PhysMem \<Rightarrow> PhysMem res" where
  "mmu_storeWord E address v pm =
     (let paddr = translateAddress address in pm_storeWord E paddr (word_of_int v) pm)"
definition mmu_storeDWord :: "os \<Rightarrow> RV64Ptr \<Rightarrow> int \<Rightarrow> PhysMem \<Rightarrow> PhysMem res" where
  "mmu_storeDWord E address v pm =
     (let paddr = translateAddress address in pm_storeDWord E paddr (word_of_int v) pm)"

definition mmu_getHostAddress :: "RV64Ptr \<Rightarrow> PhysMem \<Rightarrow> ((hptr \<times> u64) \<times> PhysMem) res" where
  "mmu_getHostAddress vaddress pm = pm_getHostAddress (translateAddress vaddress) pm"

section \<open>The prefetcher\<close>

record Prefetcher =
  saved :: hptr
  pf_start :: RV64Ptr
  pf_len :: RV64Size

definition mkPrefetcher :: Prefetcher where
  "mkPrefetcher = \<lparr>saved = NullPtr, pf_start = - 1, pf_len = 0\<rparr>"

definition pf_loadWord :: "RV64Ptr \<Rightarrow> Prefetcher \<Rightarrow> PhysMem \<Rightarrow> (RV64UWord \<times> Prefetcher \<times> PhysMem) res" where
  "pf_loadWord vaddress p pm =
     (if vaddress > pf_start p \<and> vaddress < pf_start p + pf_len p then
        bindE (assertE ((vaddress - pf_start p) mod 4 = 0)) (\<lambda>_.
        bindE (hptr_add (saved p) (4 * unat ((vaddress - pf_start p) div 4))) (\<lambda>q.
        bindE (host_read 4 q (pm_host pm)) (\<lambda>bs.
        Inr (le_word bs, p, pm))))
      else
        bindE (mmu_getHostAddress vaddress pm) (\<lambda>(pair, pm).
        if snd pair > 0 then
          (let p = p\<lparr>saved := fst pair, pf_start := vaddress, pf_len := snd pair\<rparr>
           in bindE (host_read 4 (saved p) (pm_host pm)) (\<lambda>bs.
              Inr (le_word bs, p, pm)))
        else
          bindE (mmu_loadWord vaddress pm) (\<lambda>(w, pm). Inr (w, p, pm))))"

section \<open>The MMU is a memory device\<close>

lemma word_of_int_sint [simp]: "word_of_int (sint w) = w"
  by simp

lemmas mmu_defs =
  mmu_loadByte_def mmu_loadHWord_def mmu_loadWord_def mmu_loadDWord_def
  mmu_storeByte_def mmu_storeHWord_def mmu_storeWord_def mmu_storeDWord_def translateAddress_def

interpretation mmu: mem_device "pm_inv E" pm_peek pm_area
    mmu_loadByte mmu_loadHWord mmu_loadWord mmu_loadDWord
    "mmu_storeByte E" "\<lambda>a v. mmu_storeHWord E a (sint v)" "\<lambda>a v. mmu_storeWord E a (sint v)"
    "\<lambda>a v. mmu_storeDWord E a (sint v)"
  for E
  unfolding mmu_defs Let_def word_of_int_sint
  by (rule pm.mem_device_axioms)

section \<open>Prefetching is transparent\<close>

text \<open>
  \<open>pf_ok\<close>: a non-empty window starts at a word of some device and is the rest of the host page
  mapped there.
\<close>

definition pf_ok :: "PhysMem \<Rightarrow> Prefetcher \<Rightarrow> bool" where
  "pf_ok pm p \<longleftrightarrow> pf_len p = 0 \<or>
     (\<exists>(r, d)\<in>set (devices pm). contains_pos r (pf_start p) \<and> 4 dvd unat (pf_start p) \<and>
        4 dvd unat (pf_start p - leftBorder r) \<and>
        ram_getHostAddress (pf_start p - leftBorder r) (rams pm ! d) = Inr (saved p, pf_len p))"

lemma pf_ok_mk [wf_intros]: "pf_ok pm mkPrefetcher"
  by (simp add: pf_ok_def mkPrefetcher_def)

lemma getHostAddress_ext:
  assumes "pageSize r' = pageSize r" and "pagemap r \<subseteq>\<^sub>m pagemap r'"
    and "ram_getHostAddress a r = Inr (p, n)" and "n \<noteq> 0"
  shows "ram_getHostAddress a r' = Inr (p, n)"
proof -
  have geo: "getPageId r' a = getPageId r a" "getPageOffset r' a = getPageOffset r a"
    using assms(1) by (simp_all add: getPageId_def getPageOffset_def)
  have "pagemap r (getPageId r a) \<noteq> None"
    using assms(3,4) by (auto simp: ram_getHostAddress_def Let_def getPageAddress_def split: option.splits if_splits)
  then have "pagemap r' (getPageId r a) = pagemap r (getPageId r a)"
    using assms(2) by (auto simp: map_le_def dom_def)
  then have "getPageAddress r' a = getPageAddress r a" by (simp add: getPageAddress_def geo)
  then show ?thesis using assms(1,3) by (simp add: ram_getHostAddress_def Let_def geo split: if_splits)
qed

lemma pf_ok_ext:
  assumes "pm_ok E pm" "pf_ok pm p" and "pm_ext pm pm'"
  shows "pf_ok pm' p"
proof (cases "pf_len p = 0")
  case False
  then obtain r d where rd: "(r, d) \<in> set (devices pm)" "contains_pos r (pf_start p)" "4 dvd unat (pf_start p)"
      "4 dvd unat (pf_start p - leftBorder r)"
      "ram_getHostAddress (pf_start p - leftBorder r) (rams pm ! d) = Inr (saved p, pf_len p)"
    using assms(2) by (auto simp: pf_ok_def)
  have "d < length (rams pm)" using assms(1) rd(1) by (auto simp: pm_ok_def dev_ok_def)
  then have "ram_getHostAddress (pf_start p - leftBorder r) (rams pm' ! d) = Inr (saved p, pf_len p)"
    using assms(3) getHostAddress_ext [OF _ _ rd(5) False] by (simp add: pm_ext_def)
  then show ?thesis using rd assms(3) by (auto simp: pf_ok_def pm_ext_def)
qed (simp add: pf_ok_def)

text \<open>What the host page of an address holds.\<close>

lemma getHostAddress_cases:
  assumes "ram_ok E h r"
  obtains "pagemap r (getPageId r a) = None" "ram_getHostAddress a r = Inr (NullPtr, 0)"
  | b x where "pagemap r (getPageId r a) = Some (Ptr b x)"
      "ram_getHostAddress a r = Inr (Ptr b (x + unat (getPageOffset r a)), pageSize r - getPageOffset r a)"
      "0 < pageSize r - getPageOffset r a"
      "unat (pageSize r - getPageOffset r a) = unat (pageSize r) - unat (getPageOffset r a)"
proof (cases "pagemap r (getPageId r a)")
  case None
  then show thesis using that(1) by (simp add: ram_getHostAddress_def Let_def getPageAddress_def)
next
  case (Some p)
  then obtain b x where p: "p = Ptr b x" using ram_page [OF assms Some] by metis
  have off: "unat (getPageOffset r a) < unat (pageSize r)" by (rule page_address(1) [OF assms])
  then have "unat (pageSize r - getPageOffset r a) = unat (pageSize r) - unat (getPageOffset r a)"
    by (simp add: unat_sub word_le_nat_alt)
  then show thesis
    using that(2) [of b x] Some p off
    by (simp add: ram_getHostAddress_def Let_def getPageAddress_def word_less_nat_alt)
qed

lemma host_word:
  assumes r: "ram_ok E h r" and al: "4 dvd unat a" and pg: "pagemap r (getPageId r a) = Some (Ptr b x)"
  shows "\<exists>bs. host_read 4 (Ptr b (x + unat (getPageOffset r a))) h = Inr bs \<and>
           (le_word bs :: u32) = le_word (mem_get 4 a (ram_peek h r))"
proof -
  have "(ram_load a r h :: u32 res) = Inr (le_word (mem_get 4 a (ram_peek h r)))"
    using ram_load_eq [OF r, of 4 a, where 'a = 32] al by (simp add: access_width_def)
  then show ?thesis
    using al alignment_check [of 4 a] pg
    by (auto simp: ram_load_def access_width_def ram_getHostAddress_def Let_def getPageAddress_def bindE_eq_Inr_iff)
qed

lemma same_page_later:
  assumes r: "ram_ok E h r" and "unat b = unat a + k" and "unat (getPageOffset r a) + k < unat (pageSize r)"
  shows "getPageId r b = getPageId r a" and "unat (getPageOffset r b) = unat (getPageOffset r a) + k"
proof -
  have area: "getPageId r b = getPageId r a \<and> unat (getPageOffset r a) \<le> unat (getPageOffset r b)"
    using in_page_area [OF r, of a "k + 1" b] assms(2,3) by simp
  then show id: "getPageId r b = getPageId r a" ..
  show "unat (getPageOffset r b) = unat (getPageOffset r a) + k"
    using page_address(2) [OF r id [symmetric]] area assms(2) by linarith
qed

lemma page_rest_aligned:
  assumes "ram_ok E h r" and "4 dvd unat a"
  shows "4 dvd unat (pageSize r) - unat (getPageOffset r a)"
proof -
  have "4 dvd unat (pageSize r)" using width_divides_page [OF assms(1), of 4] by (simp add: access_width_def)
  moreover have "4 dvd unat (getPageOffset r a)"
    using assms(2) calculation by (simp add: getPageOffset_def unat_mod_distrib dvd_mod)
  ultimately show ?thesis by (rule dvd_diff_nat)
qed

lemma pf_window:
  assumes ok: "pm_ok E pm" and wp: "whole_pages pm" and pf: "pf_ok pm p"
    and w: "pf_start p < a" "a < pf_start p + pf_len p" and al: "4 dvd unat a"
  shows "\<exists>bs q. (a - pf_start p) mod 4 = 0 \<and> hptr_add (saved p) (4 * unat ((a - pf_start p) div 4)) = Inr q \<and>
    host_read 4 q (pm_host pm) = Inr bs \<and> (le_word bs :: u32) = le_word (mem_get 4 a (pm_peek pm))"
proof -
  let ?s = "pf_start p"
  have "pf_len p \<noteq> 0" using w by auto
  then obtain r d where rd: "(r, d) \<in> set (devices pm)" "contains_pos r ?s" "4 dvd unat ?s"
      "4 dvd unat (?s - leftBorder r)"
      "ram_getHostAddress (?s - leftBorder r) (rams pm ! d) = Inr (saved p, pf_len p)"
    using pf by (auto simp: pf_ok_def)
  let ?r = "rams pm ! d" and ?L = "leftBorder r"
  have ram: "ram_ok E (pm_host pm) ?r" and ap: "apart (devices pm)"
    using ok rd(1) by (auto simp: pm_ok_def dev_ok_def rams_ok_def)
  obtain b x where pg: "pagemap ?r (getPageId ?r (?s - ?L)) = Some (Ptr b x)"
      "saved p = Ptr b (x + unat (getPageOffset ?r (?s - ?L)))" "pf_len p = pageSize ?r - getPageOffset ?r (?s - ?L)"
      "unat (pf_len p) = unat (pageSize ?r) - unat (getPageOffset ?r (?s - ?L))"
    using getHostAddress_cases [OF ram, of "?s - ?L"] rd(5) \<open>pf_len p \<noteq> 0\<close> by (metis Inr_inject Pair_inject)
  have fit: "unat ?s + unat (pf_len p) \<le> unat (rightBorder r)"
    using page_rest_in_range(2) [OF ok wp rd(1,2)] pg(3) by simp
  then have sum: "unat (?s + pf_len p) = unat ?s + unat (pf_len p)"
    using unsigned_less [where 'a = nat, of "rightBorder r"] by (intro unat_add_no_wrap) simp
  have lt: "unat ?s < unat a" "unat a < unat ?s + unat (pf_len p)"
    using w by (simp_all add: word_less_nat_alt sum)
  have k: "unat (a - ?s) = unat a - unat ?s" using lt by (simp add: unat_sub word_le_nat_alt)
  have dvd: "4 dvd unat (a - ?s)" unfolding k using al rd(3) by (rule dvd_diff_nat)
  have left: "?L \<le> ?s" "?L \<le> a" using rd(2) w(1) by (auto simp: contains_pos_def)
  have sL: "unat (?s - ?L) = unat ?s - unat ?L" "unat (a - ?L) = unat a - unat ?L" "unat ?L \<le> unat ?s"
    using left by (simp_all add: unat_sub word_le_nat_alt)
  have later: "unat (a - ?L) = unat (?s - ?L) + unat (a - ?s)" using sL k lt by linarith
  have "unat (getPageOffset ?r (?s - ?L)) + unat (a - ?s) < unat (pageSize ?r)"
    using lt pg(4) k page_address(1) [OF ram, of "?s - ?L"] by linarith
  note P = same_page_later [OF ram later this]
  have alL: "4 dvd unat (a - ?L)" unfolding later using rd(4) dvd by (rule dvd_add)
  obtain bs where bs: "host_read 4 (Ptr b (x + unat (getPageOffset ?r (a - ?L)))) (pm_host pm) = Inr bs"
      "(le_word bs :: u32) = le_word (mem_get 4 (a - ?L) (ram_peek (pm_host pm) ?r))"
    using host_word [OF ram alL, of b x] pg(1) P(1) by auto
  have "unat a + 4 \<le> unat (rightBorder r)"
  proof -
    have "4 dvd unat (pf_len p)" unfolding pg(4) by (rule page_rest_aligned [OF ram rd(4)])
    then have "unat (a - ?s) + 4 \<le> unat (pf_len p)" using lt k dvd by (intro multiple_room) simp_all
    then show ?thesis using fit k lt by linarith
  qed
  then have "mem_get 4 (a - ?L) (ram_peek (pm_host pm) ?r) = mem_get 4 a (pm_peek pm)"
    by (intro mem_get_device [OF ap rd(1) left(2)])
  moreover have "4 * unat ((a - ?s) div 4) = unat (a - ?s)"
    using dvd by (simp add: unat_div_distrib)
  moreover have "(a - ?s) mod 4 = 0"
    using dvd by (simp add: word_unat_eq_iff unat_mod_distrib dvd_eq_mod_eq_0)
  ultimately show ?thesis using bs pg(2) P(2) by (simp add: add.assoc)
qed

lemma pf_refill:
  assumes inv: "pm_inv E pm" and wp: "whole_pages pm" and area: "pm_area pm a 4" and al: "4 dvd unat a"
    and out: "\<not> (a > pf_start p \<and> a < pf_start p + pf_len p)" and pf: "pf_ok pm p"
  shows "\<exists>p' pm'. pf_loadWord a p pm = Inr (le_word (mem_get 4 a (pm_peek pm)), p', pm') \<and>
           pf_ok pm' p' \<and> pm_inv E pm' \<and> same_memory pm pm'"
proof -
  obtain r d where rd: "(r, d) \<in> set (devices pm)" "contains_pos r a" "leftBorder r \<le> a"
      "unat a + 4 \<le> unat (rightBorder r)" "4 dvd unat (a - leftBorder r)"
    using area by (rule pm_areaE)
  have ok: "pm_ok E pm" and mm: "mmap_ok E" using inv by (simp_all add: pm_inv_def)
  obtain pm1 where f: "findDevice a pm = Inr ((r, d), pm1)" "pm_ok E pm1" "same_memory pm pm1"
    using findDevice_at [OF ok rd(1,2)] by blast
  have mem: "devices pm1 = devices pm" "rams pm1 = rams pm" "pm_host pm1 = pm_host pm"
    using f(3) by (simp_all add: same_memory_def)
  let ?r = "rams pm ! d" and ?a = "a - leftBorder r"
  have ram: "ram_ok E (pm_host pm) ?r" and ap: "apart (devices pm)"
    using ok rd(1) by (auto simp: pm_ok_def dev_ok_def rams_ok_def)
  have get: "mmu_getHostAddress a pm = bindE (ram_getHostAddress ?a ?r) (\<lambda>q. Inr (q, pm1))"
    using f(1) mem by (simp add: mmu_getHostAddress_def pm_getHostAddress_def translateAddress_def)
  show ?thesis
  proof (rule getHostAddress_cases [OF ram, of ?a])
    assume "ram_getHostAddress ?a ?r = Inr (NullPtr, 0)"
    then have "pf_loadWord a p pm = bindE (mmu_loadWord a pm1) (\<lambda>(w, pm). Inr (w, p, pm))"
      using out get by (auto simp: pf_loadWord_def)
    moreover have "pm_area pm1 a 4" using area pm_area_devices [OF mem(1)] by simp
    then obtain pm2 where "mmu_loadWord a pm1 = Inr (le_word (mem_get 4 a (pm_peek pm1)), pm2)" "pm_ok E pm2" "same_memory pm1 pm2"
      using pm_load_law [OF f(2), of a 4, where 'a = 32] by (auto simp: mmu_defs pm_access_defs)
    moreover have "same_memory pm pm2" using f(3) calculation(4) by (simp add: same_memory_def)
    ultimately show ?thesis
      using pf_ok_ext [OF ok pf pm_ext_same] same_memory_peek [OF f(3)] mm by (simp add: pm_inv_def)
  next
    fix b x
    assume pg: "pagemap ?r (getPageId ?r ?a) = Some (Ptr b x)"
      and g: "ram_getHostAddress ?a ?r = Inr (Ptr b (x + unat (getPageOffset ?r ?a)), pageSize ?r - getPageOffset ?r ?a)"
      and pos: "0 < pageSize ?r - getPageOffset ?r ?a"
    let ?p = "p\<lparr>saved := Ptr b (x + unat (getPageOffset ?r ?a)), pf_start := a, pf_len := pageSize ?r - getPageOffset ?r ?a\<rparr>"
    obtain bs where bs: "host_read 4 (Ptr b (x + unat (getPageOffset ?r ?a))) (pm_host pm) = Inr bs"
        "(le_word bs :: u32) = le_word (mem_get 4 a (pm_peek pm))"
      using host_word [OF ram rd(5) pg] mem_get_device [OF ap rd(1,3,4)] by auto
    have "pf_loadWord a p pm = Inr (le_word (mem_get 4 a (pm_peek pm)), ?p, pm1)"
      using out get g pos bs mem by (auto simp: pf_loadWord_def)
    moreover have "pf_ok pm1 ?p"
      using rd g al mem by (auto simp: pf_ok_def)
    ultimately show ?thesis using f mm by (auto simp: pm_inv_def)
  qed
qed

lemma pf_loadWord_ok:
  assumes "pm_inv E pm" and "whole_pages pm" and "pf_ok pm p" and "pm_area pm a 4" and "4 dvd unat a"
  shows "\<exists>p' pm'. pf_loadWord a p pm = Inr (le_word (mem_get 4 a (pm_peek pm)), p', pm') \<and>
           pf_ok pm' p' \<and> pm_inv E pm' \<and> same_memory pm pm'"
proof (cases "a > pf_start p \<and> a < pf_start p + pf_len p")
  case True
  then obtain bs q where "(a - pf_start p) mod 4 = 0"
      "hptr_add (saved p) (4 * unat ((a - pf_start p) div 4)) = Inr q"
      "host_read 4 q (pm_host pm) = Inr bs" "(le_word bs :: u32) = le_word (mem_get 4 a (pm_peek pm))"
    using pf_window [OF _ assms(2,3) _ _ assms(5)] assms(1) unfolding pm_inv_def by blast
  then have "pf_loadWord a p pm = Inr (le_word (mem_get 4 a (pm_peek pm)), p, pm)"
    using True by (simp add: pf_loadWord_def)
  then show ?thesis using assms(1,3) by (simp add: same_memory_def)
next
  case False
  then show ?thesis by (rule pf_refill [OF assms(1,2,4,5) _ assms(3)])
qed

section \<open>Properties\<close>

text \<open>
  C19: fetching an instruction word through the prefetcher is the same as loading it through the MMU.
  For every word-aligned address inside a device of whole pages the prefetcher returns the word the
  MMU returns, which is the word of the flat memory, whichever page it remembers; it changes no
  memory, and it stays consistent for the next fetch and for memory that was stored to meanwhile.
\<close>
theorem prefetch_equals_load:
  assumes "pm_inv E pm" and "whole_pages pm" and "pf_ok pm p" and "pm_area pm a 4" and "4 dvd unat a"
  shows "\<exists>w p' pm' pm''. pf_loadWord a p pm = Inr (w, p', pm') \<and> mmu_loadWord a pm = Inr (w, pm'') \<and>
           w = le_word (mem_get 4 a (pm_peek pm)) \<and> pm_peek pm' = pm_peek pm \<and>
           (\<forall>pm1. pm_ext pm' pm1 \<longrightarrow> pf_ok pm1 p')"
proof -
  obtain p' pm' where l: "pf_loadWord a p pm = Inr (le_word (mem_get 4 a (pm_peek pm)), p', pm')"
      "pf_ok pm' p'" "pm_inv E pm'" "same_memory pm pm'"
    using pf_loadWord_ok [OF assms] by blast
  obtain pm'' where m: "mmu_loadWord a pm = Inr (le_word (mem_get 4 a (pm_peek pm)), pm'')"
    using mmu.loadW [OF assms(1,4)] by blast
  have "pf_ok pm1 p'" if "pm_ext pm' pm1" for pm1
    using pf_ok_ext [OF _ l(2) that] l(3) by (auto simp: pm_inv_def)
  then show ?thesis using l(1) m same_memory_peek [OF l(4)] by blast
qed

theorem prefetch_equals_load_witness:
  "\<exists>w p' pm' pm''. pf_loadWord 0x400 mkPrefetcher demo_pm = Inr (w, p', pm') \<and> mmu_loadWord 0x400 demo_pm = Inr (w, pm'')"
proof -
  have "pm_area demo_pm 0x400 4"
    by (simp add: pm_area_def demo_pm_def access_width_def)
  moreover have "pm_inv plenty demo_pm" by (simp add: pm_inv_def mmap_ok_plenty demo_pm_ok)
  ultimately show ?thesis
    using prefetch_equals_load [OF _ demo_pm_ok(3) pf_ok_mk, of plenty "0x400"] by auto
qed

text \<open>
  A fetch at an address that is not a multiple of four.  When it falls into the page of the last
  fetch the assertion of the prefetcher aborts the simulator; no misaligned-instruction exception
  is raised.
\<close>
theorem misaligned_fetch_aborts:
  assumes "pm_inv E pm" and "whole_pages pm" and "pm_area pm a 4" and "4 dvd unat a"
    and "dev_at pm a = Some (r, d)" and "ram_getHostAddress (a - leftBorder r) (rams pm ! d) = Inr (q, n)" and "n \<noteq> 0"
  shows "\<exists>w p' pm'. pf_loadWord a mkPrefetcher pm = Inr (w, p', pm') \<and>
           pf_loadWord (a + 2) p' pm' = Inl AssertFailed"
proof -
  have ok: "pm_ok E pm" using assms(1) by (simp add: pm_inv_def)
  have rd: "(r, d) \<in> set (devices pm)" "contains_pos r a" using dev_at_SomeD [OF assms(5)] by simp_all
  obtain pm1 where f: "findDevice a pm = Inr ((r, d), pm1)" "same_memory pm pm1"
    using findDevice_at [OF ok rd] by blast
  have out: "\<not> (pf_start mkPrefetcher < a \<and> a < pf_start mkPrefetcher + pf_len mkPrefetcher)"
    by (auto simp: mkPrefetcher_def)
  let ?p = "mkPrefetcher\<lparr>saved := q, pf_start := a, pf_len := n\<rparr>"
  have g: "mmu_getHostAddress a pm = Inr ((q, n), pm1)"
    using f assms(6) by (simp add: mmu_getHostAddress_def pm_getHostAddress_def translateAddress_def same_memory_def)
  have pos: "0 < n" using assms(7) by (simp add: word_gt_0)
  obtain w p' pm' where l: "pf_loadWord a mkPrefetcher pm = Inr (w, p', pm')"
    using pf_loadWord_ok [OF assms(1,2) pf_ok_mk assms(3,4)] by blast
  then have p': "p' = ?p"
    using out g pos by (auto simp: pf_loadWord_def bindE_eq_Inr_iff Let_def)
  have ram: "ram_ok E (pm_host pm) (rams pm ! d)"
    using ok rd(1) by (auto simp: pm_ok_def dev_ok_def rams_ok_def)
  have four: "4 \<le> unat n" "unat a + unat n < 2 ^ 64"
  proof -
    have n: "n = pageSize (rams pm ! d) - getPageOffset (rams pm ! d) (a - leftBorder r)"
      using getHostAddress_cases [OF ram, of "a - leftBorder r"] assms(6,7) by (metis Inr_inject Pair_inject)
    show "unat a + unat n < 2 ^ 64"
      using page_rest_in_range(2) [OF ok assms(2) rd] unsigned_less [where 'a = nat, of "rightBorder r"] n by simp
    obtain r' d' where "(r', d') \<in> set (devices pm)" "contains_pos r' a" and dvd: "4 dvd unat (a - leftBorder r')"
      using assms(3) by (rule pm_areaE)
    then have "r' = r" using dev_at_iff [of pm a r' d'] assms(5) ok by (simp add: pm_ok_def)
    then show "4 \<le> unat n"
      using aligned_fits(1) [OF ram, of 4 "a - leftBorder r"] dvd page_rest_in_range(3) [OF ok assms(2) rd] n
      by (simp add: access_width_def)
  qed
  have two: "unat (a + 2) = unat a + 2" "unat (a + n) = unat a + unat n"
    using four by (simp_all add: unat_add_no_wrap)
  have "a < a + 2" "a + 2 < a + n" using two four(1) by (simp_all add: word_less_nat_alt)
  then have "pf_loadWord (a + 2) p' pm' = Inl AssertFailed"
    by (simp add: pf_loadWord_def p')
  then show ?thesis using l by blast
qed

theorem misaligned_fetch_aborts_witness:
  "\<exists>pm w p' pm'. pm_storeDWord plenty 0 0 demo_pm = Inr pm \<and> pf_loadWord 0 mkPrefetcher pm = Inr (w, p', pm') \<and>
     pf_loadWord 2 p' pm' = Inl AssertFailed"
proof -
  have area: "pm_area demo_pm 0 8" by (rule demo_pm_area) simp_all
  have "pm_inv plenty demo_pm" by (simp add: pm_inv_def mmap_ok_plenty demo_pm_ok)
  then obtain pm where st: "pm_storeDWord plenty 0 0 demo_pm = Inr pm"
    using pm.storeD [OF _ area, of plenty 0] by blast
  have ok: "pm_ok plenty pm" and ext: "pm_ext demo_pm pm"
    using pm_store_keeps [OF demo_pm_ok(1) mmap_ok_plenty, of 8 0 "0 :: u64" pm] st
    by (simp_all add: pm_access_defs access_width_def)
  have ram: "ram_getHostAddress 0 (rams pm ! 0) = Inr (Ptr 0 0, 4096)"
    using st cfg_ok_facts(3) [OF cfg_ok_plenty]
    by (simp add: pm_access_defs pm_store_def findDevice_def demo_pm_def contains_pos_def word_less_nat_alt
        ram_store_def validateAddressAlignment_def ram_touchHostAddress_def touchPageAddress_def demo_ram_def
        allocPage_def alloc_last_def mkChunk_def besm666_mmap_def chunk_allocPage_def getPageId_def getPageOffset_def
        plenty_def host_write_def Let_def Nearest2PowDivident_def)
       (auto simp: ram_getHostAddress_def getPageAddress_def getPageId_def getPageOffset_def Let_def)
  have dev: "devices pm = [(mkRange 0 0x100000, 0)]" using ext by (simp add: pm_ext_def demo_pm_def)
  have at0: "dev_at pm 0 = Some (mkRange 0 0x100000, 0)"
    by (simp add: dev_at_def dev contains_pos_def word_less_nat_alt)
  have "whole_pages pm"
    using demo_pm_ok(3) ext by (simp add: whole_pages_def pm_ext_def demo_pm_def)
  moreover have "pm_area pm 0 4" by (simp add: pm_area_def dev access_width_def)
  ultimately show ?thesis
    using misaligned_fetch_aborts [of plenty pm 0, OF _ _ _ _ at0] ok ram st mmap_ok_plenty
    by (simp add: pm_inv_def)
qed

end
