(* ===== verification/Instr.thy ===== *)
theory Instr
  imports Prelude
begin

text \<open>
  The decoded instruction of \<^verbatim>\<open>include/besm-666/instruction.hpp\<close> with the operations of
  \<^verbatim>\<open>rv-instruction-op.hpp\<close> in their enumeration order, and the exception identifiers and
  constants of \<^verbatim>\<open>riscv-types.hpp\<close>.  The operations \<^verbatim>\<open>AND\<close>, \<^verbatim>\<open>OR\<close> and \<^verbatim>\<open>XOR\<close> carry the
  suffix \<open>_op\<close>, since the bare names are word operators here.
\<close>

datatype (plugins only: code) InstructionOp =
  INV_OP | LUI | AUIPC | JAL | JALR | BEQ | BNE | BLT | BGE | BLTU | BGEU | LB | LH | LW
  | LBU | LHU | SB | SH | SW | ADDI | SLTI | SLTIU | XORI | ORI | ANDI | ADD | SUB
  | SLL | SLT | SLTU | XOR_op | SRL | SRA | OR_op | AND_op | FENCE | FENCE_TSO | PAUSE
  | ECALL | EBREAK | LWU | LD | SD | SLLI | SRLI | SRAI | ADDIW | SLLIW | SRLIW | SRAIW
  | ADDW | SUBW | SLLW | SRLW | SRAW | CSRRW | CSRRS | CSRRC | CSRRWI | CSRRSI | CSRRCI
  | SRET | MRET | BB_END

text \<open>The value the enumeration gives each operation; the hart indexes its handlers by it.\<close>

primrec op_value :: "InstructionOp \<Rightarrow> nat" where
  "op_value INV_OP = 0"
| "op_value LUI = 1"
| "op_value AUIPC = 2"
| "op_value JAL = 3"
| "op_value JALR = 4"
| "op_value BEQ = 5"
| "op_value BNE = 6"
| "op_value BLT = 7"
| "op_value BGE = 8"
| "op_value BLTU = 9"
| "op_value BGEU = 10"
| "op_value LB = 11"
| "op_value LH = 12"
| "op_value LW = 13"
| "op_value LBU = 14"
| "op_value LHU = 15"
| "op_value SB = 16"
| "op_value SH = 17"
| "op_value SW = 18"
| "op_value ADDI = 19"
| "op_value SLTI = 20"
| "op_value SLTIU = 21"
| "op_value XORI = 22"
| "op_value ORI = 23"
| "op_value ANDI = 24"
| "op_value ADD = 25"
| "op_value SUB = 26"
| "op_value SLL = 27"
| "op_value SLT = 28"
| "op_value SLTU = 29"
| "op_value XOR_op = 30"
| "op_value SRL = 31"
| "op_value SRA = 32"
| "op_value OR_op = 33"
| "op_value AND_op = 34"
| "op_value FENCE = 35"
| "op_value FENCE_TSO = 36"
| "op_value PAUSE = 37"
| "op_value ECALL = 38"
| "op_value EBREAK = 39"
| "op_value LWU = 40"
| "op_value LD = 41"
| "op_value SD = 42"
| "op_value SLLI = 43"
| "op_value SRLI = 44"
| "op_value SRAI = 45"
| "op_value ADDIW = 46"
| "op_value SLLIW = 47"
| "op_value SRLIW = 48"
| "op_value SRAIW = 49"
| "op_value ADDW = 50"
| "op_value SUBW = 51"
| "op_value SLLW = 52"
| "op_value SRLW = 53"
| "op_value SRAW = 54"
| "op_value CSRRW = 55"
| "op_value CSRRS = 56"
| "op_value CSRRC = 57"
| "op_value CSRRWI = 58"
| "op_value CSRRSI = 59"
| "op_value CSRRCI = 60"
| "op_value SRET = 61"
| "op_value MRET = 62"
| "op_value BB_END = 63"

text \<open>The operations in enumeration order; the values are their positions.\<close>

definition all_ops :: "InstructionOp list" where
  "all_ops =
    [INV_OP, LUI, AUIPC, JAL, JALR, BEQ, BNE, BLT, BGE, BLTU, BGEU, LB, LH, LW,
     LBU, LHU, SB, SH, SW, ADDI, SLTI, SLTIU, XORI, ORI, ANDI, ADD, SUB,
     SLL, SLT, SLTU, XOR_op, SRL, SRA, OR_op, AND_op, FENCE, FENCE_TSO, PAUSE,
     ECALL, EBREAK, LWU, LD, SD, SLLI, SRLI, SRAI, ADDIW, SLLIW, SRLIW, SRAIW,
     ADDW, SUBW, SLLW, SRLW, SRAW, CSRRW, CSRRS, CSRRC, CSRRWI, CSRRSI, CSRRCI,
     SRET, MRET, BB_END]"

lemma all_ops_nth: "all_ops ! op_value x = x"
  by (cases x) (simp_all add: all_ops_def)

lemma op_value_less: "op_value x < length all_ops"
  by (cases x) (simp_all add: all_ops_def)

lemma op_value_inject: "op_value x = op_value y \<longleftrightarrow> x = y"
  by (metis all_ops_nth)

datatype ExceptionId =
  EXCEPTION_INSTR_ADDR_MISALIGNED | EXCEPTION_ACCESS_FAULT | EXCEPTION_ILLEGAL_INSTR
   | EXCEPTION_BREAKPOINT | EXCEPTION_LOAD_ADDR_MISALIGNED | EXCEPTION_LOAD_ACCESS_FAULT
   | EXCEPTION_STORE_ADDR_MISALIGNED | EXCEPTION_STORE_ACCESS_FAULT
   | EXCEPTION_ECALL_UMODE | EXCEPTION_ECALL_SMODE | EXCEPTION_ECALL_MMODE
   | EXCEPTION_INSTR_PAGEFAULT | EXCEPTION_LOAD_PAGEFAULT | EXCEPTION_STORE_PAGEFAULT

primrec exception_code :: "ExceptionId \<Rightarrow> u64" where
  "exception_code EXCEPTION_INSTR_ADDR_MISALIGNED = 0"
| "exception_code EXCEPTION_ACCESS_FAULT = 1"
| "exception_code EXCEPTION_ILLEGAL_INSTR = 2"
| "exception_code EXCEPTION_BREAKPOINT = 3"
| "exception_code EXCEPTION_LOAD_ADDR_MISALIGNED = 4"
| "exception_code EXCEPTION_LOAD_ACCESS_FAULT = 5"
| "exception_code EXCEPTION_STORE_ADDR_MISALIGNED = 6"
| "exception_code EXCEPTION_STORE_ACCESS_FAULT = 7"
| "exception_code EXCEPTION_ECALL_UMODE = 8"
| "exception_code EXCEPTION_ECALL_SMODE = 9"
| "exception_code EXCEPTION_ECALL_MMODE = 11"
| "exception_code EXCEPTION_INSTR_PAGEFAULT = 12"
| "exception_code EXCEPTION_LOAD_PAGEFAULT = 13"
| "exception_code EXCEPTION_STORE_PAGEFAULT = 15"

definition XLEN :: u64 where "XLEN = 64"
definition IALIGN :: u64 where "IALIGN = 32"
definition MXLEN :: nat where "MXLEN = 64"

record Instruction =
  rd :: Register
  rs1 :: Register
  rs2 :: Register
  immidiate :: u64
  operation :: InstructionOp

definition IMMIDIATE_POISON :: u64 where
  "IMMIDIATE_POISON = 0xFFFFFFFF"

definition isJump :: "Instruction \<Rightarrow> bool" where
  "isJump i \<longleftrightarrow>
     operation i = JAL \<or> operation i = JALR \<or> operation i = BEQ \<or> operation i = BNE \<or>
     operation i = BLT \<or> operation i = BGE \<or> operation i = BLTU \<or> operation i = BGEU \<or>
     operation i = MRET \<or> operation i = SRET \<or> operation i = ECALL"

definition isLoad :: "Instruction \<Rightarrow> bool" where
  "isLoad i \<longleftrightarrow>
     operation i = LB \<or> operation i = LH \<or> operation i = LW \<or> operation i = LBU \<or>
     operation i = LHU"

definition isStore :: "Instruction \<Rightarrow> bool" where
  "isStore i \<longleftrightarrow>
     operation i = SB \<or> operation i = SH \<or> operation i = SW \<or> operation i = SD"

end
