(* ===== verification/OpMatrix.thy ===== *)
theory OpMatrix
  imports Instr
begin

text \<open>
  The decoding tables of \<^verbatim>\<open>include/besm-666/autogen\<close>: \<^verbatim>\<open>INSTR_WHO\<close> of
  \<^verbatim>\<open>operations-matrix.hpp\<close>, indexed by the seven opcode bits and the three function bits, and
  \<^verbatim>\<open>OPCODE2FORMAT\<close> of \<^verbatim>\<open>opcodes-to-format.hpp\<close>.  The 128 rows are written in groups of
  eight opcodes; a row whose eight cells are all \<^verbatim>\<open>{ILLEGAL, INV_OP}\<close> is \<open>illegal_row\<close>.
\<close>

datatype Format = ILLEGAL | Format_R | Format_I | Format_S | Format_B | Format_U | Format_J

datatype Cell = Cell (cell_format: Format) (cell_operation: InstructionOp)

definition illegal_row :: "Cell list" where
  "illegal_row = replicate 8 (Cell ILLEGAL INV_OP)"

definition INSTR_WHO_0 :: "Cell list list" where
  "INSTR_WHO_0 =
     [illegal_row,
      illegal_row,
      illegal_row,
      [Cell Format_I LB, Cell Format_I LH, Cell Format_I LW, Cell Format_I LD,
       Cell Format_I LBU, Cell Format_I LHU, Cell Format_I LWU, Cell Format_I INV_OP],
      illegal_row,
      illegal_row,
      illegal_row,
      illegal_row]"

definition INSTR_WHO_1 :: "Cell list list" where
  "INSTR_WHO_1 =
     [illegal_row,
      illegal_row,
      illegal_row,
      illegal_row,
      illegal_row,
      illegal_row,
      illegal_row,
      [Cell Format_I PAUSE, Cell Format_I INV_OP, Cell Format_I INV_OP, Cell Format_I INV_OP,
       Cell Format_I INV_OP, Cell Format_I INV_OP, Cell Format_I INV_OP, Cell Format_I INV_OP]]"

definition INSTR_WHO_2 :: "Cell list list" where
  "INSTR_WHO_2 =
     [illegal_row,
      illegal_row,
      illegal_row,
      [Cell Format_I ADDI, Cell Format_I SLLI, Cell Format_I SLTI, Cell Format_I SLTIU,
       Cell Format_I XORI, Cell Format_I SRAI, Cell Format_I ORI, Cell Format_I ANDI],
      illegal_row,
      illegal_row,
      illegal_row,
      [Cell Format_U AUIPC, Cell Format_U AUIPC, Cell Format_U AUIPC, Cell Format_U AUIPC,
       Cell Format_U AUIPC, Cell Format_U AUIPC, Cell Format_U AUIPC, Cell Format_U AUIPC]]"

definition INSTR_WHO_3 :: "Cell list list" where
  "INSTR_WHO_3 =
     [illegal_row,
      illegal_row,
      illegal_row,
      [Cell Format_I ADDIW, Cell Format_I SLLIW, Cell Format_I INV_OP, Cell Format_I INV_OP,
       Cell Format_I INV_OP, Cell Format_I INV_OP, Cell Format_I INV_OP, Cell Format_I INV_OP],
      illegal_row,
      illegal_row,
      illegal_row,
      illegal_row]"

definition INSTR_WHO_4 :: "Cell list list" where
  "INSTR_WHO_4 =
     [illegal_row,
      illegal_row,
      illegal_row,
      [Cell Format_S SB, Cell Format_S SH, Cell Format_S SW, Cell Format_S SD,
       Cell Format_S INV_OP, Cell Format_S INV_OP, Cell Format_S INV_OP, Cell Format_S INV_OP],
      illegal_row,
      illegal_row,
      illegal_row,
      illegal_row]"

definition INSTR_WHO_5 :: "Cell list list" where
  "INSTR_WHO_5 =
     [illegal_row, illegal_row, illegal_row, illegal_row,
      illegal_row, illegal_row, illegal_row, illegal_row]"

definition INSTR_WHO_6 :: "Cell list list" where
  "INSTR_WHO_6 =
     [illegal_row,
      illegal_row,
      illegal_row,
      [Cell Format_R INV_OP, Cell Format_R INV_OP, Cell Format_R INV_OP, Cell Format_R INV_OP,
       Cell Format_R INV_OP, Cell Format_R INV_OP, Cell Format_R INV_OP, Cell Format_R INV_OP],
      illegal_row,
      illegal_row,
      illegal_row,
      [Cell Format_U LUI, Cell Format_U LUI, Cell Format_U LUI, Cell Format_U LUI,
       Cell Format_U LUI, Cell Format_U LUI, Cell Format_U LUI, Cell Format_U LUI]]"

definition INSTR_WHO_7 :: "Cell list list" where
  "INSTR_WHO_7 =
     [illegal_row,
      illegal_row,
      illegal_row,
      [Cell Format_R INV_OP, Cell Format_R INV_OP, Cell Format_R INV_OP, Cell Format_R INV_OP,
       Cell Format_R INV_OP, Cell Format_R INV_OP, Cell Format_R INV_OP, Cell Format_R INV_OP],
      illegal_row,
      illegal_row,
      illegal_row,
      illegal_row]"

definition INSTR_WHO_8 :: "Cell list list" where
  "INSTR_WHO_8 =
     [illegal_row, illegal_row, illegal_row, illegal_row,
      illegal_row, illegal_row, illegal_row, illegal_row]"

definition INSTR_WHO_9 :: "Cell list list" where
  "INSTR_WHO_9 =
     [illegal_row, illegal_row, illegal_row, illegal_row,
      illegal_row, illegal_row, illegal_row, illegal_row]"

definition INSTR_WHO_10 :: "Cell list list" where
  "INSTR_WHO_10 =
     [illegal_row, illegal_row, illegal_row, illegal_row,
      illegal_row, illegal_row, illegal_row, illegal_row]"

definition INSTR_WHO_11 :: "Cell list list" where
  "INSTR_WHO_11 =
     [illegal_row, illegal_row, illegal_row, illegal_row,
      illegal_row, illegal_row, illegal_row, illegal_row]"

definition INSTR_WHO_12 :: "Cell list list" where
  "INSTR_WHO_12 =
     [illegal_row,
      illegal_row,
      illegal_row,
      [Cell Format_B BEQ, Cell Format_B BNE, Cell Format_B INV_OP, Cell Format_B INV_OP,
       Cell Format_B BLT, Cell Format_B BGE, Cell Format_B BLTU, Cell Format_B BGEU],
      illegal_row,
      illegal_row,
      illegal_row,
      [Cell Format_I JALR, Cell Format_I INV_OP, Cell Format_I INV_OP, Cell Format_I INV_OP,
       Cell Format_I INV_OP, Cell Format_I INV_OP, Cell Format_I INV_OP, Cell Format_I INV_OP]]"

definition INSTR_WHO_13 :: "Cell list list" where
  "INSTR_WHO_13 =
     [illegal_row,
      illegal_row,
      illegal_row,
      illegal_row,
      illegal_row,
      illegal_row,
      illegal_row,
      [Cell Format_J JAL, Cell Format_J JAL, Cell Format_J JAL, Cell Format_J JAL,
       Cell Format_J JAL, Cell Format_J JAL, Cell Format_J JAL, Cell Format_J JAL]]"

definition INSTR_WHO_14 :: "Cell list list" where
  "INSTR_WHO_14 =
     [illegal_row,
      illegal_row,
      illegal_row,
      [Cell Format_I INV_OP, Cell Format_I CSRRW, Cell Format_I CSRRS, Cell Format_I CSRRC,
       Cell Format_I INV_OP, Cell Format_I CSRRWI, Cell Format_I CSRRSI, Cell Format_I CSRRCI],
      illegal_row,
      illegal_row,
      illegal_row,
      illegal_row]"

definition INSTR_WHO_15 :: "Cell list list" where
  "INSTR_WHO_15 =
     [illegal_row, illegal_row, illegal_row, illegal_row,
      illegal_row, illegal_row, illegal_row, illegal_row]"

lemmas INSTR_WHO_rows =
  INSTR_WHO_0_def INSTR_WHO_1_def INSTR_WHO_2_def INSTR_WHO_3_def
  INSTR_WHO_4_def INSTR_WHO_5_def INSTR_WHO_6_def INSTR_WHO_7_def
  INSTR_WHO_8_def INSTR_WHO_9_def INSTR_WHO_10_def INSTR_WHO_11_def
  INSTR_WHO_12_def INSTR_WHO_13_def INSTR_WHO_14_def INSTR_WHO_15_def

definition INSTR_WHO :: "Cell list list" where
  "INSTR_WHO =
     INSTR_WHO_0 @ INSTR_WHO_1 @ INSTR_WHO_2 @ INSTR_WHO_3 @
     INSTR_WHO_4 @ INSTR_WHO_5 @ INSTR_WHO_6 @ INSTR_WHO_7 @
     INSTR_WHO_8 @ INSTR_WHO_9 @ INSTR_WHO_10 @ INSTR_WHO_11 @
     INSTR_WHO_12 @ INSTR_WHO_13 @ INSTR_WHO_14 @ INSTR_WHO_15"

definition OPCODE2FORMAT :: "Format list" where
  "OPCODE2FORMAT =
     [ILLEGAL, ILLEGAL, ILLEGAL, Format_I, ILLEGAL, ILLEGAL, ILLEGAL, ILLEGAL,
      ILLEGAL, ILLEGAL, ILLEGAL, ILLEGAL, ILLEGAL, ILLEGAL, ILLEGAL, Format_I,
      ILLEGAL, ILLEGAL, ILLEGAL, Format_I, ILLEGAL, ILLEGAL, ILLEGAL, Format_U,
      ILLEGAL, ILLEGAL, ILLEGAL, Format_I, ILLEGAL, ILLEGAL, ILLEGAL, ILLEGAL,
      ILLEGAL, ILLEGAL, ILLEGAL, Format_S, ILLEGAL, ILLEGAL, ILLEGAL, ILLEGAL,
      ILLEGAL, ILLEGAL, ILLEGAL, ILLEGAL, ILLEGAL, ILLEGAL, ILLEGAL, ILLEGAL,
      ILLEGAL, ILLEGAL, ILLEGAL, Format_R, ILLEGAL, ILLEGAL, ILLEGAL, Format_U,
      ILLEGAL, ILLEGAL, ILLEGAL, Format_R, ILLEGAL, ILLEGAL, ILLEGAL, ILLEGAL,
      ILLEGAL, ILLEGAL, ILLEGAL, ILLEGAL, ILLEGAL, ILLEGAL, ILLEGAL, ILLEGAL,
      ILLEGAL, ILLEGAL, ILLEGAL, ILLEGAL, ILLEGAL, ILLEGAL, ILLEGAL, ILLEGAL,
      ILLEGAL, ILLEGAL, ILLEGAL, ILLEGAL, ILLEGAL, ILLEGAL, ILLEGAL, ILLEGAL,
      ILLEGAL, ILLEGAL, ILLEGAL, ILLEGAL, ILLEGAL, ILLEGAL, ILLEGAL, ILLEGAL,
      ILLEGAL, ILLEGAL, ILLEGAL, Format_B, ILLEGAL, ILLEGAL, ILLEGAL, Format_I,
      ILLEGAL, ILLEGAL, ILLEGAL, ILLEGAL, ILLEGAL, ILLEGAL, ILLEGAL, Format_J,
      ILLEGAL, ILLEGAL, ILLEGAL, Format_I, ILLEGAL, ILLEGAL, ILLEGAL, ILLEGAL,
      ILLEGAL, ILLEGAL, ILLEGAL, ILLEGAL, ILLEGAL, ILLEGAL, ILLEGAL, ILLEGAL]"

section \<open>Shape of the tables\<close>

lemma length_illegal_row [simp]: "length illegal_row = 8"
  by (simp add: illegal_row_def)

lemma illegal_row_nth [simp]: "k < 8 \<Longrightarrow> illegal_row ! k = Cell ILLEGAL INV_OP"
  by (simp add: illegal_row_def)

lemma INSTR_WHO_nth:
  "INSTR_WHO ! 3 =
     [Cell Format_I LB, Cell Format_I LH, Cell Format_I LW, Cell Format_I LD,
       Cell Format_I LBU, Cell Format_I LHU, Cell Format_I LWU, Cell Format_I INV_OP]"
  "INSTR_WHO ! 15 =
     [Cell Format_I PAUSE, Cell Format_I INV_OP, Cell Format_I INV_OP, Cell Format_I INV_OP,
       Cell Format_I INV_OP, Cell Format_I INV_OP, Cell Format_I INV_OP, Cell Format_I INV_OP]"
  "INSTR_WHO ! 19 =
     [Cell Format_I ADDI, Cell Format_I SLLI, Cell Format_I SLTI, Cell Format_I SLTIU,
       Cell Format_I XORI, Cell Format_I SRAI, Cell Format_I ORI, Cell Format_I ANDI]"
  "INSTR_WHO ! 23 =
     [Cell Format_U AUIPC, Cell Format_U AUIPC, Cell Format_U AUIPC, Cell Format_U AUIPC,
       Cell Format_U AUIPC, Cell Format_U AUIPC, Cell Format_U AUIPC, Cell Format_U AUIPC]"
  "INSTR_WHO ! 27 =
     [Cell Format_I ADDIW, Cell Format_I SLLIW, Cell Format_I INV_OP, Cell Format_I INV_OP,
       Cell Format_I INV_OP, Cell Format_I INV_OP, Cell Format_I INV_OP, Cell Format_I INV_OP]"
  "INSTR_WHO ! 35 =
     [Cell Format_S SB, Cell Format_S SH, Cell Format_S SW, Cell Format_S SD,
       Cell Format_S INV_OP, Cell Format_S INV_OP, Cell Format_S INV_OP, Cell Format_S INV_OP]"
  "INSTR_WHO ! 51 =
     [Cell Format_R INV_OP, Cell Format_R INV_OP, Cell Format_R INV_OP, Cell Format_R INV_OP,
       Cell Format_R INV_OP, Cell Format_R INV_OP, Cell Format_R INV_OP, Cell Format_R INV_OP]"
  "INSTR_WHO ! 55 =
     [Cell Format_U LUI, Cell Format_U LUI, Cell Format_U LUI, Cell Format_U LUI,
       Cell Format_U LUI, Cell Format_U LUI, Cell Format_U LUI, Cell Format_U LUI]"
  "INSTR_WHO ! 59 =
     [Cell Format_R INV_OP, Cell Format_R INV_OP, Cell Format_R INV_OP, Cell Format_R INV_OP,
       Cell Format_R INV_OP, Cell Format_R INV_OP, Cell Format_R INV_OP, Cell Format_R INV_OP]"
  "INSTR_WHO ! 99 =
     [Cell Format_B BEQ, Cell Format_B BNE, Cell Format_B INV_OP, Cell Format_B INV_OP,
       Cell Format_B BLT, Cell Format_B BGE, Cell Format_B BLTU, Cell Format_B BGEU]"
  "INSTR_WHO ! 103 =
     [Cell Format_I JALR, Cell Format_I INV_OP, Cell Format_I INV_OP, Cell Format_I INV_OP,
       Cell Format_I INV_OP, Cell Format_I INV_OP, Cell Format_I INV_OP, Cell Format_I INV_OP]"
  "INSTR_WHO ! 111 =
     [Cell Format_J JAL, Cell Format_J JAL, Cell Format_J JAL, Cell Format_J JAL,
       Cell Format_J JAL, Cell Format_J JAL, Cell Format_J JAL, Cell Format_J JAL]"
  "INSTR_WHO ! 115 =
     [Cell Format_I INV_OP, Cell Format_I CSRRW, Cell Format_I CSRRS, Cell Format_I CSRRC,
       Cell Format_I INV_OP, Cell Format_I CSRRWI, Cell Format_I CSRRSI, Cell Format_I CSRRCI]"
  by (simp_all add: INSTR_WHO_def INSTR_WHO_rows)

lemma tables_agree:
  "list_all2 (\<lambda>row f. length row = 8 \<and> list_all (\<lambda>c. cell_format c = f) row) INSTR_WHO OPCODE2FORMAT"
  by (simp add: INSTR_WHO_def INSTR_WHO_rows OPCODE2FORMAT_def illegal_row_def numeral_eq_Suc)

lemma length_INSTR_WHO: "length INSTR_WHO = 128"
  by (simp add: INSTR_WHO_def INSTR_WHO_rows)

lemma length_INSTR_WHO_row: "op < 128 \<Longrightarrow> length (INSTR_WHO ! op) = 8"
  using tables_agree by (auto simp: list_all2_conv_all_nth length_INSTR_WHO)

lemma INSTR_WHO_format:
  assumes "op < 128" and "f < 8"
  shows "cell_format (INSTR_WHO ! op ! f) = OPCODE2FORMAT ! op"
  using tables_agree assms
  by (auto simp: list_all2_conv_all_nth length_INSTR_WHO list_all_length)

end
