(* ===== verification/Decoder.thy ===== *)
theory Decoder
  imports BitMagic OpMatrix
begin

text \<open>
  The instruction decoder of \<^verbatim>\<open>src/decoder/decoder.cpp\<close>: \<open>parse\<close> looks the format up in the
  operation matrix and calls the parser of that format.  The assertions of the code are kept, so
  a decoder result is a value of the error type; no assertion of the decoder can fail.  An
  instruction field that the C++ aggregate initialiser leaves out is zero.  The lemmas describe
  the decoder on words laid out field by field (\<open>rv_word\<close>), which is every word.
\<close>

definition REG_WIDTH :: nat where "REG_WIDTH = 5"
definition OPCODE_WIDTH :: nat where "OPCODE_WIDTH = 7"
definition FUNC3_WIDTH :: nat where "FUNC3_WIDTH = 3"
definition FUNC3_SHIFT :: nat where "FUNC3_SHIFT = 12"
definition RD_SHIFT :: nat where "RD_SHIFT = 7"
definition RD_MASK :: u32 where "RD_MASK = push_bit 7 0x1F"
definition RS1_SHIFT :: nat where "RS1_SHIFT = 15"
definition RS2_SHIFT :: nat where "RS2_SHIFT = 20"

lemmas decoder_constants =
  REG_WIDTH_def OPCODE_WIDTH_def FUNC3_WIDTH_def FUNC3_SHIFT_def RD_SHIFT_def RD_MASK_def
  RS1_SHIFT_def RS2_SHIFT_def

definition ExtractRegister :: "nat \<Rightarrow> u32 \<Rightarrow> Register" where
  "ExtractRegister From bytecode = ExtractBits_ret REG_WIDTH From bytecode"

definition op_R :: "u8 \<Rightarrow> u16 \<Rightarrow> InstructionOp" where
  "op_R opcode func10 =
     (if opcode = 0b0110011 then
        (if func10 = 0b0000000000 then ADD
         else if func10 = 0b0100000000 then SUB
         else if func10 = 0b0000000001 then SLL
         else if func10 = 0b0000000010 then SLT
         else if func10 = 0b0000000011 then SLTU
         else if func10 = 0b0000000100 then XOR_op
         else if func10 = 0b0000000101 then SRL
         else if func10 = 0b0100000101 then SRA
         else if func10 = 0b0000000110 then OR_op
         else if func10 = 0b0000000111 then AND_op
         else INV_OP)
      else if opcode = 0b0111011 then
        (if func10 = 0b0000000000 then ADDW
         else if func10 = 0b0100000000 then SUBW
         else if func10 = 0b0000000001 then SLLW
         else if func10 = 0b0000000101 then SRLW
         else if func10 = 0b0100000101 then SRAW
         else INV_OP)
      else INV_OP)"

definition parse_R :: "u32 \<Rightarrow> u8 \<Rightarrow> u8 \<Rightarrow> Instruction res" where
  "parse_R bytecode opcode func3 =
     (let FUNC7_SHIFT = 25;
          FUNC7_MASK = push_bit FUNC7_SHIFT 0b1111111;
          func7 = (ucast (drop_bit (FUNC7_SHIFT - 3) (bytecode AND FUNC7_MASK)) :: u16);
          func10 = func7 OR ucast func3
      in bindE (assertE (func10 < 0b10000000000)) (\<lambda>_.
         Inr \<lparr>rd = ExtractRegister RD_SHIFT bytecode,
              rs1 = ExtractRegister RS1_SHIFT bytecode,
              rs2 = ExtractRegister RS2_SHIFT bytecode,
              immidiate = IMMIDIATE_POISON,
              operation = op_R opcode func10\<rparr>))"

definition parse_U :: "u32 \<Rightarrow> InstructionOp \<Rightarrow> Instruction res" where
  "parse_U bytecode op =
     (let IMM_SHIFT = 12;
          IMM_MASK = push_bit IMM_SHIFT 0b11111111111111111111
      in Inr \<lparr>rd = ExtractRegister RD_SHIFT bytecode, rs1 = 0, rs2 = 0,
              immidiate = ucast (bytecode AND IMM_MASK), operation = op\<rparr>)"

definition parse_I :: "u32 \<Rightarrow> InstructionOp \<Rightarrow> u8 \<Rightarrow> Instruction res" where
  "parse_I bytecode op opcode =
     (let imm = (ExtractBits 12 20 (ucast bytecode) :: u64);
          rdv = (ucast (drop_bit RD_SHIFT (bytecode AND RD_MASK)) :: u8);
          rs1v = ExtractRegister RS1_SHIFT bytecode
      in if op \<noteq> INV_OP then
           Inr \<lparr>rd = rdv, rs1 = rs1v, rs2 = 0, immidiate = imm, operation = op\<rparr>
         else
           (let func3 = (ucast (ExtractBits 3 FUNC3_SHIFT bytecode) :: u8)
            in if opcode = 0b0001111 then
                 Inr \<lparr>rd = rdv, rs1 = rs1v, rs2 = 0, immidiate = imm, operation = FENCE\<rparr>
               else
                 (let op' =
                    (if opcode = 0b1110011 then
                       (if rdv = 0 \<and> rs1v = 0 \<and> func3 = 0 then
                          (if imm = 0b0 then ECALL
                           else if imm = 0b1 then EBREAK
                           else if imm = 0b000100000010 then SRET
                           else if imm = 0b001100000010 then MRET
                           else op)
                        else op)
                     else if opcode = 0b0011011 then
                       (if drop_bit 25 bytecode = 0b0 then SRLIW
                        else if drop_bit 25 bytecode = 0b0100000 then SRAIW
                        else op)
                     else op)
                  in Inr \<lparr>rd = rdv, rs1 = rs1v, rs2 = 0, immidiate = imm, operation = op'\<rparr>)))"

definition parse_S :: "u32 \<Rightarrow> InstructionOp \<Rightarrow> Instruction res" where
  "parse_S bytecode op =
     (let imm11_5 = push_bit 5 (ExtractBits 7 25 (ucast bytecode) :: u64);
          imm4_0 = push_bit 0 (ExtractBits 5 7 (ucast bytecode) :: u64)
      in bindE (assertE (imm4_0 AND imm11_5 = 0)) (\<lambda>_.
         Inr \<lparr>rd = 0,
              rs1 = ExtractRegister RS1_SHIFT bytecode,
              rs2 = ExtractRegister RS2_SHIFT bytecode,
              immidiate = imm4_0 OR imm11_5,
              operation = op\<rparr>))"

definition parse_B :: "u32 \<Rightarrow> InstructionOp \<Rightarrow> Instruction res" where
  "parse_B bytecode op =
     (let imm12 = push_bit 12 (ExtractBits 1 31 (ucast bytecode) :: u64);
          imm5_10 = push_bit 5 (ExtractBits 6 25 (ucast bytecode) :: u64);
          imm1_4 = push_bit 1 (ExtractBits 4 8 (ucast bytecode) :: u64);
          imm11 = push_bit 11 (ExtractBits 1 7 (ucast bytecode) :: u64)
      in bindE (assertE (imm1_4 AND imm5_10 AND imm11 AND imm12 = 0)) (\<lambda>_.
         Inr \<lparr>rd = 0,
              rs1 = ExtractRegister RS1_SHIFT bytecode,
              rs2 = ExtractRegister RS2_SHIFT bytecode,
              immidiate = imm1_4 OR imm5_10 OR imm11 OR imm12,
              operation = op\<rparr>))"

definition parse_J :: "u32 \<Rightarrow> InstructionOp \<Rightarrow> Instruction res" where
  "parse_J bytecode op =
     (let bit20 = push_bit 20 (ExtractBits 1 (12 + 19) bytecode);
          bit1_10 = push_bit 1 (ExtractBits 10 (12 + 9) bytecode);
          bit11 = push_bit 11 (ExtractBits 1 (12 + 8) bytecode);
          bit12_19 = push_bit 12 (ExtractBits 8 (12 + 0) bytecode)
      in bindE (assertE (bit20 AND bit1_10 AND bit11 AND bit12_19 = 0)) (\<lambda>_.
         Inr \<lparr>rd = ExtractRegister RD_SHIFT bytecode, rs1 = 0, rs2 = 0,
              immidiate = ucast (bit20 OR bit1_10 OR bit11 OR bit12_19),
              operation = op\<rparr>))"

definition parse :: "u32 \<Rightarrow> Instruction res" where
  "parse bytecode =
     (let opcode = (ucast (ExtractBits OPCODE_WIDTH 0 bytecode) :: u8);
          func3 = (ucast (ExtractBits FUNC3_WIDTH FUNC3_SHIFT bytecode) :: u8)
      in bindE (assertE (opcode < 128)) (\<lambda>_.
         bindE (assertE (func3 < 8)) (\<lambda>_.
         let cell = INSTR_WHO ! unat opcode ! unat func3;
             op = cell_operation cell
         in case cell_format cell of
              Format_R \<Rightarrow> parse_R bytecode opcode func3
            | Format_I \<Rightarrow> parse_I bytecode op opcode
            | Format_S \<Rightarrow> parse_S bytecode op
            | Format_B \<Rightarrow> parse_B bytecode op
            | Format_U \<Rightarrow> parse_U bytecode op
            | Format_J \<Rightarrow> parse_J bytecode op
            | ILLEGAL \<Rightarrow> Inr \<lparr>rd = 0, rs1 = 0, rs2 = 0, immidiate = 0, operation = INV_OP\<rparr>)))"

section \<open>Instruction words, field by field\<close>

text \<open>
  The six fields every 32-bit RISC-V instruction format is cut into; the immediates of the
  I, S, B, U and J formats occupy the fields the format does not use.
\<close>

definition rv_word ::
    "7 word \<Rightarrow> 5 word \<Rightarrow> 5 word \<Rightarrow> 3 word \<Rightarrow> 5 word \<Rightarrow> 7 word \<Rightarrow> u32" where
  "rv_word f7 r2 r1 f3 d oc =
     push_bit 25 (ucast f7) OR push_bit 20 (ucast r2) OR push_bit 15 (ucast r1) OR
     push_bit 12 (ucast f3) OR push_bit 7 (ucast d) OR ucast oc"

lemma bit_rv_word:
  "bit (rv_word f7 r2 r1 f3 d oc) n \<longleftrightarrow>
     (if n < 7 then bit oc n else if n < 12 then bit d (n - 7)
      else if n < 15 then bit f3 (n - 12) else if n < 20 then bit r1 (n - 15)
      else if n < 25 then bit r2 (n - 20) else n < 32 \<and> bit f7 (n - 25))"
  by (auto simp: rv_word_def bit_or_iff bit_push_bit_iff bit_ucast_iff dest: bit_imp_le_length)

lemma rv_word_cases:
  obtains f7 r2 r1 f3 d oc where "w = rv_word f7 r2 r1 f3 d oc"
proof
  show "w = rv_word (ucast (drop_bit 25 w)) (ucast (drop_bit 20 w)) (ucast (drop_bit 15 w))
      (ucast (drop_bit 12 w)) (ucast (drop_bit 7 w)) (ucast w)"
    by (rule bit_word_eqI) (auto simp: bit_rv_word bit_ucast_iff bit_drop_bit_eq)
qed

lemma rv_word_opcode: "(ucast (ExtractBits OPCODE_WIDTH 0 (rv_word f7 r2 r1 f3 d oc)) :: u8) = ucast oc"
  by (rule bit_word_eqI)
    (auto simp: bit_rv_word bit_ucast_iff bit_ExtractBits decoder_constants dest: bit_imp_le_length)

lemma rv_word_func3:
  "(ucast (ExtractBits FUNC3_WIDTH FUNC3_SHIFT (rv_word f7 r2 r1 f3 d oc)) :: u8) = ucast f3"
  by (rule bit_word_eqI)
    (auto simp: bit_rv_word bit_ucast_iff bit_ExtractBits decoder_constants dest: bit_imp_le_length)

lemma rv_word_regs:
  "ExtractRegister RD_SHIFT (rv_word f7 r2 r1 f3 d oc) = ucast d"
  "ExtractRegister RS1_SHIFT (rv_word f7 r2 r1 f3 d oc) = ucast r1"
  "ExtractRegister RS2_SHIFT (rv_word f7 r2 r1 f3 d oc) = ucast r2"
  by (rule bit_word_eqI;
      auto simp: ExtractRegister_def bit_rv_word bit_ucast_iff bit_ExtractBits_ret decoder_constants
        dest: bit_imp_le_length)+

lemma RD_MASK_eq: "RD_MASK = BitMask 5 7"
  by (simp add: RD_MASK_def BitMask_def)

lemma rv_word_rd_masked:
  "(ucast (drop_bit RD_SHIFT (rv_word f7 r2 r1 f3 d oc AND RD_MASK)) :: u8) = ucast d"
  unfolding RD_MASK_eq
  by (rule bit_word_eqI)
    (auto simp: bit_rv_word bit_ucast_iff bit_and_iff bit_drop_bit_eq bit_BitMask RD_SHIFT_def
      dest: bit_imp_le_length)

lemmas rv_word_fields = rv_word_opcode rv_word_func3 rv_word_regs rv_word_rd_masked


lemma unat_field [simp]:
  "unat (ucast oc :: u8) = unat oc" "unat (ucast f3 :: u8) = unat f3" "unat (ucast d :: u8) = unat d"
  for oc :: "7 word" and f3 :: "3 word" and d :: "5 word"
  by (simp_all add: unat_ucast_up)

lemma field_bounds [simp]:
  "(ucast oc :: u8) < 128" "(ucast f3 :: u8) < 8" "(ucast d :: u8) < 32"
  "unat oc < 128" "unat f3 < 8" "unat d < 32"
  for oc :: "7 word" and f3 :: "3 word" and d :: "5 word"
  using unsigned_less [where 'a = nat, of oc] unsigned_less [where 'a = nat, of f3] unsigned_less [where 'a = nat, of d]
  by (simp_all add: word_less_nat_alt)

section \<open>The format parsers on instruction words\<close>

lemma rv_word_imm_I:
  "(ExtractBits 12 20 (ucast (rv_word f7 r2 r1 f3 d oc)) :: u64) = ucast (word_cat f7 r2 :: 12 word)"
  by (rule bit_word_eqI)
    (auto simp: bit_ExtractBits bit_ucast_iff bit_rv_word bit_word_cat_iff dest: bit_imp_le_length)

lemma rv_word_func7:
  "(ucast (drop_bit 22 (rv_word f7 r2 r1 f3 d oc AND push_bit 25 0b1111111)) :: u16) OR ucast (ucast f3 :: u8)
     = ucast (word_cat f7 f3 :: 10 word)"
proof -
  have m: "(push_bit 25 0b1111111 :: u32) = BitMask 7 25" by (simp add: BitMask_def)
  show ?thesis unfolding m
    by (rule bit_word_eqI)
      (auto simp: bit_or_iff bit_and_iff bit_drop_bit_eq bit_ucast_iff bit_rv_word bit_BitMask
        bit_word_cat_iff dest: bit_imp_le_length)
qed

lemma ucast_10_bound: "(ucast (x :: 10 word) :: u16) < 1024"
  using unsigned_less [where 'a = nat, of x] by (simp add: word_less_nat_alt unat_ucast_up)

lemma parse_R_rv_word:
  "parse_R (rv_word f7 r2 r1 f3 d oc) opc (ucast f3) =
     Inr \<lparr>rd = ucast d, rs1 = ucast r1, rs2 = ucast r2, immidiate = IMMIDIATE_POISON,
          operation = op_R opc (ucast (word_cat f7 f3 :: 10 word))\<rparr>"
  using rv_word_func7 [of f7 r2 r1 f3 d oc]
  by (simp add: parse_R_def Let_def rv_word_fields ucast_10_bound)

lemma parse_S_rv_word:
  "parse_S (rv_word f7 r2 r1 f3 d oc) op =
     Inr \<lparr>rd = 0, rs1 = ucast r1, rs2 = ucast r2, immidiate = ucast (word_cat f7 d :: 12 word),
          operation = op\<rparr>"
proof -
  let ?w = "ucast (rv_word f7 r2 r1 f3 d oc) :: u64"
  have "push_bit 0 (ExtractBits 5 7 ?w) AND push_bit 5 (ExtractBits 7 25 ?w) = 0"
    by (rule bit_word_eqI) (auto simp: bit_and_iff bit_push_bit_iff bit_ExtractBits)
  moreover have "push_bit 0 (ExtractBits 5 7 ?w) OR push_bit 5 (ExtractBits 7 25 ?w)
      = ucast (word_cat f7 d :: 12 word)"
    by (rule bit_word_eqI)
      (auto simp: bit_or_iff bit_push_bit_iff bit_ExtractBits bit_ucast_iff bit_rv_word
        bit_word_cat_iff dest: bit_imp_le_length)
  ultimately show ?thesis by (simp add: parse_S_def Let_def rv_word_fields)
qed

lemma parse_U_rv_word:
  "parse_U (rv_word f7 r2 r1 f3 d oc) op =
     Inr \<lparr>rd = ucast d, rs1 = 0, rs2 = 0,
          immidiate = push_bit 12 (ucast (drop_bit 12 (rv_word f7 r2 r1 f3 d oc))), operation = op\<rparr>"
proof -
  have m: "(push_bit 12 0b11111111111111111111 :: u32) = BitMask 20 12" by (simp add: BitMask_def)
  have "(ucast (rv_word f7 r2 r1 f3 d oc AND BitMask 20 12) :: u64)
      = push_bit 12 (ucast (drop_bit 12 (rv_word f7 r2 r1 f3 d oc)))"
    by (rule bit_word_eqI)
      (auto simp: bit_and_iff bit_push_bit_iff bit_ucast_iff bit_drop_bit_eq bit_BitMask
        dest: bit_imp_le_length)
  then show ?thesis unfolding parse_U_def Let_def m by (simp add: rv_word_fields)
qed

text \<open>The scattered immediates of the B and J formats, as bits of the instruction word.\<close>

lemma bit_placed_field:
  "bit (push_bit k (ExtractBits c f w) :: 'a::len word) n \<longleftrightarrow>
     n < LENGTH('a) \<and> k \<le> n \<and> n < k + c \<and> bit w (f + (n - k))"
  by (auto simp: bit_push_bit_iff bit_ExtractBits)

definition imm_B :: "u32 \<Rightarrow> u64" where
  "imm_B w =
     push_bit 1 (ExtractBits 4 8 (ucast w)) OR push_bit 5 (ExtractBits 6 25 (ucast w)) OR
     push_bit 11 (ExtractBits 1 7 (ucast w)) OR push_bit 12 (ExtractBits 1 31 (ucast w))"

definition imm_J :: "u32 \<Rightarrow> u64" where
  "imm_J w = ucast (push_bit 20 (ExtractBits 1 31 w) OR push_bit 1 (ExtractBits 10 21 w) OR
     push_bit 11 (ExtractBits 1 20 w) OR push_bit 12 (ExtractBits 8 12 w))"

lemma bit_placed_single:
  "k < LENGTH('a) \<Longrightarrow> bit (push_bit k (ExtractBits 1 f w) :: 'a::len word) n \<longleftrightarrow> n = k \<and> bit w f"
  unfolding bit_placed_field by (cases "n = k") auto

lemma bit_imm_B:
  "bit (imm_B w) n \<longleftrightarrow>
     (1 \<le> n \<and> n < 5 \<and> bit w (8 + (n - 1))) \<or> (5 \<le> n \<and> n < 11 \<and> bit w (25 + (n - 5))) \<or>
     (n = 11 \<and> bit w 7) \<or> (n = 12 \<and> bit w 31)"
proof -
  have "bit (push_bit 1 (ExtractBits 4 8 (ucast w)) :: u64) n \<longleftrightarrow> 1 \<le> n \<and> n < 5 \<and> bit w (8 + (n - 1))"
    unfolding bit_placed_field by (auto simp: bit_ucast_iff)
  moreover have "bit (push_bit 5 (ExtractBits 6 25 (ucast w)) :: u64) n \<longleftrightarrow>
      5 \<le> n \<and> n < 11 \<and> bit w (25 + (n - 5))"
    unfolding bit_placed_field by (auto simp: bit_ucast_iff)
  moreover have "bit (push_bit 11 (ExtractBits 1 7 (ucast w)) :: u64) n \<longleftrightarrow> n = 11 \<and> bit w 7"
    by (subst bit_placed_single) (simp_all add: bit_ucast_iff)
  moreover have "bit (push_bit 12 (ExtractBits 1 31 (ucast w)) :: u64) n \<longleftrightarrow> n = 12 \<and> bit w 31"
    by (subst bit_placed_single) (simp_all add: bit_ucast_iff)
  ultimately show ?thesis by (simp only: imm_B_def bit_or_iff)
qed

lemma bit_imm_J:
  "bit (imm_J w) n \<longleftrightarrow>
     (1 \<le> n \<and> n < 11 \<and> bit w (21 + (n - 1))) \<or> (n = 11 \<and> bit w 20) \<or>
     (12 \<le> n \<and> n < 20 \<and> bit w (12 + (n - 12))) \<or> (n = 20 \<and> bit w 31)"
proof -
  have "bit (push_bit 1 (ExtractBits 10 21 w)) n \<longleftrightarrow> 1 \<le> n \<and> n < 11 \<and> bit w (21 + (n - 1))"
    unfolding bit_placed_field by auto
  moreover have "bit (push_bit 12 (ExtractBits 8 12 w)) n \<longleftrightarrow> 12 \<le> n \<and> n < 20 \<and> bit w (12 + (n - 12))"
    unfolding bit_placed_field by auto
  moreover have "bit (push_bit 11 (ExtractBits 1 20 w)) n \<longleftrightarrow> n = 11 \<and> bit w 20"
    by (subst bit_placed_single) simp_all
  moreover have "bit (push_bit 20 (ExtractBits 1 31 w)) n \<longleftrightarrow> n = 20 \<and> bit w 31"
    by (subst bit_placed_single) simp_all
  moreover have "bit (imm_J w) n \<longleftrightarrow> n < 64 \<and>
      bit (push_bit 20 (ExtractBits 1 31 w) OR push_bit 1 (ExtractBits 10 21 w) OR
        push_bit 11 (ExtractBits 1 20 w) OR push_bit 12 (ExtractBits 8 12 w)) n"
    by (simp add: imm_J_def bit_ucast_iff)
  ultimately show ?thesis by (simp only: bit_or_iff) auto
qed

lemma parse_B_word:
  "parse_B w op =
     Inr \<lparr>rd = 0, rs1 = ExtractRegister RS1_SHIFT w, rs2 = ExtractRegister RS2_SHIFT w,
          immidiate = imm_B w, operation = op\<rparr>"
proof -
  let ?w = "ucast w :: u64"
  have "push_bit 1 (ExtractBits 4 8 ?w) AND push_bit 5 (ExtractBits 6 25 ?w) AND
      push_bit 11 (ExtractBits 1 7 ?w) AND push_bit 12 (ExtractBits 1 31 ?w) = 0"
    by (rule bit_word_eqI) (simp only: bit_and_iff bit_placed_field, simp)
  then show ?thesis
    by (simp only: parse_B_def imm_B_def Let_def assertE_True bindE_Inr)
qed

lemma parse_J_word:
  "parse_J w op =
     Inr \<lparr>rd = ExtractRegister RD_SHIFT w, rs1 = 0, rs2 = 0, immidiate = imm_J w, operation = op\<rparr>"
proof -
  have n: "(12::nat) + 19 = 31" "(12::nat) + 9 = 21" "(12::nat) + 8 = 20" "(12::nat) + 0 = 12"
    by simp_all
  have "push_bit 20 (ExtractBits 1 31 w) AND push_bit 1 (ExtractBits 10 21 w) AND
      push_bit 11 (ExtractBits 1 20 w) AND push_bit 12 (ExtractBits 8 12 w) = 0"
    by (rule bit_word_eqI) (simp only: bit_and_iff bit_placed_field, simp)
  then show ?thesis
    by (simp only: parse_J_def imm_J_def n Let_def assertE_True bindE_Inr)
qed

section \<open>The decoder on instruction words\<close>

lemma parse_rv_word:
  "parse (rv_word f7 r2 r1 f3 d oc) =
     (let w = rv_word f7 r2 r1 f3 d oc; cell = INSTR_WHO ! unat oc ! unat f3; op = cell_operation cell
      in case cell_format cell of
           Format_R \<Rightarrow> Inr \<lparr>rd = ucast d, rs1 = ucast r1, rs2 = ucast r2,
             immidiate = IMMIDIATE_POISON, operation = op_R (ucast oc) (ucast (word_cat f7 f3 :: 10 word))\<rparr>
         | Format_I \<Rightarrow> parse_I w op (ucast oc)
         | Format_S \<Rightarrow> Inr \<lparr>rd = 0, rs1 = ucast r1, rs2 = ucast r2,
             immidiate = ucast (word_cat f7 d :: 12 word), operation = op\<rparr>
         | Format_B \<Rightarrow> Inr \<lparr>rd = 0, rs1 = ucast r1, rs2 = ucast r2, immidiate = imm_B w, operation = op\<rparr>
         | Format_U \<Rightarrow> Inr \<lparr>rd = ucast d, rs1 = 0, rs2 = 0,
             immidiate = push_bit 12 (ucast (drop_bit 12 w)), operation = op\<rparr>
         | Format_J \<Rightarrow> Inr \<lparr>rd = ucast d, rs1 = 0, rs2 = 0, immidiate = imm_J w, operation = op\<rparr>
         | ILLEGAL \<Rightarrow> Inr \<lparr>rd = 0, rs1 = 0, rs2 = 0, immidiate = 0, operation = INV_OP\<rparr>)"
  by (simp add: parse_def rv_word_fields Let_def parse_R_rv_word parse_S_rv_word parse_U_rv_word
      parse_B_word parse_J_word cong: Format.case_cong split: Format.split)

lemma parse_I_rv_word:
  "parse_I (rv_word f7 r2 r1 f3 d oc) op (ucast oc) =
     Inr \<lparr>rd = ucast d, rs1 = ucast r1, rs2 = 0, immidiate = ucast (word_cat f7 r2 :: 12 word),
          operation =
            (if op \<noteq> INV_OP then op
             else if oc = 0b0001111 then FENCE
             else if oc = 0b1110011 \<and> d = 0 \<and> r1 = 0 \<and> f3 = 0 then
               (if (word_cat f7 r2 :: 12 word) = 0 then ECALL
                else if (word_cat f7 r2 :: 12 word) = 1 then EBREAK
                else if (word_cat f7 r2 :: 12 word) = 0b000100000010 then SRET
                else if (word_cat f7 r2 :: 12 word) = 0b001100000010 then MRET
                else INV_OP)
             else if oc = 0b0011011 then
               (if f7 = 0 then SRLIW else if f7 = 0b0100000 then SRAIW else INV_OP)
             else INV_OP)\<rparr>"
proof -
  have f7: "drop_bit 25 (rv_word f7 r2 r1 f3 d x) = ucast f7" for x
    by (rule bit_word_eqI) (auto simp: bit_drop_bit_eq bit_rv_word bit_ucast_iff dest: bit_imp_le_length)
  have f3: "(ucast (ExtractBits 3 FUNC3_SHIFT (rv_word f7 r2 r1 f3 d x)) :: u8) = ucast f3" for x
    using rv_word_func3 by (simp add: FUNC3_WIDTH_def)
  have cmp: "(ucast oc :: u8) = 0b0001111 \<longleftrightarrow> oc = 0b0001111" "(ucast oc :: u8) = 0b1110011 \<longleftrightarrow> oc = 0b1110011"
    "(ucast oc :: u8) = 0b0011011 \<longleftrightarrow> oc = 0b0011011"
    "(ucast d :: u8) = 0 \<longleftrightarrow> d = 0" "(ucast r1 :: u8) = 0 \<longleftrightarrow> r1 = 0" "(ucast f3 :: u8) = 0 \<longleftrightarrow> f3 = 0"
    "(ucast f7 :: u32) = 0 \<longleftrightarrow> f7 = 0" "(ucast f7 :: u32) = 0b0100000 \<longleftrightarrow> f7 = 0b0100000"
    by (rule ucast_up_eq_iff; simp)+
  have imm: "(ucast m :: u64) = 0 \<longleftrightarrow> m = 0" "(ucast m :: u64) = 1 \<longleftrightarrow> m = 1"
    "(ucast m :: u64) = 0b000100000010 \<longleftrightarrow> m = 0b000100000010"
    "(ucast m :: u64) = 0b001100000010 \<longleftrightarrow> m = 0b001100000010" for m :: "12 word"
    by (rule ucast_up_eq_iff; simp)+
  note unf = parse_I_def Let_def rv_word_imm_I rv_word_fields f7 f3 cmp imm
  show ?thesis
  proof (cases "op = INV_OP")
    case True
    consider "oc = 0b0001111" | "oc = 0b1110011" | "oc = 0b0011011"
      | "oc \<noteq> 0b0001111" "oc \<noteq> 0b1110011" "oc \<noteq> 0b0011011" by blast
    then show ?thesis
      by cases (simp_all only: unf True simp_thms if_True if_False cong: if_cong, simp_all split del: if_split cong: if_cong)
  next
    case False
    then show ?thesis by (simp only: unf) simp
  qed
qed

text \<open>One rewrite rule per format, for words whose opcode and function bits select it.\<close>

lemma parse_by_format:
  fixes f7 :: "7 word" and r2 r1 d :: "5 word" and f3 :: "3 word" and oc :: "7 word"
  defines "cell \<equiv> INSTR_WHO ! unat oc ! unat f3"
  shows parse_format_R: "cell_format cell = Format_R \<Longrightarrow> parse (rv_word f7 r2 r1 f3 d oc) =
      Inr \<lparr>rd = ucast d, rs1 = ucast r1, rs2 = ucast r2, immidiate = IMMIDIATE_POISON,
           operation = op_R (ucast oc) (ucast (word_cat f7 f3 :: 10 word))\<rparr>"
    and parse_format_I: "cell_format cell = Format_I \<Longrightarrow> parse (rv_word f7 r2 r1 f3 d oc) =
      Inr \<lparr>rd = ucast d, rs1 = ucast r1, rs2 = 0, immidiate = ucast (word_cat f7 r2 :: 12 word),
           operation =
            (if cell_operation cell \<noteq> INV_OP then cell_operation cell
             else if oc = 0b0001111 then FENCE
             else if oc = 0b1110011 \<and> d = 0 \<and> r1 = 0 \<and> f3 = 0 then
               (if (word_cat f7 r2 :: 12 word) = 0 then ECALL
                else if (word_cat f7 r2 :: 12 word) = 1 then EBREAK
                else if (word_cat f7 r2 :: 12 word) = 0b000100000010 then SRET
                else if (word_cat f7 r2 :: 12 word) = 0b001100000010 then MRET
                else INV_OP)
             else if oc = 0b0011011 then
               (if f7 = 0 then SRLIW else if f7 = 0b0100000 then SRAIW else INV_OP)
             else INV_OP)\<rparr>"
    and parse_format_S: "cell_format cell = Format_S \<Longrightarrow> parse (rv_word f7 r2 r1 f3 d oc) =
      Inr \<lparr>rd = 0, rs1 = ucast r1, rs2 = ucast r2, immidiate = ucast (word_cat f7 d :: 12 word),
           operation = cell_operation cell\<rparr>"
    and parse_format_B: "cell_format cell = Format_B \<Longrightarrow> parse (rv_word f7 r2 r1 f3 d oc) =
      Inr \<lparr>rd = 0, rs1 = ucast r1, rs2 = ucast r2, immidiate = imm_B (rv_word f7 r2 r1 f3 d oc),
           operation = cell_operation cell\<rparr>"
    and parse_format_U: "cell_format cell = Format_U \<Longrightarrow> parse (rv_word f7 r2 r1 f3 d oc) =
      Inr \<lparr>rd = ucast d, rs1 = 0, rs2 = 0,
           immidiate = push_bit 12 (ucast (drop_bit 12 (rv_word f7 r2 r1 f3 d oc))),
           operation = cell_operation cell\<rparr>"
    and parse_format_J: "cell_format cell = Format_J \<Longrightarrow> parse (rv_word f7 r2 r1 f3 d oc) =
      Inr \<lparr>rd = ucast d, rs1 = 0, rs2 = 0, immidiate = imm_J (rv_word f7 r2 r1 f3 d oc),
           operation = cell_operation cell\<rparr>"
    and parse_format_ILLEGAL: "cell_format cell = ILLEGAL \<Longrightarrow> parse (rv_word f7 r2 r1 f3 d oc) =
      Inr \<lparr>rd = 0, rs1 = 0, rs2 = 0, immidiate = 0, operation = INV_OP\<rparr>"
  unfolding parse_rv_word cell_def Let_def by (simp_all only: Format.case parse_I_rv_word)

lemma row_const: "k < 8 \<Longrightarrow> [c, c, c, c, c, c, c, c] ! k = c"
  by (simp add: nth_Cons split: nat.split)

section \<open>What every decoded instruction satisfies\<close>

text \<open>
  Decoded register numbers name one of the 32 integer registers, the end marker of a basic block
  is never decoded, and the offset of a direct jump or branch is even.
\<close>

definition is_direct_jump :: "InstructionOp \<Rightarrow> bool" where
  "is_direct_jump op \<longleftrightarrow> op \<in> {JAL, BEQ, BNE, BLT, BGE, BLTU, BGEU}"

definition wf_instr :: "Instruction \<Rightarrow> bool" where
  "wf_instr i \<longleftrightarrow>
     rd i < 32 \<and> rs1 i < 32 \<and> rs2 i < 32 \<and> operation i \<noteq> BB_END \<and>
     (is_direct_jump (operation i) \<longrightarrow> even (immidiate i))"

definition wf_cell :: "Cell \<Rightarrow> bool" where
  "wf_cell c \<longleftrightarrow>
     cell_operation c \<noteq> BB_END \<and>
     (is_direct_jump (cell_operation c) \<longrightarrow> cell_format c = Format_B \<or> cell_format c = Format_J)"

lemma wf_cells: "list_all (list_all wf_cell) INSTR_WHO"
  by (simp add: INSTR_WHO_def INSTR_WHO_rows illegal_row_def numeral_eq_Suc wf_cell_def is_direct_jump_def)

lemma wf_cell_INSTR_WHO: "wf_cell (INSTR_WHO ! unat oc ! unat f3)"
  for oc :: "7 word" and f3 :: "3 word"
  using wf_cells length_INSTR_WHO_row [of "unat oc"]
  by (simp add: list_all_length length_INSTR_WHO)

lemma op_R_wf: "op_R opc f \<noteq> BB_END \<and> \<not> is_direct_jump (op_R opc f)"
  by (simp add: op_R_def is_direct_jump_def)

lemma even_imm_B: "even (imm_B w)" and even_imm_J: "even (imm_J w)"
  by (simp_all add: even_word_iff_bit bit_imm_B bit_imm_J)

theorem parse_wf: "\<exists>i. parse w = Inr i \<and> wf_instr i"
proof -
  obtain f7 r2 r1 f3 d oc where w: "w = rv_word f7 r2 r1 f3 d oc"
    by (rule rv_word_cases)
  obtain fmt op where cell: "INSTR_WHO ! unat oc ! unat f3 = Cell fmt op"
    by (cases "INSTR_WHO ! unat oc ! unat f3")
  have "wf_cell (Cell fmt op)" using wf_cell_INSTR_WHO [of oc f3] by (simp add: cell)
  then show ?thesis
    unfolding w parse_rv_word Let_def cell
    using op_R_wf [of "ucast oc" "ucast (word_cat f7 f3 :: 10 word)"]
    by (cases fmt)
      (auto simp: wf_cell_def wf_instr_def parse_I_rv_word even_imm_B even_imm_J is_direct_jump_def)
qed

end
