(* ===== verification/BasicBlock.thy ===== *)
theory BasicBlock
  imports BitMagic Decoder
begin

text \<open>
  Decoded basic blocks and their cache, \<^verbatim>\<open>include/besm-666/exec/basic-block.hpp\<close> and
  \<^verbatim>\<open>src/exec/basic-block.cpp\<close>.  A block holds eight instruction slots and the address it was
  decoded from; the cache has 128 sets of eight ways, replaced in rotation within a set.  A
  reference to a block of the cache is its index in \<open>bbs\<close>.
\<close>

section \<open>Blocks\<close>

definition kCapacity :: nat where "kCapacity = 8"

record BasicBlock =
  instrs :: "Instruction list"
  bb_pc :: RV64Ptr

definition getPC :: "BasicBlock \<Rightarrow> RV64Ptr" where
  "getPC bb = bb_pc bb"

text \<open>
  The constructor poisons the address and sets one operation; the rest of the slots is
  indeterminate, for every block of the cache on its own.
\<close>

definition mkBasicBlock :: "Instruction list \<Rightarrow> BasicBlock" where
  "mkBasicBlock indeterminate =
     \<lparr>instrs = indeterminate[0 := (indeterminate ! 0)\<lparr>operation := INV_OP\<rparr>], bb_pc = 1\<rparr>"

section \<open>The cache\<close>

definition kSetBits :: nat where "kSetBits = 7"
definition kWayBits :: nat where "kWayBits = 3"
definition kSets :: u64 where "kSets = push_bit kSetBits 1"
definition kWays :: u64 where "kWays = push_bit kWayBits 1"
definition kSetMask :: u64 where "kSetMask = kSets - 1"
definition kWayMask :: u64 where "kWayMask = kWays - 1"

record BasicBlockCache =
  bbs :: "BasicBlock list"
  lruRowers :: "u64 list"

definition mkBasicBlockCache :: "(nat \<Rightarrow> Instruction list) \<Rightarrow> BasicBlockCache" where
  "mkBasicBlockCache indeterminate =
     \<lparr>bbs = map (\<lambda>i. mkBasicBlock (indeterminate i)) [0 ..< unat (kSets * kWays)],
      lruRowers = replicate (unat kSets) 0\<rparr>"

definition bb_hash :: "RV64Ptr \<Rightarrow> u64" where
  "bb_hash pc = drop_bit 5 (pc AND push_bit 5 kSetMask)"

definition lookup :: "RV64Ptr \<Rightarrow> BasicBlockCache \<Rightarrow> (bool \<times> nat) \<times> BasicBlockCache" where
  "lookup pc c =
     (let hash = bb_hash pc;
          setPos = hash * kWays
      in case find (\<lambda>i. getPC (bbs c ! unat (setPos + of_nat i)) = pc) [0 ..< unat kWays] of
           Some i \<Rightarrow> ((True, unat (setPos + of_nat i)), c)
         | None \<Rightarrow>
             (let rower = lruRowers c ! unat hash;
                  index = rower + setPos
              in ((False, unat index),
                  c\<lparr>lruRowers := (lruRowers c)[unat hash := (rower + 1) AND kWayMask]\<rparr>)))"

section \<open>Rebuilding a block\<close>

record BasicBlockRebuilder =
  rb_bb :: BasicBlock
  rb_count :: nat

definition mkBasicBlockRebuilder :: "BasicBlock \<Rightarrow> RV64Ptr \<Rightarrow> BasicBlockRebuilder" where
  "mkBasicBlockRebuilder targetBB pc = \<lparr>rb_bb = targetBB\<lparr>bb_pc := pc\<rparr>, rb_count = 0\<rparr>"

definition append_instr :: "Instruction \<Rightarrow> BasicBlockRebuilder \<Rightarrow> bool \<times> BasicBlockRebuilder" where
  "append_instr instr rb =
     (let slots = (instrs (rb_bb rb))[rb_count rb := instr];
          count = rb_count rb + 1
      in if isJump instr \<or> count = kCapacity - 1
         then (False, rb\<lparr>rb_bb := (rb_bb rb)\<lparr>instrs := slots[count := (slots ! count)\<lparr>operation := BB_END\<rparr>]\<rparr>,
                         rb_count := count\<rparr>)
         else (True, rb\<lparr>rb_bb := (rb_bb rb)\<lparr>instrs := slots\<rparr>, rb_count := count\<rparr>))"

section \<open>Blocks ready to execute\<close>

text \<open>
  \<open>block_end bb n\<close>: the first \<open>n\<close> slots hold well-formed instructions of which only the last may
  jump, and the end marker follows them.
\<close>

definition block_end :: "BasicBlock \<Rightarrow> nat \<Rightarrow> bool" where
  "block_end bb n \<longleftrightarrow>
     length (instrs bb) = kCapacity \<and> 0 < n \<and> n < kCapacity \<and>
     operation (instrs bb ! n) = BB_END \<and>
     (\<forall>i<n. wf_instr (instrs bb ! i)) \<and>
     (\<forall>i<n. isJump (instrs bb ! i) \<longrightarrow> i = n - 1)"

definition partial_block :: "BasicBlockRebuilder \<Rightarrow> bool" where
  "partial_block rb \<longleftrightarrow>
     length (instrs (rb_bb rb)) = kCapacity \<and> rb_count rb < kCapacity - 1 \<and>
     (\<forall>i<rb_count rb. wf_instr (instrs (rb_bb rb) ! i) \<and> \<not> isJump (instrs (rb_bb rb) ! i))"

lemma kCapacity_eq [simp]: "kCapacity = 8" by (simp add: kCapacity_def)

lemma partial_block_init [wf_intros]:
  "length (instrs bb) = kCapacity \<Longrightarrow> partial_block (mkBasicBlockRebuilder bb pc)"
  by (simp add: partial_block_def mkBasicBlockRebuilder_def)

lemma append_instr_continue:
  assumes "partial_block rb" and "wf_instr instr" and "append_instr instr rb = (True, rb')"
  shows "partial_block rb' \<and> rb_count rb' = rb_count rb + 1 \<and> bb_pc (rb_bb rb') = bb_pc (rb_bb rb) \<and>
         \<not> isJump instr \<and> (\<forall>i<rb_count rb. instrs (rb_bb rb') ! i = instrs (rb_bb rb) ! i) \<and>
         instrs (rb_bb rb') ! rb_count rb = instr"
  using assms by (auto simp: append_instr_def partial_block_def Let_def less_Suc_eq split: if_splits)

lemma append_instr_stop:
  assumes "partial_block rb" and "wf_instr instr" and "append_instr instr rb = (False, rb')"
  shows "block_end (rb_bb rb') (rb_count rb + 1) \<and> bb_pc (rb_bb rb') = bb_pc (rb_bb rb) \<and>
         (isJump instr \<or> rb_count rb + 1 = 7) \<and>
         (\<forall>i<rb_count rb. instrs (rb_bb rb') ! i = instrs (rb_bb rb) ! i) \<and>
         instrs (rb_bb rb') ! rb_count rb = instr"
  using assms
  by (auto simp: append_instr_def partial_block_def block_end_def Let_def less_Suc_eq nth_list_update split: if_splits)

lemma append_instr_progress: "fst (append_instr instr rb) \<Longrightarrow> rb_count (snd (append_instr instr rb)) = rb_count rb + 1"
  by (auto simp: append_instr_def Let_def split: if_splits)

lemma block_end_unique:
  assumes "block_end bb n" and "block_end bb m" and "\<forall>i. wf_instr i \<longrightarrow> operation i \<noteq> BB_END"
  shows "n = m"
  using assms unfolding block_end_def by (metis linorder_neqE_nat)

section \<open>Cache geometry\<close>

lemma cache_consts [simp]: "kSets = 128" "kWays = 8" "kSetMask = 127" "kWayMask = 7"
  by (simp_all add: kSets_def kWays_def kSetMask_def kWayMask_def kSetBits_def kWayBits_def)

lemma bb_hash_eq: "bb_hash pc = take_bit 7 (drop_bit 5 pc)"
proof (rule bit_word_eqI)
  fix i :: nat
  assume "i < LENGTH(64)"
  have m: "(127 :: u64) = mask 7" by (simp add: mask_eq_exp_minus_1)
  show "bit (bb_hash pc) i = bit (take_bit 7 (drop_bit 5 pc)) i"
    unfolding bb_hash_def cache_consts m
    by (auto simp: bit_drop_bit_eq bit_and_iff bit_push_bit_iff bit_mask_iff bit_take_bit_iff
        dest: bit_imp_le_length simp del: mask_numeral)
qed

lemma bb_hash_less: "unat (bb_hash pc) < 128"
  using unat_ExtractBits_bound [of 7 5 pc] by (simp add: bb_hash_eq ExtractBits_eq)

lemma unat_slot:
  assumes "unat h < 128" and "w < 8"
  shows "unat (h * kWays + of_nat w :: u64) = 8 * unat h + w"
proof -
  have "unat (of_nat w :: u64) = w" using assms by (simp add: unat_of_nat)
  then show ?thesis using assms by (simp add: unat_word_ariths)
qed

definition way_pc :: "BasicBlockCache \<Rightarrow> nat \<Rightarrow> nat \<Rightarrow> RV64Ptr" where
  "way_pc c h w = bb_pc (bbs c ! (8 * h + w))"

definition cache_shape :: "BasicBlockCache \<Rightarrow> bool" where
  "cache_shape c \<longleftrightarrow>
     length (bbs c) = 1024 \<and> length (lruRowers c) = 128 \<and> (\<forall>r\<in>set (lruRowers c). unat r < 8)"

lemma cache_shape_rower: "cache_shape c \<Longrightarrow> h < 128 \<Longrightarrow> unat (lruRowers c ! h) < 8"
  by (auto simp: cache_shape_def)

lemma find_upt_Some:
  "find P [a ..< b] = Some i \<Longrightarrow> a \<le> i \<and> i < b \<and> P i"
  by (auto simp: find_Some_iff)

lemma find_cong_upt: "(\<And>i. i < n \<Longrightarrow> P i = Q i) \<Longrightarrow> find P [0 ..< n] = find Q [0 ..< n]"
  by (rule find_cong) auto

lemma rower_next:
  assumes "unat (r :: u64) < 8"
  shows "unat ((r + 1) AND kWayMask) = (unat r + 1) mod 8"
proof -
  have m: "(7 :: u64) = mask 3" by (simp add: mask_eq_exp_minus_1)
  have "unat ((r + 1) AND kWayMask) = take_bit 3 (unat (r + 1))"
    unfolding cache_consts m by (simp only: take_bit_eq_mask [symmetric] unsigned_take_bit_eq)
  also have "unat (r + 1) = unat r + 1" using assms by (simp add: unat_word_ariths)
  finally show ?thesis by (simp add: take_bit_eq_mod)
qed

text \<open>\<^verbatim>\<open>lookup\<close> searches the eight ways of the set of \<^verbatim>\<open>pc\<close> and otherwise offers the way in turn.\<close>

lemma lookup_eq:
  fixes pc
  assumes "cache_shape c"
  defines "h \<equiv> unat (bb_hash pc)"
  shows "lookup pc c =
    (case find (\<lambda>w. way_pc c h w = pc) [0 ..< 8] of
       Some w \<Rightarrow> ((True, 8 * h + w), c)
     | None \<Rightarrow> ((False, 8 * h + unat (lruRowers c ! h)),
                c\<lparr>lruRowers := (lruRowers c)[h := (lruRowers c ! h + 1) AND kWayMask]\<rparr>))"
proof -
  have h: "h < 128" by (simp add: h_def bb_hash_less)
  have r: "unat (lruRowers c ! h) < 8" by (rule cache_shape_rower [OF assms(1) h])
  have find: "find (\<lambda>i. getPC (bbs c ! unat (bb_hash pc * kWays + of_nat i)) = pc) [0 ..< unat kWays] =
        find (\<lambda>w. way_pc c h w = pc) [0 ..< 8]"
  proof -
    have "getPC (bbs c ! unat (bb_hash pc * kWays + of_nat i)) = way_pc c h i" if "i < 8" for i
      using unat_slot [OF bb_hash_less that, of pc] by (simp add: getPC_def way_pc_def h_def)
    moreover have "unat kWays = 8" by simp
    ultimately show ?thesis by (simp only:) (intro find_cong_upt, simp)
  qed
  have slot: "unat (lruRowers c ! h + bb_hash pc * kWays) = 8 * h + unat (lruRowers c ! h)"
    using unat_slot [OF bb_hash_less r, of pc] by (simp add: h_def add.commute)
  show ?thesis
    unfolding lookup_def Let_def find
    using unat_slot [OF bb_hash_less, of _ pc] find_upt_Some [of "\<lambda>w. way_pc c h w = pc" 0 8] slot
    by (auto simp: h_def simp del: upt_rec_numeral split: option.splits)
qed

lemma cache_shape_lookup [wf_intros]:
  assumes "cache_shape c"
  shows "cache_shape (snd (lookup pc c))"
proof -
  have "unat ((lruRowers c ! unat (bb_hash pc) + 1) AND kWayMask) < 8"
    using rower_next [OF cache_shape_rower [OF assms bb_hash_less]] by simp
  then show ?thesis
    using assms unfolding lookup_eq [OF assms] cache_shape_def
    by (auto simp del: upt_rec_numeral cache_consts split: option.splits dest!: set_update_subset_insert [THEN subsetD])
qed

lemma lookup_slot:
  assumes "cache_shape c" and "lookup pc c = ((found, i), c')"
  shows "i < 1024" and "i div 8 = unat (bb_hash pc)" and "bbs c' = bbs c"
    and "found \<Longrightarrow> bb_pc (bbs c ! i) = pc \<and> c' = c"
proof -
  have r: "unat (lruRowers c ! unat (bb_hash pc)) < 8"
    by (rule cache_shape_rower [OF assms(1) bb_hash_less])
  show "i < 1024" "i div 8 = unat (bb_hash pc)" "bbs c' = bbs c"
    "found \<Longrightarrow> bb_pc (bbs c ! i) = pc \<and> c' = c"
    using assms(2) r bb_hash_less [of pc] find_upt_Some [of "\<lambda>w. way_pc c (unat (bb_hash pc)) w = pc" 0 8]
    unfolding lookup_eq [OF assms(1)]
    by (auto simp: way_pc_def simp del: upt_rec_numeral split: option.splits)
qed

section \<open>Contents of the cache\<close>

text \<open>
  Blocks are rebuilt in place, through the reference \<^verbatim>\<open>lookup\<close> returned.  \<open>cache_access\<close> is the use
  the hart makes of the cache: look the address up and, on a miss, rebuild the offered block.
\<close>

definition set_bb :: "nat \<Rightarrow> BasicBlock \<Rightarrow> BasicBlockCache \<Rightarrow> BasicBlockCache" where
  "set_bb i bb c = c\<lparr>bbs := (bbs c)[i := bb]\<rparr>"

definition cache_access :: "RV64Ptr \<Rightarrow> Instruction list \<Rightarrow> BasicBlockCache \<Rightarrow> BasicBlockCache" where
  "cache_access pc code c =
     (case lookup pc c of ((found, i), c') \<Rightarrow>
        if found then c' else set_bb i \<lparr>instrs = code, bb_pc = pc\<rparr> c')"

definition content :: "RV64Ptr \<Rightarrow> BasicBlockCache \<Rightarrow> Instruction list option" where
  "content pc c =
     (case fst (lookup pc c) of (found, i) \<Rightarrow> if found then Some (instrs (bbs c ! i)) else None)"

definition cache_ok :: "BasicBlockCache \<Rightarrow> bool" where
  "cache_ok c \<longleftrightarrow> cache_shape c \<and>
     (\<forall>h<128. \<forall>w<8. way_pc c h w = 1 \<or> unat (bb_hash (way_pc c h w)) = h) \<and>
     (\<forall>h<128. \<forall>w<8. \<forall>v<8. way_pc c h w = way_pc c h v \<longrightarrow> way_pc c h w = 1 \<or> w = v)"

lemma cache_okD: "cache_ok c \<Longrightarrow> cache_shape c" by (simp add: cache_ok_def)

lemma cache_shape_set_bb [wf_intros]: "cache_shape c \<Longrightarrow> cache_shape (set_bb i bb c)"
  by (simp add: cache_shape_def set_bb_def)

lemma slot_inj: "w < 8 \<Longrightarrow> v < 8 \<Longrightarrow> 8 * a + w = 8 * b + v \<longleftrightarrow> a = b \<and> w = v" for a b v w :: nat
  by presburger

lemma way_pc_set_bb:
  assumes "cache_shape c" and "h < 128" "w < 8" "v < 8"
  shows "way_pc (set_bb (8 * h + v) bb c) k w = (if k = h \<and> w = v then bb_pc bb else way_pc c k w)"
proof (cases "k = h \<and> w = v")
  case True
  then show ?thesis using assms by (simp add: way_pc_def set_bb_def cache_shape_def)
next
  case False
  have "8 * k + w \<noteq> 8 * h + v"
    using False unfolding slot_inj [OF assms(3,4)] .
  then have "bbs (set_bb (8 * h + v) bb c) ! (8 * k + w) = bbs c ! (8 * k + w)"
    by (simp add: set_bb_def)
  then show ?thesis using False by (auto simp: way_pc_def)
qed

lemma way_pc_rowers [simp]: "way_pc (c\<lparr>lruRowers := r\<rparr>) h w = way_pc c h w"
  by (simp add: way_pc_def)

definition hit_way :: "RV64Ptr \<Rightarrow> BasicBlockCache \<Rightarrow> nat option" where
  "hit_way pc c = find (\<lambda>w. way_pc c (unat (bb_hash pc)) w = pc) [0 ..< 8]"

lemma hit_way_iff:
  assumes "cache_ok c" and "pc \<noteq> 1"
  shows "hit_way pc c = Some w \<longleftrightarrow> w < 8 \<and> way_pc c (unat (bb_hash pc)) w = pc"
proof
  assume "hit_way pc c = Some w"
  then show "w < 8 \<and> way_pc c (unat (bb_hash pc)) w = pc"
    using find_upt_Some [of "\<lambda>w. way_pc c (unat (bb_hash pc)) w = pc" 0 8 w] by (simp add: hit_way_def)
next
  assume w: "w < 8 \<and> way_pc c (unat (bb_hash pc)) w = pc"
  then have "hit_way pc c \<noteq> None" by (auto simp: hit_way_def find_None_iff)
  then obtain v where v: "hit_way pc c = Some v" by auto
  then have "v < 8 \<and> way_pc c (unat (bb_hash pc)) v = pc"
    using find_upt_Some [of "\<lambda>w. way_pc c (unat (bb_hash pc)) w = pc" 0 8 v] by (simp add: hit_way_def)
  then have "v = w" using w assms bb_hash_less [of pc] unfolding cache_ok_def by metis
  then show "hit_way pc c = Some w" using v by simp
qed

lemma hit_way_None_iff:
  "hit_way pc c = None \<longleftrightarrow> (\<forall>w<8. way_pc c (unat (bb_hash pc)) w \<noteq> pc)"
  by (auto simp: hit_way_def find_None_iff)

lemma content_eq:
  assumes "cache_shape c"
  shows "content pc c = map_option (\<lambda>w. instrs (bbs c ! (8 * unat (bb_hash pc) + w))) (hit_way pc c)"
  unfolding content_def lookup_eq [OF assms] hit_way_def
  by (simp del: upt_rec_numeral split: option.splits)

text \<open>The state after an access that misses: the way in turn is overwritten.\<close>

definition fill :: "RV64Ptr \<Rightarrow> Instruction list \<Rightarrow> BasicBlockCache \<Rightarrow> BasicBlockCache" where
  "fill pc code c =
     (let h = unat (bb_hash pc)
      in set_bb (8 * h + unat (lruRowers c ! h)) \<lparr>instrs = code, bb_pc = pc\<rparr>
           (c\<lparr>lruRowers := (lruRowers c)[h := (lruRowers c ! h + 1) AND kWayMask]\<rparr>))"

lemma cache_access_eq:
  assumes "cache_shape c"
  shows "cache_access pc code c = (if hit_way pc c = None then fill pc code c else c)"
  unfolding cache_access_def lookup_eq [OF assms] hit_way_def fill_def Let_def
  by (auto simp del: upt_rec_numeral split: option.splits)

lemma fill_facts:
  assumes "cache_shape c"
  defines "h \<equiv> \<lambda>pc. unat (bb_hash pc)"
  shows "cache_shape (fill pc code c)"
    and "w < 8 \<Longrightarrow> way_pc (fill pc code c) k w =
           (if k = h pc \<and> w = unat (lruRowers c ! h pc) then pc else way_pc c k w)"
    and "unat (lruRowers (fill pc code c) ! k) =
           (if k = h pc then (unat (lruRowers c ! k) + 1) mod 8 else unat (lruRowers c ! k))"
    and "bbs (fill pc code c) = (bbs c)[8 * h pc + unat (lruRowers c ! h pc) := \<lparr>instrs = code, bb_pc = pc\<rparr>]"
proof -
  let ?c = "c\<lparr>lruRowers := (lruRowers c)[h pc := (lruRowers c ! h pc + 1) AND kWayMask]\<rparr>"
  have r: "unat (lruRowers c ! h pc) < 8" and hp: "h pc < 128"
    using cache_shape_rower [OF assms(1) bb_hash_less] by (simp_all add: h_def bb_hash_less)
  have next_rower: "unat ((lruRowers c ! h pc + 1) AND kWayMask) = (unat (lruRowers c ! h pc) + 1) mod 8"
    by (rule rower_next [OF r])
  then have sh: "cache_shape ?c"
    using assms(1) unfolding cache_shape_def
    by (auto simp del: cache_consts dest!: set_update_subset_insert [THEN subsetD])
  have f: "fill pc code c = set_bb (8 * h pc + unat (lruRowers c ! h pc)) \<lparr>instrs = code, bb_pc = pc\<rparr> ?c"
    by (simp add: fill_def h_def Let_def)
  show "cache_shape (fill pc code c)" unfolding f by (rule cache_shape_set_bb [OF sh])
  show "w < 8 \<Longrightarrow> way_pc (fill pc code c) k w =
           (if k = h pc \<and> w = unat (lruRowers c ! h pc) then pc else way_pc c k w)"
    unfolding f by (subst way_pc_set_bb [OF sh hp _ r]) simp_all
  show "unat (lruRowers (fill pc code c) ! k) =
           (if k = h pc then (unat (lruRowers c ! k) + 1) mod 8 else unat (lruRowers c ! k))"
    using next_rower hp assms(1) unfolding f
    by (auto simp: set_bb_def cache_shape_def nth_list_update simp del: cache_consts)
  show "bbs (fill pc code c) = (bbs c)[8 * h pc + unat (lruRowers c ! h pc) := \<lparr>instrs = code, bb_pc = pc\<rparr>]"
    unfolding f by (simp add: set_bb_def)
qed

lemma cache_ok_fill:
  assumes "cache_ok c" and "hit_way pc c = None"
  shows "cache_ok (fill pc code c)"
proof -
  note F = fill_facts [OF cache_okD [OF assms(1)], where pc = pc and code = code]
  have miss: "\<And>w. w < 8 \<Longrightarrow> way_pc c (unat (bb_hash pc)) w \<noteq> pc"
    using assms(2) by (simp add: hit_way_None_iff)
  show ?thesis
    unfolding cache_ok_def
  proof (intro conjI allI impI)
    show "cache_shape (fill pc code c)" by (rule F(1))
  next
    fix h w :: nat
    assume "h < 128" "w < 8"
    then show "way_pc (fill pc code c) h w = 1 \<or> unat (bb_hash (way_pc (fill pc code c) h w)) = h"
      using assms(1) by (simp add: F(2) cache_ok_def)
  next
    fix h w v :: nat
    assume a: "h < 128" "w < 8" "v < 8" "way_pc (fill pc code c) h w = way_pc (fill pc code c) h v"
    have old: "way_pc c h w = way_pc c h v \<Longrightarrow> way_pc c h w = 1 \<or> w = v"
      using assms(1) a by (simp add: cache_ok_def)
    show "way_pc (fill pc code c) h w = 1 \<or> w = v"
    proof (cases "h = unat (bb_hash pc)")
      case True
      then show ?thesis
        using a(4) old miss [OF a(2)] miss [OF a(3)] unfolding F(2) [OF a(2)] F(2) [OF a(3)] by metis
    next
      case False
      then show ?thesis using a(4) old unfolding F(2) [OF a(2)] F(2) [OF a(3)] by simp
    qed
  qed
qed

lemma cache_ok_access [wf_intros]: "cache_ok c \<Longrightarrow> cache_ok (cache_access pc code c)"
  by (simp add: cache_access_eq cache_okD cache_ok_fill)

lemma content_fill_same:
  assumes "cache_ok c" and "hit_way pc c = None" and "pc \<noteq> 1"
  shows "content pc (fill pc code c) = Some code"
proof -
  let ?h = "\<lambda>pc. unat (bb_hash pc)"
  let ?w = "unat (lruRowers c ! ?h pc)"
  note F = fill_facts [OF cache_okD [OF assms(1)], where pc = pc and code = code]
  note ok' = cache_ok_fill [OF assms(1,2), where code = code]
  have r: "?w < 8" by (rule cache_shape_rower [OF cache_okD [OF assms(1)] bb_hash_less])
  have len: "8 * ?h pc + ?w < length (bbs c)"
  proof -
    have "length (bbs c) = 1024" using cache_okD [OF assms(1)] by (simp add: cache_shape_def)
    then show ?thesis using bb_hash_less [of pc] r by linarith
  qed
  have "hit_way pc (fill pc code c) = Some ?w"
    unfolding hit_way_iff [OF ok' assms(3)] using r by (simp add: F(2))
  then show "content pc (fill pc code c) = Some code"
    unfolding content_eq [OF F(1)] using len by (simp add: F(4))
qed

lemma content_fill_other:
  assumes "cache_ok c" and "hit_way pc c = None" and q: "q \<noteq> 1" "q \<noteq> pc"
  shows "content q (fill pc code c) = content q c \<or> content q (fill pc code c) = None"
proof (cases "hit_way q (fill pc code c)")
  case None
  then show ?thesis by (simp add: content_eq [OF fill_facts(1) [OF cache_okD [OF assms(1)]]])
next
  case (Some w)
  let ?h = "\<lambda>pc. unat (bb_hash pc)"
  let ?w = "unat (lruRowers c ! ?h pc)"
  note F = fill_facts [OF cache_okD [OF assms(1)], where pc = pc and code = code]
  note ok' = cache_ok_fill [OF assms(1,2), where code = code]
  have r: "?w < 8" by (rule cache_shape_rower [OF cache_okD [OF assms(1)] bb_hash_less])
  have w: "w < 8" "way_pc (fill pc code c) (?h q) w = q"
    using Some unfolding hit_way_iff [OF ok' q(1)] by simp_all
  have nz: "\<not> (?h q = ?h pc \<and> w = ?w)" and old: "way_pc c (?h q) w = q"
    using q(2) w(2) unfolding F(2) [OF w(1)] by (metis, metis)
  have "hit_way q c = Some w" unfolding hit_way_iff [OF assms(1) q(1)] using w(1) old by blast
  moreover have "8 * ?h pc + ?w \<noteq> 8 * ?h q + w"
    using nz unfolding slot_inj [OF r w(1)] by metis
  ultimately have "content q (fill pc code c) = content q c"
    unfolding content_eq [OF F(1)] content_eq [OF cache_okD [OF assms(1)]] Some F(4) by simp
  then show ?thesis ..
qed
section \<open>The contract of a code cache\<close>

text \<open>
  \<open>content k c\<close> is what the cache holds for the key \<open>k\<close>; \<open>access\<close> offers a value to store on a miss.
  If every value offered for a key is the value of one function, the cache never answers with
  anything else, however keys are replaced.
\<close>

locale code_cache =
  fixes inv :: "'c \<Rightarrow> bool"
    and valid :: "'k \<Rightarrow> bool"
    and content :: "'k \<Rightarrow> 'c \<Rightarrow> 'v option"
    and access :: "'k \<Rightarrow> 'v \<Rightarrow> 'c \<Rightarrow> 'c"
  assumes access_inv: "inv c \<Longrightarrow> valid k \<Longrightarrow> inv (access k v c)"
    and access_same: "inv c \<Longrightarrow> valid k \<Longrightarrow>
          content k (access k v c) = (case content k c of None \<Rightarrow> Some v | Some u \<Rightarrow> Some u)"
    and access_other: "inv c \<Longrightarrow> valid k \<Longrightarrow> valid q \<Longrightarrow> q \<noteq> k \<Longrightarrow>
          content q (access k v c) = content q c \<or> content q (access k v c) = None"
begin

definition coherent :: "('k \<Rightarrow> 'v) \<Rightarrow> 'c \<Rightarrow> bool" where
  "coherent f c \<longleftrightarrow> (\<forall>k u. valid k \<longrightarrow> content k c = Some u \<longrightarrow> u = f k)"

lemma access_coherent:
  assumes "inv c" "valid k" "coherent f c"
  shows "coherent f (access k (f k) c)"
  unfolding coherent_def
proof (intro allI impI)
  fix q u
  assume q: "valid q" "content q (access k (f k) c) = Some u"
  show "u = f q"
  proof (cases "q = k")
    case True
    then show ?thesis
      using q assms(3) access_same [OF assms(1,2), of "f k"] assms(2)
      by (auto simp: coherent_def split: option.splits)
  next
    case False
    then show ?thesis
      using q assms(3) access_other [OF assms(1,2) q(1), of "f k"] by (auto simp: coherent_def)
  qed
qed

lemma accesses_coherent:
  "inv c \<Longrightarrow> coherent f c \<Longrightarrow> \<forall>k\<in>set ks. valid k \<Longrightarrow>
     inv (fold (\<lambda>k. access k (f k)) ks c) \<and> coherent f (fold (\<lambda>k. access k (f k)) ks c)"
  by (induction ks arbitrary: c) (auto intro: access_inv access_coherent)

lemma access_gives:
  assumes "inv c" "valid k" "coherent f c"
  shows "content k (access k (f k) c) = Some (f k)"
  using access_same [OF assms(1,2), of "f k"] assms(2,3)
  by (auto simp: coherent_def split: option.splits)

end

interpretation bb_cache: code_cache cache_ok "\<lambda>pc. pc \<noteq> 1" content cache_access
proof
  fix c :: BasicBlockCache and k q :: RV64Ptr and v :: "Instruction list"
  assume c: "cache_ok c" and k: "k \<noteq> 1"
  show "cache_ok (cache_access k v c)" by (rule cache_ok_access [OF c])
  show "content k (cache_access k v c) = (case content k c of None \<Rightarrow> Some v | Some u \<Rightarrow> Some u)"
  proof (cases "hit_way k c")
    case None
    then show ?thesis
      using content_fill_same [OF c None k] by (simp add: cache_access_eq content_eq cache_okD [OF c])
  next
    case (Some w)
    then show ?thesis by (simp add: cache_access_eq content_eq cache_okD [OF c])
  qed
  assume q: "q \<noteq> 1" "q \<noteq> k"
  show "content q (cache_access k v c) = content q c \<or> content q (cache_access k v c) = None"
    using content_fill_other [OF c _ q] by (simp add: cache_access_eq cache_okD [OF c])
qed

section \<open>How long a block stays\<close>

text \<open>
  \<open>resident k\<close>: the block of \<open>pc\<close> is in way \<open>w\<close> of its set and \<open>k\<close> blocks were placed in the set
  since.
\<close>

definition resident :: "RV64Ptr \<Rightarrow> nat \<Rightarrow> nat \<Rightarrow> BasicBlockCache \<Rightarrow> bool" where
  "resident pc w k c \<longleftrightarrow> cache_ok c \<and> w < 8 \<and> way_pc c (unat (bb_hash pc)) w = pc \<and>
     unat (lruRowers c ! unat (bb_hash pc)) = (w + 1 + k) mod 8"

lemma resident_fill: 
  assumes "cache_ok c" "hit_way pc c = None"
  shows "resident pc (unat (lruRowers c ! unat (bb_hash pc))) 0 (fill pc code c)"
  using fill_facts [OF cache_okD [OF assms(1)], where pc = pc and code = code]
    cache_shape_rower [OF cache_okD [OF assms(1)] bb_hash_less] cache_ok_fill [OF assms]
  by (simp add: resident_def)

lemma rotation_misses: "w < 8 \<Longrightarrow> k < 7 \<Longrightarrow> (w + 1 + k) mod 8 \<noteq> w" for w k :: nat
  by presburger

lemma resident_access:
  assumes "resident pc w k c" and "k < 7"
  obtains k' where "resident pc w k' (cache_access q code c)" and "k' \<le> k + 1"
proof (cases "hit_way q c = None")
  case False
  then have "cache_access q code c = c"
    using False assms(1) cache_access_eq [OF cache_okD, of c q code] by (auto simp: resident_def)
  then show ?thesis using assms(1) by (intro that [of k]) simp_all
next
  case True
  let ?h = "unat (bb_hash pc)"
  have c: "cache_ok c" and w: "w < 8" and pc: "way_pc c ?h w = pc" and r: "unat (lruRowers c ! ?h) = (w + 1 + k) mod 8"
    using assms(1) by (simp_all add: resident_def)
  note F = fill_facts [OF cache_okD [OF c], where pc = q and code = code]
  have acc: "cache_access q code c = fill q code c"
    using True by (simp add: cache_access_eq [OF cache_okD [OF c]])
  have stay: "way_pc (fill q code c) ?h w = pc"
    unfolding F(2) [OF w] using rotation_misses [OF w assms(2)] r pc by presburger
  show ?thesis
  proof (cases "unat (bb_hash q) = ?h")
    case True
    then have "unat (lruRowers (fill q code c) ! ?h) = (w + 1 + (k + 1)) mod 8"
      unfolding F(3) r by (simp add: mod_Suc_eq)
    then show ?thesis
      using stay w cache_ok_fill [OF c \<open>hit_way q c = None\<close>]
      by (intro that [of "k + 1"]) (simp_all add: resident_def acc)
  next
    case False
    then have "unat (lruRowers (fill q code c) ! ?h) = (w + 1 + k) mod 8"
      unfolding F(3) r by simp
    then show ?thesis
      using stay w cache_ok_fill [OF c \<open>hit_way q c = None\<close>]
      by (intro that [of k]) (simp_all add: resident_def acc)
  qed
qed

lemma resident_accesses:
  assumes "resident pc w k c" and "k + length qs \<le> 7"
  shows "\<exists>k'. resident pc w k' (fold (\<lambda>(q, code). cache_access q code) qs c)"
  using assms
proof (induction qs arbitrary: c k)
  case (Cons q qs)
  then obtain k' where "resident pc w k' (cache_access (fst q) (snd q) c)" "k' \<le> k + 1"
    using resident_access [OF Cons.prems(1), of "fst q" "snd q"] by auto
  then show ?case using Cons.IH [of k'] Cons.prems(2) by (simp add: split_beta)
qed auto

lemma resident_content:
  assumes "resident pc w k c" "pc \<noteq> 1"
  shows "content pc c \<noteq> None"
proof -
  have "hit_way pc c = Some w"
    using assms by (simp add: hit_way_iff resident_def)
  then show ?thesis using assms by (simp add: content_eq cache_okD resident_def)
qed

lemma bbs_mk [simp]:
  "length (bbs (mkBasicBlockCache code)) = 1024"
  "i < 1024 \<Longrightarrow> bbs (mkBasicBlockCache code) ! i = mkBasicBlock (code i)"
  "lruRowers (mkBasicBlockCache code) = replicate 128 0"
  by (simp_all add: mkBasicBlockCache_def del: upt_rec_numeral)

lemma way_pc_mk:
  assumes "h < 128" "w < 8"
  shows "way_pc (mkBasicBlockCache code) h w = 1"
proof -
  have "8 * h + w < 1024" using assms by linarith
  then show ?thesis by (simp add: way_pc_def mkBasicBlock_def)
qed

lemma mem_bbs_mk: "bb \<in> set (bbs (mkBasicBlockCache code)) \<Longrightarrow> \<exists>i. bb = mkBasicBlock (code i)"
  by (auto simp: mkBasicBlockCache_def simp del: upt_rec_numeral)

lemma cache_ok_mk [wf_intros]: "cache_ok (mkBasicBlockCache code)"
  by (auto simp: cache_ok_def cache_shape_def way_pc_mk)

lemma content_mk:
  assumes "q \<noteq> 1"
  shows "content q (mkBasicBlockCache garbage) = None"
proof -
  have "hit_way q (mkBasicBlockCache garbage) = None"
    using assms bb_hash_less [of q] by (simp add: hit_way_None_iff way_pc_mk)
  then show ?thesis by (simp add: content_eq cache_okD cache_ok_mk)
qed

section \<open>Properties\<close>

text \<open>
  C23: the block cache is transparent.  Whatever addresses are accessed in whatever order, if each
  miss of an address stores the code of that address, then every address the cache answers for
  (the poison address one apart) is answered with its own code.
\<close>
theorem bb_cache_transparent:
  assumes "\<forall>pc\<in>set pcs. pc \<noteq> 1" and "pc \<noteq> 1"
  shows "content pc (cache_access pc (code_at pc)
           (fold (\<lambda>q. cache_access q (code_at q)) pcs (mkBasicBlockCache garbage))) = Some (code_at pc)"
proof -
  have "content q (mkBasicBlockCache garbage) = None" if "q \<noteq> 1" for q
    using that by (rule content_mk)
  then have "bb_cache.coherent code_at (mkBasicBlockCache garbage)"
    by (simp add: bb_cache.coherent_def)
  from bb_cache.accesses_coherent [OF cache_ok_mk this assms(1)] show ?thesis
    using bb_cache.access_gives assms(2) by blast
qed

theorem bb_cache_transparent_witness:
  "content 0x2000 (cache_access 0x2000 []
     (fold (\<lambda>q. cache_access q []) [0x1000, 0x2000, 0x3000] (mkBasicBlockCache (\<lambda>_. [])))) = Some []"
  using bb_cache_transparent [of "[0x1000, 0x2000, 0x3000]" "0x2000" "\<lambda>_. []" "\<lambda>_. []"] by simp

text \<open>
  A block that was just decoded survives any seven further accesses: the ways of a set are
  replaced in rotation, so a block leaves the cache only after eight misses of its set.
\<close>
theorem bb_cache_residency:
  assumes "cache_ok c" and "pc \<noteq> 1" and "content pc c = None" and "length qs \<le> 7"
  shows "content pc (fold (\<lambda>(q, code). cache_access q code) qs (cache_access pc code c)) \<noteq> None"
proof -
  have miss: "hit_way pc c = None"
    using assms(1,3) by (simp add: content_eq cache_okD)
  then have "cache_access pc code c = fill pc code c"
    by (simp add: cache_access_eq cache_okD [OF assms(1)])
  then obtain w k where "resident pc w k (fold (\<lambda>(q, code). cache_access q code) qs (cache_access pc code c))"
    using resident_accesses [OF resident_fill [OF assms(1) miss]] assms(4) by fastforce
  then show ?thesis by (rule resident_content [OF _ assms(2)])
qed

theorem bb_cache_residency_witness:
  "content 0x1000 (fold (\<lambda>(q, code). cache_access q code) [(0x2000, []), (0x3000, [])]
     (cache_access 0x1000 [] (mkBasicBlockCache (\<lambda>_. [])))) \<noteq> None"
proof -
  have "content 0x1000 (mkBasicBlockCache (\<lambda>_. [])) = None" by (rule content_mk) simp
  then show ?thesis
    using bb_cache_residency [OF cache_ok_mk, of "0x1000" "\<lambda>_. []" "[(0x2000, []), (0x3000, [])]"] by simp
qed

end
