(* ===== verification/Hooks.thy ===== *)
theory Hooks
  imports BasicBlock
begin

text \<open>
  The hook manager of \<^verbatim>\<open>include/besm-666/sim/hooks.hpp\<close> and \<^verbatim>\<open>src/sim/hooks.cpp\<close>.  A callback is a
  function pointer of the embedding application: here it is its address, zero for \<^verbatim>\<open>nullptr\<close>.
  The multimap keeps the registrations ordered by event and, within an event, by insertion.
  Calling the callbacks of an event is modelled by the list of calls made, each with the callback
  and the object it receives.
\<close>

datatype Event = BB_FETCHED | INSTR_EXECUTED

primrec event_value :: "Event \<Rightarrow> nat" where
  "event_value BB_FETCHED = 0"
| "event_value INSTR_EXECUTED = 1"

type_synonym Callback = nat

datatype hook_call = BBFetchCall Callback BasicBlock | InstrExecutedCall Callback Instruction

datatype extra_arg = BBArg BasicBlock | InstrArg Instruction

record HookManager =
  hooks :: "(Event \<times> Callback) list"

definition mkHookManager :: HookManager where
  "mkHookManager = \<lparr>hooks = []\<rparr>"

text \<open>\<^verbatim>\<open>std::multimap::insert\<close> puts an element behind all elements with an equal or smaller key.\<close>

definition multimap_insert :: "Event \<times> Callback \<Rightarrow> (Event \<times> Callback) list \<Rightarrow> (Event \<times> Callback) list" where
  "multimap_insert p m =
     takeWhile (\<lambda>q. event_value (fst q) \<le> event_value (fst p)) m @ p #
     dropWhile (\<lambda>q. event_value (fst q) \<le> event_value (fst p)) m"

definition equal_range :: "Event \<Rightarrow> (Event \<times> Callback) list \<Rightarrow> (Event \<times> Callback) list" where
  "equal_range e m =
     takeWhile (\<lambda>q. event_value (fst q) \<le> event_value e)
       (dropWhile (\<lambda>q. event_value (fst q) < event_value e) m)"

definition doRegisterHook :: "Event \<Rightarrow> Callback \<Rightarrow> HookManager \<Rightarrow> HookManager res" where
  "doRegisterHook event callback hm =
     bindE (assertE (callback \<noteq> 0)) (\<lambda>_. Inr (hm\<lparr>hooks := multimap_insert (event, callback) (hooks hm)\<rparr>))"

definition registerBBFetchHook :: "Callback \<Rightarrow> HookManager \<Rightarrow> HookManager res" where
  "registerBBFetchHook callback hm = doRegisterHook BB_FETCHED callback hm"

definition registerInstrExecHook :: "Callback \<Rightarrow> HookManager \<Rightarrow> HookManager res" where
  "registerInstrExecHook callback hm = doRegisterHook INSTR_EXECUTED callback hm"

text \<open>
  The manager casts its untyped argument by the event; a cast to the wrong type would be undefined,
  here an error.
\<close>

fun call_hook :: "Event \<Rightarrow> Callback \<Rightarrow> extra_arg \<Rightarrow> hook_call res" where
  "call_hook BB_FETCHED cb (BBArg bb) = Inr (BBFetchCall cb bb)"
| "call_hook INSTR_EXECUTED cb (InstrArg instr) = Inr (InstrExecutedCall cb instr)"
| "call_hook _ cb _ = Inl UndefinedBehaviour"

primrec call_hooks :: "Event \<Rightarrow> (Event \<times> Callback) list \<Rightarrow> extra_arg \<Rightarrow> hook_call list res" where
  "call_hooks event [] extraArg = Inr []"
| "call_hooks event (q # qs) extraArg =
     bindE (call_hook event (snd q) extraArg) (\<lambda>c.
     bindE (call_hooks event qs extraArg) (\<lambda>cs. Inr (c # cs)))"

definition doTriggerHooks :: "Event \<Rightarrow> extra_arg \<Rightarrow> HookManager \<Rightarrow> hook_call list res" where
  "doTriggerHooks event extraArg hm = call_hooks event (equal_range event (hooks hm)) extraArg"

definition triggerBBFetchHook :: "BasicBlock \<Rightarrow> HookManager \<Rightarrow> hook_call list res" where
  "triggerBBFetchHook bb hm = doTriggerHooks BB_FETCHED (BBArg bb) hm"

definition triggerInstrExecHook :: "Instruction \<Rightarrow> HookManager \<Rightarrow> hook_call list res" where
  "triggerInstrExecHook instr hm = doTriggerHooks INSTR_EXECUTED (InstrArg instr) hm"

section \<open>Calls come in registration order\<close>

definition hooks_sorted :: "HookManager \<Rightarrow> bool" where
  "hooks_sorted hm \<longleftrightarrow> sorted (map (event_value \<circ> fst) (hooks hm))"

text \<open>The callbacks registered for an event, oldest first.\<close>

definition registered :: "Event \<Rightarrow> HookManager \<Rightarrow> Callback list" where
  "registered e hm = map snd (filter (\<lambda>q. fst q = e) (hooks hm))"

lemma event_value_inject [simp]: "event_value a = event_value b \<longleftrightarrow> a = b"
  by (cases a; cases b) simp_all

lemma equal_range_eq:
  assumes "sorted (map (event_value \<circ> fst) m)"
  shows "equal_range e m = filter (\<lambda>q. fst q = e) m"
  using assms
proof (induction m)
  case (Cons q m)
  consider (less) "event_value (fst q) < event_value e" | (same) "fst q = e" | (more) "event_value (fst q) > event_value e"
    by (metis event_value_inject linorder_neqE_nat)
  then show ?case
  proof cases
    case less
    then have "equal_range e (q # m) = equal_range e m" "fst q \<noteq> e" by (auto simp: equal_range_def)
    then show ?thesis using Cons by simp
  next
    case same
    have all: "\<forall>x\<in>set m. \<not> event_value (fst x) < event_value e" using Cons.prems same by auto
    then have "dropWhile (\<lambda>q. event_value (fst q) < event_value e) m = m" by (cases m) auto
    then show ?thesis using Cons same by (simp add: equal_range_def)
  next
    case more
    then have "\<forall>x\<in>set m. fst x \<noteq> e" using Cons.prems by auto
    then show ?thesis using more by (auto simp: equal_range_def filter_False)
  qed
qed (simp add: equal_range_def)

lemma dropWhile_later:
  "sorted (map (event_value \<circ> fst) m) \<Longrightarrow>
     \<forall>q\<in>set (dropWhile (\<lambda>q. event_value (fst q) \<le> k) m). k < event_value (fst q)"
proof (induction m)
  case (Cons q m)
  show ?case
  proof (cases "event_value (fst q) \<le> k")
    case True
    then show ?thesis using Cons by simp
  next
    case False
    then have "k < event_value (fst x)" if "x \<in> set m" for x
      using Cons.prems that by (fastforce simp: not_le)
    then show ?thesis using False by auto
  qed
qed simp

lemma multimap_insert_sorted:
  assumes "sorted (map (event_value \<circ> fst) m)"
  shows "sorted (map (event_value \<circ> fst) (multimap_insert p m))"
  using assms
proof (induction m)
  case (Cons q m)
  let ?P = "\<lambda>q. event_value (fst q) \<le> event_value (fst p)"
  show ?case
  proof (cases "?P q")
    case True
    have "set (multimap_insert p m) = insert p (set (takeWhile ?P m @ dropWhile ?P m))"
      by (simp only: multimap_insert_def set_append list.set) blast
    then have "set (multimap_insert p m) = insert p (set m)" by simp
    then have "event_value (fst q) \<le> event_value (fst x)" if "x \<in> set (multimap_insert p m)" for x
      using Cons.prems True that by auto
    moreover have "multimap_insert p (q # m) = q # multimap_insert p m"
      using True by (simp add: multimap_insert_def)
    ultimately show ?thesis using Cons by simp
  next
    case False
    then show ?thesis using Cons.prems by (fastforce simp: multimap_insert_def)
  qed
qed (simp add: multimap_insert_def)

lemma multimap_insert_filter:
  assumes "sorted (map (event_value \<circ> fst) m)"
  shows "filter (\<lambda>q. fst q = e) (multimap_insert p m) =
    (if fst p = e then filter (\<lambda>q. fst q = e) m @ [p] else filter (\<lambda>q. fst q = e) m)"
proof -
  let ?P = "\<lambda>q. event_value (fst q) \<le> event_value (fst p)"
  have "filter (\<lambda>q. fst q = e) m = filter (\<lambda>q. fst q = e) (takeWhile ?P m) @ filter (\<lambda>q. fst q = e) (dropWhile ?P m)"
    by (metis filter_append takeWhile_dropWhile_id)
  moreover have "filter (\<lambda>q. fst q = fst p) (dropWhile ?P m) = []"
    using dropWhile_later [OF assms, of "event_value (fst p)"] by (auto simp: filter_empty_conv)
  ultimately show ?thesis by (auto simp: multimap_insert_def)
qed

lemma hooks_sorted_mk [wf_intros]: "hooks_sorted mkHookManager"
  by (simp add: hooks_sorted_def mkHookManager_def)

lemma call_hooks_eq:
  "call_hooks BB_FETCHED qs (BBArg bb) = Inr (map (\<lambda>q. BBFetchCall (snd q) bb) qs)"
  "call_hooks INSTR_EXECUTED qs (InstrArg i) = Inr (map (\<lambda>q. InstrExecutedCall (snd q) i) qs)"
  by (induction qs) simp_all

lemma trigger_eq:
  assumes "hooks_sorted hm"
  shows "triggerBBFetchHook bb hm = Inr (map (\<lambda>cb. BBFetchCall cb bb) (registered BB_FETCHED hm))"
    and "triggerInstrExecHook i hm = Inr (map (\<lambda>cb. InstrExecutedCall cb i) (registered INSTR_EXECUTED hm))"
  using assms
  by (simp_all add: triggerBBFetchHook_def triggerInstrExecHook_def doTriggerHooks_def hooks_sorted_def
      equal_range_eq call_hooks_eq registered_def comp_def)

lemma trigger_total:
  "\<exists>cs. triggerBBFetchHook bb hm = Inr cs" "\<exists>cs. triggerInstrExecHook i hm = Inr cs"
  by (simp_all add: triggerBBFetchHook_def triggerInstrExecHook_def doTriggerHooks_def call_hooks_eq)

lemma register_hook:
  assumes "hooks_sorted hm" and "cb \<noteq> 0"
  shows "\<exists>hm'. doRegisterHook ev cb hm = Inr hm' \<and> hooks_sorted hm' \<and>
    (\<forall>e. registered e hm' = registered e hm @ (if e = ev then [cb] else []))"
  using assms multimap_insert_sorted [of "hooks hm" "(ev, cb)"] multimap_insert_filter [of "hooks hm" _ "(ev, cb)"]
  by (auto simp: doRegisterHook_def hooks_sorted_def registered_def)

section \<open>Properties\<close>

text \<open>Registering a sequence of callbacks, as an application does before it runs the machine.\<close>

primrec register_all :: "(Event \<times> Callback) list \<Rightarrow> HookManager \<Rightarrow> HookManager res" where
  "register_all [] hm = Inr hm"
| "register_all (q # qs) hm =
     bindE (case fst q of BB_FETCHED \<Rightarrow> registerBBFetchHook (snd q) hm
                        | INSTR_EXECUTED \<Rightarrow> registerInstrExecHook (snd q) hm)
           (register_all qs)"

lemma register_all_registered:
  "hooks_sorted hm \<Longrightarrow> \<forall>q\<in>set qs. snd q \<noteq> 0 \<Longrightarrow>
     \<exists>hm'. register_all qs hm = Inr hm' \<and> hooks_sorted hm' \<and>
       (\<forall>e. registered e hm' = registered e hm @ map snd (filter (\<lambda>q. fst q = e) qs))"
proof (induction qs arbitrary: hm)
  case (Cons q qs)
  obtain hm1 where hm1: "doRegisterHook (fst q) (snd q) hm = Inr hm1" "hooks_sorted hm1"
      "\<forall>e. registered e hm1 = registered e hm @ (if e = fst q then [snd q] else [])"
    using register_hook [OF Cons.prems(1), of "snd q" "fst q"] Cons.prems(2) by auto
  obtain hm2 where "register_all qs hm1 = Inr hm2" "hooks_sorted hm2"
      "\<forall>e. registered e hm2 = registered e hm1 @ map snd (filter (\<lambda>q. fst q = e) qs)"
    using Cons.IH [OF hm1(2)] Cons.prems(2) by auto
  then show ?case
    using hm1 by (cases "fst q") (auto simp: registerBBFetchHook_def registerInstrExecHook_def)
qed simp

text \<open>
  C30: after any sequence of registrations of non-null callbacks for the two events, triggering an
  event calls exactly the callbacks registered for that event, once each, in the order they were
  registered, each with the object of the trigger; no call uses an argument of the wrong type.
\<close>
theorem hooks_in_order:
  assumes "\<forall>q\<in>set qs. snd q \<noteq> 0"
  shows "\<exists>hm. register_all qs mkHookManager = Inr hm \<and>
    (\<forall>bb. triggerBBFetchHook bb hm = Inr [BBFetchCall (snd q) bb. q \<leftarrow> qs, fst q = BB_FETCHED]) \<and>
    (\<forall>i. triggerInstrExecHook i hm = Inr [InstrExecutedCall (snd q) i. q \<leftarrow> qs, fst q = INSTR_EXECUTED])"
proof -
  obtain hm where hm: "register_all qs mkHookManager = Inr hm" "hooks_sorted hm"
      "\<forall>e. registered e hm = map snd (filter (\<lambda>q. fst q = e) qs)"
    using register_all_registered [OF hooks_sorted_mk assms]
    by (auto simp: registered_def mkHookManager_def)
  have "map (f \<circ> snd) (filter (\<lambda>q. fst q = e) qs) = concat (map (\<lambda>q. if fst q = e then [f (snd q)] else []) qs)"
    for f :: "Callback \<Rightarrow> hook_call" and e
    by (induction qs) auto
  then show ?thesis using hm trigger_eq [OF hm(2)] by (auto simp: comp_def)
qed

theorem hooks_in_order_witness:
  "\<exists>hm. register_all [(INSTR_EXECUTED, 3), (BB_FETCHED, 1), (INSTR_EXECUTED, 2)] mkHookManager = Inr hm \<and>
     (\<forall>i. triggerInstrExecHook i hm = Inr [InstrExecutedCall 3 i, InstrExecutedCall 2 i])"
  using hooks_in_order [of "[(INSTR_EXECUTED, 3), (BB_FETCHED, 1), (INSTR_EXECUTED, 2)]"] by auto

end
