(* ===== verification/Csr.thy ===== *)
theory Csr
  imports BitMagic Instr
begin

text \<open>
  Control and status registers: the field and structure templates of
  \<^verbatim>\<open>include/besm-666/exec/csr.hpp\<close>, the identifiers of \<^verbatim>\<open>include/besm-666/exec/icsr.hpp\<close> and
  the five registers of \<^verbatim>\<open>include/besm-666/exec/csrs.hpp\<close>.  A field is described by its template
  arguments and works on the raw register word it refers to; a structure is the list of its
  fields.  The masks of \<^verbatim>\<open>mstatus\<close> come from the generated header \<^verbatim>\<open>encoding.out.h\<close>, which is
  not part of the repository: they are the parameter \<open>mstatus_masks\<close>, and what the code relies on
  (the masks do not overlap, the privilege field has two bits, the enable bits one) is the
  predicate \<open>masks_ok\<close>.
\<close>

section \<open>Fields\<close>

datatype CSRFieldSpec = WPRI | WLRL | WARL | UNCHECKED

record CSRField =
  Mask :: RV64UDWord
  Spec :: CSRFieldSpec
  Val :: "(RV64UDWord \<Rightarrow> bool) option"
  ResetValue :: RV64UDWord

definition CSRUncheckedField :: "RV64UDWord \<Rightarrow> RV64UDWord \<Rightarrow> CSRField" where
  "CSRUncheckedField m r = \<lparr>Mask = m, Spec = UNCHECKED, Val = None, ResetValue = r\<rparr>"

definition CSRWPRIField :: "RV64UDWord \<Rightarrow> CSRField" where
  "CSRWPRIField m = \<lparr>Mask = m, Spec = WPRI, Val = None, ResetValue = 0\<rparr>"

definition CSRWLRLField :: "RV64UDWord \<Rightarrow> (RV64UDWord \<Rightarrow> bool) \<Rightarrow> RV64UDWord \<Rightarrow> CSRField" where
  "CSRWLRLField m p r = \<lparr>Mask = m, Spec = WLRL, Val = Some p, ResetValue = r\<rparr>"

definition CSRWARLField :: "RV64UDWord \<Rightarrow> (RV64UDWord \<Rightarrow> bool) \<Rightarrow> RV64UDWord \<Rightarrow> CSRField" where
  "CSRWARLField m p r = \<lparr>Mask = m, Spec = WARL, Val = Some p, ResetValue = r\<rparr>"

text \<open>The static assertion: a checked field has a validator.\<close>

definition field_static_assert :: "CSRField \<Rightarrow> bool" where
  "field_static_assert f \<longleftrightarrow>
     \<not> (Spec f \<noteq> UNCHECKED \<and> Spec f \<noteq> WPRI) \<or> Val f \<noteq> None"

definition call_Val :: "CSRField \<Rightarrow> RV64UDWord \<Rightarrow> bool" where
  "call_Val f v = (case Val f of Some p \<Rightarrow> p v | None \<Rightarrow> False)"

definition field_set :: "CSRField \<Rightarrow> RV64UDWord \<Rightarrow> RV64UDWord \<Rightarrow> bool \<times> RV64UDWord" where
  "field_set f v rawRegister =
     (if Spec f = WLRL \<and> \<not> call_Val f v then (False, rawRegister)
      else if Spec f = WPRI then (True, rawRegister)
      else if Spec f = WARL \<and> \<not> call_Val f v then (True, rawRegister)
      else (True, InsertMasked (Mask f) v rawRegister))"

definition field_get :: "CSRField \<Rightarrow> RV64UDWord \<Rightarrow> RV64UDWord" where
  "field_get f rawRegister =
     (if Spec f = WPRI then 0 else ExtractMasked (Mask f) rawRegister)"

definition field_extract :: "CSRField \<Rightarrow> RV64UDWord \<Rightarrow> RV64UDWord \<Rightarrow> bool \<times> RV64UDWord" where
  "field_extract f registerValue rawRegister =
     field_set f (ExtractMasked (Mask f) registerValue) rawRegister"

definition field_reset :: "CSRField \<Rightarrow> RV64UDWord \<Rightarrow> RV64UDWord" where
  "field_reset f rawRegister = ExtractMasked (Mask f) (ResetValue f)"

section \<open>Structures\<close>

primrec unroller_extract ::
    "CSRField list \<Rightarrow> RV64UDWord \<Rightarrow> RV64UDWord \<Rightarrow> bool \<times> RV64UDWord" where
  "unroller_extract [] v raw = (True, raw)"
| "unroller_extract (f # fs) v raw =
     (let (e, raw') = field_extract f v raw
      in if e then unroller_extract fs v raw' else (False, raw'))"

primrec unroller_reset :: "CSRField list \<Rightarrow> RV64UDWord \<Rightarrow> RV64UDWord" where
  "unroller_reset [] raw = raw"
| "unroller_reset (f # fs) raw = unroller_reset fs (field_reset f raw)"

text \<open>
  A register object: its identifier and its raw word \<^verbatim>\<open>value_\<close>.  The hook \<^verbatim>\<open>onUpdate\<close> is empty in
  every register of the program.
\<close>

type_synonym Id = RV64UDWord

record CSRStructure =
  csr_id :: Id
  csr_value :: RV64UDWord

definition onUpdate :: "CSRStructure \<Rightarrow> CSRStructure" where
  "onUpdate s = s"

definition csr_reset :: "CSRField list \<Rightarrow> CSRStructure \<Rightarrow> CSRStructure" where
  "csr_reset fs s = s\<lparr>csr_value := unroller_reset fs (csr_value s)\<rparr>"

definition mkCSRStructure :: "CSRField list \<Rightarrow> Id \<Rightarrow> RV64UDWord \<Rightarrow> CSRStructure" where
  "mkCSRStructure fs i indeterminate = csr_reset fs \<lparr>csr_id = i, csr_value = indeterminate\<rparr>"

definition csr_write :: "CSRField list \<Rightarrow> RV64UDWord \<Rightarrow> CSRStructure \<Rightarrow> bool \<times> CSRStructure" where
  "csr_write fs v s =
     (let (e, raw) = unroller_extract fs v (csr_value s)
      in (e, onUpdate (s\<lparr>csr_value := raw\<rparr>)))"

definition csr_read :: "CSRStructure \<Rightarrow> RV64UDWord" where
  "csr_read s = csr_value s"

definition csr_set :: "CSRField \<Rightarrow> RV64UDWord \<Rightarrow> CSRStructure \<Rightarrow> bool \<times> CSRStructure" where
  "csr_set f v s =
     (let (e, raw) = field_set f v (csr_value s)
      in (e, onUpdate (s\<lparr>csr_value := raw\<rparr>)))"

definition csr_get :: "CSRField \<Rightarrow> CSRStructure \<Rightarrow> RV64UDWord" where
  "csr_get f s = field_get f (csr_value s)"

section \<open>The registers of the machine\<close>

definition MVENDORID :: Id where "MVENDORID = 0xF11"
definition MARCHID :: Id where "MARCHID = 0xF12"
definition MIMPID :: Id where "MIMPID = 0xF13"
definition MHARTID :: Id where "MHARTID = 0xF14"
definition MCONFIGPTR :: Id where "MCONFIGPTR = 0xF15"
definition MSTATUS :: Id where "MSTATUS = 0x300"
definition MTVEC :: Id where "MTVEC = 0x305"
definition MEPC :: Id where "MEPC = 0x341"
definition MCAUSE :: Id where "MCAUSE = 0x342"

record mstatus_masks =
  MSTATUS_SIE :: RV64UDWord
  MSTATUS_MIE :: RV64UDWord
  MSTATUS_SPIE :: RV64UDWord
  MSTATUS_MPIE :: RV64UDWord
  MSTATUS_SPP :: RV64UDWord
  MSTATUS_MPP :: RV64UDWord

definition MStatus_SIE :: "mstatus_masks \<Rightarrow> CSRField" where
  "MStatus_SIE M = CSRUncheckedField (MSTATUS_SIE M) 0"
definition MStatus_MIE :: "mstatus_masks \<Rightarrow> CSRField" where
  "MStatus_MIE M = CSRUncheckedField (MSTATUS_MIE M) 0"
definition MStatus_SPIE :: "mstatus_masks \<Rightarrow> CSRField" where
  "MStatus_SPIE M = CSRUncheckedField (MSTATUS_SPIE M) 0"
definition MStatus_MPIE :: "mstatus_masks \<Rightarrow> CSRField" where
  "MStatus_MPIE M = CSRUncheckedField (MSTATUS_MPIE M) 0"
definition MStatus_SPP :: "mstatus_masks \<Rightarrow> CSRField" where
  "MStatus_SPP M = CSRUncheckedField (MSTATUS_SPP M) 0"
definition MStatus_MPP :: "mstatus_masks \<Rightarrow> CSRField" where
  "MStatus_MPP M = CSRUncheckedField (MSTATUS_MPP M) 0"

definition MStatus :: "mstatus_masks \<Rightarrow> CSRField list" where
  "MStatus M = [MStatus_SIE M, MStatus_MIE M, MStatus_SPIE M, MStatus_MPIE M, MStatus_SPP M, MStatus_MPP M]"

definition MEPC_ValueValidator :: "RV64UDWord \<Rightarrow> bool" where
  "MEPC_ValueValidator v \<longleftrightarrow> v mod (IALIGN div 8) = 0"

definition MEPC_Value :: CSRField where
  "MEPC_Value = CSRWARLField (NOT 0) MEPC_ValueValidator 0"

definition MEPC_fields :: "CSRField list" where
  "MEPC_fields = [MEPC_Value]"

definition MCause_Interrupt :: CSRField where
  "MCause_Interrupt = CSRUncheckedField (push_bit (MXLEN - 1) 1) 0"

definition MCause_ExceptionCode :: CSRField where
  "MCause_ExceptionCode = CSRUncheckedField (push_bit (MXLEN - 1) 1 - 1) 0"

definition MCause :: "CSRField list" where
  "MCause = [MCause_Interrupt, MCause_ExceptionCode]"

definition DirectMode :: RV64UDWord where "DirectMode = 0"
definition VectoredMode :: RV64UDWord where "VectoredMode = 1"

definition ModeValidator :: "RV64UDWord \<Rightarrow> bool" where
  "ModeValidator mode \<longleftrightarrow> mode \<le> 1"

definition BaseValidator :: "RV64UDWord \<Rightarrow> bool" where
  "BaseValidator base \<longleftrightarrow> base mod 4 = 0"

definition MTVec_Mode :: CSRField where
  "MTVec_Mode = CSRWARLField 0b11 ModeValidator 0"

definition MTVec_Base :: CSRField where
  "MTVec_Base = CSRWARLField (NOT 0b11) BaseValidator 0"

definition MTVec :: "CSRField list" where
  "MTVec = [MTVec_Mode, MTVec_Base]"

definition MHartID_Value :: CSRField where
  "MHartID_Value = CSRUncheckedField 0b11 0"

definition MHartID :: "CSRField list" where
  "MHartID = [MHartID_Value]"

section \<open>Contiguous masks\<close>

lemma rank_mask: "n \<le> LENGTH('a) \<Longrightarrow> rank (mask n :: 'a::len word) j = min j n"
  by (induction j) (auto simp: bit_mask_iff min_def)

lemma rank_not_mask: "j \<le> LENGTH('a) \<Longrightarrow> rank (NOT (mask n) :: 'a::len word) j = j - n"
  by (induction j) (auto simp: bit_mask_iff bit_not_iff)

lemma ExtractMasked_mask:
  assumes "n \<le> LENGTH('a)"
  shows "ExtractMasked (mask n) v = (take_bit n v :: 'a::len word)"
  using assms by (intro bit_word_eqI)
    (auto simp: bit_ExtractMasked bit_take_bit_iff bit_mask_iff rank_mask)

lemma ExtractMasked_not_mask:
  "ExtractMasked (NOT (mask n)) v = (drop_bit n v :: 'a::len word)"
proof (rule bit_word_eqI)
  fix i
  assume i: "i < LENGTH('a)"
  have "(\<exists>j. bit (NOT (mask n) :: 'a word) j \<and> rank (NOT (mask n) :: 'a word) j = i \<and> bit v j) \<longleftrightarrow>
        bit v (n + i)"
  proof
    assume "\<exists>j. bit (NOT (mask n) :: 'a word) j \<and> rank (NOT (mask n) :: 'a word) j = i \<and> bit v j"
    then obtain j where j: "n \<le> j" "rank (NOT (mask n) :: 'a word) j = i" "bit v j" "j < LENGTH('a)"
      using bit_imp_le_length by (fastforce simp: bit_not_iff bit_mask_iff not_less)
    then have "j = n + i" by (simp add: rank_not_mask)
    then show "bit v (n + i)" using j by simp
  next
    assume v: "bit v (n + i)"
    then have "n + i < LENGTH('a)" by (rule bit_imp_le_length)
    then show "\<exists>j. bit (NOT (mask n) :: 'a word) j \<and> rank (NOT (mask n) :: 'a word) j = i \<and> bit v j"
      using v by (intro exI [of _ "n + i"]) (simp add: rank_not_mask bit_not_iff bit_mask_iff)
  qed
  then show "bit (ExtractMasked (NOT (mask n)) v) i = bit (drop_bit n v) i"
    by (simp add: bit_ExtractMasked bit_drop_bit_eq)
qed

lemma ExtractMasked_full [simp]: "ExtractMasked (- 1) v = v"
  by (simp add: ExtractMasked_def)

section \<open>Fields keep to their mask and their validator\<close>

definition accepts :: "CSRField \<Rightarrow> RV64UDWord \<Rightarrow> bool" where
  "accepts f v \<longleftrightarrow> Spec f = UNCHECKED \<or> (Spec f = WLRL \<or> Spec f = WARL) \<and> call_Val f v"

lemma field_set_eq:
  "field_set f v raw =
     (Spec f = WLRL \<longrightarrow> accepts f v, if accepts f v then InsertMasked (Mask f) v raw else raw)"
  by (cases "Spec f") (simp_all add: field_set_def accepts_def)

lemma field_get_set_same:
  assumes "Spec f \<noteq> WPRI"
  shows "field_get f (snd (field_set f v raw)) =
           (if accepts f v then take_bit (rank (Mask f) 64) v else field_get f raw)"
  using assms by (simp add: field_set_eq field_get_def ExtractMasked_InsertMasked)

lemma field_get_set_other:
  assumes "Mask f AND Mask g = 0"
  shows "field_get g (snd (field_set f v raw)) = field_get g raw"
  using assms by (simp add: field_set_eq field_get_def ExtractMasked_InsertMasked_disjoint)

lemma bit_field_extract:
  "bit (snd (field_extract f v raw)) i \<longleftrightarrow>
     (if accepts f (ExtractMasked (Mask f) v) \<and> bit (Mask f) i then bit v i else bit raw i)"
proof (cases "i < 64")
  case True
  then show ?thesis
    by (simp add: field_extract_def field_set_eq InsertMasked_ExtractMasked bit_or_iff bit_and_iff bit_not_iff)
next
  case False
  then show ?thesis by (simp add: bit_word_beyond)
qed

section \<open>Structures\<close>

lemma unroller_extract_total:
  "\<forall>f\<in>set fs. Spec f \<noteq> WLRL \<Longrightarrow> fst (unroller_extract fs v raw)"
  by (induction fs arbitrary: raw)
     (auto simp: field_extract_def field_set_eq Let_def split: prod.splits)

lemma bit_unroller_extract:
  assumes "\<forall>f\<in>set fs. Spec f \<noteq> WLRL"
  shows "bit (snd (unroller_extract fs v raw)) i \<longleftrightarrow>
     (if \<exists>f\<in>set fs. accepts f (ExtractMasked (Mask f) v) \<and> bit (Mask f) i then bit v i else bit raw i)"
  using assms
proof (induction fs arbitrary: raw)
  case (Cons f fs)
  then have "fst (field_extract f v raw)"
    by (simp add: field_extract_def field_set_eq)
  then have "unroller_extract (f # fs) v raw = unroller_extract fs v (snd (field_extract f v raw))"
    by (simp add: split_beta)
  then show ?case
    using Cons by (auto simp: bit_field_extract)
qed simp

text \<open>The raw words a structure can hold: only bits of fields, and every field legal.\<close>

definition legal_raw :: "CSRField list \<Rightarrow> RV64UDWord \<Rightarrow> bool" where
  "legal_raw fs raw \<longleftrightarrow>
     (\<forall>f\<in>set fs. accepts f (ExtractMasked (Mask f) raw)) \<and>
     (\<forall>i<64. bit raw i \<longrightarrow> (\<exists>f\<in>set fs. bit (Mask f) i))"

definition fields_ok :: "CSRField list \<Rightarrow> bool" where
  "fields_ok fs \<longleftrightarrow>
     (\<forall>f\<in>set fs. Spec f \<noteq> WLRL) \<and>
     ((\<forall>f\<in>set fs. Spec f = UNCHECKED) \<or>
      (\<forall>f\<in>set fs. \<forall>g\<in>set fs. f \<noteq> g \<longrightarrow> Mask f AND Mask g = 0))"

lemma ExtractMasked_cong:
  assumes "\<And>i. bit m i \<Longrightarrow> bit v i = bit w i"
  shows "ExtractMasked m v = ExtractMasked m w"
  using assms by (intro bit_word_eqI) (auto simp: bit_ExtractMasked)

lemma disjoint_masks_bit: "m AND n = 0 \<Longrightarrow> bit (m :: 'a::len word) i \<Longrightarrow> \<not> bit n i"
  by (metis bit_and_iff bit_0_eq bot_apply bot_bool_def)

lemma extract_keeps_field:
  assumes ok: "fields_ok fs" and raw: "legal_raw fs raw" and f: "f \<in> set fs"
  shows "accepts f (ExtractMasked (Mask f) (snd (unroller_extract fs v raw)))"
proof (cases "Spec f = UNCHECKED")
  case True
  then show ?thesis by (simp add: accepts_def)
next
  case False
  let ?r = "snd (unroller_extract fs v raw)"
  have wl: "\<forall>f\<in>set fs. Spec f \<noteq> WLRL"
    and dis: "\<And>g. g \<in> set fs \<Longrightarrow> f \<noteq> g \<Longrightarrow> Mask f AND Mask g = 0"
    using ok False f by (auto simp: fields_ok_def)
  have only: "(\<exists>g\<in>set fs. accepts g (ExtractMasked (Mask g) v) \<and> bit (Mask g) i) \<longleftrightarrow>
              accepts f (ExtractMasked (Mask f) v)" if "bit (Mask f) i" for i
    using that f dis disjoint_masks_bit [OF dis] by metis
  have "ExtractMasked (Mask f) ?r =
        (if accepts f (ExtractMasked (Mask f) v) then ExtractMasked (Mask f) v else ExtractMasked (Mask f) raw)"
    by (auto intro!: ExtractMasked_cong simp: bit_unroller_extract [OF wl] only)
  then show ?thesis using raw f by (simp add: legal_raw_def)
qed

lemma legal_unroller_extract [wf_intros]:
  assumes "fields_ok fs" and "legal_raw fs raw"
  shows "legal_raw fs (snd (unroller_extract fs v raw))"
  using extract_keeps_field [OF assms] assms
  unfolding legal_raw_def fields_ok_def
  by (auto simp: bit_unroller_extract split: if_splits)

lemma legal_restore:
  assumes "fields_ok fs" and "legal_raw fs raw" and "legal_raw fs raw'"
  shows "snd (unroller_extract fs raw raw') = raw"
proof (rule bit_word_eqI)
  fix i :: nat
  assume "i < LENGTH(64)"
  then show "bit (snd (unroller_extract fs raw raw')) i = bit raw i"
    using assms by (auto simp: bit_unroller_extract fields_ok_def legal_raw_def)
qed

section \<open>The contract of a register\<close>

text \<open>
  What \<^verbatim>\<open>CSRF\<close> relies on when it reads and writes a register through \<^verbatim>\<open>ICSR\<close>: a write succeeds
  and keeps the register legal, and a value that was once read can be written back.
\<close>

locale icsr =
  fixes inv :: "'s \<Rightarrow> bool"
    and rd :: "'s \<Rightarrow> RV64UDWord"
    and wr :: "RV64UDWord \<Rightarrow> 's \<Rightarrow> bool \<times> 's"
  assumes wr_ok: "inv s \<Longrightarrow> fst (wr v s)"
    and wr_inv: "inv s \<Longrightarrow> inv (snd (wr v s))"
    and wr_back: "inv s \<Longrightarrow> inv s' \<Longrightarrow> rd (snd (wr (rd s) s')) = rd s"
begin

lemma swap_back: "inv s \<Longrightarrow> rd (snd (wr (rd s) (snd (wr v s)))) = rd s"
  by (simp add: wr_back wr_inv)

lemma rewrite_read: "inv s \<Longrightarrow> rd (snd (wr (rd s) s)) = rd s"
  by (rule wr_back)

lemma writes_ok: "inv s \<Longrightarrow> inv (fold (\<lambda>v s. snd (wr v s)) vs s)"
  by (induction vs arbitrary: s) (simp_all add: wr_inv)

end

definition csr_legal :: "CSRField list \<Rightarrow> CSRStructure \<Rightarrow> bool" where
  "csr_legal fs s \<longleftrightarrow> legal_raw fs (csr_value s)"

lemma csr_write_eq:
  "csr_write fs v s =
     (fst (unroller_extract fs v (csr_value s)),
      s\<lparr>csr_value := snd (unroller_extract fs v (csr_value s))\<rparr>)"
  by (simp add: csr_write_def onUpdate_def split_beta Let_def)

lemma csr_set_eq:
  "csr_set f v s = (fst (field_set f v (csr_value s)), s\<lparr>csr_value := snd (field_set f v (csr_value s))\<rparr>)"
  by (simp add: csr_set_def onUpdate_def split_beta Let_def)

lemma icsr_csr_write: "fields_ok fs \<Longrightarrow> icsr (csr_legal fs) csr_read (csr_write fs)"
  by unfold_locales
     (auto simp: csr_write_eq csr_legal_def csr_read_def legal_restore fields_ok_def
           intro: unroller_extract_total legal_unroller_extract [unfolded fields_ok_def])

lemmas field_defs =
  CSRUncheckedField_def CSRWARLField_def MStatus_SIE_def MStatus_MIE_def MStatus_SPIE_def
  MStatus_MPIE_def MStatus_SPP_def MStatus_MPP_def MEPC_Value_def MCause_Interrupt_def
  MCause_ExceptionCode_def MTVec_Mode_def MTVec_Base_def MHartID_Value_def

lemmas structure_defs = MStatus_def MEPC_fields_def MCause_def MTVec_def MHartID_def

lemma fields_ok_registers [wf_intros]:
  "fields_ok (MStatus M)" "fields_ok MEPC_fields" "fields_ok MCause" "fields_ok MTVec" "fields_ok MHartID"
  by (auto simp: fields_ok_def structure_defs field_defs)

interpretation mstatus_reg: icsr "csr_legal (MStatus M)" csr_read "csr_write (MStatus M)" for M
  by (intro icsr_csr_write wf_intros)

interpretation mepc_reg: icsr "csr_legal MEPC_fields" csr_read "csr_write MEPC_fields"
  by (intro icsr_csr_write wf_intros)

interpretation mcause_reg: icsr "csr_legal MCause" csr_read "csr_write MCause"
  by (intro icsr_csr_write wf_intros)

interpretation mtvec_reg: icsr "csr_legal MTVec" csr_read "csr_write MTVec"
  by (intro icsr_csr_write wf_intros)

interpretation mhartid_reg: icsr "csr_legal MHartID" csr_read "csr_write MHartID"
  by (intro icsr_csr_write wf_intros)

section \<open>What the registers hold\<close>

definition masks_ok :: "mstatus_masks \<Rightarrow> bool" where
  "masks_ok M \<longleftrightarrow>
     sorted_wrt (\<lambda>m n. m AND n = 0)
       [MSTATUS_SIE M, MSTATUS_MIE M, MSTATUS_SPIE M, MSTATUS_MPIE M, MSTATUS_SPP M, MSTATUS_MPP M] \<and>
     (\<forall>m\<in>{MSTATUS_SIE M, MSTATUS_MIE M, MSTATUS_SPIE M, MSTATUS_MPIE M, MSTATUS_SPP M}. rank m 64 = 1) \<and>
     rank (MSTATUS_MPP M) 64 = 2"

definition mstatus_bits :: "mstatus_masks \<Rightarrow> RV64UDWord" where
  "mstatus_bits M = MSTATUS_SIE M OR MSTATUS_MIE M OR MSTATUS_SPIE M OR MSTATUS_MPIE M OR
     MSTATUS_SPP M OR MSTATUS_MPP M"

lemma accepts_unchecked [simp]: "accepts (CSRUncheckedField m r) v"
  by (simp add: accepts_def CSRUncheckedField_def)

lemma accepts_warl [simp]: "accepts (CSRWARLField m p r) v \<longleftrightarrow> p v"
  by (simp add: accepts_def CSRWARLField_def call_Val_def)

lemma field_sel [simp]:
  "Mask (CSRUncheckedField m r) = m" "Mask (CSRWARLField m p r) = m"
  "Spec (CSRUncheckedField m r) = UNCHECKED" "Spec (CSRWARLField m p r) = WARL"
  by (simp_all add: CSRUncheckedField_def CSRWARLField_def)

lemma mstatus_extract:
  "snd (unroller_extract (MStatus M) v raw) = (v AND mstatus_bits M) OR (raw AND NOT (mstatus_bits M))"
proof (rule bit_word_eqI)
  fix i :: nat
  assume "i < LENGTH(64)"
  have nw: "\<forall>f\<in>set (MStatus M). Spec f \<noteq> WLRL"
    using fields_ok_registers(1) [of M] by (simp add: fields_ok_def)
  have "(\<exists>f\<in>set (MStatus M). accepts f (ExtractMasked (Mask f) v) \<and> bit (Mask f) i) \<longleftrightarrow>
        bit (mstatus_bits M) i"
    by (auto simp: MStatus_def field_defs(3-8) mstatus_bits_def bit_or_iff)
  then show "bit (snd (unroller_extract (MStatus M) v raw)) i =
    bit ((v AND mstatus_bits M) OR (raw AND NOT (mstatus_bits M))) i"
    unfolding bit_unroller_extract [OF nw] using \<open>i < LENGTH(64)\<close>
    by (simp add: bit_or_iff bit_and_iff bit_not_iff)
qed

lemma mepc_extract: "snd (unroller_extract MEPC_fields v raw) = (if v mod 4 = 0 then v else raw)"
  by (simp add: MEPC_fields_def field_extract_def field_set_eq MEPC_Value_def MEPC_ValueValidator_def
      IALIGN_def InsertMasked_def split_beta)

lemma mtvec_masks: "(0b11 :: u64) = mask 2" "(NOT 0b11 :: u64) = NOT (mask 2)"
  by (simp_all add: mask_eq_exp_minus_1)

lemma mtvec_extract:
  "snd (unroller_extract MTVec v raw) =
     ((if v AND 3 \<le> 1 then v AND 3 else raw AND 3) OR
      (if drop_bit 2 v mod 4 = 0 then v AND NOT 3 else raw AND NOT 3))"
proof -
  have nw: "\<forall>f\<in>set MTVec. Spec f \<noteq> WLRL"
    using fields_ok_registers(4) by (simp add: fields_ok_def)
  have mode: "ExtractMasked 3 v = v AND 3" "ExtractMasked (NOT 3) v = drop_bit 2 v" for v :: u64
    using ExtractMasked_mask [of 2 v] ExtractMasked_not_mask [of 2 v] mtvec_masks
    by (simp_all add: take_bit_eq_mask)
  have three: "bit (3 :: u64) i \<longleftrightarrow> i < 2" for i
    by (subst mtvec_masks(1), simp only: bit_mask_iff) auto
  have high: "bit (- 4 :: u64) i \<longleftrightarrow> \<not> i < 2" if "i < 64" for i
    using bit_not_iff [of "3 :: u64" i] that by (simp add: three del: bit_numeral_word_iff bit_neg_numeral_word_iff)
  show ?thesis
  proof (rule bit_word_eqI)
    fix i :: nat
    assume i: "i < LENGTH(64)"
    have "(\<exists>f\<in>set MTVec. accepts f (ExtractMasked (Mask f) v) \<and> bit (Mask f) i) \<longleftrightarrow>
          (if i < 2 then v AND 3 \<le> 1 else drop_bit 2 v mod 4 = 0)"
      using i by (simp add: MTVec_def MTVec_Mode_def MTVec_Base_def ModeValidator_def BaseValidator_def
          mode mode(2) [simplified] three high [OF i [simplified]] del: bit_numeral_word_iff bit_neg_numeral_word_iff)
    then show "bit (snd (unroller_extract MTVec v raw)) i =
      bit ((if v AND 3 \<le> 1 then v AND 3 else raw AND 3) OR
           (if drop_bit 2 v mod 4 = 0 then v AND NOT 3 else raw AND NOT 3)) i"
      unfolding bit_unroller_extract [OF nw] using i
      by (simp add: bit_or_iff bit_and_iff three high [OF i [simplified]] del: bit_numeral_word_iff bit_neg_numeral_word_iff)
  qed
qed

lemma mcause_extract: "snd (unroller_extract MCause v raw) = v"
proof (rule bit_word_eqI)
  fix i :: nat
  assume i: "i < LENGTH(64)"
  have nw: "\<forall>f\<in>set MCause. Spec f \<noteq> WLRL"
    using fields_ok_registers(3) by (simp add: fields_ok_def)
  have "bit (push_bit 63 1 :: u64) i \<longleftrightarrow> i = 63" "bit (push_bit 63 1 - 1 :: u64) i \<longleftrightarrow> i < 63"
    using i by (simp_all only: push_bit_of_1 exp_minus_1_eq_mask bit_exp_iff bit_mask_iff) auto
  then have "\<exists>f\<in>set MCause. accepts f (ExtractMasked (Mask f) v) \<and> bit (Mask f) i"
    using i by (auto simp: MCause_def MCause_Interrupt_def MCause_ExceptionCode_def MXLEN_def
        simp del: push_bit_of_1)
  then show "bit (snd (unroller_extract MCause v raw)) i = bit v i"
    unfolding bit_unroller_extract [OF nw] by simp
qed

lemma reset_zero: "\<forall>f\<in>set fs. ResetValue f = 0 \<Longrightarrow> fs \<noteq> [] \<Longrightarrow> unroller_reset fs raw = 0"
proof (induction fs arbitrary: raw)
  case (Cons f fs)
  then show ?case by (cases fs) (simp_all add: field_reset_def)
qed simp

end
