(* ===== verification/Csrf.thy ===== *)
theory Csrf
  imports Csr
begin

text \<open>
  The control and status register file, \<^verbatim>\<open>include/besm-666/exec/csrf.hpp\<close> and
  \<^verbatim>\<open>src/exec/csrf.cpp\<close>.  The table \<^verbatim>\<open>registers_\<close> maps an identifier to a reference to one of the
  five register members; a reference is a value of \<open>csr_ref\<close>.  The result of an access is the
  code's variant: \<open>Inl False\<close> for the refused access, \<open>Inr\<close> of the old value otherwise.
\<close>

definition PRIVILLEGE_MACHINE :: RV64UDWord where "PRIVILLEGE_MACHINE = 3"
definition PRIVILLEGE_SUPERVISOR :: RV64UDWord where "PRIVILLEGE_SUPERVISOR = 1"
definition PRIVILLEGE_USER :: RV64UDWord where "PRIVILLEGE_USER = 0"

datatype csr_ref = Ref_mhartid | Ref_mstatus | Ref_mepc | Ref_mtvec | Ref_mcause

record CSRF =
  privillege :: RV64UDWord
  csr_table :: "(Id \<times> csr_ref) list"
  mhartid :: CSRStructure
  mstatus :: CSRStructure
  mepc :: CSRStructure
  mtvec :: CSRStructure
  mcause :: CSRStructure

primrec csr_fields :: "mstatus_masks \<Rightarrow> csr_ref \<Rightarrow> CSRField list" where
  "csr_fields M Ref_mhartid = MHartID"
| "csr_fields M Ref_mstatus = MStatus M"
| "csr_fields M Ref_mepc = MEPC_fields"
| "csr_fields M Ref_mtvec = MTVec"
| "csr_fields M Ref_mcause = MCause"

primrec deref :: "csr_ref \<Rightarrow> CSRF \<Rightarrow> CSRStructure" where
  "deref Ref_mhartid c = mhartid c"
| "deref Ref_mstatus c = mstatus c"
| "deref Ref_mepc c = mepc c"
| "deref Ref_mtvec c = mtvec c"
| "deref Ref_mcause c = mcause c"

primrec assign :: "csr_ref \<Rightarrow> CSRStructure \<Rightarrow> CSRF \<Rightarrow> CSRF" where
  "assign Ref_mhartid s c = c\<lparr>mhartid := s\<rparr>"
| "assign Ref_mstatus s c = c\<lparr>mstatus := s\<rparr>"
| "assign Ref_mepc s c = c\<lparr>mepc := s\<rparr>"
| "assign Ref_mtvec s c = c\<lparr>mtvec := s\<rparr>"
| "assign Ref_mcause s c = c\<lparr>mcause := s\<rparr>"

section \<open>Operations\<close>

definition addRegister :: "Id \<Rightarrow> csr_ref \<Rightarrow> (Id \<times> csr_ref) list \<Rightarrow> (Id \<times> csr_ref) list" where
  "addRegister i r t = (if map_of t i = None then (i, r) # t else t)"

definition getPrivillege :: "CSRF \<Rightarrow> RV64UDWord" where
  "getPrivillege c = privillege c"

definition setPrivillege :: "RV64UDWord \<Rightarrow> CSRF \<Rightarrow> CSRF" where
  "setPrivillege p c = c\<lparr>privillege := p\<rparr>"

text \<open>
  The members are constructed in declaration order; each registers itself and resets a value that
  is indeterminate before.
\<close>

definition mkCSRF :: "mstatus_masks \<Rightarrow> (csr_ref \<Rightarrow> RV64UDWord) \<Rightarrow> CSRF" where
  "mkCSRF M indeterminate =
     \<lparr>privillege = PRIVILLEGE_MACHINE,
      csr_table =
        addRegister MCAUSE Ref_mcause (addRegister MTVEC Ref_mtvec (addRegister MEPC Ref_mepc
          (addRegister MSTATUS Ref_mstatus (addRegister MHARTID Ref_mhartid [])))),
      mhartid = mkCSRStructure MHartID MHARTID (indeterminate Ref_mhartid),
      mstatus = mkCSRStructure (MStatus M) MSTATUS (indeterminate Ref_mstatus),
      mepc = mkCSRStructure MEPC_fields MEPC (indeterminate Ref_mepc),
      mtvec = mkCSRStructure MTVec MTVEC (indeterminate Ref_mtvec),
      mcause = mkCSRStructure MCause MCAUSE (indeterminate Ref_mcause)\<rparr>"

definition registerPrivillege :: "Id \<Rightarrow> RV64UDWord" where
  "registerPrivillege i = ucast (ExtractBits 2 8 (ucast i :: RV64UWord))"

definition registerReadOnly :: "Id \<Rightarrow> bool" where
  "registerReadOnly i \<longleftrightarrow> ExtractBits 2 10 (ucast i :: RV64UWord) = 0b11"

definition fitPrivillege :: "Id \<Rightarrow> CSRF \<Rightarrow> bool" where
  "fitPrivillege i c \<longleftrightarrow> registerPrivillege i = getPrivillege c"

definition csrf_write :: "mstatus_masks \<Rightarrow> RV64UDWord \<Rightarrow> RV64UDWord \<Rightarrow> CSRF \<Rightarrow> (bool + RV64UDWord) \<times> CSRF" where
  "csrf_write M rawId v c =
     (if \<not> fitPrivillege rawId c \<or> registerReadOnly rawId then (Inl False, c)
      else case map_of (csr_table c) rawId of
        None \<Rightarrow> (Inl False, c)
      | Some r \<Rightarrow>
          (let oldValue = csr_read (deref r c);
               (e, s) = csr_write (csr_fields M r) v (deref r c);
               c' = assign r s c
           in if \<not> e then (Inl False, c') else (Inr oldValue, c')))"

definition csrf_read :: "RV64UDWord \<Rightarrow> CSRF \<Rightarrow> bool + RV64UDWord" where
  "csrf_read rawId c =
     (if \<not> fitPrivillege rawId c then Inl False
      else case map_of (csr_table c) rawId of
        None \<Rightarrow> Inl False
      | Some r \<Rightarrow> Inr (csr_read (deref r c)))"

definition csrf_setBits :: "mstatus_masks \<Rightarrow> RV64UDWord \<Rightarrow> RV64UDWord \<Rightarrow> CSRF \<Rightarrow> (bool + RV64UDWord) \<times> CSRF" where
  "csrf_setBits M rawId m c =
     (if \<not> fitPrivillege rawId c \<or> registerReadOnly rawId then (Inl False, c)
      else case map_of (csr_table c) rawId of
        None \<Rightarrow> (Inl False, c)
      | Some r \<Rightarrow>
          (let oldValue = csr_read (deref r c);
               (e, s) = csr_write (csr_fields M r) (oldValue OR m) (deref r c);
               c' = assign r s c
           in if \<not> e then (Inl False, c') else (Inr oldValue, c')))"

definition csrf_clearBits :: "mstatus_masks \<Rightarrow> RV64UDWord \<Rightarrow> RV64UDWord \<Rightarrow> CSRF \<Rightarrow> (bool + RV64UDWord) \<times> CSRF" where
  "csrf_clearBits M rawId m c =
     (if \<not> fitPrivillege rawId c \<or> registerReadOnly rawId then (Inl False, c)
      else case map_of (csr_table c) rawId of
        None \<Rightarrow> (Inl False, c)
      | Some r \<Rightarrow>
          (let oldValue = csr_read (deref r c);
               (e, s) = csr_write (csr_fields M r) (oldValue AND NOT m) (deref r c);
               c' = assign r s c
           in if \<not> e then (Inl False, c') else (Inr oldValue, c')))"

section \<open>Well-formed files\<close>

definition full_table :: "(Id \<times> csr_ref) list" where
  "full_table = [(MCAUSE, Ref_mcause), (MTVEC, Ref_mtvec), (MEPC, Ref_mepc), (MSTATUS, Ref_mstatus), (MHARTID, Ref_mhartid)]"

definition csrf_ok :: "mstatus_masks \<Rightarrow> CSRF \<Rightarrow> bool" where
  "csrf_ok M c \<longleftrightarrow> csr_table c = full_table \<and> (\<forall>r. csr_legal (csr_fields M r) (deref r c))"

lemmas id_defs = MHARTID_def MSTATUS_def MTVEC_def MEPC_def MCAUSE_def

lemma deref_assign [simp]: "deref q (assign r s c) = (if q = r then s else deref q c)"
  by (cases q; cases r) simp_all

lemma assign_frame [simp]:
  "privillege (assign r s c) = privillege c" "csr_table (assign r s c) = csr_table c"
  by (cases r; simp)+

lemma assign_assign [simp]: "assign r s (assign r t c) = assign r s c"
  by (cases r) simp_all

lemma assign_deref [simp]: "assign r (deref r c) c = c"
  by (cases r) simp_all

lemma full_table_lookup:
  "map_of full_table i =
     (if i = MCAUSE then Some Ref_mcause else if i = MTVEC then Some Ref_mtvec
      else if i = MEPC then Some Ref_mepc else if i = MSTATUS then Some Ref_mstatus
      else if i = MHARTID then Some Ref_mhartid else None)"
  by (simp add: full_table_def)

lemma register_attributes:
  "registerPrivillege MHARTID = 3" "registerPrivillege MSTATUS = 3" "registerPrivillege MTVEC = 3"
  "registerPrivillege MEPC = 3" "registerPrivillege MCAUSE = 3"
  "registerReadOnly MHARTID" "\<not> registerReadOnly MSTATUS" "\<not> registerReadOnly MTVEC"
  "\<not> registerReadOnly MEPC" "\<not> registerReadOnly MCAUSE"
  by (simp_all add: registerPrivillege_def registerReadOnly_def id_defs ExtractBits_def BitMask_def)

lemma fields_ok_csr [wf_intros]: "fields_ok (csr_fields M r)"
  by (cases r) (simp_all add: wf_intros)

lemma csr_write_ok: "fst (csr_write (csr_fields M r) v s)"
  using fields_ok_csr [of M r] by (simp add: csr_write_eq unroller_extract_total fields_ok_def)

lemma csr_legal_write: "csr_legal (csr_fields M r) s \<Longrightarrow> csr_legal (csr_fields M r) (snd (csr_write (csr_fields M r) v s))"
  by (simp add: csr_legal_def csr_write_eq legal_unroller_extract fields_ok_csr)

lemma table_attributes:
  assumes "map_of full_table i = Some r"
  shows "registerPrivillege i = 3"
    and "registerReadOnly i \<longleftrightarrow> i \<notin> {MSTATUS, MTVEC, MEPC, MCAUSE}"
  using assms register_attributes unfolding full_table_lookup
  by (auto split: if_splits)

lemma csrf_write_known:
  assumes "csrf_ok M c" and "map_of full_table i = Some r"
  shows "csrf_write M i v c =
    (if privillege c = 3 \<and> \<not> registerReadOnly i
     then (Inr (csr_value (deref r c)), assign r (snd (csr_write (csr_fields M r) v (deref r c))) c)
     else (Inl False, c))"
  using assms csr_write_ok [of M r v "deref r c"] table_attributes(1) [OF assms(2)]
  by (simp add: csrf_write_def csrf_ok_def fitPrivillege_def getPrivillege_def csr_read_def split_beta Let_def)

lemma csrf_write_eq:
  assumes "csrf_ok M c"
  shows "csrf_write M i v c =
    (if privillege c = 3 \<and> i \<in> {MSTATUS, MTVEC, MEPC, MCAUSE}
     then let r = the (map_of full_table i)
          in (Inr (csr_value (deref r c)), assign r (snd (csr_write (csr_fields M r) v (deref r c))) c)
     else (Inl False, c))"
proof (cases "map_of full_table i")
  case (Some r)
  then show ?thesis
    unfolding csrf_write_known [OF assms Some] Let_def Some option.sel
    by (simp only: table_attributes(2) [OF Some] not_not)
next
  case None
  then have "i \<notin> {MSTATUS, MTVEC, MEPC, MCAUSE}"
    unfolding full_table_lookup by (auto split: if_splits)
  moreover have "csrf_write M i v c = (Inl False, c)"
    using assms None by (simp add: csrf_write_def csrf_ok_def)
  ultimately show ?thesis by auto
qed

lemma csrf_read_eq:
  assumes "csrf_ok M c"
  shows "csrf_read i c =
    (if privillege c = 3 \<and> i \<in> {MHARTID, MSTATUS, MTVEC, MEPC, MCAUSE}
     then Inr (csr_value (deref (the (map_of full_table i)) c)) else Inl False)"
  using assms register_attributes
  by (auto simp: csrf_read_def csrf_ok_def fitPrivillege_def getPrivillege_def full_table_lookup csr_read_def)

lemma csrf_ok_write [wf_intros]: "csrf_ok M c \<Longrightarrow> csrf_ok M (snd (csrf_write M i v c))"
  by (auto simp: csrf_write_eq Let_def csrf_ok_def csr_legal_write)

lemma csrf_setBits_eq_write:
  "csrf_setBits M i m c =
     csrf_write M i (case map_of (csr_table c) i of Some r \<Rightarrow> csr_read (deref r c) OR m | None \<Rightarrow> m) c"
  by (simp add: csrf_setBits_def csrf_write_def Let_def split_beta split: option.splits)

lemma csrf_clearBits_eq_write:
  "csrf_clearBits M i m c =
     csrf_write M i (case map_of (csr_table c) i of Some r \<Rightarrow> csr_read (deref r c) AND NOT m | None \<Rightarrow> m) c"
  by (simp add: csrf_clearBits_def csrf_write_def Let_def split_beta split: option.splits)

lemma csrf_write_frame:
  "csrf_ok M c \<Longrightarrow> privillege (snd (csrf_write M i v c)) = privillege c"
  by (auto simp: csrf_write_eq Let_def)

lemma reset_registers: "unroller_reset (csr_fields M r) x = 0"
  by (cases r)
     (simp_all add: structure_defs field_defs field_reset_def)

lemma legal_zero: "legal_raw (csr_fields M r) 0"
  by (cases r)
     (simp_all add: legal_raw_def structure_defs MStatus_SIE_def MStatus_MIE_def MStatus_SPIE_def
       MStatus_MPIE_def MStatus_SPP_def MStatus_MPP_def MEPC_Value_def MCause_Interrupt_def
       MCause_ExceptionCode_def MTVec_Mode_def MTVec_Base_def MHartID_Value_def
       MEPC_ValueValidator_def ModeValidator_def BaseValidator_def)

lemma mkCSRF_value: "csr_value (deref r (mkCSRF M x)) = 0"
  using reset_registers [of M] by (cases r)
    (simp_all add: mkCSRF_def mkCSRStructure_def csr_reset_def reset_registers [of M Ref_mhartid, simplified]
      reset_registers [of M Ref_mstatus, simplified] reset_registers [of M Ref_mepc, simplified]
      reset_registers [of M Ref_mtvec, simplified] reset_registers [of M Ref_mcause, simplified])

lemma csrf_ok_mkCSRF [wf_intros]: "csrf_ok M (mkCSRF M x)"
proof -
  have "csr_table (mkCSRF M x) = full_table"
    by (simp add: mkCSRF_def addRegister_def full_table_def id_defs)
  moreover have "csr_legal (csr_fields M r) (deref r (mkCSRF M x))" for r
    by (simp add: csr_legal_def mkCSRF_value legal_zero)
  ultimately show ?thesis by (simp add: csrf_ok_def)
qed

lemma csrf_ok_setBits [wf_intros]: "csrf_ok M c \<Longrightarrow> csrf_ok M (snd (csrf_setBits M i m c))"
  and csrf_ok_clearBits [wf_intros]: "csrf_ok M c \<Longrightarrow> csrf_ok M (snd (csrf_clearBits M i m c))"
  by (simp_all add: csrf_setBits_eq_write csrf_clearBits_eq_write csrf_ok_write)

lemma csrf_ok_setPrivillege [wf_intros]: "csrf_ok M c \<Longrightarrow> csrf_ok M (setPrivillege p c)"
proof -
  have "deref r (setPrivillege p c) = deref r c" for r
    by (cases r) (simp_all add: setPrivillege_def)
  then show "csrf_ok M c \<Longrightarrow> csrf_ok M (setPrivillege p c)"
    by (simp add: csrf_ok_def setPrivillege_def)
qed

lemma csrf_ok_legal: "csrf_ok M c \<Longrightarrow> legal_raw (csr_fields M r) (csr_value (deref r c))"
  by (simp add: csrf_ok_def csr_legal_def)

lemma csrf_ok_mepc: "csrf_ok M c \<Longrightarrow> csr_value (mepc c) mod 4 = 0"
  using csrf_ok_legal [of M c Ref_mepc]
  by (simp add: legal_raw_def MEPC_fields_def MEPC_Value_def MEPC_ValueValidator_def IALIGN_def)

lemma csrf_ok_mtvec:
  assumes "csrf_ok M c"
  shows "csr_value (mtvec c) AND 3 \<le> 1" and "drop_bit 2 (csr_value (mtvec c)) mod 4 = 0"
proof -
  have mode: "ExtractMasked 3 v = v AND 3" "ExtractMasked (- 4) v = drop_bit 2 v" for v :: u64
    using ExtractMasked_mask [of 2 v] ExtractMasked_not_mask [of 2 v] mtvec_masks
    by (simp_all add: take_bit_eq_mask)
  show "csr_value (mtvec c) AND 3 \<le> 1" and "drop_bit 2 (csr_value (mtvec c)) mod 4 = 0"
    using csrf_ok_legal [OF assms, of Ref_mtvec]
    by (simp_all add: legal_raw_def MTVec_def MTVec_Mode_def MTVec_Base_def ModeValidator_def
        BaseValidator_def mode)
qed

lemma csrf_ok_mstatus:
  assumes "csrf_ok M c"
  shows "csr_value (mstatus c) AND NOT (mstatus_bits M) = 0"
proof (rule bit_word_eqI)
  fix i :: nat
  assume i: "i < LENGTH(64)"
  have "(\<exists>f\<in>set (MStatus M). bit (Mask f) i) \<longleftrightarrow> bit (mstatus_bits M) i"
    by (auto simp: MStatus_def field_defs(3-8) mstatus_bits_def bit_or_iff)
  then show "bit (csr_value (mstatus c) AND NOT (mstatus_bits M)) i = bit (0 :: u64) i"
    using csrf_ok_legal [OF assms, of Ref_mstatus] i
    by (auto simp: legal_raw_def bit_and_iff bit_not_iff)
qed

text \<open>Masks at the positions the privileged architecture gives the fields, for the examples.\<close>

definition standard_masks :: mstatus_masks where
  "standard_masks = \<lparr>MSTATUS_SIE = 2, MSTATUS_MIE = 8, MSTATUS_SPIE = 0x20, MSTATUS_MPIE = 0x80,
      MSTATUS_SPP = 0x100, MSTATUS_MPP = 0x1800\<rparr>"

lemma masks_ok_standard: "masks_ok standard_masks"
proof -
  have r: "rank (2 ^ n :: u64) j = of_bool (n < j)" if "n < 64" for n j
    using that by (induction j) (auto simp: bit_exp_iff)
  have "bit (2 ^ 11 OR 2 ^ 12 :: u64) k \<longleftrightarrow> k = 11 \<or> k = 12" for k
    by (simp only: bit_or_iff bit_exp_iff) auto
  then have "rank (2 ^ 11 OR 2 ^ 12 :: u64) 64 = card {11, 12 :: nat}"
    unfolding rank_def by (intro arg_cong [of _ _ card]) (simp only: bit_or_iff bit_exp_iff, auto)
  then have "rank (0x1800 :: u64) 64 = 2" by simp
  then show ?thesis
    using r [of 1 64] r [of 3 64] r [of 5 64] r [of 7 64] r [of 8 64]
    by (simp add: masks_ok_def standard_masks_def)
qed

section \<open>Properties\<close>

text \<open>
  A CSR field stores the low bits of the value it is given, as many as its mask selects, when
  its validator accepts the value and keeps its old content otherwise; fields with disjoint masks
  do not disturb each other.
\<close>
theorem csr_field_set_get:
  assumes "Spec f \<noteq> WPRI" and "Mask f AND Mask g = 0"
  shows "field_get f (snd (field_set f v raw)) =
           (if accepts f v then take_bit (rank (Mask f) 64) v else field_get f raw) \<and>
         field_get g (snd (field_set f v raw)) = field_get g raw"
  using field_get_set_same [OF assms(1)] field_get_set_other [OF assms(2)] by blast

theorem csr_field_set_get_witness:
  "field_get MTVec_Mode (snd (field_set MTVec_Mode 2 0x81)) = 1 \<and>
   field_get MTVec_Base (snd (field_set MTVec_Mode 2 0x81)) = 0x20"
proof -
  have get: "field_get MTVec_Mode 0x81 = 1" "field_get MTVec_Base 0x81 = 0x20"
    using ExtractMasked_mask [where 'a = 64, of 2 "0x81"] ExtractMasked_not_mask [where 'a = 64, of 2 "0x81"] mtvec_masks
    by (simp_all add: field_get_def MTVec_Mode_def MTVec_Base_def)
  have "\<not> accepts MTVec_Mode 2" "Spec MTVec_Mode \<noteq> WPRI" "Mask MTVec_Mode AND Mask MTVec_Base = 0"
    by (simp_all add: MTVec_Mode_def MTVec_Base_def ModeValidator_def word_le_nat_alt)
  then show ?thesis using csr_field_set_get [of MTVec_Mode MTVec_Base 2 "0x81"] get by simp
qed

text \<open>
  C22: access control of the register file.  A write, and likewise setting or clearing bits,
  succeeds exactly in machine mode on one of the four writable registers, and a refused access
  changes nothing; a read succeeds exactly in machine mode on one of the five registers.
\<close>
theorem csrf_access:
  assumes "csrf_ok M c"
  shows "(if privillege c = PRIVILLEGE_MACHINE \<and> i \<in> {MSTATUS, MTVEC, MEPC, MCAUSE}
          then \<exists>old. csrf_read i c = Inr old \<and> fst (csrf_write M i v c) = Inr old \<and>
                 fst (csrf_setBits M i v c) = Inr old \<and> fst (csrf_clearBits M i v c) = Inr old
          else csrf_write M i v c = (Inl False, c) \<and> csrf_setBits M i v c = (Inl False, c) \<and>
               csrf_clearBits M i v c = (Inl False, c)) \<and>
         (csrf_read i c \<noteq> Inl False \<longleftrightarrow>
          privillege c = PRIVILLEGE_MACHINE \<and> i \<in> {MHARTID, MSTATUS, MTVEC, MEPC, MCAUSE})"
  using assms
  by (auto simp: csrf_setBits_eq_write csrf_clearBits_eq_write csrf_write_eq csrf_read_eq
      PRIVILLEGE_MACHINE_def Let_def)

theorem csrf_access_witness:
  "\<exists>old. csrf_read MTVEC (mkCSRF standard_masks (\<lambda>_. 7)) = Inr old"
  using csrf_access [OF csrf_ok_mkCSRF, of standard_masks "\<lambda>_. 7" MTVEC]
  by (auto simp: mkCSRF_def)

text \<open>
  Saving a register and writing the saved value back restores the whole register file: a write
  that succeeds returns the old value, and writing that value undoes it.
\<close>
theorem csrf_swap_back:
  assumes "csrf_ok M c" and "fst (csrf_write M i v c) = Inr old"
  shows "csrf_write M i old (snd (csrf_write M i v c)) =
           (csrf_read i (snd (csrf_write M i v c)), c)"
proof -
  let ?r = "the (map_of full_table i)"
  let ?s = "snd (csr_write (csr_fields M ?r) v (deref ?r c))"
  have acc: "privillege c = 3" "i \<in> {MSTATUS, MTVEC, MEPC, MCAUSE}" and old: "old = csr_value (deref ?r c)"
    and c': "snd (csrf_write M i v c) = assign ?r ?s c"
    using assms by (auto simp: csrf_write_eq Let_def split: if_splits)
  have ok': "csrf_ok M (assign ?r ?s c)" using csrf_ok_write [OF assms(1), of i v] c' by simp
  have "csr_write (csr_fields M ?r) old ?s = (True, deref ?r c)"
    using csrf_ok_legal [OF assms(1), of ?r] csrf_ok_legal [OF ok', of ?r] csr_write_ok [of M ?r old ?s]
    by (simp add: csr_write_eq old legal_restore fields_ok_csr)
  then show ?thesis
    unfolding c' using acc by (simp add: csrf_write_eq [OF ok'] csrf_read_eq [OF ok'] Let_def)
qed

theorem csrf_swap_back_witness:
  "snd (csrf_write standard_masks MEPC 0 (snd (csrf_write standard_masks MEPC 0x80 (mkCSRF standard_masks (\<lambda>_. 0))))) = mkCSRF standard_masks (\<lambda>_. 0)"
proof -
  have "fst (csrf_write standard_masks MEPC 0x80 (mkCSRF standard_masks (\<lambda>_. 0))) = Inr 0"
    using mkCSRF_value [of Ref_mepc standard_masks "\<lambda>_. 0"]
    by (simp add: csrf_write_eq [OF csrf_ok_mkCSRF] Let_def full_table_lookup id_defs)
       (simp add: mkCSRF_def PRIVILLEGE_MACHINE_def)
  from csrf_swap_back [OF csrf_ok_mkCSRF this] show ?thesis by simp
qed

text \<open>
  C24: what a write in machine mode leaves in each register: \<^verbatim>\<open>mstatus\<close> keeps the bits of its six
  fields, \<^verbatim>\<open>mcause\<close> every bit, \<^verbatim>\<open>mepc\<close> takes the value only when it is a multiple of four, and
  \<^verbatim>\<open>mtvec\<close> takes a mode of at most one and a base address only when it is a multiple of sixteen.
\<close>
theorem csr_written_values:
  assumes "csrf_ok M c" and "privillege c = PRIVILLEGE_MACHINE"
  shows "csr_value (mstatus (snd (csrf_write M MSTATUS v c))) = v AND mstatus_bits M \<and>
         csr_value (mcause (snd (csrf_write M MCAUSE v c))) = v \<and>
         csr_value (mepc (snd (csrf_write M MEPC v c))) = (if v mod 4 = 0 then v else csr_value (mepc c)) \<and>
         csr_value (mtvec (snd (csrf_write M MTVEC v c))) =
           ((if v AND 3 \<le> 1 then v AND 3 else csr_value (mtvec c) AND 3) OR
            (if drop_bit 2 v mod 4 = 0 then v AND NOT 3 else csr_value (mtvec c) AND NOT 3))"
  using assms(2) csrf_ok_mstatus [OF assms(1)]
  by (simp add: csrf_write_eq [OF assms(1)] PRIVILLEGE_MACHINE_def Let_def full_table_lookup id_defs
      csr_write_eq mstatus_extract mcause_extract mepc_extract mtvec_extract)

theorem csr_written_values_witness:
  "csr_value (mtvec (snd (csrf_write standard_masks MTVEC 0x104 (mkCSRF standard_masks (\<lambda>_. 0))))) = 0 \<and>
   csr_value (mtvec (snd (csrf_write standard_masks MTVEC 0x101 (mkCSRF standard_masks (\<lambda>_. 0))))) = 0x101"
proof -
  have p: "privillege (mkCSRF standard_masks (\<lambda>_. 0)) = PRIVILLEGE_MACHINE" by (simp add: mkCSRF_def)
  have z: "csr_value (mtvec (mkCSRF standard_masks (\<lambda>_. 0))) = 0" using mkCSRF_value [of Ref_mtvec] by simp
  show ?thesis
    using csr_written_values [OF csrf_ok_mkCSRF p, of "0x104"] csr_written_values [OF csrf_ok_mkCSRF p, of "0x101"]
    by (simp add: z)
qed

text \<open>
  The registers are legal from construction on: every operation of the file keeps \<^verbatim>\<open>mepc\<close> a
  multiple of four, the trap mode at most one and the trap base address a multiple of sixteen.
\<close>
theorem csrf_always_legal:
  "csrf_ok M (mkCSRF M x) \<and>
   (csrf_ok M c \<longrightarrow>
      csrf_ok M (snd (csrf_write M i v c)) \<and> csrf_ok M (snd (csrf_setBits M i v c)) \<and>
      csrf_ok M (snd (csrf_clearBits M i v c)) \<and> csrf_ok M (setPrivillege v c) \<and>
      csr_value (mepc c) mod 4 = 0 \<and> csr_value (mtvec c) AND 3 \<le> 1 \<and>
      drop_bit 2 (csr_value (mtvec c)) mod 4 = 0)"
  using csrf_ok_mepc csrf_ok_mtvec by (auto intro: wf_intros)

theorem csrf_always_legal_witness:
  "csr_value (mepc (snd (csrf_setBits standard_masks MEPC 6 (mkCSRF standard_masks (\<lambda>_. 0))))) mod 4 = 0"
  using csrf_always_legal [of standard_masks "\<lambda>_. 0" "snd (csrf_setBits standard_masks MEPC 6 (mkCSRF standard_masks (\<lambda>_. 0)))" 0 0]
    csrf_always_legal [of standard_masks "\<lambda>_. 0" "mkCSRF standard_masks (\<lambda>_. 0)" MEPC 6] by blast

end
