(* ===== verification/Gprf.thy ===== *)
theory Gprf
  imports BitMagic Instr
begin

text \<open>
  The general purpose register file of \<^verbatim>\<open>include/besm-666/exec/gprf.hpp\<close> and its textual dump
  (\<^verbatim>\<open>src/exec/gprf.cpp\<close>).  A class object is the record of its members; the constructor sets
  only the program counter, so the other thirty-two words are an argument of \<open>mkGPRF\<close>.  The
  locale \<open>register_file\<close> states what the rest of the simulator relies on: a register reads as the
  value last written to it, register zero always reads as zero.
\<close>

section \<open>State and operations\<close>

record GPRF =
  registers :: "RV64UDWord list"

definition X0 :: Register where "X0 = 0"
definition PC :: Register where "PC = 32"
definition GPRF_Size :: nat where "GPRF_Size = 33"

definition mkGPRF :: "RV64UDWord list \<Rightarrow> GPRF" where
  "mkGPRF indeterminate = \<lparr>registers = indeterminate[unat PC := 0]\<rparr>"

definition gprf_write :: "Register \<Rightarrow> RV64UDWord \<Rightarrow> GPRF \<Rightarrow> GPRF res" where
  "gprf_write regId v g =
     bindE (assertE (unat regId < GPRF_Size)) (\<lambda>_.
     Inr (g\<lparr>registers := (registers g)[unat regId := v]\<rparr>))"

definition gprf_read :: "Register \<Rightarrow> GPRF \<Rightarrow> RV64UDWord res" where
  "gprf_read regId g =
     bindE (assertE (unat regId < GPRF_Size)) (\<lambda>_.
     Inr (if regId = X0 then 0 else registers g ! unat regId))"

section \<open>The state dump\<close>

text \<open>Integer output of a standard stream in the given base, without padding.\<close>

definition digit_char :: "nat \<Rightarrow> char" where
  "digit_char d = ''0123456789abcdef'' ! d"

function show_base :: "nat \<Rightarrow> nat \<Rightarrow> string" where
  "show_base b n =
     (if n < b \<or> b < 2 then [digit_char (n mod 16)]
      else show_base b (n div b) @ [digit_char (n mod b mod 16)])"
  by pat_completeness auto
termination
  by (relation "measure (\<lambda>(_, n). n)") (auto intro: div_less_dividend)

declare show_base.simps [simp del]

definition show_int :: "int \<Rightarrow> string" where
  "show_int i = (if i < 0 then ''-'' @ show_base 10 (nat (- i)) else show_base 10 (nat i))"

definition REG_ALIAS :: "string list" where
  "REG_ALIAS =
     [''zero'', ''ra'', ''sp'', ''gp'', ''tp'', ''t0'', ''t1'', ''t2'', ''s0/fp'',
      ''s1'', ''a0'', ''a1'', ''a2'', ''a3'', ''a4'', ''a5'', ''a6'', ''a7'',
      ''s2'', ''s3'', ''s4'', ''s5'', ''s6'', ''s7'', ''s8'', ''s9'', ''s10'',
      ''s11'', ''t3'', ''t4'', ''t5'', ''t6'', ''pc'']"

definition getRegName :: "Register \<Rightarrow> string" where
  "getRegName regId =
     (if unat regId < GPRF_Size
      then ''x'' @ show_base 10 (unat regId) @ '' ('' @ REG_ALIAS ! unat regId @ '')''
      else ''InvReg'')"

definition dump_line :: "Register \<Rightarrow> RV64UDWord \<Rightarrow> string" where
  "dump_line regId v =
     getRegName regId @ '': dec = '' @ show_base 10 (unat v) @ '' ('' @ show_int (Signify v) @ ''), '' @
     ''hex = '' @ show_base 16 (unat v) @ [CHR 0x0A]"

primrec dump_regs :: "nat \<Rightarrow> Register \<Rightarrow> GPRF \<Rightarrow> string res" where
  "dump_regs 0 regId g = Inr []"
| "dump_regs (Suc n) regId g =
     bindE (gprf_read regId g) (\<lambda>v.
     bindE (dump_regs n (regId + 1) g) (\<lambda>rest.
     Inr ((if v = 0 then [] else dump_line regId v) @ rest)))"

definition dump :: "GPRF \<Rightarrow> string res" where
  "dump g =
     bindE (dump_regs GPRF_Size 0 g) (\<lambda>regs.
     Inr (''[GPRF] State dump (skipped are zeroed):'' @ [CHR 0x0A] @ regs))"

section \<open>Well-formed register files\<close>

definition wf_gprf :: "GPRF \<Rightarrow> bool" where
  "wf_gprf g \<longleftrightarrow> length (registers g) = GPRF_Size"

definition reg_val :: "GPRF \<Rightarrow> Register \<Rightarrow> RV64UDWord" where
  "reg_val g r = (if r = X0 then 0 else registers g ! unat r)"

definition set_reg :: "Register \<Rightarrow> RV64UDWord \<Rightarrow> GPRF \<Rightarrow> GPRF" where
  "set_reg r v g = g\<lparr>registers := (registers g)[unat r := v]\<rparr>"

lemma reg_const_simps [access_simps, simp]:
  "unat X0 = 0" "unat PC = 32" "X0 = 0" "PC = 32" "GPRF_Size = 33"
  by (simp_all add: X0_def PC_def GPRF_Size_def)

lemma unat_reg_less: "r < 32 \<Longrightarrow> unat (r :: Register) < 32"
  by (simp add: word_less_nat_alt)

lemma gprf_read_eq: "unat r < GPRF_Size \<Longrightarrow> gprf_read r g = Inr (reg_val g r)"
  by (simp add: gprf_read_def reg_val_def)

lemma gprf_write_eq: "unat r < GPRF_Size \<Longrightarrow> gprf_write r v g = Inr (set_reg r v g)"
  by (simp add: gprf_write_def set_reg_def)

lemma gprf_out_of_range:
  "GPRF_Size \<le> unat r \<Longrightarrow> gprf_read r g = Inl AssertFailed \<and> gprf_write r v g = Inl AssertFailed"
  by (simp add: gprf_read_def gprf_write_def)

lemma wf_mkGPRF [wf_intros]: "length l = GPRF_Size \<Longrightarrow> wf_gprf (mkGPRF l)"
  by (simp add: wf_gprf_def mkGPRF_def)

lemma wf_set_reg [wf_intros]: "wf_gprf g \<Longrightarrow> wf_gprf (set_reg r v g)"
  by (simp add: wf_gprf_def set_reg_def)

lemma reg_val_X0 [simp]: "reg_val g 0 = 0"
  by (simp add: reg_val_def)

lemma reg_val_set_reg:
  assumes "wf_gprf g" and "unat r < GPRF_Size"
  shows "reg_val (set_reg r v g) s = (if s = r \<and> r \<noteq> X0 then v else reg_val g s)"
proof (cases "s = r")
  case True
  then show ?thesis using assms by (simp add: reg_val_def set_reg_def wf_gprf_def)
next
  case False
  then have "unat s \<noteq> unat r" by (simp add: word_unat_eq_iff)
  then show ?thesis using False by (simp add: reg_val_def set_reg_def)
qed

lemma reg_val_mkGPRF: "length l = GPRF_Size \<Longrightarrow> reg_val (mkGPRF l) PC = 0"
  by (simp add: reg_val_def mkGPRF_def)

section \<open>The contract of a register file\<close>

locale register_file =
  fixes inv :: "'s \<Rightarrow> bool"
    and rd_reg :: "Register \<Rightarrow> 's \<Rightarrow> RV64UDWord res"
    and wr_reg :: "Register \<Rightarrow> RV64UDWord \<Rightarrow> 's \<Rightarrow> 's res"
    and regs :: "nat"
  assumes read_total: "inv s \<Longrightarrow> unat r < regs \<Longrightarrow> \<exists>v. rd_reg r s = Inr v"
    and write_total: "inv s \<Longrightarrow> unat r < regs \<Longrightarrow> \<exists>s'. wr_reg r v s = Inr s' \<and> inv s'"
    and read_written: "inv s \<Longrightarrow> unat r < regs \<Longrightarrow> wr_reg r v s = Inr s' \<Longrightarrow>
          rd_reg q s' = (if q = r \<and> r \<noteq> 0 then Inr v else rd_reg q s)"
    and read_zero: "inv s \<Longrightarrow> rd_reg 0 s = Inr 0"
begin

primrec write_all :: "(Register \<times> RV64UDWord) list \<Rightarrow> 's \<Rightarrow> 's res" where
  "write_all [] s = Inr s"
| "write_all (p # ps) s = bindE (wr_reg (fst p) (snd p) s) (write_all ps)"

lemma write_all_total:
  "inv s \<Longrightarrow> \<forall>p\<in>set ps. unat (fst p) < regs \<Longrightarrow> \<exists>s'. write_all ps s = Inr s' \<and> inv s'"
proof (induction ps arbitrary: s)
  case (Cons p ps)
  then obtain s1 where "wr_reg (fst p) (snd p) s = Inr s1" "inv s1"
    using write_total [of s "fst p" "snd p"] by auto
  with Cons.IH [of s1] Cons.prems show ?case by simp
qed simp

text \<open>After any sequence of writes a register reads as the last value written to it.\<close>

lemma read_after_writes:
  "inv s \<Longrightarrow> \<forall>p\<in>set ps. unat (fst p) < regs \<Longrightarrow> q \<noteq> 0 \<Longrightarrow> write_all ps s = Inr s' \<Longrightarrow>
     rd_reg q s' = (case map_of (rev ps) q of Some v \<Rightarrow> Inr v | None \<Rightarrow> rd_reg q s)"
proof (induction ps arbitrary: s)
  case (Cons p ps)
  from Cons.prems obtain s1 where s1: "wr_reg (fst p) (snd p) s = Inr s1" "inv s1"
    using write_total [of s "fst p" "snd p"] by auto
  have "write_all ps s1 = Inr s'" using s1 Cons.prems by simp
  then have "rd_reg q s' = (case map_of (rev ps) q of Some v \<Rightarrow> Inr v | None \<Rightarrow> rd_reg q s1)"
    using Cons.IH [of s1] s1 Cons.prems by simp
  moreover have "rd_reg q s1 = (if q = fst p then Inr (snd p) else rd_reg q s)"
    using read_written [of s "fst p" "snd p" s1 q] s1 Cons.prems by auto
  ultimately show ?case
    by (cases p) (auto simp: map_add_def split: option.splits)
qed simp

end

interpretation gprf: register_file wf_gprf gprf_read gprf_write GPRF_Size
proof
  fix s :: GPRF and r q :: Register and v :: RV64UDWord and s' :: GPRF
  assume s: "wf_gprf s"
  show "gprf_read 0 s = Inr 0"
    by (simp add: gprf_read_def)
  assume r: "unat r < GPRF_Size"
  then show "\<exists>v. gprf_read r s = Inr v"
    by (simp only: gprf_read_eq, blast)
  show "\<exists>s'. gprf_write r v s = Inr s' \<and> wf_gprf s'"
    using s r by (simp only: gprf_write_eq) (blast intro: wf_set_reg)
  assume "gprf_write r v s = Inr s'"
  then have s': "s' = set_reg r v s" using r by (simp only: gprf_write_eq sum.inject)
  show "gprf_read q s' = (if q = r \<and> r \<noteq> 0 then Inr v else gprf_read q s)"
  proof (cases "unat q < GPRF_Size")
    case True
    then show ?thesis using reg_val_set_reg [OF s r, of v q] by (simp add: s' gprf_read_eq)
  next
    case False
    then show ?thesis using r by (auto simp: gprf_read_def)
  qed
qed

section \<open>The dump prints exactly the non-zero registers\<close>

lemma dump_regs_eq:
  assumes "unat r + n \<le> GPRF_Size"
  shows "dump_regs n r g =
    Inr (concat (map (\<lambda>k. if reg_val g (of_nat k) = 0 then [] else dump_line (of_nat k) (reg_val g (of_nat k)))
                  [unat r ..< unat r + n]))"
  using assms
proof (induction n arbitrary: r)
  case (Suc n)
  have step: "unat (r + 1) = Suc (unat r)"
    using Suc.prems by (simp add: unat_word_ariths)
  have "dump_regs n (r + 1) g =
    Inr (concat (map (\<lambda>k. if reg_val g (of_nat k) = 0 then [] else dump_line (of_nat k) (reg_val g (of_nat k)))
                  [Suc (unat r) ..< Suc (unat r) + n]))"
    using Suc.IH [of "r + 1"] Suc.prems unfolding step by simp
  moreover have "gprf_read r g = Inr (reg_val g r)"
    using Suc.prems by (simp add: gprf_read_eq)
  moreover have "[unat r ..< unat r + Suc n] = unat r # [Suc (unat r) ..< Suc (unat r) + n]"
    by (subst upt_rec) simp
  ultimately show ?case by simp
qed simp

section \<open>Properties\<close>

text \<open>
  A write to a register within range succeeds, keeps the file well formed, and changes what
  exactly that register reads as, except that register zero still reads as zero; an access out of
  range fails the assertion of the code.
\<close>
theorem gprf_read_write:
  assumes "wf_gprf g"
  shows "if unat r < GPRF_Size
         then \<exists>g'. gprf_write r v g = Inr g' \<and> wf_gprf g' \<and>
                (\<forall>q. gprf_read q g' = (if q = r \<and> r \<noteq> X0 then Inr v else gprf_read q g))
         else gprf_write r v g = Inl AssertFailed \<and> gprf_read r g = Inl AssertFailed"
proof (cases "unat r < GPRF_Size")
  case True
  then obtain g' where g': "gprf_write r v g = Inr g'" "wf_gprf g'"
    using gprf.write_total [OF assms] by blast
  then show ?thesis
    using gprf.read_written [OF assms True g'(1)] True by auto
next
  case False
  then show ?thesis using gprf_out_of_range [of r g v] by simp
qed

theorem gprf_read_write_witness:
  "\<exists>g'. gprf_write 5 7 (mkGPRF (replicate 33 1)) = Inr g' \<and> gprf_read 5 g' = Inr 7 \<and>
        gprf_read 6 g' = Inr 1 \<and> gprf_read 32 g' = Inr 0"
proof -
  have wf: "wf_gprf (mkGPRF (replicate 33 1))" by (rule wf_mkGPRF) simp
  have old: "gprf_read 6 (mkGPRF (replicate 33 1)) = Inr 1"
    "gprf_read 32 (mkGPRF (replicate 33 1)) = Inr 0"
    by (simp_all add: gprf_read_def mkGPRF_def)
  obtain g' where "gprf_write 5 7 (mkGPRF (replicate 33 1)) = Inr g'"
    "\<forall>q. gprf_read q g' = (if q = 5 then Inr 7 else gprf_read q (mkGPRF (replicate 33 1)))"
    using gprf_read_write [OF wf, of 5 7] by auto
  then show ?thesis using old by (intro exI [of _ g']) simp
qed

text \<open>
  The state dump succeeds on every register file and prints the header followed by one line,
  in register order, for exactly the registers whose value is not zero.
\<close>
theorem dump_nonzero:
  "dump g =
     Inr (''[GPRF] State dump (skipped are zeroed):'' @ [CHR 0x0A] @
          concat [dump_line (of_nat k) (reg_val g (of_nat k)). k \<leftarrow> [0 ..< 33], reg_val g (of_nat k) \<noteq> 0])"
proof -
  have "concat (map (\<lambda>k. if reg_val g (of_nat k) = 0 then [] else dump_line (of_nat k) (reg_val g (of_nat k))) ks) =
        concat [dump_line (of_nat k) (reg_val g (of_nat k)). k \<leftarrow> ks, reg_val g (of_nat k) \<noteq> 0]" for ks
    by (induction ks) auto
  then show ?thesis
    using dump_regs_eq [of 0 33 g] by (simp add: dump_def del: upt_rec_numeral)
qed

end
