(* ===== verification/Hart.thy ===== *)
theory Hart
  imports Mmu Hooks Csrf Gprf
begin

text \<open>
  The hart, \<^verbatim>\<open>include/besm-666/sim/hart.hpp\<close> and \<^verbatim>\<open>src/sim/hart.cpp\<close>: the state of the simulated
  core, fetching and assembling basic blocks, trap entry, one handler for each operation and the
  table the handlers are dispatched through.

  A handler of the code ends in one of two ways: it returns, which ends \<^verbatim>\<open>Hart::run\<close>, or it calls
  the handler of the current instruction through \<^verbatim>\<open>HANDLER_ARR\<close>.  The result of a handler here is
  \<open>Return\<close> or \<open>Dispatch\<close> with the state at that point; the call itself is made by \<open>hart_step\<close>, so
  that an endless chain of calls is an endless sequence of steps.  \<^verbatim>\<open>currentInstr_\<close> points into the
  instruction array of a block of the cache: it is the index of the block and of the slot, \<open>None\<close>
  for the null pointer.  \<open>hook_log\<close> lists the calls of registered callbacks made so far.
\<close>

section \<open>State\<close>

record Hart =
  bbCache :: BasicBlockCache
  currentInstr :: "(nat \<times> nat) option"
  h_mem :: PhysMem
  prefetcher :: Prefetcher
  h_gprf :: GPRF
  h_csrf :: CSRF
  hookManager :: HookManager
  instrsExecuted :: u64
  hook_log :: "hook_call list"

text \<open>What the code takes from outside the repository: the operating system and the generated masks.\<close>

record env =
  env_os :: os
  env_masks :: mstatus_masks

datatype outcome = Dispatch Hart | Return Hart

text \<open>
  What the constructors leave uninitialised is an argument: the slots of every block, the general
  purpose registers and every control register.
\<close>

definition mkHart :: "env \<Rightarrow> (nat \<Rightarrow> Instruction list) \<Rightarrow> RV64UDWord list \<Rightarrow> (csr_ref \<Rightarrow> RV64UDWord) \<Rightarrow> PhysMem \<Rightarrow> HookManager \<Rightarrow> Hart" where
  "mkHart E slots regs word pMem hm =
     \<lparr>bbCache = mkBasicBlockCache slots, currentInstr = None, h_mem = pMem, prefetcher = mkPrefetcher,
      h_gprf = mkGPRF regs, h_csrf = mkCSRF (env_masks E) word, hookManager = hm, instrsExecuted = 0,
      hook_log = []\<rparr>"

definition finished :: "Hart \<Rightarrow> bool" where
  "finished h = False"

definition getInstrsExecuted :: "Hart \<Rightarrow> u64" where
  "getInstrsExecuted h = instrsExecuted h"

text \<open>\<^verbatim>\<open>*hart.currentInstr_\<close>, and reading and writing registers of the hart.\<close>

definition current :: "Hart \<Rightarrow> Instruction res" where
  "current h =
     (case currentInstr h of
        None \<Rightarrow> Inl UndefinedBehaviour
      | Some (b, k) \<Rightarrow>
          (if b < length (bbs (bbCache h)) \<and> k < length (instrs (bbs (bbCache h) ! b))
           then Inr (instrs (bbs (bbCache h) ! b) ! k) else Inl UndefinedBehaviour))"

definition read_reg :: "Register \<Rightarrow> Hart \<Rightarrow> RV64UDWord res" where
  "read_reg r h = gprf_read r (h_gprf h)"

definition write_reg :: "Register \<Rightarrow> RV64UDWord \<Rightarrow> Hart \<Rightarrow> Hart res" where
  "write_reg r v h = bindE (gprf_write r v (h_gprf h)) (\<lambda>g. Inr (h\<lparr>h_gprf := g\<rparr>))"

definition nextPC :: "Hart \<Rightarrow> Hart res" where
  "nextPC h = bindE (read_reg PC h) (\<lambda>pc. write_reg PC (pc + IALIGN div 8) h)"

section \<open>Fetching\<close>

text \<open>
  The loop of \<^verbatim>\<open>assembleBB\<close>.  A block is full after seven instructions, so that eight iterations
  are never used up (\<open>assembleBB_fuel\<close> in \<open>HartInvariant\<close>).
\<close>

fun assemble_loop :: "nat \<Rightarrow> BasicBlockRebuilder \<Rightarrow> RV64Ptr \<Rightarrow> Prefetcher \<Rightarrow> PhysMem \<Rightarrow>
    (BasicBlock \<times> Prefetcher \<times> PhysMem) res" where
  "assemble_loop 0 rebuilder pc p pm = Inl OutOfFuel"
| "assemble_loop (Suc n) rebuilder pc p pm =
     bindE (pf_loadWord pc p pm) (\<lambda>(w, p, pm).
     bindE (parse w) (\<lambda>instr.
     case append_instr instr rebuilder of (appended, rebuilder) \<Rightarrow>
       if appended then assemble_loop n rebuilder (pc + IALIGN div 8) p pm
       else Inr (rb_bb rebuilder, p, pm)))"

definition assembleBB :: "nat \<Rightarrow> RV64Ptr \<Rightarrow> Hart \<Rightarrow> Hart res" where
  "assembleBB i pc h =
     bindE (assemble_loop kCapacity (mkBasicBlockRebuilder (bbs (bbCache h) ! i) pc) pc (prefetcher h) (h_mem h))
       (\<lambda>(bb, p, pm). Inr (h\<lparr>bbCache := set_bb i bb (bbCache h), prefetcher := p, h_mem := pm\<rparr>))"

definition fetchBB :: "Hart \<Rightarrow> Hart res" where
  "fetchBB h =
     bindE (read_reg PC h) (\<lambda>pc.
     case lookup pc (bbCache h) of ((bbFound, i), cache) \<Rightarrow>
     let h = h\<lparr>bbCache := cache\<rparr> in
     bindE (if \<not> bbFound then assembleBB i pc h else Inr h) (\<lambda>h.
     bindE (triggerBBFetchHook (bbs (bbCache h) ! i) (hookManager h)) (\<lambda>calls.
     Inr (h\<lparr>hook_log := hook_log h @ calls, currentInstr := Some (i, 0)\<rparr>))))"

text \<open>Counting, the hook of the instruction just executed, and the next slot of the block.\<close>

definition execNextInstr :: "Hart \<Rightarrow> outcome res" where
  "execNextInstr h =
     (let h = h\<lparr>instrsExecuted := instrsExecuted h + 1\<rparr> in
      bindE (current h) (\<lambda>i.
      bindE (triggerInstrExecHook i (hookManager h)) (\<lambda>calls.
      Inr (Dispatch (h\<lparr>hook_log := hook_log h @ calls,
                       currentInstr := map_option (\<lambda>(b, k). (b, k + 1)) (currentInstr h)\<rparr>)))))"

section \<open>Traps\<close>

definition set_mstatus :: "CSRField \<Rightarrow> RV64UDWord \<Rightarrow> CSRF \<Rightarrow> CSRF" where
  "set_mstatus f v c = c\<lparr>mstatus := snd (csr_set f v (mstatus c))\<rparr>"

definition set_mcause :: "CSRField \<Rightarrow> RV64UDWord \<Rightarrow> CSRF \<Rightarrow> CSRF" where
  "set_mcause f v c = c\<lparr>mcause := snd (csr_set f v (mcause c))\<rparr>"

definition set_mepc :: "CSRField \<Rightarrow> RV64UDWord \<Rightarrow> CSRF \<Rightarrow> CSRF" where
  "set_mepc f v c = c\<lparr>mepc := snd (csr_set f v (mepc c))\<rparr>"

text \<open>The control register part of \<^verbatim>\<open>raiseException\<close> up to the program counter.\<close>

definition trap_csrs :: "mstatus_masks \<Rightarrow> ExceptionId \<Rightarrow> CSRF \<Rightarrow> CSRF" where
  "trap_csrs M ex c =
     (let c = set_mstatus (MStatus_MPIE M) (csr_get (MStatus_MIE M) (mstatus c)) c;
          c = set_mstatus (MStatus_MIE M) 0 c;
          c = set_mstatus (MStatus_MPP M) (getPrivillege c) c;
          c = setPrivillege PRIVILLEGE_MACHINE c;
          c = set_mcause MCause_Interrupt 0 c
      in set_mcause MCause_ExceptionCode (exception_code ex) c)"

definition trap_vector :: "ExceptionId \<Rightarrow> CSRF \<Rightarrow> RV64Ptr" where
  "trap_vector ex c =
     (if csr_get MTVec_Mode (mtvec c) = VectoredMode
      then (csr_get MTVec_Base (mtvec c) + exception_code ex) * 4
      else csr_get MTVec_Base (mtvec c) * 4)"

definition raiseException :: "env \<Rightarrow> ExceptionId \<Rightarrow> Hart \<Rightarrow> Hart res" where
  "raiseException E ex h =
     (let csrf = trap_csrs (env_masks E) ex (h_csrf h);
          newPC = trap_vector ex csrf
      in bindE (read_reg PC h) (\<lambda>pc.
         let h = h\<lparr>h_csrf := set_mepc MEPC_Value pc csrf\<rparr> in
         bindE (write_reg PC newPC h) fetchBB))"

definition raiseIllegalInstruction :: "env \<Rightarrow> Hart \<Rightarrow> Hart res" where
  "raiseIllegalInstruction E h = raiseException E EXCEPTION_ILLEGAL_INSTR h"

section \<open>Shared pieces of the handlers\<close>

text \<open>
  \<open>finish\<close> is the end of every handler with a result: write the destination register, advance the
  program counter, go on.  The shift operators of C++ are defined only for amounts below the width.
\<close>

definition advance :: "Hart \<Rightarrow> outcome res" where
  "advance h = bindE (nextPC h) execNextInstr"

definition finish :: "Instruction \<Rightarrow> RV64UDWord \<Rightarrow> Hart \<Rightarrow> outcome res" where
  "finish i res h = bindE (write_reg (rd i) res h) advance"

definition shift_left :: "RV64UDWord \<Rightarrow> RV64UDWord \<Rightarrow> RV64UDWord res" where
  "shift_left v n = (if n < 64 then Inr (push_bit (unat n) v) else Inl UndefinedBehaviour)"

definition shift_right :: "RV64UDWord \<Rightarrow> RV64UDWord \<Rightarrow> RV64UDWord res" where
  "shift_right v n = (if n < 64 then Inr (drop_bit (unat n) v) else Inl UndefinedBehaviour)"

definition shift_right_signed :: "int \<Rightarrow> RV64UDWord \<Rightarrow> int res" where
  "shift_right_signed v n = (if n < 64 then Inr (drop_bit (unat n) v) else Inl UndefinedBehaviour)"

definition bool_word :: "bool \<Rightarrow> RV64UDWord" where
  "bool_word b = (if b then 1 else 0)"

text \<open>The two ways a branch goes on, and the two ways a control register access goes on.\<close>

definition branch_to :: "bool \<Rightarrow> RV64Ptr \<Rightarrow> Hart \<Rightarrow> outcome res" where
  "branch_to taken target h = bindE (if taken then write_reg PC target h else nextPC h) execNextInstr"

definition csr_status :: "env \<Rightarrow> Instruction \<Rightarrow> bool + RV64UDWord \<Rightarrow> Hart \<Rightarrow> outcome res" where
  "csr_status E i status h =
     bindE (case status of
              Inl _ \<Rightarrow> raiseIllegalInstruction E h
            | Inr v \<Rightarrow> bindE (write_reg (rd i) v h) nextPC)
       execNextInstr"

section \<open>Handlers\<close>

text \<open>In the order of the source file.\<close>

definition exec_BB_END :: "env \<Rightarrow> Hart \<Rightarrow> outcome res" where
  "exec_BB_END E h = bindE (fetchBB h) (\<lambda>h. Inr (Dispatch h))"

definition exec_INV_OP :: "env \<Rightarrow> Hart \<Rightarrow> outcome res" where
  "exec_INV_OP E h = bindE (raiseIllegalInstruction E h) (\<lambda>h. Inr (Return h))"

definition exec_ADDI :: "env \<Rightarrow> Hart \<Rightarrow> outcome res" where
  "exec_ADDI E h =
     bindE (current h) (\<lambda>i.
     bindE (read_reg (rs1 i) h) (\<lambda>opnd1.
     let opnd2 = SignExtend 12 (immidiate i); res = opnd1 + opnd2
     in finish i res h))"

definition exec_SLTI :: "env \<Rightarrow> Hart \<Rightarrow> outcome res" where
  "exec_SLTI E h =
     bindE (current h) (\<lambda>i.
     bindE (read_reg (rs1 i) h) (\<lambda>r1.
     let opnd1 = Signify r1; opnd2 = Signify (SignExtend 12 (immidiate i)); res = bool_word (opnd1 < opnd2)
     in finish i res h))"

definition exec_SLTIU :: "env \<Rightarrow> Hart \<Rightarrow> outcome res" where
  "exec_SLTIU E h =
     bindE (current h) (\<lambda>i.
     bindE (read_reg (rs1 i) h) (\<lambda>opnd1.
     let opnd2 = SignExtend 12 (immidiate i); res = bool_word (opnd1 < opnd2)
     in finish i res h))"

definition exec_ORI :: "env \<Rightarrow> Hart \<Rightarrow> outcome res" where
  "exec_ORI E h =
     bindE (current h) (\<lambda>i.
     bindE (read_reg (rs1 i) h) (\<lambda>opnd1.
     let opnd2 = SignExtend 12 (immidiate i); res = opnd1 OR opnd2
     in finish i res h))"

definition exec_ANDI :: "env \<Rightarrow> Hart \<Rightarrow> outcome res" where
  "exec_ANDI E h =
     bindE (current h) (\<lambda>i.
     bindE (read_reg (rs1 i) h) (\<lambda>opnd1.
     let opnd2 = SignExtend 12 (immidiate i); res = opnd1 AND opnd2
     in finish i res h))"

definition exec_XORI :: "env \<Rightarrow> Hart \<Rightarrow> outcome res" where
  "exec_XORI E h =
     bindE (current h) (\<lambda>i.
     bindE (read_reg (rs1 i) h) (\<lambda>opnd1.
     let opnd2 = SignExtend 12 (immidiate i); res = opnd1 XOR opnd2
     in finish i res h))"

definition exec_SLLI :: "env \<Rightarrow> Hart \<Rightarrow> outcome res" where
  "exec_SLLI E h =
     bindE (current h) (\<lambda>i.
     bindE (read_reg (rs1 i) h) (\<lambda>opnd1.
     let opnd2 = ExtractBits 5 0 (immidiate i)
     in bindE (shift_left opnd1 opnd2) (\<lambda>res. finish i res h)))"

definition exec_SRLI :: "env \<Rightarrow> Hart \<Rightarrow> outcome res" where
  "exec_SRLI E h =
     bindE (current h) (\<lambda>i.
     bindE (read_reg (rs1 i) h) (\<lambda>opnd1.
     let opnd2 = ExtractBits 5 0 (immidiate i)
     in bindE (shift_right opnd1 opnd2) (\<lambda>res. finish i res h)))"

definition exec_SRAI :: "env \<Rightarrow> Hart \<Rightarrow> outcome res" where
  "exec_SRAI E h =
     bindE (current h) (\<lambda>i.
     bindE (read_reg (rs1 i) h) (\<lambda>r1.
     let opnd1 = Signify r1; opnd2 = ExtractBits 5 0 (immidiate i)
     in bindE (shift_right_signed opnd1 opnd2) (\<lambda>res. finish i (Unsignify res) h)))"

definition exec_LUI :: "env \<Rightarrow> Hart \<Rightarrow> outcome res" where
  "exec_LUI E h =
     bindE (current h) (\<lambda>i.
     let opnd1 = ExtractBits 20 0 (immidiate i)
     in finish i opnd1 h)"

definition exec_AUIPC :: "env \<Rightarrow> Hart \<Rightarrow> outcome res" where
  "exec_AUIPC E h =
     bindE (current h) (\<lambda>i.
     let offset = ExtractBits 20 0 (immidiate i)
     in bindE (read_reg PC h) (\<lambda>pc. finish i (pc + offset) h))"

definition exec_ADD :: "env \<Rightarrow> Hart \<Rightarrow> outcome res" where
  "exec_ADD E h =
     bindE (current h) (\<lambda>i.
     bindE (read_reg (rs1 i) h) (\<lambda>opnd1.
     bindE (read_reg (rs2 i) h) (\<lambda>opnd2.
     let res = opnd1 + opnd2
     in finish i res h)))"

definition exec_SLT :: "env \<Rightarrow> Hart \<Rightarrow> outcome res" where
  "exec_SLT E h =
     bindE (current h) (\<lambda>i.
     bindE (read_reg (rs1 i) h) (\<lambda>r1.
     bindE (read_reg (rs2 i) h) (\<lambda>r2.
     let opnd1 = Signify r1; opnd2 = Signify r2; res = bool_word (opnd1 < opnd2)
     in finish i res h)))"

definition exec_SLTU :: "env \<Rightarrow> Hart \<Rightarrow> outcome res" where
  "exec_SLTU E h =
     bindE (current h) (\<lambda>i.
     bindE (read_reg (rs1 i) h) (\<lambda>opnd1.
     bindE (read_reg (rs2 i) h) (\<lambda>opnd2.
     let res = bool_word (opnd1 < opnd2)
     in finish i res h)))"

definition exec_AND :: "env \<Rightarrow> Hart \<Rightarrow> outcome res" where
  "exec_AND E h =
     bindE (current h) (\<lambda>i.
     bindE (read_reg (rs1 i) h) (\<lambda>opnd1.
     bindE (read_reg (rs2 i) h) (\<lambda>opnd2.
     let res = opnd1 AND opnd2
     in finish i res h)))"

definition exec_OR :: "env \<Rightarrow> Hart \<Rightarrow> outcome res" where
  "exec_OR E h =
     bindE (current h) (\<lambda>i.
     bindE (read_reg (rs1 i) h) (\<lambda>opnd1.
     bindE (read_reg (rs2 i) h) (\<lambda>opnd2.
     let res = opnd1 OR opnd2
     in finish i res h)))"

definition exec_XOR :: "env \<Rightarrow> Hart \<Rightarrow> outcome res" where
  "exec_XOR E h =
     bindE (current h) (\<lambda>i.
     bindE (read_reg (rs1 i) h) (\<lambda>opnd1.
     bindE (read_reg (rs2 i) h) (\<lambda>opnd2.
     let res = opnd1 XOR opnd2
     in finish i res h)))"

definition exec_SLL :: "env \<Rightarrow> Hart \<Rightarrow> outcome res" where
  "exec_SLL E h =
     bindE (current h) (\<lambda>i.
     bindE (read_reg (rs1 i) h) (\<lambda>opnd1.
     bindE (read_reg (rs2 i) h) (\<lambda>opnd2.
     bindE (shift_left opnd1 opnd2) (\<lambda>res. finish i res h))))"

definition exec_SRL :: "env \<Rightarrow> Hart \<Rightarrow> outcome res" where
  "exec_SRL E h =
     bindE (current h) (\<lambda>i.
     bindE (read_reg (rs1 i) h) (\<lambda>opnd1.
     bindE (read_reg (rs2 i) h) (\<lambda>opnd2.
     bindE (shift_right opnd1 opnd2) (\<lambda>res. finish i res h))))"

definition exec_SUB :: "env \<Rightarrow> Hart \<Rightarrow> outcome res" where
  "exec_SUB E h =
     bindE (current h) (\<lambda>i.
     bindE (read_reg (rs1 i) h) (\<lambda>opnd1.
     bindE (read_reg (rs2 i) h) (\<lambda>opnd2.
     let res = opnd1 - opnd2
     in finish i res h)))"

definition exec_SRA :: "env \<Rightarrow> Hart \<Rightarrow> outcome res" where
  "exec_SRA E h =
     bindE (current h) (\<lambda>i.
     bindE (read_reg (rs1 i) h) (\<lambda>r1.
     bindE (read_reg (rs2 i) h) (\<lambda>opnd2.
     let opnd1 = Signify r1
     in bindE (shift_right_signed opnd1 opnd2) (\<lambda>res. finish i (Unsignify res) h))))"

definition exec_JAL :: "env \<Rightarrow> Hart \<Rightarrow> outcome res" where
  "exec_JAL E h =
     bindE (current h) (\<lambda>i.
     bindE (read_reg PC h) (\<lambda>pc.
     let offset = SignExtend 20 (immidiate i); target = pc + offset; ret = pc + 4
     in bindE (write_reg (rd i) ret h) (\<lambda>h.
        bindE (write_reg PC target h) execNextInstr)))"

definition exec_JALR :: "env \<Rightarrow> Hart \<Rightarrow> outcome res" where
  "exec_JALR E h =
     bindE (current h) (\<lambda>i.
     bindE (read_reg PC h) (\<lambda>pc.
     bindE (read_reg (rs1 i) h) (\<lambda>base.
     let offset = SignExtend 12 (immidiate i); target = (base + offset) AND NOT 1; ret = pc + 4
     in bindE (write_reg (rd i) ret h) (\<lambda>h.
        bindE (write_reg PC target h) execNextInstr))))"

definition exec_BEQ :: "env \<Rightarrow> Hart \<Rightarrow> outcome res" where
  "exec_BEQ E h =
     bindE (current h) (\<lambda>i.
     bindE (read_reg PC h) (\<lambda>pc.
     bindE (read_reg (rs1 i) h) (\<lambda>opnd1.
     bindE (read_reg (rs2 i) h) (\<lambda>opnd2.
     let offset = SignExtend 12 (immidiate i); target = pc + offset
     in branch_to (opnd1 = opnd2) target h))))"

definition exec_BNE :: "env \<Rightarrow> Hart \<Rightarrow> outcome res" where
  "exec_BNE E h =
     bindE (current h) (\<lambda>i.
     bindE (read_reg PC h) (\<lambda>pc.
     bindE (read_reg (rs1 i) h) (\<lambda>opnd1.
     bindE (read_reg (rs2 i) h) (\<lambda>opnd2.
     let offset = SignExtend 12 (immidiate i); target = pc + offset
     in branch_to (opnd1 \<noteq> opnd2) target h))))"

definition exec_BLT :: "env \<Rightarrow> Hart \<Rightarrow> outcome res" where
  "exec_BLT E h =
     bindE (current h) (\<lambda>i.
     bindE (read_reg PC h) (\<lambda>pc.
     bindE (read_reg (rs1 i) h) (\<lambda>r1.
     bindE (read_reg (rs2 i) h) (\<lambda>r2.
     let offset = SignExtend 12 (immidiate i); opnd1 = Signify r1; opnd2 = Signify r2; target = pc + offset
     in branch_to (opnd1 < opnd2) target h))))"

definition exec_BLTU :: "env \<Rightarrow> Hart \<Rightarrow> outcome res" where
  "exec_BLTU E h =
     bindE (current h) (\<lambda>i.
     bindE (read_reg PC h) (\<lambda>pc.
     bindE (read_reg (rs1 i) h) (\<lambda>opnd1.
     bindE (read_reg (rs2 i) h) (\<lambda>opnd2.
     let offset = SignExtend 12 (immidiate i); target = pc + offset
     in branch_to (opnd1 < opnd2) target h))))"

definition exec_BGE :: "env \<Rightarrow> Hart \<Rightarrow> outcome res" where
  "exec_BGE E h =
     bindE (current h) (\<lambda>i.
     bindE (read_reg PC h) (\<lambda>pc.
     bindE (read_reg (rs1 i) h) (\<lambda>r1.
     bindE (read_reg (rs2 i) h) (\<lambda>r2.
     let offset = SignExtend 12 (immidiate i); opnd1 = Signify r1; opnd2 = Signify r2; target = pc + offset
     in branch_to (opnd1 \<ge> opnd2) target h))))"

definition exec_BGEU :: "env \<Rightarrow> Hart \<Rightarrow> outcome res" where
  "exec_BGEU E h =
     bindE (current h) (\<lambda>i.
     bindE (read_reg PC h) (\<lambda>pc.
     bindE (read_reg (rs1 i) h) (\<lambda>opnd1.
     bindE (read_reg (rs2 i) h) (\<lambda>opnd2.
     let offset = SignExtend 12 (immidiate i); target = pc + offset
     in branch_to (opnd1 \<ge> opnd2) target h))))"

definition exec_LB :: "env \<Rightarrow> Hart \<Rightarrow> outcome res" where
  "exec_LB E h =
     bindE (current h) (\<lambda>i.
     bindE (read_reg (rs1 i) h) (\<lambda>base.
     let address = base + SignExtend 12 (immidiate i)
     in bindE (mmu_loadByte address (h_mem h)) (\<lambda>(value, pm).
        finish i (Unsignify (Signify value)) (h\<lparr>h_mem := pm\<rparr>))))"

definition exec_LH :: "env \<Rightarrow> Hart \<Rightarrow> outcome res" where
  "exec_LH E h =
     bindE (current h) (\<lambda>i.
     bindE (read_reg (rs1 i) h) (\<lambda>base.
     let address = base + SignExtend 12 (immidiate i)
     in bindE (mmu_loadHWord address (h_mem h)) (\<lambda>(value, pm).
        finish i (Unsignify (Signify value)) (h\<lparr>h_mem := pm\<rparr>))))"

definition exec_LW :: "env \<Rightarrow> Hart \<Rightarrow> outcome res" where
  "exec_LW E h =
     bindE (current h) (\<lambda>i.
     bindE (read_reg (rs1 i) h) (\<lambda>base.
     let address = base + SignExtend 12 (immidiate i)
     in bindE (mmu_loadWord address (h_mem h)) (\<lambda>(value, pm).
        finish i (Unsignify (Signify value)) (h\<lparr>h_mem := pm\<rparr>))))"

definition exec_LD :: "env \<Rightarrow> Hart \<Rightarrow> outcome res" where
  "exec_LD E h =
     bindE (current h) (\<lambda>i.
     bindE (read_reg (rs1 i) h) (\<lambda>base.
     let address = base + SignExtend 12 (immidiate i)
     in bindE (mmu_loadDWord address (h_mem h)) (\<lambda>(value, pm).
        finish i value (h\<lparr>h_mem := pm\<rparr>))))"

definition exec_LBU :: "env \<Rightarrow> Hart \<Rightarrow> outcome res" where
  "exec_LBU E h =
     bindE (current h) (\<lambda>i.
     bindE (read_reg (rs1 i) h) (\<lambda>base.
     let address = base + SignExtend 12 (immidiate i)
     in bindE (mmu_loadByte address (h_mem h)) (\<lambda>(value, pm).
        finish i (ucast value) (h\<lparr>h_mem := pm\<rparr>))))"

definition exec_LHU :: "env \<Rightarrow> Hart \<Rightarrow> outcome res" where
  "exec_LHU E h =
     bindE (current h) (\<lambda>i.
     bindE (read_reg (rs1 i) h) (\<lambda>base.
     let address = base + SignExtend 12 (immidiate i)
     in bindE (mmu_loadHWord address (h_mem h)) (\<lambda>(value, pm).
        finish i (ucast value) (h\<lparr>h_mem := pm\<rparr>))))"

definition exec_LWU :: "env \<Rightarrow> Hart \<Rightarrow> outcome res" where
  "exec_LWU E h =
     bindE (current h) (\<lambda>i.
     bindE (read_reg (rs1 i) h) (\<lambda>base.
     let address = base + SignExtend 12 (immidiate i)
     in bindE (mmu_loadWord address (h_mem h)) (\<lambda>(value, pm).
        finish i (ucast value) (h\<lparr>h_mem := pm\<rparr>))))"

definition exec_SB :: "env \<Rightarrow> Hart \<Rightarrow> outcome res" where
  "exec_SB E h =
     bindE (current h) (\<lambda>i.
     bindE (read_reg (rs1 i) h) (\<lambda>base.
     bindE (read_reg (rs2 i) h) (\<lambda>r2.
     let address = base + SignExtend 12 (immidiate i)
     in bindE (mmu_storeByte (env_os E) address (ucast r2) (h_mem h)) (\<lambda>pm.
        advance (h\<lparr>h_mem := pm\<rparr>)))))"

definition exec_SH :: "env \<Rightarrow> Hart \<Rightarrow> outcome res" where
  "exec_SH E h =
     bindE (current h) (\<lambda>i.
     bindE (read_reg (rs1 i) h) (\<lambda>base.
     bindE (read_reg (rs2 i) h) (\<lambda>r2.
     let address = base + SignExtend 12 (immidiate i)
     in bindE (mmu_storeHWord (env_os E) address (sint (ucast r2 :: RV64UHWord)) (h_mem h)) (\<lambda>pm.
        advance (h\<lparr>h_mem := pm\<rparr>)))))"

definition exec_SW :: "env \<Rightarrow> Hart \<Rightarrow> outcome res" where
  "exec_SW E h =
     bindE (current h) (\<lambda>i.
     bindE (read_reg (rs1 i) h) (\<lambda>base.
     bindE (read_reg (rs2 i) h) (\<lambda>r2.
     let address = base + SignExtend 12 (immidiate i)
     in bindE (mmu_storeWord (env_os E) address (sint (ucast r2 :: RV64UWord)) (h_mem h)) (\<lambda>pm.
        advance (h\<lparr>h_mem := pm\<rparr>)))))"

definition exec_SD :: "env \<Rightarrow> Hart \<Rightarrow> outcome res" where
  "exec_SD E h =
     bindE (current h) (\<lambda>i.
     bindE (read_reg (rs1 i) h) (\<lambda>base.
     bindE (read_reg (rs2 i) h) (\<lambda>r2.
     let address = base + SignExtend 12 (immidiate i)
     in bindE (mmu_storeDWord (env_os E) address (sint r2) (h_mem h)) (\<lambda>pm.
        advance (h\<lparr>h_mem := pm\<rparr>)))))"

definition exec_FENCE :: "env \<Rightarrow> Hart \<Rightarrow> outcome res" where
  "exec_FENCE E h =
     advance h"

definition exec_FENCE_TSO :: "env \<Rightarrow> Hart \<Rightarrow> outcome res" where
  "exec_FENCE_TSO E h =
     advance h"

definition exec_PAUSE :: "env \<Rightarrow> Hart \<Rightarrow> outcome res" where
  "exec_PAUSE E h =
     bindE (raiseIllegalInstruction E h) execNextInstr"

definition exec_ECALL :: "env \<Rightarrow> Hart \<Rightarrow> outcome res" where
  "exec_ECALL E h =
     bindE
       (if getPrivillege (h_csrf h) = PRIVILLEGE_USER then raiseException E EXCEPTION_ECALL_UMODE h
        else if getPrivillege (h_csrf h) = PRIVILLEGE_SUPERVISOR then raiseException E EXCEPTION_ECALL_SMODE h
        else if getPrivillege (h_csrf h) = PRIVILLEGE_MACHINE then raiseException E EXCEPTION_ECALL_MMODE h
        else Inl Terminated)
       execNextInstr"

definition exec_EBREAK :: "env \<Rightarrow> Hart \<Rightarrow> outcome res" where
  "exec_EBREAK E h =
     Inr (Return h)"

definition exec_ADDIW :: "env \<Rightarrow> Hart \<Rightarrow> outcome res" where
  "exec_ADDIW E h =
     bindE (current h) (\<lambda>i.
     bindE (read_reg (rs1 i) h) (\<lambda>opnd1.
     let opnd2 = SignExtend 12 (immidiate i); res = ExtractBits 32 0 (opnd1 + opnd2)
     in finish i res h))"

definition exec_SLLIW :: "env \<Rightarrow> Hart \<Rightarrow> outcome res" where
  "exec_SLLIW E h =
     bindE (current h) (\<lambda>i.
     bindE (read_reg (rs1 i) h) (\<lambda>opnd1.
     let opnd2 = SignExtend 12 (immidiate i)
     in bindE (shift_left opnd1 opnd2) (\<lambda>res. finish i (ExtractBits 32 0 res) h)))"

definition exec_SRLIW :: "env \<Rightarrow> Hart \<Rightarrow> outcome res" where
  "exec_SRLIW E h =
     bindE (current h) (\<lambda>i.
     bindE (read_reg (rs1 i) h) (\<lambda>opnd1.
     let opnd2 = SignExtend 12 (immidiate i)
     in bindE (shift_right opnd1 opnd2) (\<lambda>res. finish i (ExtractBits 32 0 res) h)))"

definition exec_SRAIW :: "env \<Rightarrow> Hart \<Rightarrow> outcome res" where
  "exec_SRAIW E h =
     bindE (current h) (\<lambda>i.
     bindE (read_reg (rs1 i) h) (\<lambda>r1.
     let opnd1 = Signify r1; opnd2 = SignExtend 12 (immidiate i)
     in bindE (shift_right_signed opnd1 opnd2) (\<lambda>res. finish i (ExtractBits 32 0 (Unsignify res)) h)))"

definition exec_ADDW :: "env \<Rightarrow> Hart \<Rightarrow> outcome res" where
  "exec_ADDW E h =
     bindE (current h) (\<lambda>i.
     bindE (read_reg (rs1 i) h) (\<lambda>opnd1.
     bindE (read_reg (rs2 i) h) (\<lambda>opnd2.
     let res = ExtractBits 32 0 (opnd1 + opnd2)
     in finish i res h)))"

definition exec_SUBW :: "env \<Rightarrow> Hart \<Rightarrow> outcome res" where
  "exec_SUBW E h =
     bindE (current h) (\<lambda>i.
     bindE (read_reg (rs1 i) h) (\<lambda>opnd1.
     bindE (read_reg (rs2 i) h) (\<lambda>opnd2.
     let res = ExtractBits 32 0 (opnd1 - opnd2)
     in finish i res h)))"

definition exec_SLLW :: "env \<Rightarrow> Hart \<Rightarrow> outcome res" where
  "exec_SLLW E h =
     bindE (current h) (\<lambda>i.
     bindE (read_reg (rs1 i) h) (\<lambda>opnd1.
     bindE (read_reg (rs2 i) h) (\<lambda>opnd2.
     bindE (shift_left opnd1 opnd2) (\<lambda>res. finish i (ExtractBits 32 0 res) h))))"

definition exec_SRLW :: "env \<Rightarrow> Hart \<Rightarrow> outcome res" where
  "exec_SRLW E h =
     bindE (current h) (\<lambda>i.
     bindE (read_reg (rs1 i) h) (\<lambda>opnd1.
     bindE (read_reg (rs2 i) h) (\<lambda>opnd2.
     bindE (shift_right opnd1 opnd2) (\<lambda>res. finish i (ExtractBits 32 0 res) h))))"

definition exec_SRAW :: "env \<Rightarrow> Hart \<Rightarrow> outcome res" where
  "exec_SRAW E h =
     bindE (current h) (\<lambda>i.
     bindE (read_reg (rs1 i) h) (\<lambda>r1.
     bindE (read_reg (rs2 i) h) (\<lambda>opnd2.
     let opnd1 = Signify r1
     in bindE (shift_right_signed opnd1 opnd2) (\<lambda>res. finish i (ExtractBits 32 0 (Unsignify res)) h))))"

text \<open>The control register part of \<^verbatim>\<open>exec_MRET\<close> in machine mode.\<close>

definition mret_csrs :: "mstatus_masks \<Rightarrow> CSRF \<Rightarrow> CSRF" where
  "mret_csrs M c =
     (let c = setPrivillege (csr_get (MStatus_MPP M) (mstatus c)) c;
          c = set_mstatus (MStatus_MIE M) (csr_get (MStatus_MPIE M) (mstatus c)) c;
          c = set_mstatus (MStatus_MPIE M) 1 c
      in set_mstatus (MStatus_MPP M) PRIVILLEGE_USER c)"

definition exec_MRET :: "env \<Rightarrow> Hart \<Rightarrow> outcome res" where
  "exec_MRET E h =
     bindE
       (if getPrivillege (h_csrf h) \<noteq> PRIVILLEGE_MACHINE then raiseIllegalInstruction E h
        else Inr (h\<lparr>h_csrf := mret_csrs (env_masks E) (h_csrf h)\<rparr>)) (\<lambda>h.
     bindE (write_reg PC (csr_get MEPC_Value (mepc (h_csrf h))) h) execNextInstr)"

definition exec_SRET :: "env \<Rightarrow> Hart \<Rightarrow> outcome res" where
  "exec_SRET E h =
     Inl Terminated"

definition exec_CSRRW :: "env \<Rightarrow> Hart \<Rightarrow> outcome res" where
  "exec_CSRRW E h =
     bindE (current h) (\<lambda>i.
     bindE (read_reg (rs1 i) h) (\<lambda>v.
     let (status, csrf) = csrf_write (env_masks E) (immidiate i) v (h_csrf h)
     in csr_status E i status (h\<lparr>h_csrf := csrf\<rparr>)))"

definition exec_CSRRS :: "env \<Rightarrow> Hart \<Rightarrow> outcome res" where
  "exec_CSRRS E h =
     bindE (current h) (\<lambda>i.
     if rs1 i = X0 then csr_status E i (csrf_read (immidiate i) (h_csrf h)) h
     else
       bindE (read_reg (rs1 i) h) (\<lambda>v.
       let (status, csrf) = csrf_setBits (env_masks E) (immidiate i) v (h_csrf h)
       in csr_status E i status (h\<lparr>h_csrf := csrf\<rparr>)))"

definition exec_CSRRC :: "env \<Rightarrow> Hart \<Rightarrow> outcome res" where
  "exec_CSRRC E h =
     bindE (current h) (\<lambda>i.
     bindE (read_reg (rs1 i) h) (\<lambda>v.
     let (status, csrf) = csrf_clearBits (env_masks E) (immidiate i) v (h_csrf h)
     in csr_status E i status (h\<lparr>h_csrf := csrf\<rparr>)))"

definition exec_CSRRWI :: "env \<Rightarrow> Hart \<Rightarrow> outcome res" where
  "exec_CSRRWI E h =
     bindE (current h) (\<lambda>i.
     let (status, csrf) = csrf_write (env_masks E) (immidiate i) (ucast (rs1 i)) (h_csrf h)
     in csr_status E i status (h\<lparr>h_csrf := csrf\<rparr>))"

definition exec_CSRRSI :: "env \<Rightarrow> Hart \<Rightarrow> outcome res" where
  "exec_CSRRSI E h =
     bindE (current h) (\<lambda>i.
     let (status, csrf) = csrf_setBits (env_masks E) (immidiate i) (ucast (rs1 i)) (h_csrf h)
     in csr_status E i status (h\<lparr>h_csrf := csrf\<rparr>))"

definition exec_CSRRCI :: "env \<Rightarrow> Hart \<Rightarrow> outcome res" where
  "exec_CSRRCI E h =
     bindE (current h) (\<lambda>i.
     let (status, csrf) = csrf_clearBits (env_masks E) (immidiate i) (ucast (rs1 i)) (h_csrf h)
     in csr_status E i status (h\<lparr>h_csrf := csrf\<rparr>))"

section \<open>Dispatch\<close>

definition HANDLER_ARR :: "(env \<Rightarrow> Hart \<Rightarrow> outcome res) list" where
  "HANDLER_ARR =
    [exec_INV_OP, exec_LUI, exec_AUIPC, exec_JAL,
     exec_JALR, exec_BEQ, exec_BNE, exec_BLT,
     exec_BGE, exec_BLTU, exec_BGEU, exec_LB,
     exec_LH, exec_LW, exec_LBU, exec_LHU,
     exec_SB, exec_SH, exec_SW, exec_ADDI,
     exec_SLTI, exec_SLTIU, exec_XORI, exec_ORI,
     exec_ANDI, exec_ADD, exec_SUB, exec_SLL,
     exec_SLT, exec_SLTU, exec_XOR, exec_SRL,
     exec_SRA, exec_OR, exec_AND, exec_FENCE,
     exec_FENCE_TSO, exec_PAUSE, exec_ECALL, exec_EBREAK,
     exec_LWU, exec_LD, exec_SD, exec_SLLI,
     exec_SRLI, exec_SRAI, exec_ADDIW, exec_SLLIW,
     exec_SRLIW, exec_SRAIW, exec_ADDW, exec_SUBW,
     exec_SLLW, exec_SRLW, exec_SRAW, exec_CSRRW,
     exec_CSRRS, exec_CSRRC, exec_CSRRWI, exec_CSRRSI,
     exec_CSRRCI, exec_SRET, exec_MRET, exec_BB_END]"

text \<open>The call \<^verbatim>\<open>(*HANDLER_ARR[hart.currentInstr_->operation])(hart)\<close>.\<close>

definition dispatch :: "env \<Rightarrow> Hart \<Rightarrow> outcome res" where
  "dispatch E h = bindE (current h) (\<lambda>i. (HANDLER_ARR ! op_value (operation i)) E h)"

text \<open>
  \<^verbatim>\<open>Hart::run\<close>: the chain of handler calls that starts with \<^verbatim>\<open>exec_BB_END\<close>.  \<open>drive\<close> follows it; a
  chain that never returns has the value \<open>None\<close>.  In the source these calls are the last statements of
  the handlers, which a compiler turns into jumps but C++ does not promise to; the stack they may use
  otherwise is not modelled.
\<close>

partial_function (option) drive :: "env \<Rightarrow> outcome res \<Rightarrow> Hart res option" where
  "drive E r =
     (case r of
        Inl e \<Rightarrow> Some (Inl e)
      | Inr (Return h) \<Rightarrow> Some (Inr h)
      | Inr (Dispatch h) \<Rightarrow> drive E (dispatch E h))"

definition run :: "env \<Rightarrow> Hart \<Rightarrow> Hart res option" where
  "run E h = drive E (exec_BB_END E h)"

end
