(* ===== verification/HartInvariant.thy ===== *)
theory HartInvariant
  imports Hart
begin

text \<open>
  What holds of the hart in every state it reaches.  \<open>hart_ok\<close> is the state in which a handler is
  dispatched: the register files and the cache of blocks are well formed, the program counter is
  even, and the current instruction lies in a completely assembled block, at its end marker at
  most.  \<open>ready\<close> is the same strictly before the end marker, where handlers read their operands.
  \<open>valid\<close> says what a computation guarantees when it does not fail; the rules below take a
  handler apart step by step, so that every handler is verified by the same few rules.
\<close>

section \<open>Guarantees of computations that may fail\<close>

definition valid :: "('a \<Rightarrow> bool) \<Rightarrow> 'a res \<Rightarrow> bool" where
  "valid P r \<longleftrightarrow> (\<forall>x. r = Inr x \<longrightarrow> P x)"

named_theorems vcg

lemma valid_Inr [vcg]: "P x \<Longrightarrow> valid P (Inr x)"
  and valid_Inl [vcg]: "valid P (Inl e)"
  by (simp_all add: valid_def)

lemma valid_bind: "valid Q m \<Longrightarrow> (\<And>x. Q x \<Longrightarrow> valid P (f x)) \<Longrightarrow> valid P (bindE m f)"
  by (auto simp: valid_def bindE_eq_Inr_iff)

lemma valid_bind_any: "(\<And>x. m = Inr x \<Longrightarrow> valid P (f x)) \<Longrightarrow> valid P (bindE m f)"
  by (auto simp: valid_def bindE_eq_Inr_iff)

lemma valid_if [vcg]: "(b \<Longrightarrow> valid P x) \<Longrightarrow> (\<not> b \<Longrightarrow> valid P y) \<Longrightarrow> valid P (if b then x else y)"
  by simp

lemma validD: "valid P r \<Longrightarrow> r = Inr x \<Longrightarrow> P x"
  by (simp add: valid_def)

section \<open>The invariant\<close>

definition blocks_ok :: "BasicBlockCache \<Rightarrow> bool" where
  "blocks_ok c \<longleftrightarrow>
     (\<forall>bb\<in>set (bbs c). length (instrs bb) = kCapacity \<and> (bb_pc bb = 1 \<or> (\<exists>n. block_end bb n)))"

definition core_ok :: "env \<Rightarrow> Hart \<Rightarrow> bool" where
  "core_ok E h \<longleftrightarrow>
     wf_gprf (h_gprf h) \<and> even (reg_val (h_gprf h) PC) \<and> csrf_ok (env_masks E) (h_csrf h) \<and>
     cache_ok (bbCache h) \<and> blocks_ok (bbCache h) \<and> pm_inv (env_os E) (h_mem h)"

definition within :: "(nat \<Rightarrow> nat \<Rightarrow> bool) \<Rightarrow> Hart \<Rightarrow> bool" where
  "within rel h \<longleftrightarrow>
     (\<exists>b k n. currentInstr h = Some (b, k) \<and> b < length (bbs (bbCache h)) \<and>
        block_end (bbs (bbCache h) ! b) n \<and> rel k n)"

definition ready :: "env \<Rightarrow> Hart \<Rightarrow> bool" where
  "ready E h \<longleftrightarrow> core_ok E h \<and> within (<) h"

definition hart_ok :: "env \<Rightarrow> Hart \<Rightarrow> bool" where
  "hart_ok E h \<longleftrightarrow> core_ok E h \<and> within (\<le>) h"

primrec outcome_ok :: "env \<Rightarrow> outcome \<Rightarrow> bool" where
  "outcome_ok E (Dispatch h) = hart_ok E h"
| "outcome_ok E (Return h) = hart_ok E h"

lemma ready_hart_ok: "ready E h \<Longrightarrow> hart_ok E h"
  unfolding ready_def hart_ok_def within_def by (metis less_imp_le)

lemma ready_core: "ready E h \<Longrightarrow> core_ok E h"
  by (simp add: ready_def)

section \<open>Reading the current instruction\<close>

lemma block_slot:
  assumes "block_end bb n" and "k \<le> n"
  shows "k < length (instrs bb)" and "k < n \<Longrightarrow> wf_instr (instrs bb ! k)"
    and "k < n \<longleftrightarrow> operation (instrs bb ! k) \<noteq> BB_END"
proof -
  have e: "length (instrs bb) = 8" "n < 8" "operation (instrs bb ! n) = BB_END" "\<forall>i<n. wf_instr (instrs bb ! i)"
    using assms(1) by (simp_all add: block_end_def)
  show "k < length (instrs bb)" using e(1,2) assms(2) by simp
  show wf: "k < n \<Longrightarrow> wf_instr (instrs bb ! k)" using e(4) by blast
  show "k < n \<longleftrightarrow> operation (instrs bb ! k) \<noteq> BB_END"
    using wf e(3) assms(2) by (cases "k = n") (simp_all add: wf_instr_def)
qed

lemma current_at:
  assumes "currentInstr h = Some (b, k)" "b < length (bbs (bbCache h))" "block_end (bbs (bbCache h) ! b) n" "k \<le> n"
  shows "current h = Inr (instrs (bbs (bbCache h) ! b) ! k)"
  using assms block_slot(1) [OF assms(3,4)] by (simp add: current_def)

lemma current_ready:
  assumes "ready E h"
  shows "\<exists>i. current h = Inr i \<and> wf_instr i"
proof -
  obtain b k n where c: "currentInstr h = Some (b, k)" "b < length (bbs (bbCache h))"
      "block_end (bbs (bbCache h) ! b) n" "k < n"
    using assms by (auto simp: ready_def within_def)
  then show ?thesis using current_at [OF c(1-3)] block_slot(2) [OF c(3)] by simp
qed

lemma current_hart_ok:
  assumes "hart_ok E h"
  shows "\<exists>i. current h = Inr i \<and> (operation i = BB_END \<or> ready E h)"
proof -
  obtain b k n where c: "currentInstr h = Some (b, k)" "b < length (bbs (bbCache h))"
      "block_end (bbs (bbCache h) ! b) n" "k \<le> n"
    using assms by (auto simp: hart_ok_def within_def)
  show ?thesis
  proof (cases "k < n")
    case True
    then have "ready E h" using c assms by (auto simp: ready_def hart_ok_def within_def)
    then show ?thesis using current_at [OF c] by blast
  next
    case False
    then show ?thesis using current_at [OF c] block_slot(3) [OF c(3,4)] by simp
  qed
qed

lemma with_current [vcg]:
  "ready E h \<Longrightarrow> (\<And>i. current h = Inr i \<Longrightarrow> wf_instr i \<Longrightarrow> valid P (f i)) \<Longrightarrow> valid P (bindE (current h) f)"
  using current_ready [of E h] by auto

lemma with_read_reg [vcg]: "(\<And>v. valid P (f v)) \<Longrightarrow> valid P (bindE (read_reg r h) f)"
  by (rule valid_bind_any)

lemma with_shift [vcg]:
  "(\<And>v. valid P (f v)) \<Longrightarrow> valid P (bindE (shift_left a n) f)"
  "(\<And>v. valid P (f v)) \<Longrightarrow> valid P (bindE (shift_right a n) f)"
  "(\<And>v. valid P (g v)) \<Longrightarrow> valid P (bindE (shift_right_signed x n) g)"
  by (rule valid_bind_any, assumption)+

section \<open>Changing one part of the state\<close>

lemma core_ok_frame [simp]:
  "core_ok E (h\<lparr>currentInstr := c\<rparr>) = core_ok E h"
  "core_ok E (h\<lparr>instrsExecuted := n\<rparr>) = core_ok E h"
  "core_ok E (h\<lparr>hook_log := l\<rparr>) = core_ok E h"
  by (simp_all add: core_ok_def)

lemma within_frame [simp]:
  "within rel (h\<lparr>h_gprf := g\<rparr>) = within rel h"
  "within rel (h\<lparr>h_csrf := c\<rparr>) = within rel h"
  "within rel (h\<lparr>h_mem := m\<rparr>) = within rel h"
  "within rel (h\<lparr>instrsExecuted := n\<rparr>) = within rel h"
  "within rel (h\<lparr>hook_log := l\<rparr>) = within rel h"
  by (simp_all add: within_def)

lemma ready_csrf [wf_intros]: "ready E h \<Longrightarrow> csrf_ok (env_masks E) c \<Longrightarrow> ready E (h\<lparr>h_csrf := c\<rparr>)"
  by (simp add: ready_def core_ok_def)

lemma ready_mem [wf_intros]: "ready E h \<Longrightarrow> pm_inv (env_os E) m \<Longrightarrow> ready E (h\<lparr>h_mem := m\<rparr>)"
  by (simp add: ready_def core_ok_def)

lemma core_ok_gprf:
  "core_ok E h \<Longrightarrow> wf_gprf g \<Longrightarrow> even (reg_val g PC) \<Longrightarrow> core_ok E (h\<lparr>h_gprf := g\<rparr>)"
  by (simp add: core_ok_def)

lemma write_reg_eq:
  assumes "unat r < 33"
  shows "write_reg r v h = Inr (h\<lparr>h_gprf := set_reg r v (h_gprf h)\<rparr>)"
  using assms by (simp add: write_reg_def gprf_write_eq)

lemma read_reg_eq: "unat r < 33 \<Longrightarrow> read_reg r h = Inr (reg_val (h_gprf h) r)"
  by (simp add: read_reg_def gprf_read_eq)

lemma core_ok_write:
  assumes "core_ok E h" and "unat r < 33" and "r = PC \<longrightarrow> even v"
  shows "core_ok E (h\<lparr>h_gprf := set_reg r v (h_gprf h)\<rparr>)"
proof (rule core_ok_gprf [OF assms(1)])
  have wf: "wf_gprf (h_gprf h)" using assms(1) by (simp add: core_ok_def)
  then show "wf_gprf (set_reg r v (h_gprf h))" by (rule wf_set_reg)
  show "even (reg_val (set_reg r v (h_gprf h)) PC)"
    using reg_val_set_reg [OF wf, of r v PC] assms by (auto simp: core_ok_def)
qed

lemma write_PC_core: "core_ok E h \<Longrightarrow> even v \<Longrightarrow> valid (core_ok E) (write_reg PC v h)"
  using core_ok_write [of E h PC v] write_reg_eq [of PC v h] by (simp add: valid_def)

lemma write_PC_ready [vcg]: "ready E h \<Longrightarrow> even v \<Longrightarrow> valid (ready E) (write_reg PC v h)"
  using core_ok_write [of E h PC v] write_reg_eq [of PC v h] by (simp add: valid_def ready_def)

lemma unat_wf_reg: "(r :: Register) < 32 \<Longrightarrow> unat r < 33"
  using unat_reg_less [of r] by simp

lemma write_rd_ready [vcg]:
  assumes "ready E h" and "wf_instr i"
  shows "valid (ready E) (write_reg (rd i) v h)"
proof -
  have r: "rd i < 32" "unat (rd i) < 33" using assms(2) unat_wf_reg by (auto simp: wf_instr_def)
  have "rd i \<noteq> PC" using r(1) by auto
  then show ?thesis
    using core_ok_write [of E h "rd i" v] write_reg_eq [OF r(2)] assms(1) r(2) by (simp add: valid_def ready_def)
qed

lemma read_PC: "read_reg PC h = Inr (reg_val (h_gprf h) PC)"
  using read_reg_eq [of PC h] by simp

lemma nextPC_ready [vcg]: "ready E h \<Longrightarrow> valid (ready E) (nextPC h)"
  unfolding nextPC_def read_PC bindE_Inr
  by (rule write_PC_ready) (simp_all add: ready_def core_ok_def IALIGN_def)

section \<open>Going on to the next slot\<close>

lemma execNextInstr_ok [vcg]:
  assumes "ready E h"
  shows "valid (outcome_ok E) (execNextInstr h)"
proof -
  obtain b k n where c: "currentInstr h = Some (b, k)" "b < length (bbs (bbCache h))"
      "block_end (bbs (bbCache h) ! b) n" "Suc k \<le> n"
    using assms by (auto simp: ready_def within_def Suc_le_eq)
  then have "within (\<le>) (h\<lparr>instrsExecuted := x, hook_log := l, currentInstr := Some (b, k + 1)\<rparr>)" for x l
    by (auto simp: within_def)
  then show ?thesis
    using c(1) ready_core [OF assms]
    by (auto simp: valid_def execNextInstr_def Let_def bindE_eq_Inr_iff hart_ok_def)
qed

lemma advance_ok [vcg]: "ready E h \<Longrightarrow> valid (outcome_ok E) (advance h)"
  unfolding advance_def by (rule valid_bind, rule nextPC_ready, assumption, rule execNextInstr_ok)

lemma finish_ok [vcg]: "ready E h \<Longrightarrow> wf_instr i \<Longrightarrow> valid (outcome_ok E) (finish i v h)"
  unfolding finish_def by (rule valid_bind, rule write_rd_ready, assumption+, rule advance_ok)

lemma branch_to_ok [vcg]:
  "ready E h \<Longrightarrow> even target \<Longrightarrow> valid (outcome_ok E) (branch_to taken target h)"
  unfolding branch_to_def
  by (rule valid_bind [where Q = "ready E"]) (intro valid_if nextPC_ready write_PC_ready execNextInstr_ok; assumption)+

section \<open>Fetching keeps the invariant\<close>

lemma getHostAddress_keeps:
  assumes "pm_inv E pm" and "mmu_getHostAddress a pm = Inr (q, pm')"
  shows "pm_inv E pm' \<and> same_memory pm pm'"
proof -
  obtain e pm1 where "findDevice a pm = Inr (e, pm1)" "pm' = pm1"
    using assms(2) by (auto simp: mmu_getHostAddress_def pm_getHostAddress_def translateAddress_def bindE_eq_Inr_iff)
  then show ?thesis using findDevice_keeps [of E pm a e pm1] assms(1) by (simp add: pm_inv_def)
qed

lemma load_keeps:
  assumes "pm_inv E pm" and "pm_load ld a pm = Inr (v, pm')"
  shows "pm_inv E pm' \<and> same_memory pm pm'"
  using pm_load_keeps [OF _ assms(2), of E] assms(1) by (simp add: pm_inv_def)

lemma pf_loadWord_keeps:
  assumes "pm_inv E pm" and "pf_loadWord a p pm = Inr (w, p', pm')"
  shows "pm_inv E pm' \<and> same_memory pm pm'"
proof (cases "a > pf_start p \<and> a < pf_start p + pf_len p")
  case True
  then have "pm' = pm" using assms(2) by (auto simp: pf_loadWord_def bindE_eq_Inr_iff)
  then show ?thesis using assms(1) by (simp add: same_memory_def)
next
  case False
  then obtain q pm1 where g: "mmu_getHostAddress a pm = Inr (q, pm1)"
    using assms(2) by (auto simp: pf_loadWord_def bindE_eq_Inr_iff)
  then have k: "pm_inv E pm1" "same_memory pm pm1" using getHostAddress_keeps [OF assms(1)] by simp_all
  have "pm' = pm1 \<or> mmu_loadWord a pm1 = Inr (w, pm')"
    using assms(2) False g by (auto simp: pf_loadWord_def bindE_eq_Inr_iff Let_def split: if_splits)
  then show ?thesis
    using k load_keeps [OF k(1), of ram_loadWord a w pm'] by (auto simp: mmu_defs pm_loadWord_def same_memory_def)
qed

text \<open>What the loop of \<^verbatim>\<open>assembleBB\<close> returns is a complete block for the address.\<close>

lemma assemble_loop_ok:
  assumes "assemble_loop n rb pc p pm = Inr (bb, p', pm')" and "partial_block rb" and "pm_inv E pm"
  shows "(\<exists>m. block_end bb m) \<and> bb_pc bb = bb_pc (rb_bb rb) \<and> pm_inv E pm' \<and> same_memory pm pm'"
  using assms
proof (induction n arbitrary: rb pc p pm)
  case (Suc n)
  obtain w p1 pm1 where l: "pf_loadWord pc p pm = Inr (w, p1, pm1)"
    using Suc.prems(1) by (cases "pf_loadWord pc p pm") auto
  then have k: "pm_inv E pm1" "same_memory pm pm1" using pf_loadWord_keeps [OF Suc.prems(3)] by blast+
  obtain i where i: "parse w = Inr i" "wf_instr i" using parse_wf by blast
  obtain more rb1 where a: "append_instr i rb = (more, rb1)" by fastforce
  show ?case
  proof (cases more)
    case True
    then have c: "partial_block rb1" "bb_pc (rb_bb rb1) = bb_pc (rb_bb rb)"
      using append_instr_continue [OF Suc.prems(2) i(2)] a by auto
    have "assemble_loop n rb1 (pc + IALIGN div 8) p1 pm1 = Inr (bb, p', pm')"
      using Suc.prems(1) l i(1) a True by simp
    then show ?thesis using Suc.IH [OF _ c(1) k(1)] c k by (simp add: same_memory_def)
  next
    case False
    then have "block_end bb (rb_count rb + 1) \<and> bb_pc bb = bb_pc (rb_bb rb)" "pm' = pm1"
      using append_instr_stop [OF Suc.prems(2) i(2)] a Suc.prems(1) l i(1) by auto
    then show ?thesis using k by blast
  qed
qed simp

text \<open>The bound on the iterations is never reached: after seven instructions a block is full.\<close>

lemma bindE_eq_Inl_iff: "bindE m f = Inl e \<longleftrightarrow> m = Inl e \<or> (\<exists>x. m = Inr x \<and> f x = Inl e)"
  by (cases m) auto

lemma no_fuel:
  "host_read n q h \<noteq> Inl OutOfFuel" "hptr_add q n \<noteq> Inl OutOfFuel" "assertE b \<noteq> Inl OutOfFuel"
  "findDevice a pm \<noteq> Inl OutOfFuel" "validateAddressAlignment n a \<noteq> Inl OutOfFuel"
  by (auto simp: host_read_def hptr_add_def assertE_def findDevice_def validateAddressAlignment_def
      split: hptr.splits option.splits)

lemma ram_no_fuel: "ram_getHostAddress a r \<noteq> Inl OutOfFuel" "ram_load a r h \<noteq> Inl OutOfFuel"
  by (auto simp: ram_getHostAddress_def ram_load_def Let_def no_fuel bindE_eq_Inl_iff split: if_splits)

lemma pf_loadWord_no_fuel: "pf_loadWord a p pm \<noteq> Inl OutOfFuel"
  by (auto simp: pf_loadWord_def bindE_eq_Inl_iff mmu_getHostAddress_def pm_getHostAddress_def mmu_defs
      pm_access_defs pm_load_def Let_def no_fuel ram_no_fuel split: if_splits)

lemma assembleBB_fuel:
  "partial_block rb \<Longrightarrow> kCapacity - 1 < n + rb_count rb \<Longrightarrow> assemble_loop n rb pc p pm \<noteq> Inl OutOfFuel"
proof (induction n arbitrary: rb pc p pm)
  case (Suc n)
  show ?case
  proof (cases "pf_loadWord pc p pm")
    case (Inr r)
    obtain w p1 pm1 where r: "r = (w, p1, pm1)" by (cases r) auto
    obtain i where i: "parse w = Inr i" "wf_instr i" using parse_wf by blast
    obtain more rb1 where a: "append_instr i rb = (more, rb1)" by fastforce
    show ?thesis
    proof (cases more)
      case True
      then have "partial_block rb1" "rb_count rb1 = rb_count rb + 1"
        using append_instr_continue [OF Suc.prems(1) i(2)] a by auto
      then have "assemble_loop n rb1 (pc + IALIGN div 8) p1 pm1 \<noteq> Inl OutOfFuel"
        using Suc.IH [of rb1] Suc.prems(2) by simp
      then show ?thesis using Inr r i a True by simp
    qed (use Inr r i a in simp)
  qed (use pf_loadWord_no_fuel [of pc p pm] in simp)
qed (simp add: partial_block_def)

lemma set_bb_core:
  assumes core: "core_ok E h" and l: "lookup pc (bbCache h) = ((False, i), c)"
    and bb: "bb_pc bb = pc" "block_end bb n" and pc: "pc \<noteq> 1" and pm: "pm_inv (env_os E) pm"
  shows "core_ok E (h\<lparr>bbCache := set_bb i bb c, prefetcher := p, h_mem := pm\<rparr>)"
proof -
  have cache: "cache_ok (bbCache h)" "blocks_ok (bbCache h)" using core by (simp_all add: core_ok_def)
  have "set_bb i bb c = cache_access pc (instrs bb) (bbCache h)"
    using l bb(1) by (cases bb) (simp add: cache_access_def)
  then have "cache_ok (set_bb i bb c)" using cache_ok_access [OF cache(1)] by simp
  moreover have "bbs c = bbs (bbCache h)"
    using lookup_slot(3) [OF cache_okD [OF cache(1)] l] .
  then have "blocks_ok (set_bb i bb c)"
    using cache(2) bb(2) set_update_subset_insert [of "bbs (bbCache h)" i bb]
    by (auto simp: blocks_ok_def set_bb_def block_end_def)
  ultimately show ?thesis using core pm by (simp add: core_ok_def)
qed

lemma fetchBB_core:
  assumes core: "core_ok E h"
  shows "valid (ready E) (fetchBB h)"
proof -
  let ?pc = "reg_val (h_gprf h) PC"
  have pc: "?pc \<noteq> 1" using core by (auto simp: core_ok_def)
  have cache: "cache_shape (bbCache h)" "cache_ok (bbCache h)" "blocks_ok (bbCache h)" "length (bbs (bbCache h)) = 1024"
    using core by (auto simp: core_ok_def cache_ok_def cache_shape_def)
  obtain found i c where l: "lookup ?pc (bbCache h) = ((found, i), c)" by (metis surj_pair)
  note slot = lookup_slot [OF cache(1) l]
  let ?h = "h\<lparr>bbCache := c\<rparr>"
  have "\<exists>n. i < length (bbs (bbCache h1)) \<and> block_end (bbs (bbCache h1) ! i) n \<and> core_ok E h1"
    if h1: "(if \<not> found then assembleBB i ?pc ?h else Inr ?h) = Inr h1" for h1
  proof (cases found)
    case True
    then have "h1 = h" "bb_pc (bbs (bbCache h) ! i) = ?pc" using h1 slot(4) by auto
    moreover have "bbs (bbCache h) ! i \<in> set (bbs (bbCache h))" using slot(1) cache(4) by simp
    ultimately show ?thesis using cache(3,4) pc slot(1) core unfolding blocks_ok_def by metis
  next
    case False
    then obtain bb p pm where a: "assemble_loop kCapacity (mkBasicBlockRebuilder (bbs c ! i) ?pc) ?pc (prefetcher h) (h_mem h) = Inr (bb, p, pm)"
        and h1': "h1 = ?h\<lparr>bbCache := set_bb i bb c, prefetcher := p, h_mem := pm\<rparr>"
      using h1 by (auto simp: assembleBB_def bindE_eq_Inr_iff)
    have "bbs c ! i \<in> set (bbs (bbCache h))" using slot(1,3) cache(4) by simp
    then have pb: "partial_block (mkBasicBlockRebuilder (bbs c ! i) ?pc)"
      using cache(3) by (intro partial_block_init) (simp add: blocks_ok_def)
    obtain n where n: "block_end bb n" "bb_pc bb = ?pc" "pm_inv (env_os E) pm"
      using assemble_loop_ok [OF a pb, of "env_os E"] core by (auto simp: core_ok_def mkBasicBlockRebuilder_def)
    have "core_ok E h1"
      using set_bb_core [OF core _ n(2,1) pc n(3), of i c p] l False h1' by simp
    moreover have "bbs (bbCache h1) ! i = bb" "i < length (bbs (bbCache h1))"
      using slot(1,3) cache(4) by (simp_all add: h1' set_bb_def)
    ultimately show ?thesis using n(1) by blast
  qed
  then show ?thesis
    using l unfolding fetchBB_def read_PC
    by (auto simp: valid_def bindE_eq_Inr_iff Let_def ready_def within_def block_end_def)
qed

lemmas fetchBB_ok [vcg] = fetchBB_core [OF ready_core]

section \<open>Trap entry and return keep the control registers legal\<close>

lemma legal_set_unchecked:
  assumes "legal_raw fs raw" and "f \<in> set fs" and "\<forall>g\<in>set fs. Spec g = UNCHECKED"
  shows "legal_raw fs (snd (field_set f v raw))"
  using assms
  by (auto simp: legal_raw_def field_set_eq accepts_def bit_InsertMasked split: if_splits)

lemma csrf_ok_set_mstatus:
  "csrf_ok M c \<Longrightarrow> f \<in> set (MStatus M) \<Longrightarrow> csrf_ok M (set_mstatus f v c)"
  unfolding csrf_ok_def
proof (intro conjI allI)
  fix r
  assume a: "csr_table c = full_table \<and> (\<forall>r. csr_legal (csr_fields M r) (deref r c))" and f: "f \<in> set (MStatus M)"
  have "\<forall>g\<in>set (MStatus M). Spec g = UNCHECKED" by (simp add: MStatus_def field_defs)
  then show "csr_legal (csr_fields M r) (deref r (set_mstatus f v c))"
    using a [THEN conjunct2, rule_format, of r] f legal_set_unchecked [of "MStatus M" _ f v]
    by (cases r) (simp_all add: set_mstatus_def csr_legal_def csr_set_eq)
qed (simp add: set_mstatus_def)

lemma csrf_ok_set_mcause:
  "csrf_ok M c \<Longrightarrow> f \<in> set MCause \<Longrightarrow> csrf_ok M (set_mcause f v c)"
  unfolding csrf_ok_def
proof (intro conjI allI)
  fix r
  assume a: "csr_table c = full_table \<and> (\<forall>r. csr_legal (csr_fields M r) (deref r c))" and f: "f \<in> set MCause"
  have "\<forall>g\<in>set MCause. Spec g = UNCHECKED" by (simp add: MCause_def field_defs)
  then show "csr_legal (csr_fields M r) (deref r (set_mcause f v c))"
    using a [THEN conjunct2, rule_format, of r] f legal_set_unchecked [of MCause _ f v]
    by (cases r) (simp_all add: set_mcause_def csr_legal_def csr_set_eq)
qed (simp add: set_mcause_def)

lemma mepc_set: "snd (field_set MEPC_Value v raw) = (if v mod 4 = 0 then v else raw)"
  by (simp add: field_set_eq MEPC_Value_def MEPC_ValueValidator_def IALIGN_def InsertMasked_def)

lemma csrf_ok_set_mepc: "csrf_ok M c \<Longrightarrow> csrf_ok M (set_mepc MEPC_Value v c)"
  unfolding csrf_ok_def
proof (intro conjI allI)
  fix r
  assume a: "csr_table c = full_table \<and> (\<forall>r. csr_legal (csr_fields M r) (deref r c))"
  have "legal_raw MEPC_fields v" if "v mod 4 = 0"
    using that by (simp add: legal_raw_def MEPC_fields_def MEPC_Value_def MEPC_ValueValidator_def IALIGN_def)
  then show "csr_legal (csr_fields M r) (deref r (set_mepc MEPC_Value v c))"
    using a [THEN conjunct2, rule_format, of r]
    by (cases r) (simp_all add: set_mepc_def csr_legal_def csr_set_eq mepc_set)
qed (simp add: set_mepc_def)

lemma csrf_ok_trap [wf_intros]: "csrf_ok M c \<Longrightarrow> csrf_ok M (trap_csrs M ex c)"
  by (simp add: trap_csrs_def Let_def MStatus_def MCause_def csrf_ok_set_mstatus csrf_ok_set_mcause csrf_ok_setPrivillege)

lemma csrf_ok_mret [wf_intros]: "csrf_ok M c \<Longrightarrow> csrf_ok M (mret_csrs M c)"
  by (simp add: mret_csrs_def Let_def MStatus_def csrf_ok_set_mstatus csrf_ok_setPrivillege)

lemma raiseException_core:
  assumes core: "core_ok E h"
  shows "valid (ready E) (raiseException E ex h)"
proof -
  let ?c = "set_mepc MEPC_Value (reg_val (h_gprf h) PC) (trap_csrs (env_masks E) ex (h_csrf h))"
  have "csrf_ok (env_masks E) ?c"
    using core by (intro csrf_ok_set_mepc csrf_ok_trap) (simp add: core_ok_def)
  then have "core_ok E (h\<lparr>h_csrf := ?c\<rparr>)" using core by (simp add: core_ok_def)
  moreover have "even (trap_vector ex c)" for c by (simp add: trap_vector_def)
  ultimately show ?thesis
    unfolding raiseException_def Let_def read_PC bindE_Inr
    by (intro valid_bind [OF write_PC_core fetchBB_core])
qed

lemmas raiseException_ok [vcg] = raiseException_core [OF ready_core]

lemma raiseIllegal_ok [vcg]: "ready E h \<Longrightarrow> valid (ready E) (raiseIllegalInstruction E h)"
  unfolding raiseIllegalInstruction_def by (rule raiseException_ok)

section \<open>Every handler keeps the invariant\<close>

lemma with_write_rd [vcg]:
  "ready E h \<Longrightarrow> wf_instr i \<Longrightarrow> (\<And>h. ready E h \<Longrightarrow> valid P (f h)) \<Longrightarrow> valid P (bindE (write_reg (rd i) v h) f)"
  by (rule valid_bind [OF write_rd_ready])

lemma with_write_PC [vcg]:
  "ready E h \<Longrightarrow> even v \<Longrightarrow> (\<And>h. ready E h \<Longrightarrow> valid P (f h)) \<Longrightarrow> valid P (bindE (write_reg PC v h) f)"
  by (rule valid_bind [OF write_PC_ready])

text \<open>A load or store that does not fail leaves a memory the hart can go on with.\<close>

lemma valid_load:
  assumes "ready E h" and "\<And>v m. ready E (h\<lparr>h_mem := m\<rparr>) \<Longrightarrow> valid P (f v m)"
  shows "valid P (bindE (pm_load ld a (h_mem h)) (case_prod f))"
proof (rule valid_bind_any)
  fix r
  assume r: "pm_load ld a (h_mem h) = Inr r"
  have "pm_inv (env_os E) (h_mem h)" using assms(1) by (simp add: ready_def core_ok_def)
  then have "pm_inv (env_os E) (snd r)" using load_keeps [of "env_os E" "h_mem h" ld a "fst r" "snd r"] r by simp
  then show "valid P (case_prod f r)"
    using assms(2) ready_mem [OF assms(1)] by (simp add: split_beta)
qed

lemma with_load [vcg]:
  "ready E h \<Longrightarrow> (\<And>v m. ready E (h\<lparr>h_mem := m\<rparr>) \<Longrightarrow> valid P (f8 v m)) \<Longrightarrow> valid P (bindE (mmu_loadByte a (h_mem h)) (case_prod f8))"
  "ready E h \<Longrightarrow> (\<And>v m. ready E (h\<lparr>h_mem := m\<rparr>) \<Longrightarrow> valid P (f16 v m)) \<Longrightarrow> valid P (bindE (mmu_loadHWord a (h_mem h)) (case_prod f16))"
  "ready E h \<Longrightarrow> (\<And>v m. ready E (h\<lparr>h_mem := m\<rparr>) \<Longrightarrow> valid P (f32 v m)) \<Longrightarrow> valid P (bindE (mmu_loadWord a (h_mem h)) (case_prod f32))"
  "ready E h \<Longrightarrow> (\<And>v m. ready E (h\<lparr>h_mem := m\<rparr>) \<Longrightarrow> valid P (f64 v m)) \<Longrightarrow> valid P (bindE (mmu_loadDWord a (h_mem h)) (case_prod f64))"
  unfolding mmu_defs Let_def pm_loadByte_def pm_loadHWord_def pm_loadWord_def pm_loadDWord_def
  by (rule valid_load; assumption)+

lemma valid_store:
  fixes v :: "'a::len word"
  assumes "ready E h" and "LENGTH('a) = 8 * n" "access_width n" and "\<And>m. ready E (h\<lparr>h_mem := m\<rparr>) \<Longrightarrow> valid P (f m)"
  shows "valid P (bindE (pm_store (ram_store (env_os E)) a v (h_mem h)) f)"
proof (rule valid_bind_any)
  fix m
  assume r: "pm_store (ram_store (env_os E)) a v (h_mem h) = Inr m"
  have "pm_inv (env_os E) (h_mem h)" using assms(1) by (simp add: ready_def core_ok_def)
  then have "pm_inv (env_os E) m" using pm_store_keeps [OF _ _ assms(2,3) r] by (simp add: pm_inv_def)
  then show "valid P (f m)" using assms(4) ready_mem [OF assms(1)] by blast
qed

lemma with_store [vcg]:
  assumes "ready E h" and "\<And>m. ready E (h\<lparr>h_mem := m\<rparr>) \<Longrightarrow> valid P (f m)"
  shows "valid P (bindE (mmu_storeByte (env_os E) a v (h_mem h)) f)"
    and "valid P (bindE (mmu_storeHWord (env_os E) a x (h_mem h)) f)"
    and "valid P (bindE (mmu_storeWord (env_os E) a x (h_mem h)) f)"
    and "valid P (bindE (mmu_storeDWord (env_os E) a x (h_mem h)) f)"
  unfolding mmu_defs Let_def pm_storeByte_def pm_storeHWord_def pm_storeWord_def pm_storeDWord_def ram_access_defs
  using assms valid_store [of E h 1 P f a v] valid_store [of E h 2 P f a "word_of_int x :: u16"]
    valid_store [of E h 4 P f a "word_of_int x :: u32"] valid_store [of E h 8 P f a "word_of_int x :: u64"]
  by (simp_all add: access_width_def)

lemma even_SignExtend: "even w \<Longrightarrow> 0 < n \<Longrightarrow> even (SignExtend n (w :: u64))"
  by (simp add: SignExtend_eq_signed_take_bit even_word_iff_bit bit_signed_take_bit_iff)

lemma even_target:
  assumes "ready E h" and "read_reg PC h = Inr pc" and "wf_instr i" and "is_direct_jump (operation i)" and "0 < n"
  shows "even (pc + SignExtend n (immidiate i))"
proof -
  have "even pc" using assms(1,2) by (auto simp: read_PC ready_def core_ok_def simp del: reg_const_simps)
  moreover have "even (immidiate i)" using assms(3,4) by (simp add: wf_instr_def)
  ultimately show ?thesis using even_SignExtend [OF _ assms(5)] by simp
qed

lemma csr_status_ok [vcg]:
  assumes "ready E h" and "wf_instr i"
  shows "valid (outcome_ok E) (csr_status E i status h)"
proof -
  have "valid (ready E) (case status of Inl b \<Rightarrow> raiseIllegalInstruction E h | Inr v \<Rightarrow> bindE (write_reg (rd i) v h) nextPC)"
    by (cases status) (auto intro: raiseIllegal_ok with_write_rd nextPC_ready assms)
  then show ?thesis unfolding csr_status_def by (rule valid_bind) (rule execNextInstr_ok)
qed

lemma ready_csr_access [vcg]:
  assumes "ready E h"
  shows "ready E (h\<lparr>h_csrf := snd (csrf_write (env_masks E) n v (h_csrf h))\<rparr>)"
    and "ready E (h\<lparr>h_csrf := snd (csrf_setBits (env_masks E) n v (h_csrf h))\<rparr>)"
    and "ready E (h\<lparr>h_csrf := snd (csrf_clearBits (env_masks E) n v (h_csrf h))\<rparr>)"
  using assms by (auto intro!: ready_csrf csrf_ok_write csrf_ok_setBits csrf_ok_clearBits simp: ready_def core_ok_def)

text \<open>The handlers, by the way they end.\<close>

lemma alu_handlers_ok:
  "ready E h \<Longrightarrow> valid (outcome_ok E) (exec_ADDI E h)"
  "ready E h \<Longrightarrow> valid (outcome_ok E) (exec_SLTI E h)"
  "ready E h \<Longrightarrow> valid (outcome_ok E) (exec_SLTIU E h)"
  "ready E h \<Longrightarrow> valid (outcome_ok E) (exec_ORI E h)"
  "ready E h \<Longrightarrow> valid (outcome_ok E) (exec_ANDI E h)"
  "ready E h \<Longrightarrow> valid (outcome_ok E) (exec_XORI E h)"
  "ready E h \<Longrightarrow> valid (outcome_ok E) (exec_SLLI E h)"
  "ready E h \<Longrightarrow> valid (outcome_ok E) (exec_SRLI E h)"
  "ready E h \<Longrightarrow> valid (outcome_ok E) (exec_SRAI E h)"
  "ready E h \<Longrightarrow> valid (outcome_ok E) (exec_LUI E h)"
  "ready E h \<Longrightarrow> valid (outcome_ok E) (exec_AUIPC E h)"
  "ready E h \<Longrightarrow> valid (outcome_ok E) (exec_ADD E h)"
  "ready E h \<Longrightarrow> valid (outcome_ok E) (exec_SLT E h)"
  "ready E h \<Longrightarrow> valid (outcome_ok E) (exec_SLTU E h)"
  "ready E h \<Longrightarrow> valid (outcome_ok E) (exec_AND E h)"
  "ready E h \<Longrightarrow> valid (outcome_ok E) (exec_OR E h)"
  "ready E h \<Longrightarrow> valid (outcome_ok E) (exec_XOR E h)"
  "ready E h \<Longrightarrow> valid (outcome_ok E) (exec_SLL E h)"
  "ready E h \<Longrightarrow> valid (outcome_ok E) (exec_SRL E h)"
  "ready E h \<Longrightarrow> valid (outcome_ok E) (exec_SUB E h)"
  "ready E h \<Longrightarrow> valid (outcome_ok E) (exec_SRA E h)"
  "ready E h \<Longrightarrow> valid (outcome_ok E) (exec_ADDIW E h)"
  "ready E h \<Longrightarrow> valid (outcome_ok E) (exec_SLLIW E h)"
  "ready E h \<Longrightarrow> valid (outcome_ok E) (exec_SRLIW E h)"
  "ready E h \<Longrightarrow> valid (outcome_ok E) (exec_SRAIW E h)"
  "ready E h \<Longrightarrow> valid (outcome_ok E) (exec_ADDW E h)"
  "ready E h \<Longrightarrow> valid (outcome_ok E) (exec_SUBW E h)"
  "ready E h \<Longrightarrow> valid (outcome_ok E) (exec_SLLW E h)"
  "ready E h \<Longrightarrow> valid (outcome_ok E) (exec_SRLW E h)"
  "ready E h \<Longrightarrow> valid (outcome_ok E) (exec_SRAW E h)"
  unfolding exec_ADDI_def exec_SLTI_def exec_SLTIU_def exec_ORI_def exec_ANDI_def exec_XORI_def exec_SLLI_def
    exec_SRLI_def exec_SRAI_def exec_LUI_def exec_AUIPC_def exec_ADD_def exec_SLT_def exec_SLTU_def
    exec_AND_def exec_OR_def exec_XOR_def exec_SLL_def exec_SRL_def exec_SUB_def exec_SRA_def
    exec_ADDIW_def exec_SLLIW_def exec_SRLIW_def exec_SRAIW_def exec_ADDW_def exec_SUBW_def
    exec_SLLW_def exec_SRLW_def exec_SRAW_def Let_def
  by (assumption | rule vcg)+

lemma memory_handlers_ok:
  "ready E h \<Longrightarrow> valid (outcome_ok E) (exec_LB E h)"
  "ready E h \<Longrightarrow> valid (outcome_ok E) (exec_LH E h)"
  "ready E h \<Longrightarrow> valid (outcome_ok E) (exec_LW E h)"
  "ready E h \<Longrightarrow> valid (outcome_ok E) (exec_LD E h)"
  "ready E h \<Longrightarrow> valid (outcome_ok E) (exec_LBU E h)"
  "ready E h \<Longrightarrow> valid (outcome_ok E) (exec_LHU E h)"
  "ready E h \<Longrightarrow> valid (outcome_ok E) (exec_LWU E h)"
  "ready E h \<Longrightarrow> valid (outcome_ok E) (exec_SB E h)"
  "ready E h \<Longrightarrow> valid (outcome_ok E) (exec_SH E h)"
  "ready E h \<Longrightarrow> valid (outcome_ok E) (exec_SW E h)"
  "ready E h \<Longrightarrow> valid (outcome_ok E) (exec_SD E h)"
  unfolding exec_LB_def exec_LH_def exec_LW_def exec_LD_def exec_LBU_def exec_LHU_def exec_LWU_def exec_SB_def
    exec_SH_def exec_SW_def exec_SD_def Let_def
  by (assumption | rule vcg)+

lemma jump_handlers_ok:
  assumes "ready E h" and "current h = Inr i" and "wf_instr i"
  shows "operation i = JAL \<Longrightarrow> valid (outcome_ok E) (exec_JAL E h)"
    and "operation i = BEQ \<Longrightarrow> valid (outcome_ok E) (exec_BEQ E h)"
    and "operation i = BNE \<Longrightarrow> valid (outcome_ok E) (exec_BNE E h)"
    and "operation i = BLT \<Longrightarrow> valid (outcome_ok E) (exec_BLT E h)"
    and "operation i = BLTU \<Longrightarrow> valid (outcome_ok E) (exec_BLTU E h)"
    and "operation i = BGE \<Longrightarrow> valid (outcome_ok E) (exec_BGE E h)"
    and "operation i = BGEU \<Longrightarrow> valid (outcome_ok E) (exec_BGEU E h)"
    and "valid (outcome_ok E) (exec_JALR E h)"
proof -
  have even: "even (reg_val (h_gprf h) PC + SignExtend n (immidiate i))" if "operation i \<in> {JAL, BEQ, BNE, BLT, BGE, BLTU, BGEU}" "0 < n" for n
    using even_target [OF assms(1) read_PC assms(3) _ that(2)] that(1) by (simp add: is_direct_jump_def)
  note unfolds = assms(2) read_PC bindE_Inr Let_def
  show "operation i = JAL \<Longrightarrow> valid (outcome_ok E) (exec_JAL E h)"
    unfolding exec_JAL_def unfolds by (assumption | rule assms even vcg | simp)+
  show "operation i = BEQ \<Longrightarrow> valid (outcome_ok E) (exec_BEQ E h)"
    unfolding exec_BEQ_def unfolds by (assumption | rule assms even vcg | simp)+
  show "operation i = BNE \<Longrightarrow> valid (outcome_ok E) (exec_BNE E h)"
    unfolding exec_BNE_def unfolds by (assumption | rule assms even vcg | simp)+
  show "operation i = BLT \<Longrightarrow> valid (outcome_ok E) (exec_BLT E h)"
    unfolding exec_BLT_def unfolds by (assumption | rule assms even vcg | simp)+
  show "operation i = BLTU \<Longrightarrow> valid (outcome_ok E) (exec_BLTU E h)"
    unfolding exec_BLTU_def unfolds by (assumption | rule assms even vcg | simp)+
  show "operation i = BGE \<Longrightarrow> valid (outcome_ok E) (exec_BGE E h)"
    unfolding exec_BGE_def unfolds by (assumption | rule assms even vcg | simp)+
  show "operation i = BGEU \<Longrightarrow> valid (outcome_ok E) (exec_BGEU E h)"
    unfolding exec_BGEU_def unfolds by (assumption | rule assms even vcg | simp)+
  have clear: "even (v AND NOT 1 :: u64)" for v by (simp add: even_word_iff_bit bit_and_iff bit_not_iff)
  show "valid (outcome_ok E) (exec_JALR E h)"
    unfolding exec_JALR_def unfolds by (assumption | rule assms clear vcg)+
qed

lemma csr_handlers_ok:
  "ready E h \<Longrightarrow> valid (outcome_ok E) (exec_CSRRW E h)"
  "ready E h \<Longrightarrow> valid (outcome_ok E) (exec_CSRRS E h)"
  "ready E h \<Longrightarrow> valid (outcome_ok E) (exec_CSRRC E h)"
  "ready E h \<Longrightarrow> valid (outcome_ok E) (exec_CSRRWI E h)"
  "ready E h \<Longrightarrow> valid (outcome_ok E) (exec_CSRRSI E h)"
  "ready E h \<Longrightarrow> valid (outcome_ok E) (exec_CSRRCI E h)"
  unfolding exec_CSRRW_def exec_CSRRS_def exec_CSRRC_def exec_CSRRWI_def exec_CSRRSI_def exec_CSRRCI_def Let_def split_beta
  by (assumption | rule vcg)+

lemma system_handlers_ok:
  assumes "ready E h"
  shows "valid (outcome_ok E) (exec_FENCE E h)" "valid (outcome_ok E) (exec_FENCE_TSO E h)"
    "valid (outcome_ok E) (exec_PAUSE E h)" "valid (outcome_ok E) (exec_ECALL E h)"
    "valid (outcome_ok E) (exec_EBREAK E h)" "valid (outcome_ok E) (exec_SRET E h)"
    "valid (outcome_ok E) (exec_INV_OP E h)" "valid (outcome_ok E) (exec_MRET E h)"
proof -
  show "valid (outcome_ok E) (exec_FENCE E h)" "valid (outcome_ok E) (exec_FENCE_TSO E h)"
    "valid (outcome_ok E) (exec_EBREAK E h)" "valid (outcome_ok E) (exec_SRET E h)"
    using advance_ok [OF assms] ready_hart_ok [OF assms]
    by (simp_all add: exec_FENCE_def exec_FENCE_TSO_def exec_EBREAK_def exec_SRET_def valid_def)
  show "valid (outcome_ok E) (exec_PAUSE E h)"
    unfolding exec_PAUSE_def by (rule valid_bind [OF raiseIllegal_ok [OF assms] execNextInstr_ok])
  show "valid (outcome_ok E) (exec_ECALL E h)"
    unfolding exec_ECALL_def
    by (rule valid_bind [OF _ execNextInstr_ok]) (rule raiseException_ok [OF assms] vcg | assumption)+
  show "valid (outcome_ok E) (exec_INV_OP E h)"
    unfolding exec_INV_OP_def
    by (rule valid_bind [OF raiseIllegal_ok [OF assms]]) (simp add: valid_def ready_hart_ok)
  have mret: "ready E (h\<lparr>h_csrf := mret_csrs (env_masks E) (h_csrf h)\<rparr>)"
    using assms by (intro ready_csrf csrf_ok_mret) (simp_all add: ready_def core_ok_def)
  have even: "even (csr_get MEPC_Value (mepc (h_csrf h)))" if "ready E h" for h
  proof -
    have "csr_value (mepc (h_csrf h)) mod 4 = 0" using that csrf_ok_mepc by (auto simp: ready_def core_ok_def)
    then have "4 dvd csr_value (mepc (h_csrf h))" by (simp add: mod_0_imp_dvd)
    then have "even (csr_value (mepc (h_csrf h)))" by (rule dvd_trans [rotated]) simp
    then show ?thesis by (simp add: csr_get_def field_get_def MEPC_Value_def)
  qed
  show "valid (outcome_ok E) (exec_MRET E h)"
    unfolding exec_MRET_def
    by (rule valid_bind [where Q = "ready E"])
       (intro valid_if raiseIllegal_ok [OF assms] valid_Inr mret with_write_PC even execNextInstr_ok; assumption)+
qed

text \<open>The table holds at the value of each operation the handler of that operation.\<close>

primrec handler :: "InstructionOp \<Rightarrow> env \<Rightarrow> Hart \<Rightarrow> outcome res" where
  "handler INV_OP = exec_INV_OP"
| "handler LUI = exec_LUI"
| "handler AUIPC = exec_AUIPC"
| "handler JAL = exec_JAL"
| "handler JALR = exec_JALR"
| "handler BEQ = exec_BEQ"
| "handler BNE = exec_BNE"
| "handler BLT = exec_BLT"
| "handler BGE = exec_BGE"
| "handler BLTU = exec_BLTU"
| "handler BGEU = exec_BGEU"
| "handler LB = exec_LB"
| "handler LH = exec_LH"
| "handler LW = exec_LW"
| "handler LBU = exec_LBU"
| "handler LHU = exec_LHU"
| "handler SB = exec_SB"
| "handler SH = exec_SH"
| "handler SW = exec_SW"
| "handler ADDI = exec_ADDI"
| "handler SLTI = exec_SLTI"
| "handler SLTIU = exec_SLTIU"
| "handler XORI = exec_XORI"
| "handler ORI = exec_ORI"
| "handler ANDI = exec_ANDI"
| "handler ADD = exec_ADD"
| "handler SUB = exec_SUB"
| "handler SLL = exec_SLL"
| "handler SLT = exec_SLT"
| "handler SLTU = exec_SLTU"
| "handler XOR_op = exec_XOR"
| "handler SRL = exec_SRL"
| "handler SRA = exec_SRA"
| "handler OR_op = exec_OR"
| "handler AND_op = exec_AND"
| "handler FENCE = exec_FENCE"
| "handler FENCE_TSO = exec_FENCE_TSO"
| "handler PAUSE = exec_PAUSE"
| "handler ECALL = exec_ECALL"
| "handler EBREAK = exec_EBREAK"
| "handler LWU = exec_LWU"
| "handler LD = exec_LD"
| "handler SD = exec_SD"
| "handler SLLI = exec_SLLI"
| "handler SRLI = exec_SRLI"
| "handler SRAI = exec_SRAI"
| "handler ADDIW = exec_ADDIW"
| "handler SLLIW = exec_SLLIW"
| "handler SRLIW = exec_SRLIW"
| "handler SRAIW = exec_SRAIW"
| "handler ADDW = exec_ADDW"
| "handler SUBW = exec_SUBW"
| "handler SLLW = exec_SLLW"
| "handler SRLW = exec_SRLW"
| "handler SRAW = exec_SRAW"
| "handler CSRRW = exec_CSRRW"
| "handler CSRRS = exec_CSRRS"
| "handler CSRRC = exec_CSRRC"
| "handler CSRRWI = exec_CSRRWI"
| "handler CSRRSI = exec_CSRRSI"
| "handler CSRRCI = exec_CSRRCI"
| "handler SRET = exec_SRET"
| "handler MRET = exec_MRET"
| "handler BB_END = exec_BB_END"

lemma HANDLER_ARR_handler: "HANDLER_ARR ! op_value x = handler x" and HANDLER_ARR_length: "length HANDLER_ARR = length all_ops"
  by (cases x) (simp_all add: HANDLER_ARR_def all_ops_def)

lemma dispatch_eq: "current h = Inr i \<Longrightarrow> dispatch E h = handler (operation i) E h"
  by (simp add: dispatch_def HANDLER_ARR_handler)

lemma dispatch_ok:
  assumes "hart_ok E h"
  shows "valid (outcome_ok E) (dispatch E h)"
proof -
  obtain i where i: "current h = Inr i" "operation i = BB_END \<or> ready E h"
    using current_hart_ok [OF assms] by blast
  show ?thesis
  proof (cases "operation i = BB_END")
    case True
    have "valid (ready E) (fetchBB h)" using assms by (intro fetchBB_core) (simp add: hart_ok_def)
    then have "valid (outcome_ok E) (exec_BB_END E h)"
      unfolding exec_BB_END_def by (rule valid_bind) (simp add: valid_def ready_hart_ok)
    then show ?thesis using True i(1) by (simp add: dispatch_eq)
  next
    case False
    then have r: "ready E h" using i(2) by blast
    then have wf: "wf_instr i" using current_ready [OF r] i(1) by auto
    show ?thesis
      unfolding dispatch_eq [OF i(1)]
      using False alu_handlers_ok [OF r] memory_handlers_ok [OF r] jump_handlers_ok [OF r i(1) wf]
        csr_handlers_ok [OF r] system_handlers_ok [OF r]
      by (cases "operation i") simp_all
  qed
qed

end
