(* ===== verification/HartRun.thy ===== *)
theory HartRun
  imports HartInvariant
begin

text \<open>
  Runs of the hart.  \<open>hart_step\<close> is one call of a handler through the table that ends in the next
  call; \<open>reachable\<close> collects the states in which a handler is called during \<^verbatim>\<open>Hart::run\<close>.  The
  locale \<open>stepping\<close> states what an invariant of such a system is.  The theorems relate
  \<open>run\<close> to the reachable states, show that the invariant holds in all of them, and that fetching
  delivers the instructions found in memory at the program counter.
\<close>

section \<open>Invariants of stepping systems\<close>

locale stepping =
  fixes start :: "'s \<Rightarrow> 's \<Rightarrow> bool"
    and step :: "'s \<Rightarrow> 's \<Rightarrow> bool"
    and initial :: "'s \<Rightarrow> bool"
    and inv :: "'s \<Rightarrow> bool"
  assumes start_inv: "initial s0 \<Longrightarrow> start s0 s \<Longrightarrow> inv s"
    and step_inv: "inv s \<Longrightarrow> step s s' \<Longrightarrow> inv s'"
begin

inductive reach :: "'s \<Rightarrow> 's \<Rightarrow> bool" for s0 where
  reach_start: "start s0 s \<Longrightarrow> reach s0 s"
| reach_step: "reach s0 s \<Longrightarrow> step s s' \<Longrightarrow> reach s0 s'"

lemma reach_inv: "reach s0 s \<Longrightarrow> initial s0 \<Longrightarrow> inv s"
  by (induction rule: reach.induct) (auto intro: start_inv step_inv)

end

section \<open>The step relation of the hart\<close>

inductive hart_step :: "env \<Rightarrow> Hart \<Rightarrow> Hart \<Rightarrow> bool" for E where
  hart_step_dispatch: "dispatch E h = Inr (Dispatch h') \<Longrightarrow> hart_step E h h'"

inductive_cases hart_stepE: "hart_step E h h'"
inductive_simps hart_step_iff: "hart_step E h h'"

inductive reachable :: "env \<Rightarrow> Hart \<Rightarrow> Hart \<Rightarrow> bool" for E h0 where
  reachable_start: "exec_BB_END E h0 = Inr (Dispatch h) \<Longrightarrow> reachable E h0 h"
| reachable_step: "reachable E h0 h \<Longrightarrow> hart_step E h h' \<Longrightarrow> reachable E h0 h'"

text \<open>A hart as its constructor leaves it, on a well-formed memory.\<close>

definition fresh :: "env \<Rightarrow> Hart \<Rightarrow> bool" where
  "fresh E h \<longleftrightarrow>
     (\<exists>slots regs word hm. \<forall>i. length (slots i) = kCapacity \<and> length regs = GPRF_Size \<and>
        h = mkHart E slots regs word (h_mem h) hm) \<and> pm_inv (env_os E) (h_mem h)"

lemma freshI:
  assumes "h = mkHart E slots regs word (h_mem h) hm" and "\<forall>i. length (slots i) = kCapacity" "length regs = GPRF_Size"
    and "pm_inv (env_os E) (h_mem h)"
  shows "fresh E h"
  unfolding fresh_def using assms by blast

lemma fresh_core: "fresh E h \<Longrightarrow> core_ok E h"
proof -
  assume "fresh E h"
  then obtain slots regs word hm where s: "\<forall>i. length (slots i) = 8" "length regs = 33"
      "h = mkHart E slots regs word (h_mem h) hm" and pm: "pm_inv (env_os E) (h_mem h)"
    by (auto simp: fresh_def)
  have "cache_ok (bbCache h)" by (subst s(3)) (simp add: mkHart_def cache_ok_mk)
  moreover have "blocks_ok (bbCache h)"
    by (subst s(3)) (use s(1) in \<open>auto simp: mkHart_def blocks_ok_def mkBasicBlock_def dest!: mem_bbs_mk\<close>)
  moreover have "csrf_ok (env_masks E) (h_csrf h)" by (subst s(3)) (simp add: mkHart_def csrf_ok_mkCSRF)
  moreover have "wf_gprf (h_gprf h) \<and> reg_val (h_gprf h) PC = 0"
    by (subst (1 2) s(3)) (use wf_mkGPRF reg_val_mkGPRF s(2) in \<open>simp add: mkHart_def\<close>)
  ultimately show ?thesis using pm by (simp add: core_ok_def)
qed

lemma exec_BB_END_ready: "core_ok E h \<Longrightarrow> exec_BB_END E h = Inr (Dispatch h') \<Longrightarrow> ready E h'"
  using fetchBB_core [of E h] by (auto simp: exec_BB_END_def bindE_eq_Inr_iff dest: validD)

interpretation hart: stepping "\<lambda>h0 h. exec_BB_END E h0 = Inr (Dispatch h)" "hart_step E" "core_ok E" "hart_ok E" for E
proof
  show "core_ok E s0 \<Longrightarrow> exec_BB_END E s0 = Inr (Dispatch s) \<Longrightarrow> hart_ok E s" for s0 s
    using exec_BB_END_ready ready_hart_ok by blast
  show "hart_ok E s \<Longrightarrow> hart_step E s s' \<Longrightarrow> hart_ok E s'" for s s'
    using dispatch_ok [of E s] by (auto elim!: hart_stepE dest: validD)
qed

lemma reachable_reach: "reachable E h0 h \<Longrightarrow> hart.reach E h0 h"
  by (induction rule: reachable.induct) (auto intro: hart.reach.intros)

lemma reachable_ok: "core_ok E h0 \<Longrightarrow> reachable E h0 h \<Longrightarrow> hart_ok E h"
  using hart.reach_inv reachable_reach by blast

section \<open>Runs and reachable states\<close>

lemma drive_unfold:
  "drive E (Inl e) = Some (Inl e)" "drive E (Inr (Return h)) = Some (Inr h)"
  "drive E (Inr (Dispatch h)) = drive E (dispatch E h)"
  by (subst drive.simps, simp)+

text \<open>How a run can end, seen from its reachable states.\<close>

definition ends :: "env \<Rightarrow> Hart \<Rightarrow> Hart res \<Rightarrow> bool" where
  "ends E h0 x \<longleftrightarrow>
     (case x of
        Inl e \<Rightarrow> exec_BB_END E h0 = Inl e \<or> (\<exists>h. reachable E h0 h \<and> dispatch E h = Inl e)
      | Inr h' \<Rightarrow> \<exists>h. reachable E h0 h \<and> dispatch E h = Inr (Return h'))"

lemma drive_sound:
  "drive E r = Some x \<Longrightarrow> \<forall>h0. (\<forall>h. r = Inr (Dispatch h) \<longrightarrow> reachable E h0 h) \<longrightarrow>
     (\<forall>e. r = Inl e \<longrightarrow> exec_BB_END E h0 = Inl e \<or> (\<exists>h. reachable E h0 h \<and> dispatch E h = Inl e)) \<longrightarrow>
     (\<forall>h'. r = Inr (Return h') \<longrightarrow> (\<exists>h. reachable E h0 h \<and> dispatch E h = Inr (Return h'))) \<longrightarrow>
     ends E h0 x"
proof (erule drive.raw_induct [rotated])
  fix drv :: "env \<Rightarrow> besm_error + outcome \<Rightarrow> (besm_error + Hart) option" and E r x
  let ?P = "\<lambda>E r x. \<forall>h0. (\<forall>h. r = Inr (Dispatch h) \<longrightarrow> reachable E h0 h) \<longrightarrow>
     (\<forall>e. r = Inl e \<longrightarrow> exec_BB_END E h0 = Inl e \<or> (\<exists>h. reachable E h0 h \<and> dispatch E h = Inl e)) \<longrightarrow>
     (\<forall>h'. r = Inr (Return h') \<longrightarrow> (\<exists>h. reachable E h0 h \<and> dispatch E h = Inr (Return h'))) \<longrightarrow> ends E h0 x"
  assume IH: "\<And>E r y. drv E r = Some y \<Longrightarrow> ?P E r y"
    and d: "(case r of Inl e \<Rightarrow> Some (Inl e) | Inr (Dispatch h) \<Rightarrow> drv E (dispatch E h) | Inr (Return h) \<Rightarrow> Some (Inr h)) = Some x"
  show "?P E r x"
  proof (cases r)
    case (Inr oc)
    show ?thesis
    proof (cases oc)
      case (Dispatch h)
      then have "?P E (dispatch E h) x" using IH d Inr by simp
      then show ?thesis using Inr Dispatch by (auto intro: reachable_step hart_step_dispatch)
    qed (use d Inr in \<open>auto simp: ends_def\<close>)
  qed (use d in \<open>auto simp: ends_def\<close>)
qed

lemma run_ends: "run E h0 = Some x \<Longrightarrow> ends E h0 x"
proof -
  assume "run E h0 = Some x"
  moreover have "exec_BB_END E h0 \<noteq> Inr (Return h)" for h by (auto simp: exec_BB_END_def bindE_eq_Inr_iff)
  ultimately show ?thesis
    using drive_sound [of E "exec_BB_END E h0" x, rule_format, of h0] reachable_start [of E h0]
    by (simp add: run_def)
qed

lemma reachable_run: "reachable E h0 h \<Longrightarrow> run E h0 = drive E (dispatch E h)"
  by (induction rule: reachable.induct) (auto simp: run_def drive_unfold elim!: hart_stepE)

lemma ends_run: "ends E h0 x \<Longrightarrow> run E h0 = Some x"
  using reachable_run [of E h0] by (auto simp: ends_def drive_unfold run_def split: sum.splits)

section \<open>Fetching delivers the instructions of the memory\<close>

definition code_at :: "PhysMem \<Rightarrow> RV64Ptr \<Rightarrow> Instruction res" where
  "code_at pm a = parse (le_word (mem_get 4 a (pm_peek pm)))"

text \<open>\<open>code_area pm pc n\<close>: the \<open>n\<close> words from \<open>pc\<close> on can be fetched.\<close>

definition code_area :: "PhysMem \<Rightarrow> RV64Ptr \<Rightarrow> nat \<Rightarrow> bool" where
  "code_area pm pc n \<longleftrightarrow> 4 dvd unat pc \<and> (\<forall>k<n. pm_area pm (pc + of_nat (4 * k)) 4)"

lemma word_dvd_step: "4 dvd unat (a :: u64) \<Longrightarrow> 4 dvd unat (a + 4)"
  by (simp add: unat_word_ariths dvd_mod)

lemma code_area_step:
  assumes "code_area pm pc (Suc n)"
  shows "pm_area pm pc 4" and "code_area pm (pc + 4) n"
proof -
  show "pm_area pm pc 4" using assms by (auto simp: code_area_def dest: spec [of _ 0])
  have "pm_area pm (pc + 4 + of_nat (4 * k)) 4" if "k < n" for k
  proof -
    have "pm_area pm (pc + of_nat (4 * Suc k)) 4" using assms that unfolding code_area_def by blast
    then show ?thesis by (simp add: algebra_simps)
  qed
  then show "code_area pm (pc + 4) n" using assms word_dvd_step by (simp add: code_area_def)
qed

lemma same_memory_transfer:
  assumes "same_memory pm pm'"
  shows "whole_pages pm' = whole_pages pm" "code_area pm' = code_area pm" "code_at pm' = code_at pm"
proof -
  have "pm_peek pm' = pm_peek pm" "pm_area pm' = pm_area pm" "devices pm' = devices pm" "rams pm' = rams pm"
    using assms same_memory_peek [OF assms] pm_area_devices [of pm' pm] by (simp_all add: same_memory_def)
  then show "whole_pages pm' = whole_pages pm" "code_area pm' = code_area pm" "code_at pm' = code_at pm"
    unfolding whole_pages_def code_area_def [abs_def] code_at_def [abs_def] by simp_all
qed

lemma all_words_Cons:
  fixes pc :: RV64Ptr
  assumes "P pc c" and "\<forall>k. c + 1 + k < m \<longrightarrow> P (pc + 4 + of_nat (4 * k)) (c + 1 + k)"
  shows "\<forall>k. c + k < m \<longrightarrow> P (pc + of_nat (4 * k)) (c + k)"
proof (intro allI impI)
  fix k
  assume "c + k < m"
  then show "P (pc + of_nat (4 * k)) (c + k)"
    using assms(1) assms(2) [rule_format, of "k - 1"] by (cases k) (simp_all add: algebra_simps)
qed

lemma assemble_loop_total:
  assumes "partial_block rb" and "kCapacity - 1 < n + rb_count rb" and "pm_inv E pm" and "whole_pages pm" and "pf_ok pm p"
    and "code_area pm pc (7 - rb_count rb)"
  shows "\<exists>bb p' pm' m. assemble_loop n rb pc p pm = Inr (bb, p', pm') \<and> block_end bb m \<and> rb_count rb < m \<and>
     (\<forall>k<rb_count rb. instrs bb ! k = instrs (rb_bb rb) ! k) \<and>
     (\<forall>k. rb_count rb + k < m \<longrightarrow> code_at pm (pc + of_nat (4 * k)) = Inr (instrs bb ! (rb_count rb + k))) \<and>
     (isJump (instrs bb ! (m - 1)) \<or> m = 7) \<and>
     bb_pc bb = bb_pc (rb_bb rb) \<and> pf_ok pm' p' \<and> pm_inv E pm' \<and> same_memory pm pm'"
  using assms
proof (induction n arbitrary: rb pc p pm)
  case (Suc n)
  let ?c = "rb_count rb"
  have c7: "?c < 7" using Suc.prems(1) by (simp add: partial_block_def)
  then have "7 - ?c = Suc (7 - (?c + 1))" by simp
  then have area: "code_area pm pc (Suc (7 - (?c + 1)))" using Suc.prems(6) by (simp only:)
  have al: "4 dvd unat pc" using Suc.prems(6) by (simp add: code_area_def)
  obtain p1 pm1 where l: "pf_loadWord pc p pm = Inr (le_word (mem_get 4 pc (pm_peek pm)), p1, pm1)"
      "pf_ok pm1 p1" "pm_inv E pm1" "same_memory pm pm1"
    using pf_loadWord_ok [OF Suc.prems(3-5) code_area_step(1) [OF area] al] by blast
  obtain i where i: "parse (le_word (mem_get 4 pc (pm_peek pm))) = Inr i" "wf_instr i" using parse_wf by blast
  have code: "code_at pm pc = Inr i" using i(1) by (simp add: code_at_def)
  note tr = same_memory_transfer [OF l(4)]
  obtain more rb1 where a: "append_instr i rb = (more, rb1)" by fastforce
  show ?case
  proof (cases more)
    case True
    then have c: "partial_block rb1" "rb_count rb1 = ?c + 1" "bb_pc (rb_bb rb1) = bb_pc (rb_bb rb)"
        "\<forall>k<?c. instrs (rb_bb rb1) ! k = instrs (rb_bb rb) ! k" "instrs (rb_bb rb1) ! ?c = i"
      using append_instr_continue [OF Suc.prems(1) i(2)] a by auto
    obtain bb p' pm' m where r: "assemble_loop n rb1 (pc + 4) p1 pm1 = Inr (bb, p', pm')" "block_end bb m" "?c + 1 < m"
        "\<forall>k<?c + 1. instrs bb ! k = instrs (rb_bb rb1) ! k"
        "\<forall>k. ?c + 1 + k < m \<longrightarrow> code_at pm (pc + 4 + of_nat (4 * k)) = Inr (instrs bb ! (?c + 1 + k))"
        "isJump (instrs bb ! (m - 1)) \<or> m = 7" "bb_pc bb = bb_pc (rb_bb rb1)" "pf_ok pm' p'" "pm_inv E pm'" "same_memory pm1 pm'"
      using Suc.IH [OF c(1) _ l(3) _ l(2), of "pc + 4"] Suc.prems(2,4) code_area_step(2) [OF area] c(2) tr by auto
    have "\<forall>k. ?c + k < m \<longrightarrow> code_at pm (pc + of_nat (4 * k)) = Inr (instrs bb ! (?c + k))"
      by (rule all_words_Cons [OF _ r(5)]) (use code r(4) c(5) in simp)
    moreover have "assemble_loop (Suc n) rb pc p pm = Inr (bb, p', pm')"
      using l(1) i(1) a True r(1) by (simp add: IALIGN_def)
    moreover have "\<forall>k<?c. instrs bb ! k = instrs (rb_bb rb) ! k" using r(4) c(4) by simp
    moreover have "same_memory pm pm'" using l(4) r(10) by (simp add: same_memory_def)
    ultimately show ?thesis using r(2,3,6-9) c(3) by (intro exI [of _ bb] exI [of _ p'] exI [of _ pm'] exI [of _ m]) simp
  next
    case False
    then have e: "block_end (rb_bb rb1) (?c + 1)" "bb_pc (rb_bb rb1) = bb_pc (rb_bb rb)" "isJump i \<or> ?c + 1 = 7"
        "\<forall>k<?c. instrs (rb_bb rb1) ! k = instrs (rb_bb rb) ! k" "instrs (rb_bb rb1) ! ?c = i"
      using append_instr_stop [OF Suc.prems(1) i(2)] a by auto
    moreover have "assemble_loop (Suc n) rb pc p pm = Inr (rb_bb rb1, p1, pm1)"
      using l(1) i(1) a False by simp
    ultimately show ?thesis
      using l(2-4) code by (intro exI [of _ "rb_bb rb1"] exI [of _ p1] exI [of _ pm1] exI [of _ "?c + 1"]) auto
  qed
qed (simp add: partial_block_def)

text \<open>A miss assembles the block of the program counter from memory; a hit takes the cached one.\<close>

lemma content_lookup:
  "content pc c = None \<longleftrightarrow> \<not> fst (fst (lookup pc c))"
  "content pc c = Some code \<longleftrightarrow> fst (fst (lookup pc c)) \<and> instrs (bbs c ! snd (fst (lookup pc c))) = code"
  by (auto simp: content_def split: prod.splits)

lemma fetchBB_miss:
  assumes core: "core_ok E h" and wp: "whole_pages (h_mem h)" and pf: "pf_ok (h_mem h) (prefetcher h)"
    and pc: "reg_val (h_gprf h) PC = pc" and area: "code_area (h_mem h) pc 7" and miss: "content pc (bbCache h) = None"
  shows "\<exists>h' b n. fetchBB h = Inr h' \<and> currentInstr h' = Some (b, 0) \<and> block_end (bbs (bbCache h') ! b) n \<and>
     (\<forall>k<n. code_at (h_mem h) (pc + of_nat (4 * k)) = Inr (instrs (bbs (bbCache h') ! b) ! k)) \<and>
     (isJump (instrs (bbs (bbCache h') ! b) ! (n - 1)) \<or> n = 7) \<and>
     h_gprf h' = h_gprf h \<and> h_csrf h' = h_csrf h \<and> same_memory (h_mem h) (h_mem h') \<and>
     pf_ok (h_mem h') (prefetcher h') \<and> ready E h' \<and> content pc (bbCache h') = Some (instrs (bbs (bbCache h') ! b))"
proof -
  have cache: "cache_shape (bbCache h)" "blocks_ok (bbCache h)" "length (bbs (bbCache h)) = 1024"
    using core by (auto simp: core_ok_def cache_ok_def cache_shape_def)
  obtain i c where l: "lookup pc (bbCache h) = ((False, i), c)"
    using miss by (auto simp: content_lookup) (metis prod.collapse)
  note slot = lookup_slot [OF cache(1) l]
  have "bbs c ! i \<in> set (bbs (bbCache h))" using slot(1,3) cache(3) by simp
  then have "partial_block (mkBasicBlockRebuilder (bbs c ! i) pc)"
    using cache(2) by (intro partial_block_init) (simp add: blocks_ok_def)
  moreover have "pm_inv (env_os E) (h_mem h)" using core by (simp add: core_ok_def)
  ultimately obtain bb p pm n where a: "assemble_loop kCapacity (mkBasicBlockRebuilder (bbs c ! i) pc) pc (prefetcher h) (h_mem h) = Inr (bb, p, pm)"
      "block_end bb n" "\<forall>k<n. code_at (h_mem h) (pc + of_nat (4 * k)) = Inr (instrs bb ! k)"
      "isJump (instrs bb ! (n - 1)) \<or> n = 7" "same_memory (h_mem h) pm" "pf_ok pm p" "bb_pc bb = pc"
    using assemble_loop_total [OF _ _ _ wp pf, of "mkBasicBlockRebuilder (bbs c ! i) pc" kCapacity "env_os E" pc] area
    by (auto simp: mkBasicBlockRebuilder_def)
  obtain calls where calls: "triggerBBFetchHook bb (hookManager h) = Inr calls" using trigger_total by blast
  have set: "bbs (set_bb i bb c) ! i = bb" using slot(1,3) cache(3) by (simp add: set_bb_def)
  have "pc \<noteq> 1" "cache_ok (bbCache h)" using core pc by (auto simp: core_ok_def)
  then have "content pc (cache_access pc (instrs bb) (bbCache h)) = Some (instrs bb)"
    using bb_cache.access_same [of "bbCache h" pc "instrs bb"] miss by simp
  moreover have "cache_access pc (instrs bb) (bbCache h) = set_bb i bb c"
    using l a(7) by (cases bb) (simp add: cache_access_def)
  ultimately have held: "content pc (set_bb i bb c) = Some (instrs bb)" by simp
  let ?h' = "h\<lparr>bbCache := set_bb i bb c, prefetcher := p, h_mem := pm, hook_log := hook_log h @ calls, currentInstr := Some (i, 0)\<rparr>"
  have f: "fetchBB h = Inr ?h'"
    using l a(1) calls set pc by (simp add: fetchBB_def read_PC assembleBB_def del: reg_const_simps)
  show ?thesis
    using f a(2-6) set held validD [OF fetchBB_core [OF core] f]
    by (intro exI [of _ ?h'] exI [of _ i] exI [of _ n]) simp
qed

lemma fetchBB_hit:
  assumes "reg_val (h_gprf h) PC = pc" and "content pc (bbCache h) = Some code"
  shows "\<exists>h' b. fetchBB h = Inr h' \<and> currentInstr h' = Some (b, 0) \<and> instrs (bbs (bbCache h') ! b) = code \<and>
     h_gprf h' = h_gprf h \<and> h_csrf h' = h_csrf h \<and> h_mem h' = h_mem h \<and> prefetcher h' = prefetcher h \<and>
     bbs (bbCache h') = bbs (bbCache h)"
proof -
  obtain i c where l: "lookup pc (bbCache h) = ((True, i), c)" "instrs (bbs (bbCache h) ! i) = code"
    using assms(2) by (auto simp: content_lookup) (metis prod.collapse snd_conv fst_conv)
  moreover have "c = bbCache h" using l(1) by (auto simp: lookup_def Let_def split: option.splits)
  moreover obtain calls where "triggerBBFetchHook (bbs (bbCache h) ! i) (hookManager h) = Inr calls" using trigger_total by blast
  ultimately show ?thesis
    using assms(1) by (simp add: fetchBB_def read_PC del: reg_const_simps)
qed

lemma fetchBB_no_fuel:
  assumes core: "core_ok E h"
  shows "fetchBB h \<noteq> Inl OutOfFuel"
proof -
  let ?pc = "reg_val (h_gprf h) PC"
  have cache: "cache_shape (bbCache h)" "blocks_ok (bbCache h)" "length (bbs (bbCache h)) = 1024"
    using core by (auto simp: core_ok_def cache_ok_def cache_shape_def)
  obtain found i c where l: "lookup ?pc (bbCache h) = ((found, i), c)" by (metis surj_pair)
  note slot = lookup_slot [OF cache(1) l]
  have "bbs c ! i \<in> set (bbs (bbCache h))" using slot(1,3) cache(3) by simp
  then have "partial_block (mkBasicBlockRebuilder (bbs c ! i) ?pc)"
    using cache(2) by (intro partial_block_init) (simp add: blocks_ok_def)
  then have "assembleBB i ?pc (h\<lparr>bbCache := c\<rparr>) \<noteq> Inl OutOfFuel"
    using assembleBB_fuel [of "mkBasicBlockRebuilder (bbs c ! i) ?pc" kCapacity ?pc]
    by (auto simp: assembleBB_def bindE_eq_Inl_iff mkBasicBlockRebuilder_def simp del: reg_const_simps)
  moreover have "triggerBBFetchHook bb hm \<noteq> Inl e" for bb hm e using trigger_total(1) [of bb hm] by auto
  ultimately show ?thesis
    using l by (auto simp: fetchBB_def read_PC bindE_eq_Inl_iff Let_def simp del: reg_const_simps split: if_splits)
qed

section \<open>A concrete hart\<close>

text \<open>A hart with one megabyte of zeroed memory, as constructed, for the examples.\<close>

definition demo_env :: env where
  "demo_env = \<lparr>env_os = plenty, env_masks = standard_masks\<rparr>"

definition blank_instr :: Instruction where
  "blank_instr = \<lparr>rd = 0, rs1 = 0, rs2 = 0, immidiate = 0, operation = INV_OP\<rparr>"

definition demo_hart :: Hart where
  "demo_hart = mkHart demo_env (\<lambda>_. replicate 8 blank_instr) (replicate 33 0) (\<lambda>_. 0) demo_pm mkHookManager"

lemma demo_env_simps [simp]: "env_os demo_env = plenty" "env_masks demo_env = standard_masks"
  by (simp_all add: demo_env_def)

lemma demo_hart_simps:
  "h_mem demo_hart = demo_pm" "prefetcher demo_hart = mkPrefetcher" "reg_val (h_gprf demo_hart) PC = 0"
  "content 0 (bbCache demo_hart) = None"
  using reg_val_mkGPRF [of "replicate 33 0"] content_mk [of 0]
  by (simp_all add: demo_hart_def mkHart_def)

lemma demo_hart_fresh: "fresh demo_env demo_hart"
proof -
  have "demo_hart = mkHart demo_env (\<lambda>_. replicate 8 blank_instr) (replicate 33 0) (\<lambda>_. 0) (h_mem demo_hart) mkHookManager"
    by (simp add: demo_hart_def mkHart_def)
  then show ?thesis
    by (rule freshI) (use demo_pm_ok(1) mmap_ok_plenty in \<open>simp_all add: demo_hart_simps(1) pm_inv_def\<close>)
qed

lemma demo_code_area: "code_area demo_pm 0 7"
proof -
  have "unat (of_nat (4 * k) :: u64) = 4 * k" if "k < 7" for k :: nat
    using that by (simp only: unat_of_nat) (simp add: take_bit_eq_mod)
  then show ?thesis
    by (simp add: code_area_def pm_area_def demo_pm_def access_width_def word_le_nat_alt)
qed

lemma demo_fetch:
  "\<exists>h b. fetchBB demo_hart = Inr h \<and> currentInstr h = Some (b, 0) \<and> ready demo_env h"
  using fetchBB_miss [OF fresh_core [OF demo_hart_fresh] _ _ demo_hart_simps(3) _ demo_hart_simps(4)]
    demo_pm_ok(3) pf_ok_mk demo_code_area unfolding demo_hart_simps by blast

section \<open>Properties\<close>

text \<open>
  C3: the invariant of the hart.  Started as constructed on well-formed memory, the hart calls a
  handler only in states where the register files are well formed, the control registers legal,
  the program counter even, every cached block either never used or complete, and the current
  instruction inside a complete block or at its end marker; in particular the pointer to it is
  valid and never lies in one of the uninitialised blocks, although their poisoned address is an
  address the cache would answer.  The state a run returns satisfies the same.
\<close>
theorem hart_invariant:
  assumes "fresh E h0"
  shows "(\<forall>h. reachable E h0 h \<longrightarrow> hart_ok E h \<and> (\<exists>i. current h = Inr i)) \<and>
         (\<forall>h'. run E h0 = Some (Inr h') \<longrightarrow> hart_ok E h')"
proof -
  have core: "core_ok E h0" using assms by (rule fresh_core)
  have ok: "hart_ok E h" if "reachable E h0 h" for h using reachable_ok [OF core that] .
  have "hart_ok E h'" if r: "run E h0 = Some (Inr h')" for h'
  proof -
    obtain h where h: "reachable E h0 h" "dispatch E h = Inr (Return h')"
      using run_ends [OF r] by (auto simp: ends_def)
    then show ?thesis using validD [OF dispatch_ok [OF ok [OF h(1)]] h(2)] by simp
  qed
  then show ?thesis using ok current_hart_ok by blast
qed

theorem hart_invariant_witness:
  "\<exists>h. reachable demo_env demo_hart h \<and> hart_ok demo_env h \<and> (\<exists>i. current h = Inr i)"
proof -
  obtain h where "fetchBB demo_hart = Inr h" using demo_fetch by blast
  then have "reachable demo_env demo_hart h" by (intro reachable_start) (simp add: exec_BB_END_def)
  then show ?thesis using hart_invariant [OF demo_hart_fresh] by blast
qed

text \<open>
  A run of the hart has the result \<open>x\<close> exactly when the chain of handler calls ends in \<open>x\<close>: the
  first fetch fails, or in some state that the calls reach the handler called there fails or
  returns.  So the result is unique, and a run without result is one whose chain of calls never
  ends.
\<close>
theorem run_iff_reachable:
  "run E h0 = Some x \<longleftrightarrow>
     (case x of
        Inl e \<Rightarrow> exec_BB_END E h0 = Inl e \<or> (\<exists>h. reachable E h0 h \<and> dispatch E h = Inl e)
      | Inr h' \<Rightarrow> \<exists>h. reachable E h0 h \<and> dispatch E h = Inr (Return h'))"
  using run_ends [of E h0 x] ends_run [of E h0 x] unfolding ends_def by blast

text \<open>
  C10: fetching an address that is not cached.  When the seven words from the program counter on lie
  in mapped memory, the fetch succeeds and makes current a block whose instructions are, one by
  one, the decoded words of memory from the program counter on; it ends with the first jump, or
  after seven instructions.  Registers and memory contents are unchanged.
\<close>
theorem fetch_delivers_code:
  assumes "core_ok E h" and "whole_pages (h_mem h)" and "pf_ok (h_mem h) (prefetcher h)"
    and "reg_val (h_gprf h) PC = pc" and "code_area (h_mem h) pc 7" and "content pc (bbCache h) = None"
  shows "\<exists>h' b n. fetchBB h = Inr h' \<and> currentInstr h' = Some (b, 0) \<and>
     block_end (bbs (bbCache h') ! b) n \<and>
     (\<forall>k<n. code_at (h_mem h) (pc + of_nat (4 * k)) = Inr (instrs (bbs (bbCache h') ! b) ! k)) \<and>
     (isJump (instrs (bbs (bbCache h') ! b) ! (n - 1)) \<or> n = 7) \<and>
     h_gprf h' = h_gprf h \<and> h_csrf h' = h_csrf h \<and> pm_peek (h_mem h') = pm_peek (h_mem h)"
  using fetchBB_miss [OF assms] same_memory_peek by blast

theorem fetch_delivers_code_witness:
  "\<exists>h' b. fetchBB demo_hart = Inr h' \<and> currentInstr h' = Some (b, 0) \<and> h_csrf h' = h_csrf demo_hart"
  using fetch_delivers_code [OF fresh_core [OF demo_hart_fresh] _ _ demo_hart_simps(3) _ demo_hart_simps(4)]
    demo_pm_ok(3) pf_ok_mk demo_code_area unfolding demo_hart_simps by blast

text \<open>
  Fetching an address that is cached does not look at memory.  The block stays what it was when
  it was assembled, so instructions stored since then are not seen: for every memory the hart may
  have by now the fetch makes the same block current.
\<close>
theorem fetch_ignores_stores:
  assumes "content (reg_val (h_gprf h) PC) (bbCache h) = Some code"
  shows "\<forall>pm. \<exists>h' b. fetchBB (h\<lparr>h_mem := pm\<rparr>) = Inr h' \<and> currentInstr h' = Some (b, 0) \<and>
     instrs (bbs (bbCache h') ! b) = code \<and> h_mem h' = pm"
  using assms fetchBB_hit [of "h\<lparr>h_mem := _\<rparr>" _ code] by (simp del: reg_const_simps) blast

theorem fetch_ignores_stores_witness:
  "\<exists>h1 code. fetchBB demo_hart = Inr h1 \<and>
     (\<forall>pm. \<exists>h' b. fetchBB (h1\<lparr>h_mem := pm\<rparr>) = Inr h' \<and> currentInstr h' = Some (b, 0) \<and> instrs (bbs (bbCache h') ! b) = code)"
proof -
  obtain h1 code where h1: "fetchBB demo_hart = Inr h1" "content (reg_val (h_gprf h1) PC) (bbCache h1) = Some code"
    using fetchBB_miss [OF fresh_core [OF demo_hart_fresh] _ _ demo_hart_simps(3) _ demo_hart_simps(4)]
      demo_pm_ok(3) pf_ok_mk demo_code_area demo_hart_simps by metis
  then show ?thesis using fetch_ignores_stores [OF h1(2)] by blast
qed

text \<open>
  C28: assembling a block ends.  Whatever memory holds, a fetch in a well-formed hart never uses up
  the bound on the iterations of the assembling loop, so the bound is no restriction of the model.
\<close>
theorem fetch_terminates:
  assumes "core_ok E h"
  shows "fetchBB h \<noteq> Inl OutOfFuel"
  using assms by (rule fetchBB_no_fuel)

theorem fetch_terminates_witness: "fetchBB demo_hart \<noteq> Inl OutOfFuel"
  using fetch_terminates [OF fresh_core [OF demo_hart_fresh]] .

text \<open>
  The handler table is consistent with the enumeration of operations: it has one entry for each
  operation, and at the value of an operation stands the handler of that operation.
\<close>
theorem handler_table:
  "length HANDLER_ARR = length all_ops \<and> (\<forall>x. op_value x < length HANDLER_ARR \<and> HANDLER_ARR ! op_value x = handler x)"
  using HANDLER_ARR_handler HANDLER_ARR_length op_value_less by metis

end
