(* ===== verification/HookTrace.thy ===== *)
theory HookTrace
  imports HartRun
begin

text \<open>
  What an application sees of a running hart through its hooks.  The locale \<open>observation\<close> collects
  what a statement about the observable part of the hart has to satisfy: it does not depend on
  registers and memory, and the two operations that call hooks keep it.  Inside the locale every
  handler, and so every reachable state, is shown to keep it.  It is interpreted for the counter of
  executed instructions and for the position that the last fetched block and the number of
  instructions reported since then determine.
\<close>

section \<open>Statements about the observable part of the hart\<close>

primrec outcome_hart :: "outcome \<Rightarrow> Hart" where
  "outcome_hart (Dispatch h) = h"
| "outcome_hart (Return h) = h"

lemma valid_pair: "(\<And>a b. valid P (f a b)) \<Longrightarrow> valid P (case_prod f x)"
  by (simp add: split_beta)

locale observation =
  fixes J :: "Hart \<Rightarrow> bool"
  assumes gprf_frame: "J h \<Longrightarrow> J (h\<lparr>h_gprf := g\<rparr>)"
    and csrf_frame: "J h \<Longrightarrow> J (h\<lparr>h_csrf := c\<rparr>)"
    and mem_frame: "J h \<Longrightarrow> J (h\<lparr>h_mem := m\<rparr>)"
    and fetch_keeps: "J h \<Longrightarrow> valid J (fetchBB h)"
    and next_keeps: "J h \<Longrightarrow> valid (\<lambda>x. J (outcome_hart x)) (execNextInstr h)"
begin

lemma write_keeps: "J h \<Longrightarrow> valid J (write_reg r v h)"
  unfolding write_reg_def by (rule valid_bind_any) (simp add: valid_def gprf_frame)

lemma nextPC_keeps: "J h \<Longrightarrow> valid J (nextPC h)"
  unfolding nextPC_def by (rule valid_bind_any) (rule write_keeps)

lemma raise_keeps: "J h \<Longrightarrow> valid J (raiseException E ex h)"
  unfolding raiseException_def Let_def
  by (rule valid_bind_any, rule valid_bind [OF write_keeps fetch_keeps]) (rule csrf_frame)

lemma illegal_keeps: "J h \<Longrightarrow> valid J (raiseIllegalInstruction E h)"
  unfolding raiseIllegalInstruction_def by (rule raise_keeps)

lemma advance_keeps: "J h \<Longrightarrow> valid (\<lambda>x. J (outcome_hart x)) (advance h)"
  unfolding advance_def by (rule valid_bind [OF nextPC_keeps next_keeps])

lemma finish_keeps: "J h \<Longrightarrow> valid (\<lambda>x. J (outcome_hart x)) (finish i v h)"
  unfolding finish_def by (rule valid_bind [OF write_keeps advance_keeps])

lemma branch_keeps: "J h \<Longrightarrow> valid (\<lambda>x. J (outcome_hart x)) (branch_to taken target h)"
  unfolding branch_to_def by (rule valid_bind [where Q = J, OF _ next_keeps]) (simp add: write_keeps nextPC_keeps)

lemma status_keeps: "J h \<Longrightarrow> valid (\<lambda>x. J (outcome_hart x)) (csr_status E i status h)"
  unfolding csr_status_def
  by (rule valid_bind [where Q = J, OF _ next_keeps])
     (auto split: sum.split intro: illegal_keeps valid_bind write_keeps nextPC_keeps)

lemmas observe = finish_keeps advance_keeps branch_keeps status_keeps next_keeps
  gprf_frame csrf_frame mem_frame valid_Inl valid_pair

lemma alu_keeps:
  assumes "J h"
  shows "operation i \<in> {ADDI, SLTI, SLTIU, ORI, ANDI, XORI, SLLI, SRLI, SRAI, LUI, AUIPC, ADD, SLT, SLTU, AND_op, OR_op, XOR_op,
    SLL, SRL, SUB, SRA, ADDIW, SLLIW, SRLIW, SRAIW, ADDW, SUBW, SLLW, SRLW, SRAW, BEQ, BNE, BLT, BLTU, BGE, BGEU} \<Longrightarrow>
    valid (\<lambda>x. J (outcome_hart x)) (handler (operation i) E h)"
  unfolding insert_iff empty_iff
  by (elim disjE FalseE;
      simp only: handler.simps exec_ADDI_def exec_SLTI_def exec_SLTIU_def exec_ORI_def exec_ANDI_def exec_XORI_def exec_SLLI_def
    exec_SRLI_def exec_SRAI_def exec_LUI_def exec_AUIPC_def exec_ADD_def exec_SLT_def exec_SLTU_def
    exec_AND_def exec_OR_def exec_XOR_def exec_SLL_def exec_SRL_def exec_SUB_def exec_SRA_def
    exec_ADDIW_def exec_SLLIW_def exec_SRLIW_def exec_SRAIW_def exec_ADDW_def exec_SUBW_def
    exec_SLLW_def exec_SRLW_def exec_SRAW_def exec_BEQ_def exec_BNE_def exec_BLT_def exec_BLTU_def exec_BGE_def exec_BGEU_def Let_def;
      (rule observe assms valid_bind_any)+)

lemma memory_keeps:
  assumes "J h"
  shows "operation i \<in> {LB, LH, LW, LD, LBU, LHU, LWU, SB, SH, SW, SD} \<Longrightarrow>
    valid (\<lambda>x. J (outcome_hart x)) (handler (operation i) E h)"
  unfolding insert_iff empty_iff
  by (elim disjE FalseE;
      simp only: handler.simps exec_LB_def exec_LH_def exec_LW_def exec_LD_def exec_LBU_def exec_LHU_def exec_LWU_def
        exec_SB_def exec_SH_def exec_SW_def exec_SD_def Let_def;
      (rule observe assms valid_bind_any)+)

lemma control_keeps:
  assumes "J h"
  shows "operation i \<in> {CSRRW, CSRRS, CSRRC, CSRRWI, CSRRSI, CSRRCI, JAL, JALR, FENCE, FENCE_TSO, PAUSE, SRET} \<Longrightarrow>
    valid (\<lambda>x. J (outcome_hart x)) (handler (operation i) E h)"
  unfolding insert_iff empty_iff
  by (elim disjE FalseE;
      simp only: handler.simps exec_CSRRW_def exec_CSRRS_def exec_CSRRC_def exec_CSRRWI_def exec_CSRRSI_def exec_CSRRCI_def
        exec_JAL_def exec_JALR_def exec_FENCE_def exec_FENCE_TSO_def exec_PAUSE_def exec_SRET_def Let_def;
      (rule observe assms valid_if valid_bind [OF write_keeps] valid_bind [OF illegal_keeps] valid_bind_any | assumption)+)

lemma trap_keeps:
  assumes "J h"
  shows "valid (\<lambda>x. J (outcome_hart x)) (exec_ECALL E h)" "valid (\<lambda>x. J (outcome_hart x)) (exec_MRET E h)"
    "valid (\<lambda>x. J (outcome_hart x)) (exec_BB_END E h)" "valid (\<lambda>x. J (outcome_hart x)) (exec_INV_OP E h)"
    "valid (\<lambda>x. J (outcome_hart x)) (exec_EBREAK E h)"
  unfolding exec_ECALL_def exec_MRET_def exec_BB_END_def exec_INV_OP_def exec_EBREAK_def
  by (intro valid_bind [where Q = J] valid_if valid_Inl valid_Inr raise_keeps illegal_keeps write_keeps next_keeps fetch_keeps
      csrf_frame assms; simp add: assms)+

lemma dispatch_keeps:
  assumes "J h"
  shows "valid (\<lambda>x. J (outcome_hart x)) (dispatch E h)"
proof (cases "current h")
  case (Inr i)
  show ?thesis
    unfolding dispatch_eq [OF Inr]
    using alu_keeps [OF assms, of i E] memory_keeps [OF assms, of i E] control_keeps [OF assms, of i E] trap_keeps [OF assms, of E]
    by (cases "operation i") simp_all
qed (simp add: dispatch_def valid_def)

lemma reachable_keeps: "reachable E h0 h \<Longrightarrow> J h0 \<Longrightarrow> J h"
proof (induction rule: reachable.induct)
  case (reachable_start h)
  then show ?case using validD [OF trap_keeps(3)] by fastforce
next
  case (reachable_step h h')
  then show ?case using validD [OF dispatch_keeps] by (fastforce elim: hart_stepE)
qed

end

section \<open>The reports of executed instructions\<close>

definition reports :: "hook_call list \<Rightarrow> nat" where
  "reports l = length (filter (\<lambda>c. case c of InstrExecutedCall _ _ \<Rightarrow> True | BBFetchCall _ _ \<Rightarrow> False) l)"

lemma reports_append [simp]: "reports (l @ l') = reports l + reports l'"
  by (simp add: reports_def)

lemma reports_calls:
  "reports (map (\<lambda>cb. BBFetchCall cb bb) cbs) = 0" "reports (map (\<lambda>cb. InstrExecutedCall cb i) cbs) = length cbs"
  by (simp_all add: reports_def comp_def filter_empty_conv)

definition counted :: "HookManager \<Rightarrow> Hart \<Rightarrow> bool" where
  "counted hm h \<longleftrightarrow> hooks_sorted hm \<and> hookManager h = hm \<and>
     of_nat (reports (hook_log h)) = of_nat (length (registered INSTR_EXECUTED hm)) * instrsExecuted h"

text \<open>What the two operations that call hooks do to the observable part.\<close>

lemma fetchBB_calls:
  assumes "fetchBB h = Inr h'" and "hooks_sorted (hookManager h)"
  shows "\<exists>b. hookManager h' = hookManager h \<and> instrsExecuted h' = instrsExecuted h \<and> currentInstr h' = Some (b, 0) \<and>
    hook_log h' = hook_log h @ map (\<lambda>cb. BBFetchCall cb (bbs (bbCache h') ! b)) (registered BB_FETCHED (hookManager h))"
proof -
  obtain found i c where l: "lookup (reg_val (h_gprf h) PC) (bbCache h) = ((found, i), c)" by (metis prod.exhaust)
  obtain h1 where h1: "(if \<not> found then assembleBB i (reg_val (h_gprf h) PC) (h\<lparr>bbCache := c\<rparr>) else Inr (h\<lparr>bbCache := c\<rparr>)) = Inr h1"
    using assms(1) l unfolding fetchBB_def read_PC bindE_Inr Let_def by (auto simp: bindE_eq_Inr_iff simp del: reg_const_simps)
  have same: "hookManager h1 = hookManager h" "instrsExecuted h1 = instrsExecuted h" "hook_log h1 = hook_log h"
    using h1 by (auto simp: assembleBB_def bindE_eq_Inr_iff split: if_splits)
  have "h' = h1\<lparr>hook_log := hook_log h1 @ map (\<lambda>cb. BBFetchCall cb (bbs (bbCache h1) ! i)) (registered BB_FETCHED (hookManager h1)),
      currentInstr := Some (i, 0)\<rparr>"
    using assms(1) l h1 trigger_eq(1) [of "hookManager h1" "bbs (bbCache h1) ! i"] assms(2) same(1)
    unfolding fetchBB_def read_PC bindE_Inr Let_def by (simp del: reg_const_simps)
  then show ?thesis using same by simp
qed

lemma execNextInstr_calls:
  assumes "execNextInstr h = Inr x" and "hooks_sorted (hookManager h)"
  shows "\<exists>b k i. currentInstr h = Some (b, k) \<and> currentInstr (outcome_hart x) = Some (b, k + 1) \<and>
    bbCache (outcome_hart x) = bbCache h \<and> hookManager (outcome_hart x) = hookManager h \<and>
    instrsExecuted (outcome_hart x) = instrsExecuted h + 1 \<and>
    hook_log (outcome_hart x) = hook_log h @ map (\<lambda>cb. InstrExecutedCall cb i) (registered INSTR_EXECUTED (hookManager h))"
  using assms trigger_eq(2) [OF assms(2)]
  by (auto simp: execNextInstr_def Let_def bindE_eq_Inr_iff current_def split: option.splits)

interpretation counter: observation "counted hm" for hm
proof
  fix h
  assume "counted hm h"
  then have c: "hooks_sorted (hookManager h)" "hookManager h = hm"
      "of_nat (reports (hook_log h)) = of_nat (length (registered INSTR_EXECUTED hm)) * instrsExecuted h"
    by (simp_all add: counted_def)
  show "valid (counted hm) (fetchBB h)"
    unfolding valid_def using fetchBB_calls [OF _ c(1)] c by (fastforce simp: counted_def reports_calls)
  show "valid (\<lambda>x. counted hm (outcome_hart x)) (execNextInstr h)"
    unfolding valid_def using execNextInstr_calls [OF _ c(1)] c by (fastforce simp: counted_def reports_calls distrib_left)
qed (simp_all add: counted_def)

section \<open>The position of the hart\<close>

text \<open>
  The address an application computes that registered the callback \<open>f\<close> for fetched blocks and \<open>g\<close> for
  executed instructions: set by a fetch, advanced by four by every instruction.
\<close>

fun follow :: "Callback \<Rightarrow> Callback \<Rightarrow> hook_call \<Rightarrow> RV64Ptr \<Rightarrow> RV64Ptr" where
  "follow f g (BBFetchCall cb bb) p = (if cb = f then getPC bb else p)"
| "follow f g (InstrExecutedCall cb i) p = (if cb = g then p + 4 else p)"

definition slot_address :: "Hart \<Rightarrow> RV64Ptr" where
  "slot_address h =
     (case currentInstr h of None \<Rightarrow> 0 | Some (b, k) \<Rightarrow> bb_pc (bbs (bbCache h) ! b) + of_nat (4 * k))"

lemma slot_address_frame [simp]:
  "slot_address (h\<lparr>h_gprf := g\<rparr>) = slot_address h" "slot_address (h\<lparr>h_csrf := c\<rparr>) = slot_address h"
  "slot_address (h\<lparr>h_mem := m\<rparr>) = slot_address h" "slot_address (h\<lparr>hook_log := l\<rparr>) = slot_address h"
  by (simp_all add: slot_address_def split: option.split)

definition listening :: "Callback \<Rightarrow> Callback \<Rightarrow> HookManager \<Rightarrow> bool" where
  "listening f g hm \<longleftrightarrow> hooks_sorted hm \<and> registered BB_FETCHED hm = [f] \<and> registered INSTR_EXECUTED hm = [g]"

definition positioned :: "Callback \<Rightarrow> Callback \<Rightarrow> RV64Ptr \<Rightarrow> Hart \<Rightarrow> bool" where
  "positioned f g p h \<longleftrightarrow> listening f g (hookManager h) \<and>
     (currentInstr h \<noteq> None \<longrightarrow> fold (follow f g) (hook_log h) p = slot_address h)"

interpretation position: observation "positioned f g p" for f g p
proof
  fix h
  assume j: "positioned f g p h"
  then have c: "hooks_sorted (hookManager h)" "registered BB_FETCHED (hookManager h) = [f]"
      "registered INSTR_EXECUTED (hookManager h) = [g]"
    by (simp_all add: positioned_def listening_def)
  show "valid (positioned f g p) (fetchBB h)"
    unfolding valid_def using fetchBB_calls [OF _ c(1)] c
    by (fastforce simp: positioned_def listening_def slot_address_def getPC_def)
  show "valid (\<lambda>x. positioned f g p (outcome_hart x)) (execNextInstr h)"
    unfolding valid_def using execNextInstr_calls [OF _ c(1)] c j
    by (fastforce simp: positioned_def listening_def slot_address_def)
qed (simp_all add: positioned_def)

section \<open>Properties\<close>

lemma mkHart_simps: "hook_log (mkHart E slots regs word pm hm) = []" "instrsExecuted (mkHart E slots regs word pm hm) = 0"
    "currentInstr (mkHart E slots regs word pm hm) = None"
  by (simp_all add: mkHart_def)

text \<open>The example hart with one callback for each event.\<close>

definition demo_listener :: Hart where
  "demo_listener = demo_hart\<lparr>hookManager := \<lparr>hooks = [(BB_FETCHED, 1), (INSTR_EXECUTED, 2)]\<rparr>\<rparr>"

lemma demo_listening: "listening 1 2 (hookManager demo_listener)"
  by (simp add: demo_listener_def listening_def hooks_sorted_def registered_def)

lemma demo_listener_fresh: "fresh demo_env demo_listener"
proof -
  have "demo_listener = mkHart demo_env (\<lambda>_. replicate 8 blank_instr) (replicate 33 0) (\<lambda>_. 0) (h_mem demo_listener)
      \<lparr>hooks = [(BB_FETCHED, 1), (INSTR_EXECUTED, 2)]\<rparr>"
    by (simp add: demo_listener_def demo_hart_def mkHart_def)
  then show ?thesis
    by (rule freshI) (use demo_hart_fresh in \<open>simp_all add: fresh_def demo_listener_def\<close>)
qed

lemma demo_listener_fetch: "\<exists>h b. fetchBB demo_listener = Inr h \<and> currentInstr h = Some (b, 0)"
proof -
  have s: "h_mem demo_listener = demo_pm" "prefetcher demo_listener = mkPrefetcher"
      "reg_val (h_gprf demo_listener) PC = 0" "content 0 (bbCache demo_listener) = None"
    using demo_hart_simps by (simp_all add: demo_listener_def)
  show ?thesis
    using fetchBB_miss [OF fresh_core [OF demo_listener_fresh] _ _ s(3) _ s(4)]
      demo_pm_ok(3) pf_ok_mk demo_code_area unfolding s by blast
qed

lemma demo_listener_reaches: "\<exists>h. reachable demo_env demo_listener h"
  using demo_listener_fetch reachable_start [of demo_env demo_listener] by (auto simp: exec_BB_END_def)

text \<open>
  The counter and the hooks agree.  In every state a run reaches, the callbacks registered for
  executed instructions have been called once each for every instruction the counter counts
  (modulo the width of the counter).
\<close>
theorem instructions_reported:
  assumes "fresh E h0" and "hooks_sorted (hookManager h0)" and "reachable E h0 h"
  shows "of_nat (reports (hook_log h)) = of_nat (length (registered INSTR_EXECUTED (hookManager h0))) * getInstrsExecuted h"
proof -
  have "hook_log h0 = []" "instrsExecuted h0 = 0"
    using assms(1) unfolding fresh_def by (metis mkHart_simps)+
  then have "counted (hookManager h0) h0" using assms(2) by (simp add: counted_def reports_def)
  then show ?thesis
    using counter.reachable_keeps [OF assms(3)] by (auto simp: counted_def getInstrsExecuted_def)
qed

theorem instructions_reported_witness:
  "\<exists>h. reachable demo_env demo_listener h \<and> of_nat (reports (hook_log h)) = getInstrsExecuted h"
proof -
  obtain h where r: "reachable demo_env demo_listener h" using demo_listener_reaches by blast
  have "hooks_sorted (hookManager demo_listener)" "registered INSTR_EXECUTED (hookManager demo_listener) = [2]"
    using demo_listening by (simp_all add: listening_def)
  then show ?thesis using instructions_reported [OF demo_listener_fresh _ r] r by auto
qed

end
