(* ===== verification/HartSemantics.thy ===== *)
theory HartSemantics
  imports HartRun
begin

text \<open>
  What one instruction does, compared with the unprivileged RISC-V architecture.  \<open>isa_alu\<close>,
  \<open>isa_taken\<close> and the address computations below are the architecture's definitions of the RV64I
  operations; the theorems say for which operands the handlers compute the same, and what they
  compute where they differ.
\<close>

section \<open>Completing an instruction\<close>

text \<open>\<open>retire\<close> is the bookkeeping of \<^verbatim>\<open>execNextInstr\<close>; \<open>put_rd\<close> and \<open>jump\<close> the register updates before it.\<close>

definition retire :: "Instruction \<Rightarrow> Hart \<Rightarrow> Hart" where
  "retire i h = h\<lparr>instrsExecuted := instrsExecuted h + 1,
     hook_log := hook_log h @ map (\<lambda>q. InstrExecutedCall (snd q) i) (equal_range INSTR_EXECUTED (hooks (hookManager h))),
     currentInstr := map_option (\<lambda>(b, k). (b, k + 1)) (currentInstr h)\<rparr>"

definition pc_of :: "Hart \<Rightarrow> RV64Ptr" where
  "pc_of h = reg_val (h_gprf h) PC"

definition put_rd :: "Instruction \<Rightarrow> RV64UDWord \<Rightarrow> Hart \<Rightarrow> Hart" where
  "put_rd i v h = h\<lparr>h_gprf := set_reg (rd i) v (h_gprf h)\<rparr>"

definition jump :: "RV64Ptr \<Rightarrow> Hart \<Rightarrow> Hart" where
  "jump target h = h\<lparr>h_gprf := set_reg PC target (h_gprf h)\<rparr>"

lemma current_frame [simp]:
  "current (h\<lparr>h_gprf := g\<rparr>) = current h" "current (h\<lparr>h_csrf := c\<rparr>) = current h"
  "current (h\<lparr>h_mem := m\<rparr>) = current h" "current (h\<lparr>instrsExecuted := n\<rparr>) = current h"
  "current (put_rd i v h) = current h" "current (jump t h) = current h"
  by (simp_all add: current_def put_rd_def jump_def split: option.split)

lemma execNextInstr_eq: "current h = Inr i \<Longrightarrow> execNextInstr h = Inr (Dispatch (retire i h))"
  by (simp add: execNextInstr_def Let_def retire_def triggerInstrExecHook_def doTriggerHooks_def call_hooks_eq)

lemma write_PC_eq: "write_reg PC v h = Inr (jump v h)"
  using write_reg_eq [of PC v h] by (simp add: jump_def)

lemma nextPC_eq: "nextPC h = Inr (jump (pc_of h + 4) h)"
  unfolding nextPC_def read_PC bindE_Inr write_PC_eq by (simp add: pc_of_def IALIGN_def)

lemma read_PC_eq: "read_reg PC h = Inr (pc_of h)"
  unfolding read_PC pc_of_def ..

lemma advance_eq: "current h = Inr i \<Longrightarrow> advance h = Inr (Dispatch (retire i (jump (pc_of h + 4) h)))"
  by (simp add: advance_def nextPC_eq execNextInstr_eq)

lemma pc_of_put_rd: "wf_gprf (h_gprf h) \<Longrightarrow> wf_instr i \<Longrightarrow> pc_of (put_rd i v h) = pc_of h"
  using reg_val_set_reg [of "h_gprf h" "rd i" v PC] unat_wf_reg [of "rd i"]
  by (auto simp: pc_of_def put_rd_def wf_instr_def)

text \<open>What every handler reads and where it goes on, in a state where it is called.\<close>

lemma current_wf: "ready E h \<Longrightarrow> current h = Inr i \<Longrightarrow> wf_instr i"
  using current_ready [of E h] by auto

lemma ready_gprf: "ready E h \<Longrightarrow> wf_gprf (h_gprf h)"
  by (simp add: ready_def core_ok_def)

lemma write_rd_eq: "wf_instr i \<Longrightarrow> write_reg (rd i) v h = Inr (put_rd i v h)"
  using unat_wf_reg [of "rd i"] write_reg_eq [of "rd i" v h] by (simp add: wf_instr_def put_rd_def)

lemma exec_facts:
  assumes "ready E h" and "current h = Inr i"
  shows "dispatch E h = handler (operation i) E h" "current h = Inr i"
    "read_reg (rs1 i) h = Inr (reg_val (h_gprf h) (rs1 i))" "read_reg (rs2 i) h = Inr (reg_val (h_gprf h) (rs2 i))"
    "finish i v h = Inr (Dispatch (retire i (jump (pc_of h + 4) (put_rd i v h))))"
    "finish i v (h\<lparr>h_mem := m\<rparr>) = Inr (Dispatch (retire i (jump (pc_of h + 4) (put_rd i v (h\<lparr>h_mem := m\<rparr>)))))"
    "advance (h\<lparr>h_mem := m\<rparr>) = Inr (Dispatch (retire i (jump (pc_of h + 4) (h\<lparr>h_mem := m\<rparr>))))"
    "branch_to taken target h = Inr (Dispatch (retire i (jump (if taken then target else pc_of h + 4) h)))"
proof -
  have wf: "wf_instr i" "wf_gprf (h_gprf h)" using assms current_wf ready_gprf by blast+
  show "dispatch E h = handler (operation i) E h" "current h = Inr i" using assms dispatch_eq by simp_all
  show "read_reg (rs1 i) h = Inr (reg_val (h_gprf h) (rs1 i))" "read_reg (rs2 i) h = Inr (reg_val (h_gprf h) (rs2 i))"
    using wf unat_wf_reg by (simp_all add: read_reg_eq wf_instr_def)
  have pc: "pc_of (h\<lparr>h_mem := m\<rparr>) = pc_of h" by (simp add: pc_of_def)
  have fin: "finish i v s = Inr (Dispatch (retire i (jump (pc_of s + 4) (put_rd i v s))))"
    if "current s = Inr i" "wf_gprf (h_gprf s)" for s
    using advance_eq [of "put_rd i v s" i] that pc_of_put_rd [OF that(2) wf(1)] write_rd_eq [OF wf(1)]
    by (simp add: finish_def)
  show "finish i v h = Inr (Dispatch (retire i (jump (pc_of h + 4) (put_rd i v h))))"
    using fin assms(2) wf(2) by blast
  show "finish i v (h\<lparr>h_mem := m\<rparr>) = Inr (Dispatch (retire i (jump (pc_of h + 4) (put_rd i v (h\<lparr>h_mem := m\<rparr>)))))"
    using fin [of "h\<lparr>h_mem := m\<rparr>"] assms(2) wf(2) pc by simp
  show "advance (h\<lparr>h_mem := m\<rparr>) = Inr (Dispatch (retire i (jump (pc_of h + 4) (h\<lparr>h_mem := m\<rparr>))))"
    using advance_eq [of "h\<lparr>h_mem := m\<rparr>" i] assms(2) pc by simp
  show "branch_to taken target h = Inr (Dispatch (retire i (jump (if taken then target else pc_of h + 4) h)))"
    using execNextInstr_eq [of "jump target h" i] execNextInstr_eq [of "jump (pc_of h + 4) h" i] assms(2)
    unfolding branch_to_def by (simp add: write_PC_eq nextPC_eq del: reg_const_simps)
qed

section \<open>Integer computations\<close>

text \<open>
  The architecture: the operation on the 64-bit values of \<^verbatim>\<open>rs1\<close> and of \<^verbatim>\<open>rs2\<close> or the sign-extended
  immediate; shifts use the low six bits of the second operand, 32-bit shifts the low five.
\<close>

definition low6 :: "u64 \<Rightarrow> nat" where
  "low6 b = unat (b AND 63)"

primrec isa_alu :: "InstructionOp \<Rightarrow> u64 \<Rightarrow> u64 \<Rightarrow> u64" where
  "isa_alu ADD a b = a + b"
| "isa_alu SUB a b = a - b"
| "isa_alu AND_op a b = a AND b"
| "isa_alu OR_op a b = a OR b"
| "isa_alu XOR_op a b = a XOR b"
| "isa_alu SLT a b = (if a <s b then 1 else 0)"
| "isa_alu SLTU a b = (if a < b then 1 else 0)"
| "isa_alu SLL a b = push_bit (low6 b) a"
| "isa_alu SRL a b = drop_bit (low6 b) a"
| "isa_alu SRA a b = signed_drop_bit (low6 b) a"
| "isa_alu ADDI a b = a + b"
| "isa_alu ANDI a b = a AND b"
| "isa_alu ORI a b = a OR b"
| "isa_alu XORI a b = a XOR b"
| "isa_alu SLTI a b = (if a <s b then 1 else 0)"
| "isa_alu SLTIU a b = (if a < b then 1 else 0)"
| "isa_alu SLLI a b = push_bit (low6 b) a"
| "isa_alu SRLI a b = drop_bit (low6 b) a"
| "isa_alu SRAI a b = signed_drop_bit (low6 b) a"
| "isa_alu ADDW a b = scast (ucast (a + b) :: u32)"
| "isa_alu SUBW a b = scast (ucast (a - b) :: u32)"
| "isa_alu ADDIW a b = scast (ucast (a + b) :: u32)"
| "isa_alu SLLW a b = scast (push_bit (unat (b AND 31)) (ucast a :: u32))"
| "isa_alu SLLIW a b = scast (push_bit (unat (b AND 31)) (ucast a :: u32))"
| "isa_alu SRLW a b = scast (drop_bit (unat (b AND 31)) (ucast a :: u32))"
| "isa_alu SRLIW a b = scast (drop_bit (unat (b AND 31)) (ucast a :: u32))"
| "isa_alu SRAW a b = scast (signed_drop_bit (unat (b AND 31)) (ucast a :: u32))"
| "isa_alu SRAIW a b = scast (signed_drop_bit (unat (b AND 31)) (ucast a :: u32))"

definition register_ops :: "InstructionOp list" where
  "register_ops = [ADD, SUB, AND_op, OR_op, XOR_op, SLT, SLTU, SLL, SRL, SRA, ADDW, SUBW, SLLW, SRLW, SRAW]"

definition operand2 :: "Instruction \<Rightarrow> Hart \<Rightarrow> u64" where
  "operand2 i h =
     (if operation i \<in> set register_ops then reg_val (h_gprf h) (rs2 i) else signed_take_bit 11 (immidiate i))"

definition isa_result :: "Instruction \<Rightarrow> Hart \<Rightarrow> u64" where
  "isa_result i h = isa_alu (operation i) (reg_val (h_gprf h) (rs1 i)) (operand2 i h)"

text \<open>The operations and second operands for which the handlers follow the architecture.\<close>

definition alu_exact :: "InstructionOp \<Rightarrow> u64 \<Rightarrow> bool" where
  "alu_exact x b \<longleftrightarrow>
     x \<in> {ADD, SUB, AND_op, OR_op, XOR_op, SLT, SLTU, ADDI, ANDI, ORI, XORI, SLTI, SLTIU} \<or>
     x \<in> {SLL, SRL, SRA} \<and> b < 64 \<or>
     x \<in> {SLLI, SRLI, SRAI} \<and> \<not> bit b 5"

lemma SignExtend_12: "SignExtend 12 w = signed_take_bit 11 (w :: u64)"
  by (simp add: SignExtend_eq_signed_take_bit)

lemma low6_eq: "low6 b = unat b mod 64"
proof -
  have "(63 :: u64) = mask 6" by (simp add: mask_eq_exp_minus_1)
  then have "b AND 63 = take_bit 6 b" by (simp only: take_bit_eq_mask)
  then have "low6 b = take_bit 6 (unat b)" by (simp only: low6_def unsigned_take_bit_eq)
  then show ?thesis by (simp add: take_bit_eq_mod)
qed

lemma low6_small: "b < 64 \<Longrightarrow> low6 b = unat b"
  by (simp add: low6_eq word_less_nat_alt)

lemma low5_imm:
  assumes "\<not> bit (signed_take_bit 11 w :: u64) 5"
  shows "unat (ExtractBits 5 0 w) = low6 (signed_take_bit 11 w)" and "ExtractBits 5 0 w < (64 :: u64)"
proof -
  have m: "(63 :: u64) = mask 6" by (simp add: mask_eq_exp_minus_1)
  have "ExtractBits 5 0 w = signed_take_bit 11 w AND 63"
    unfolding m using assms
    by (intro bit_word_eqI)
       (auto simp: bit_ExtractBits bit_and_iff bit_mask_iff bit_signed_take_bit_iff min_def less_Suc_eq numeral_eq_Suc
         simp del: mask_numeral)
  then show "unat (ExtractBits 5 0 w) = low6 (signed_take_bit 11 w)" by (simp add: low6_def)
  have "unat (ExtractBits 5 0 w :: u64) < 2 ^ 5" by (rule unat_ExtractBits_bound)
  then show "ExtractBits 5 0 w < (64 :: u64)" by (simp add: word_less_nat_alt)
qed

lemma Unsignify_shift: "Unsignify (drop_bit n (Signify a)) = (signed_drop_bit n a :: 'a::len word)"
proof -
  have "drop_bit n (sint a) = sint (signed_drop_bit n a)" by (simp add: sint_signed_drop_bit_eq)
  then show ?thesis by (simp add: Unsignify_def Signify_def)
qed

lemmas alu_defs =
  exec_ADD_def exec_SUB_def exec_AND_def exec_OR_def exec_XOR_def exec_SLT_def exec_SLTU_def exec_SLL_def
  exec_SRL_def exec_SRA_def exec_ADDI_def exec_ANDI_def exec_ORI_def exec_XORI_def exec_SLTI_def exec_SLTIU_def
  exec_SLLI_def exec_SRLI_def exec_SRAI_def exec_ADDW_def exec_SUBW_def exec_ADDIW_def exec_SLLW_def exec_SLLIW_def
  shift_left_def shift_right_def shift_right_signed_def

lemma alu_step:
  assumes "ready E h" and "current h = Inr i" and "alu_exact (operation i) (operand2 i h)"
  shows "dispatch E h = Inr (Dispatch (retire i (jump (pc_of h + 4) (put_rd i (isa_result i h) h))))"
proof -
  note facts = exec_facts [OF assms(1,2)]
  have less: "bool_word (Signify a < Signify b) = (if a <s b then 1 else 0)"
    "bool_word (a < b) = (if a < b then 1 else 0)" for a b :: u64
    by (simp_all add: bool_word_def Signify_def word_sless_alt)
  show ?thesis
  proof (cases "operation i \<in> {SLLI, SRLI, SRAI}")
    case True
    then have n: "\<not> bit (signed_take_bit 11 (immidiate i)) 5"
      using assms(3) by (auto simp: alu_exact_def operand2_def register_ops_def)
    show ?thesis
      using True facts low5_imm [OF n]
      by (auto simp: alu_defs isa_result_def operand2_def register_ops_def Unsignify_shift)
  next
    case False
    then show ?thesis
      using assms(3) facts low6_small
      by (auto simp: alu_exact_def alu_defs isa_result_def operand2_def register_ops_def Unsignify_shift SignExtend_12 less)
  qed
qed

text \<open>
  Immediate shifts take their amount modulo 32.  What an amount from 32 on then lacks is a shift by
  32, which changes every word but zero and, for the arithmetic shift, minus one.
\<close>

lemma imm_shift_step:
  assumes "ready E h" and "current h = Inr i" and "operation i \<in> {SLLI, SRLI, SRAI}"
  shows "dispatch E h = Inr (Dispatch (retire i (jump (pc_of h + 4)
    (put_rd i (isa_alu (operation i) (reg_val (h_gprf h) (rs1 i)) (take_bit 5 (immidiate i))) h))))"
proof -
  let ?b = "take_bit 5 (immidiate i)"
  have "unat ?b < 2 ^ 5" using unat_ExtractBits_bound [of 5 0 "immidiate i"] by (simp add: ExtractBits_eq)
  then have "?b < 64" "low6 ?b = unat ?b" by (simp_all add: word_less_nat_alt low6_eq)
  moreover have "ExtractBits 5 0 (immidiate i) = ?b" by (simp add: ExtractBits_eq)
  ultimately show ?thesis
    using assms(3) exec_facts [OF assms(1,2)] by (auto simp: alu_defs Unsignify_shift)
qed

lemma shift_by_32:
  fixes x :: u64
  shows "push_bit 32 x = x \<longleftrightarrow> x = 0" and "drop_bit 32 x = x \<longleftrightarrow> x = 0" and "signed_drop_bit 32 x = x \<longleftrightarrow> x = 0 \<or> x = - 1"
proof -
  have "push_bit 64 x = 0" "drop_bit 64 x = 0" by (auto intro!: bit_word_eqI simp: bit_push_bit_iff bit_drop_bit_eq dest: bit_imp_le_length)
  then have "push_bit 32 (push_bit 32 x) = 0" "drop_bit 32 (drop_bit 32 x) = 0"
    unfolding push_bit_push_bit drop_bit_drop_bit by simp_all
  then show "push_bit 32 x = x \<longleftrightarrow> x = 0" "drop_bit 32 x = x \<longleftrightarrow> x = 0" by (metis push_bit_of_0, metis drop_bit_of_0)
  have "signed_drop_bit 32 (signed_drop_bit 32 x) = (if bit x 63 then - 1 else 0)"
    by (rule bit_word_eqI) (auto simp: bit_signed_drop_bit_iff)
  then have "x = 0 \<or> x = - 1" if "signed_drop_bit 32 x = x" unfolding that by (auto split: if_splits)
  then show "signed_drop_bit 32 x = x \<longleftrightarrow> x = 0 \<or> x = - 1" by auto
qed

lemma low6_imm: "low6 (signed_take_bit 11 w) = low6 (take_bit 5 w) + (if bit w 5 then 32 else 0)"
proof -
  have m: "(63 :: u64) = mask 6" by (simp add: mask_eq_exp_minus_1)
  have "signed_take_bit 11 w AND 63 = take_bit 6 w"
    unfolding m by (rule bit_word_eqI) (auto simp: bit_and_iff bit_mask_iff bit_signed_take_bit_iff bit_take_bit_iff min_def simp del: mask_numeral)
  then have l: "low6 (signed_take_bit 11 w) = take_bit 6 (unat w)" by (simp only: low6_def unsigned_take_bit_eq)
  have r: "low6 (take_bit 5 w) = take_bit 5 (unat w)"
    unfolding low6_def m take_bit_eq_mask [symmetric] take_bit_take_bit unsigned_take_bit_eq by simp
  have "take_bit (Suc 5) (unat w) = 2 ^ 5 * of_bool (bit (unat w) 5) + take_bit 5 (unat w)" by (rule take_bit_Suc_from_most)
  moreover have "bit (unat w) 5 = bit w 5" by (simp add: bit_unsigned_iff)
  ultimately show ?thesis unfolding l r by (simp add: of_bool_def)
qed

lemma imm_shift_agree:
  fixes a w :: u64
  assumes "x \<in> {SLLI, SRLI, SRAI}"
  defines "v \<equiv> isa_alu x a (take_bit 5 w)"
  shows "v = isa_alu x a (signed_take_bit 11 w) \<longleftrightarrow> \<not> bit w 5 \<or> v = 0 \<or> x = SRAI \<and> v = - 1"
proof -
  have "isa_alu x a (signed_take_bit 11 w) =
      (if bit w 5 then (if x = SLLI then push_bit 32 v else if x = SRLI then drop_bit 32 v else signed_drop_bit 32 v) else v)"
    using assms(1) unfolding v_def by (auto simp: low6_imm add.commute)
  then show ?thesis using assms(1) shift_by_32 [of v] by auto
qed

text \<open>The 32-bit operations leave the upper half of the result zero instead of copying the sign.\<close>

lemma zero_extended:
  fixes r :: u64
  shows "ExtractBits 32 0 r = ucast (ucast r :: u32)"
    and "ExtractBits 32 0 r = scast (ucast r :: u32) \<longleftrightarrow> \<not> bit r 31"
proof -
  show z: "ExtractBits 32 0 r = ucast (ucast r :: u32)"
    by (rule bit_word_eqI) (auto simp: bit_ExtractBits bit_ucast_iff)
  have up: "bit (scast (ucast r :: u32) :: u64) k \<longleftrightarrow> bit r (min k 31)" if "k < 64" for k
    using that by (auto simp: bit_signed_iff bit_ucast_iff min_def)
  show "ExtractBits 32 0 r = scast (ucast r :: u32) \<longleftrightarrow> \<not> bit r 31"
  proof
    assume "ExtractBits 32 0 r = scast (ucast r :: u32)"
    then have "bit (ExtractBits 32 0 r) 32 = bit (scast (ucast r :: u32) :: u64) 32" by simp
    then show "\<not> bit r 31" using up [of 32] by (simp add: bit_ExtractBits)
  next
    assume n: "\<not> bit r 31"
    show "ExtractBits 32 0 r = scast (ucast r :: u32)"
    proof (rule bit_word_eqI)
      fix k :: nat
      assume k: "k < LENGTH(64)"
      show "bit (ExtractBits 32 0 r) k = bit (scast (ucast r :: u32) :: u64) k"
      proof (cases "k < 32")
        case True
        then have "min k 31 = k" by simp
        then show ?thesis using up [of k] k True by (simp add: bit_ExtractBits)
      next
        case False
        then have "min k 31 = 31" by simp
        then show ?thesis using up [of k] k False n by (simp add: bit_ExtractBits)
      qed
    qed
  qed
qed

lemma low5_small: "b < 32 \<Longrightarrow> unat (b AND 31) = unat (b :: u64)"
proof -
  assume b: "b < 32"
  have "(31 :: u64) = mask 5" by (simp add: mask_eq_exp_minus_1)
  then have "b AND 31 = take_bit 5 b" by (simp only: take_bit_eq_mask)
  then have "unat (b AND 31) = take_bit 5 (unat b)" by (simp only: unsigned_take_bit_eq)
  then show ?thesis using b by (simp add: take_bit_eq_mod word_less_nat_alt)
qed

text \<open>The 64-bit result of which the 32-bit operations take the low half.\<close>

definition wide_result :: "Instruction \<Rightarrow> Hart \<Rightarrow> u64" where
  "wide_result i h =
     (let a = reg_val (h_gprf h) (rs1 i); b = operand2 i h
      in if operation i = SUBW then a - b
         else if operation i \<in> {SLLW, SLLIW} then push_bit (unat b) a else a + b)"

lemma ucast_push_bit: "(ucast (push_bit n a :: u64) :: u32) = push_bit n (ucast a)"
  by (rule bit_word_eqI) (auto simp: bit_ucast_iff bit_push_bit_iff)

lemma word_step:
  assumes "ready E h" and "current h = Inr i"
    and "operation i \<in> {ADDW, SUBW, ADDIW} \<or> operation i \<in> {SLLW, SLLIW} \<and> operand2 i h < 32"
  shows "dispatch E h = Inr (Dispatch (retire i (jump (pc_of h + 4) (put_rd i (ExtractBits 32 0 (wide_result i h)) h))))"
    and "isa_result i h = scast (ucast (wide_result i h) :: u32)"
proof -
  note facts = exec_facts [OF assms(1,2)]
  have lt: "operand2 i h < 64" "unat (operand2 i h AND 31) = unat (operand2 i h)" if "operation i \<in> {SLLW, SLLIW}"
    using assms(3) that low5_small [of "operand2 i h"] by (auto simp: word_less_nat_alt)
  show "dispatch E h = Inr (Dispatch (retire i (jump (pc_of h + 4) (put_rd i (ExtractBits 32 0 (wide_result i h)) h))))"
    using assms(3) facts lt(1)
    by (auto simp: alu_defs wide_result_def operand2_def register_ops_def SignExtend_12 Let_def)
  show "isa_result i h = scast (ucast (wide_result i h) :: u32)"
    using assms(3) lt(2) by (auto simp: isa_result_def wide_result_def Let_def ucast_push_bit)
qed

section \<open>Upper immediates and control transfer\<close>

lemma extract20: "ExtractBits 20 0 (v :: u64) = take_bit 20 v"
  by (simp add: ExtractBits_eq)

primrec isa_taken :: "InstructionOp \<Rightarrow> u64 \<Rightarrow> u64 \<Rightarrow> bool" where
  "isa_taken BEQ a b = (a = b)"
| "isa_taken BNE a b = (a \<noteq> b)"
| "isa_taken BLT a b = (a <s b)"
| "isa_taken BGE a b = (b \<le>s a)"
| "isa_taken BLTU a b = (a < b)"
| "isa_taken BGEU a b = (b \<le> a)"

lemmas branch_defs = exec_BEQ_def exec_BNE_def exec_BLT_def exec_BGE_def exec_BLTU_def exec_BGEU_def

lemma branch_step:
  assumes "ready E h" and "current h = Inr i" and "operation i \<in> {BEQ, BNE, BLT, BGE, BLTU, BGEU}"
  shows "dispatch E h = Inr (Dispatch (retire i
     (jump (if isa_taken (operation i) (reg_val (h_gprf h) (rs1 i)) (reg_val (h_gprf h) (rs2 i))
            then pc_of h + signed_take_bit 11 (immidiate i) else pc_of h + 4) h)))"
  using assms(3) exec_facts [OF assms(1,2)] read_PC_eq [of h]
  by (auto simp: branch_defs SignExtend_12 Signify_def word_sless_alt word_sle_eq simp del: reg_const_simps)

lemma jump_step:
  assumes "ready E h" and "current h = Inr i"
  shows "operation i = JAL \<Longrightarrow> dispatch E h = Inr (Dispatch (retire i
           (jump (pc_of h + signed_take_bit 19 (immidiate i)) (put_rd i (pc_of h + 4) h))))"
    and "operation i = JALR \<Longrightarrow> dispatch E h = Inr (Dispatch (retire i
           (jump ((reg_val (h_gprf h) (rs1 i) + signed_take_bit 11 (immidiate i)) AND NOT 1) (put_rd i (pc_of h + 4) h))))"
  using exec_facts [OF assms] read_PC_eq [of h] write_rd_eq [OF current_wf [OF assms]] execNextInstr_eq [of "jump t (put_rd i v h)" i for t v]
  by (simp_all add: exec_JAL_def exec_JALR_def SignExtend_eq_signed_take_bit write_PC_eq del: reg_const_simps)

text \<open>Reading \<open>n\<close> or \<open>n + 1\<close> bits as two's complement agrees exactly when the top two bits agree.\<close>

lemma signed_take_bit_agree:
  assumes "Suc n < 64"
  shows "signed_take_bit n w = signed_take_bit (Suc n) (w :: u64) \<longleftrightarrow> bit w n = bit w (Suc n)"
proof
  assume "signed_take_bit n w = signed_take_bit (Suc n) w"
  then have "bit (signed_take_bit n w) (Suc n) = bit (signed_take_bit (Suc n) w) (Suc n)" by simp
  then show "bit w n = bit w (Suc n)" using assms by (simp add: bit_signed_take_bit_iff)
next
  assume "bit w n = bit w (Suc n)"
  then show "signed_take_bit n w = signed_take_bit (Suc n) w"
    by (intro bit_word_eqI) (auto simp: bit_signed_take_bit_iff min_def not_less_eq_eq dest: le_antisym)
qed

lemma upper_immediate_agree:
  assumes "\<And>k. 32 \<le> k \<Longrightarrow> \<not> bit w k"
  shows "take_bit 20 w = signed_take_bit 31 (w :: u64) \<longleftrightarrow> drop_bit 20 w = 0"
proof
  assume eq: "take_bit 20 w = signed_take_bit 31 w"
  have "\<not> bit w (20 + k)" for k
  proof (cases "20 + k < 32")
    case True
    have "bit (signed_take_bit 31 w) (20 + k) = bit (take_bit 20 w) (20 + k)" by (simp only: eq)
    moreover have "min (20 + k) 31 = 20 + k" using True by simp
    ultimately show ?thesis using True by (simp add: bit_signed_take_bit_iff bit_take_bit_iff)
  qed (use assms in simp)
  then show "drop_bit 20 w = 0" by (intro bit_word_eqI) (simp only: bit_drop_bit_eq comp_apply bit_0_eq bot_apply bot_bool_def)
next
  assume zero: "drop_bit 20 w = 0"
  have high: "\<not> bit w k" if k: "20 \<le> k" for k
  proof -
    have "bit w (20 + (k - 20)) = bit (drop_bit 20 w) (k - 20)" by (simp only: bit_drop_bit_eq comp_apply)
    then show ?thesis unfolding zero using k by simp
  qed
  show "take_bit 20 w = signed_take_bit 31 w"
  proof (rule bit_word_eqI)
    fix k :: nat
    assume "k < LENGTH(64)"
    show "bit (take_bit 20 w) k = bit (signed_take_bit 31 w) k"
      using high [of k] high [of 31] \<open>k < LENGTH(64)\<close>
      by (cases "k < 20") (auto simp: bit_take_bit_iff bit_signed_take_bit_iff min_def)
  qed
qed

section \<open>Loads and stores\<close>

primrec access_bytes :: "InstructionOp \<Rightarrow> nat" where
  "access_bytes LB = 1"
| "access_bytes LBU = 1"
| "access_bytes LH = 2"
| "access_bytes LHU = 2"
| "access_bytes LW = 4"
| "access_bytes LWU = 4"
| "access_bytes LD = 8"
| "access_bytes SB = 1"
| "access_bytes SH = 2"
| "access_bytes SW = 4"
| "access_bytes SD = 8"

primrec isa_load :: "InstructionOp \<Rightarrow> u8 list \<Rightarrow> u64" where
  "isa_load LB bs = scast (le_word bs :: u8)"
| "isa_load LH bs = scast (le_word bs :: u16)"
| "isa_load LW bs = scast (le_word bs :: u32)"
| "isa_load LD bs = le_word bs"
| "isa_load LBU bs = ucast (le_word bs :: u8)"
| "isa_load LHU bs = ucast (le_word bs :: u16)"
| "isa_load LWU bs = ucast (le_word bs :: u32)"

definition access_address :: "Instruction \<Rightarrow> Hart \<Rightarrow> RV64Ptr" where
  "access_address i h = reg_val (h_gprf h) (rs1 i) + signed_take_bit 11 (immidiate i)"

lemma le_bytes_ucast: "8 * n \<le> LENGTH('b) \<Longrightarrow> le_bytes n (ucast w :: 'b::len word) = le_bytes n (w :: 'a::len word)"
  by (rule nth_equalityI)
     (auto simp: le_bytes_nth intro!: bit_word_eqI simp: bit_ucast_iff bit_drop_bit_eq)

lemma Unsignify_Signify: "(Unsignify (Signify (v :: 'a::len word)) :: 'b::len word) = scast v"
  by (simp add: Unsignify_def Signify_def)

lemmas load_defs = exec_LB_def exec_LH_def exec_LW_def exec_LD_def exec_LBU_def exec_LHU_def exec_LWU_def
lemmas store_defs = exec_SB_def exec_SH_def exec_SW_def exec_SD_def

lemma ready_pm: "ready E h \<Longrightarrow> pm_inv (env_os E) (h_mem h)"
  by (simp add: ready_def core_ok_def)

lemma load_step:
  assumes "ready E h" and "current h = Inr i" and op: "operation i \<in> {LB, LH, LW, LD, LBU, LHU, LWU}"
    and area: "pm_area (h_mem h) (access_address i h) (access_bytes (operation i))"
  shows "\<exists>m. dispatch E h = Inr (Dispatch (retire i (jump (pc_of h + 4)
           (put_rd i (isa_load (operation i) (mem_get (access_bytes (operation i)) (access_address i h) (pm_peek (h_mem h))))
             (h\<lparr>h_mem := m\<rparr>))))) \<and> pm_peek m = pm_peek (h_mem h)"
proof -
  note facts = exec_facts [OF assms(1,2)] and pm = ready_pm [OF assms(1)]
  have addr: "reg_val (h_gprf h) (rs1 i) + SignExtend 12 (immidiate i) = access_address i h"
    by (simp add: access_address_def SignExtend_12)
  consider "access_bytes (operation i) = 1" "operation i \<in> {LB, LBU}" | "access_bytes (operation i) = 2" "operation i \<in> {LH, LHU}"
    | "access_bytes (operation i) = 4" "operation i \<in> {LW, LWU}" | "access_bytes (operation i) = 8" "operation i = LD"
    using op by auto
  then show ?thesis
  proof cases
    case 1
    then show ?thesis using mmu.loadB [OF pm, of "access_address i h"] area facts
      by (auto simp: load_defs addr Unsignify_Signify simp del: le_word.simps)
  next
    case 2
    then show ?thesis using mmu.loadH [OF pm, of "access_address i h"] area facts
      by (auto simp: load_defs addr Unsignify_Signify)
  next
    case 3
    then show ?thesis using mmu.loadW [OF pm, of "access_address i h"] area facts
      by (auto simp: load_defs addr Unsignify_Signify)
  next
    case 4
    then show ?thesis using mmu.loadD [OF pm, of "access_address i h"] area facts
      by (auto simp: load_defs addr)
  qed
qed

lemma store_step:
  assumes "ready E h" and "current h = Inr i" and op: "operation i \<in> {SB, SH, SW, SD}"
    and area: "pm_area (h_mem h) (access_address i h) (access_bytes (operation i))"
  shows "\<exists>m. dispatch E h = Inr (Dispatch (retire i (jump (pc_of h + 4) (h\<lparr>h_mem := m\<rparr>)))) \<and>
           pm_peek m = mem_put (access_address i h) (le_bytes (access_bytes (operation i)) (reg_val (h_gprf h) (rs2 i)))
             (pm_peek (h_mem h))"
proof -
  note facts = exec_facts [OF assms(1,2)] and pm = ready_pm [OF assms(1)]
  let ?a = "access_address i h" and ?v = "reg_val (h_gprf h) (rs2 i)"
  have addr: "reg_val (h_gprf h) (rs1 i) + SignExtend 12 (immidiate i) = ?a"
    by (simp add: access_address_def SignExtend_12)
  from op consider "operation i = SB" | "operation i = SH" | "operation i = SW" | "operation i = SD" by auto
  then show ?thesis
  proof cases
    case 1
    then show ?thesis using mmu.storeB [OF pm, of ?a "ucast ?v"] area facts le_bytes_ucast [of 1 ?v, where 'b = 8]
      by (auto simp: store_defs addr simp del: le_bytes.simps)
  next
    case 2
    then show ?thesis using mmu.storeH [OF pm, of ?a "ucast ?v"] area facts le_bytes_ucast [of 2 ?v, where 'b = 16]
      by (auto simp: store_defs addr)
  next
    case 3
    then show ?thesis using mmu.storeW [OF pm, of ?a "ucast ?v"] area facts le_bytes_ucast [of 4 ?v, where 'b = 32]
      by (auto simp: store_defs addr)
  next
    case 4
    then show ?thesis using mmu.storeD [OF pm, of ?a ?v] area facts
      by (auto simp: store_defs addr)
  qed
qed

section \<open>A hart about to execute a given instruction\<close>

definition exec_hart :: "Instruction \<Rightarrow> GPRF \<Rightarrow> Hart" where
  "exec_hart i g = demo_hart\<lparr>
     bbCache := set_bb 0 \<lparr>instrs = i # replicate 7 (blank_instr\<lparr>operation := BB_END\<rparr>), bb_pc = 0\<rparr> (bbCache demo_hart),
     currentInstr := Some (0, 0), h_gprf := g\<rparr>"

lemma exec_hart_simps [simp]:
  "h_gprf (exec_hart i g) = g" "h_mem (exec_hart i g) = demo_pm" "h_csrf (exec_hart i g) = h_csrf demo_hart"
  "current (exec_hart i g) = Inr i"
  by (simp_all add: exec_hart_def demo_hart_def mkHart_def set_bb_def current_def)

lemma exec_hart_ready:
  assumes "wf_instr i" and "wf_gprf g" and "even (reg_val g PC)"
  shows "ready demo_env (exec_hart i g)"
proof -
  let ?bb = "\<lparr>instrs = i # replicate 7 (blank_instr\<lparr>operation := BB_END\<rparr>), bb_pc = 0\<rparr>"
  let ?c = "bbCache demo_hart"
  have core: "core_ok demo_env demo_hart" by (rule fresh_core [OF demo_hart_fresh])
  have c: "?c = mkBasicBlockCache (\<lambda>_. replicate 8 blank_instr)" by (simp add: demo_hart_def mkHart_def)
  have mk: "way_pc ?c h w = 1" if "h < 128" "w < 8" for h w
    using that by (simp add: c way_pc_mk)
  have shape: "cache_shape ?c" using core by (simp add: core_ok_def cache_okD)
  have way: "way_pc (set_bb 0 ?bb ?c) h w = (if h = 0 \<and> w = 0 then 0 else 1)" if "h < 128" "w < 8" for h w
    using that mk [OF that] by (simp add: way_pc_def set_bb_def c nth_list_update)
  have "cache_ok (set_bb 0 ?bb ?c)"
    using cache_shape_set_bb [OF shape, of 0 ?bb] way by (simp add: cache_ok_def bb_hash_eq)
  moreover have be: "block_end ?bb 1" using assms(1) by (simp add: block_end_def)
  then have "blocks_ok (set_bb 0 ?bb ?c)"
    using core set_update_subset_insert [of "bbs ?c" 0 ?bb]
    by (auto simp: core_ok_def blocks_ok_def set_bb_def)
  ultimately have "core_ok demo_env (exec_hart i g)"
    using core assms(2,3) demo_hart_simps(1) by (simp add: core_ok_def) (simp add: exec_hart_def)
  moreover have "within (<) (exec_hart i g)"
    using be by (auto simp: within_def exec_hart_def set_bb_def c intro!: exI [of _ 1])
  ultimately show ?thesis by (simp add: ready_def)
qed

definition demo_regs :: GPRF where
  "demo_regs = mkGPRF (replicate 33 0x60)"

lemma demo_regs_simps:
  "wf_gprf demo_regs" "reg_val demo_regs PC = 0" "0 < r \<Longrightarrow> r < 32 \<Longrightarrow> reg_val demo_regs r = 0x60"
proof -
  show "wf_gprf demo_regs" "reg_val demo_regs PC = 0"
    using wf_mkGPRF [of "replicate 33 0x60"] reg_val_mkGPRF [of "replicate 33 0x60"] by (simp_all add: demo_regs_def)
  show "0 < r \<Longrightarrow> r < 32 \<Longrightarrow> reg_val demo_regs r = 0x60"
    using unat_reg_less [of r] by (simp add: demo_regs_def reg_val_def mkGPRF_def)
qed

lemma demo_ready: "wf_instr i \<Longrightarrow> ready demo_env (exec_hart i demo_regs)"
  using exec_hart_ready demo_regs_simps by simp

section \<open>Properties\<close>

text \<open>
  C4: the integer computations of RV64I.  In every state in which it can be called, the handler of
  an addition, subtraction, logical operation or comparison, of a register shift by less than 64
  and of an immediate shift by less than 32 writes the result the architecture defines to the
  destination register, advances the program counter by four, counts the instruction, calls its
  hooks and goes on to the next slot; nothing else changes.
\<close>
theorem alu_matches_isa:
  assumes "ready E h" and "current h = Inr i" and "alu_exact (operation i) (operand2 i h)"
  shows "dispatch E h = Inr (Dispatch (retire i (jump (pc_of h + 4) (put_rd i (isa_result i h) h))))"
  using assms by (rule alu_step)

theorem alu_matches_isa_witness:
  "let i = \<lparr>rd = 3, rs1 = 1, rs2 = 0, immidiate = 0xFFF, operation = ADDI\<rparr>; h = exec_hart i demo_regs
   in dispatch demo_env h = Inr (Dispatch (retire i (jump (pc_of h + 4) (put_rd i 0x5F h))))"
proof -
  let ?i = "\<lparr>rd = 3, rs1 = 1, rs2 = 0, immidiate = 0xFFF, operation = ADDI\<rparr>"
  have "ready demo_env (exec_hart ?i demo_regs)" by (rule demo_ready) (simp add: wf_instr_def is_direct_jump_def)
  moreover have "isa_result ?i (exec_hart ?i demo_regs) = 0x5F"
    using demo_regs_simps(3) [of 1]
    by (simp add: isa_result_def operand2_def register_ops_def SignExtend_12 [symmetric] SignExtend_def)
  ultimately show ?thesis
    using alu_matches_isa [of demo_env "exec_hart ?i demo_regs" ?i] by (simp add: alu_exact_def Let_def)
qed

text \<open>
  C33: immediate shifts.  \<^verbatim>\<open>SLLI\<close>, \<^verbatim>\<open>SRLI\<close> and \<^verbatim>\<open>SRAI\<close> shift by the low five bits of the immediate, also where
  the amount of the instruction has six: the result is the architecture's exactly when the amount is
  below 32 or the shift by its low five bits already leaves zero (or, for \<^verbatim>\<open>SRAI\<close>, minus one).
\<close>
theorem immediate_shifts:
  assumes "ready E h" and "current h = Inr i" and "operation i \<in> {SLLI, SRLI, SRAI}"
  shows "let v = isa_alu (operation i) (reg_val (h_gprf h) (rs1 i)) (take_bit 5 (immidiate i))
     in dispatch E h = Inr (Dispatch (retire i (jump (pc_of h + 4) (put_rd i v h)))) \<and>
        (v = isa_result i h \<longleftrightarrow> \<not> bit (immidiate i) 5 \<or> v = 0 \<or> operation i = SRAI \<and> v = - 1)"
proof -
  have "isa_result i h = isa_alu (operation i) (reg_val (h_gprf h) (rs1 i)) (signed_take_bit 11 (immidiate i))"
    using assms(3) by (auto simp: isa_result_def operand2_def register_ops_def)
  then show ?thesis
    using imm_shift_step [OF assms] imm_shift_agree [OF assms(3), of "reg_val (h_gprf h) (rs1 i)" "immidiate i"]
    by (simp only: Let_def)
qed

theorem immediate_shifts_witness:
  "let i = \<lparr>rd = 3, rs1 = 1, rs2 = 0, immidiate = 33, operation = SLLI\<rparr>; h = exec_hart i demo_regs
   in dispatch demo_env h = Inr (Dispatch (retire i (jump (pc_of h + 4) (put_rd i 0xC0 h)))) \<and> isa_result i h \<noteq> 0xC0"
proof -
  let ?i = "\<lparr>rd = 3, rs1 = 1, rs2 = 0, immidiate = 33, operation = SLLI\<rparr>"
  have "ready demo_env (exec_hart ?i demo_regs)" by (rule demo_ready) (simp add: wf_instr_def is_direct_jump_def)
  moreover have "bit (33 :: u64) 5" "isa_alu SLLI 0x60 (take_bit 5 33) = 0xC0"
    by (simp_all add: bit_iff_odd_drop_bit drop_bit_eq_div take_bit_eq_mod low6_eq)
  ultimately show ?thesis
    using immediate_shifts [of demo_env "exec_hart ?i demo_regs" ?i] demo_regs_simps(3) [of 1] by (auto simp: Let_def)
qed

text \<open>
  C7: loads.  A load from mapped, naturally aligned memory writes the bytes found there, read as a
  little-endian number and extended to 64 bits with or without sign as the architecture says, to
  the destination register; memory contents are unchanged.
\<close>
theorem load_matches_isa:
  assumes "ready E h" and "current h = Inr i" and "operation i \<in> {LB, LH, LW, LD, LBU, LHU, LWU}"
    and "pm_area (h_mem h) (access_address i h) (access_bytes (operation i))"
  shows "\<exists>m. dispatch E h = Inr (Dispatch (retire i (jump (pc_of h + 4)
           (put_rd i (isa_load (operation i) (mem_get (access_bytes (operation i)) (access_address i h) (pm_peek (h_mem h))))
             (h\<lparr>h_mem := m\<rparr>))))) \<and> pm_peek m = pm_peek (h_mem h)"
  using assms by (rule load_step)

lemma demo_access:
  assumes "operation i \<in> {LW, SW}" and "rs1 i = 1" and "immidiate i = 4"
  shows "access_address i (exec_hart i demo_regs) = 0x64"
    and "pm_area (h_mem (exec_hart i demo_regs)) (access_address i (exec_hart i demo_regs)) (access_bytes (operation i))"
proof -
  show a: "access_address i (exec_hart i demo_regs) = 0x64"
    using demo_regs_simps(3) [of 1] assms by (simp add: access_address_def SignExtend_12 [symmetric] SignExtend_def)
  show "pm_area (h_mem (exec_hart i demo_regs)) (access_address i (exec_hart i demo_regs)) (access_bytes (operation i))"
    unfolding a using assms by (auto simp: pm_area_def demo_pm_def access_width_def)
qed

theorem load_matches_isa_witness:
  "let i = \<lparr>rd = 3, rs1 = 1, rs2 = 0, immidiate = 4, operation = LW\<rparr>; h = exec_hart i demo_regs
   in \<exists>m. dispatch demo_env h = Inr (Dispatch (retire i (jump (pc_of h + 4)
        (put_rd i (isa_load LW (mem_get 4 0x64 (\<lambda>_. 0))) (h\<lparr>h_mem := m\<rparr>)))))"
proof -
  let ?i = "\<lparr>rd = 3, rs1 = 1, rs2 = 0, immidiate = 4, operation = LW\<rparr>"
  have "ready demo_env (exec_hart ?i demo_regs)" by (rule demo_ready) (simp add: wf_instr_def is_direct_jump_def)
  then show ?thesis
    using load_matches_isa [of demo_env "exec_hart ?i demo_regs" ?i] demo_access [of ?i] demo_pm_ok(2)
    by (auto simp: Let_def simp del: mem_get_def)
qed

text \<open>
  C6: stores.  A store to mapped, naturally aligned memory changes exactly the addressed bytes, to the
  low bytes of the source register in little-endian order; no register but the program counter
  changes.
\<close>
theorem store_matches_isa:
  assumes "ready E h" and "current h = Inr i" and "operation i \<in> {SB, SH, SW, SD}"
    and "pm_area (h_mem h) (access_address i h) (access_bytes (operation i))"
  shows "\<exists>m. dispatch E h = Inr (Dispatch (retire i (jump (pc_of h + 4) (h\<lparr>h_mem := m\<rparr>)))) \<and>
           pm_peek m = mem_put (access_address i h) (le_bytes (access_bytes (operation i)) (reg_val (h_gprf h) (rs2 i)))
             (pm_peek (h_mem h))"
  using assms by (rule store_step)

theorem store_matches_isa_witness:
  "let i = \<lparr>rd = 0, rs1 = 1, rs2 = 2, immidiate = 4, operation = SW\<rparr>; h = exec_hart i demo_regs
   in \<exists>m. dispatch demo_env h = Inr (Dispatch (retire i (jump (pc_of h + 4) (h\<lparr>h_mem := m\<rparr>)))) \<and>
        pm_peek m = mem_put 0x64 (le_bytes 4 (0x60 :: u64)) (\<lambda>_. 0)"
proof -
  let ?i = "\<lparr>rd = 0, rs1 = 1, rs2 = 2, immidiate = 4, operation = SW\<rparr>"
  have "ready demo_env (exec_hart ?i demo_regs)" by (rule demo_ready) (simp add: wf_instr_def is_direct_jump_def)
  then show ?thesis
    using store_matches_isa [of demo_env "exec_hart ?i demo_regs" ?i] demo_access [of ?i] demo_pm_ok(2)
      demo_regs_simps(3) [of 2]
    by (simp add: Let_def del: le_bytes.simps)
qed

text \<open>
  C27: conditional branches.  The condition is the architecture's.  A branch not taken goes on at the
  next instruction; a taken branch adds the immediate read as a number of twelve bits, although a
  branch offset has thirteen: the target is the architecture's exactly when the two top bits of
  the offset are equal, that is for offsets from -2048 to 2047.
\<close>
theorem branch_semantics:
  assumes "ready E h" and "current h = Inr i" and "operation i \<in> {BEQ, BNE, BLT, BGE, BLTU, BGEU}"
  shows "\<exists>target. dispatch E h = Inr (Dispatch (retire i
      (jump (if isa_taken (operation i) (reg_val (h_gprf h) (rs1 i)) (reg_val (h_gprf h) (rs2 i))
             then target else pc_of h + 4) h))) \<and>
    (target = pc_of h + signed_take_bit 12 (immidiate i) \<longleftrightarrow> bit (immidiate i) 11 = bit (immidiate i) 12)"
  using branch_step [OF assms] signed_take_bit_agree [of 11 "immidiate i"]
  by (intro exI [of _ "pc_of h + signed_take_bit 11 (immidiate i)"]) simp

theorem branch_semantics_witness:
  "let i = \<lparr>rd = 0, rs1 = 1, rs2 = 2, immidiate = 0x800, operation = BEQ\<rparr>; h = exec_hart i demo_regs
   in \<exists>target. dispatch demo_env h = Inr (Dispatch (retire i (jump target h))) \<and>
        target \<noteq> pc_of h + signed_take_bit 12 0x800"
proof -
  let ?i = "\<lparr>rd = 0, rs1 = 1, rs2 = 2, immidiate = 0x800, operation = BEQ\<rparr>"
  have "ready demo_env (exec_hart ?i demo_regs)" by (rule demo_ready) (simp add: wf_instr_def is_direct_jump_def)
  moreover have "reg_val demo_regs 1 = reg_val demo_regs 2" using demo_regs_simps(3) by simp
  ultimately show ?thesis
    using branch_semantics [of demo_env "exec_hart ?i demo_regs" ?i] by (auto simp: Let_def)
qed

text \<open>
  C26: jumps.  \<^verbatim>\<open>JALR\<close> follows the architecture.  \<^verbatim>\<open>JAL\<close> links correctly, but adds the immediate read as a
  number of twenty bits, although a jump offset has twenty-one: the target is the architecture's
  exactly when the two top bits of the offset are equal.
\<close>
theorem jump_semantics:
  assumes "ready E h" and "current h = Inr i"
  shows "(operation i = JALR \<longrightarrow> dispatch E h = Inr (Dispatch (retire i
           (jump ((reg_val (h_gprf h) (rs1 i) + signed_take_bit 11 (immidiate i)) AND NOT 1) (put_rd i (pc_of h + 4) h))))) \<and>
         (operation i = JAL \<longrightarrow> (\<exists>target. dispatch E h = Inr (Dispatch (retire i (jump target (put_rd i (pc_of h + 4) h)))) \<and>
           (target = pc_of h + signed_take_bit 20 (immidiate i) \<longleftrightarrow> bit (immidiate i) 19 = bit (immidiate i) 20)))"
  using jump_step [OF assms] signed_take_bit_agree [of 19 "immidiate i"]
  by (auto intro!: exI [of _ "pc_of h + signed_take_bit 19 (immidiate i)"])

theorem jump_semantics_witness:
  "let i = \<lparr>rd = 1, rs1 = 0, rs2 = 0, immidiate = 0x80000, operation = JAL\<rparr>; h = exec_hart i demo_regs
   in \<exists>target. dispatch demo_env h = Inr (Dispatch (retire i (jump target (put_rd i (pc_of h + 4) h)))) \<and>
        target \<noteq> pc_of h + signed_take_bit 20 0x80000"
proof -
  let ?i = "\<lparr>rd = 1, rs1 = 0, rs2 = 0, immidiate = 0x80000, operation = JAL\<rparr>"
  have "ready demo_env (exec_hart ?i demo_regs)" by (rule demo_ready) (simp add: wf_instr_def)
  then show ?thesis using jump_semantics [of demo_env "exec_hart ?i demo_regs" ?i] by (auto simp: Let_def)
qed

text \<open>
  C31: 32-bit operations.  The handlers of \<^verbatim>\<open>ADDW\<close>, \<^verbatim>\<open>SUBW\<close>, \<^verbatim>\<open>ADDIW\<close> and of the left shifts \<^verbatim>\<open>SLLW\<close>,
  \<^verbatim>\<open>SLLIW\<close> by less than 32 write the right low half, but fill the upper half with zeros: the register
  holds the architecture's result exactly when bit 31 of the result is clear.
\<close>
theorem word_ops_zero_extend:
  assumes "ready E h" and "current h = Inr i"
    and "operation i \<in> {ADDW, SUBW, ADDIW} \<or> operation i \<in> {SLLW, SLLIW} \<and> operand2 i h < 32"
  shows "\<exists>v. dispatch E h = Inr (Dispatch (retire i (jump (pc_of h + 4) (put_rd i v h)))) \<and>
    v = ucast (ucast (isa_result i h) :: u32) \<and> (v = isa_result i h \<longleftrightarrow> \<not> bit (isa_result i h) 31)"
proof -
  note w = word_step [OF assms]
  have low: "ucast (scast (x :: u32) :: u64) = x" for x by (rule bit_word_eqI) (simp add: bit_ucast_iff bit_signed_iff)
  have "bit (isa_result i h) 31 = bit (wide_result i h) 31"
    by (simp add: w(2) bit_signed_iff bit_ucast_iff)
  then show ?thesis
    using w zero_extended [of "wide_result i h"] low [of "ucast (wide_result i h)"] by (auto intro!: exI)
qed

theorem word_ops_zero_extend_witness:
  "let i = \<lparr>rd = 3, rs1 = 0, rs2 = 0, immidiate = 0xFFF, operation = ADDIW\<rparr>; h = exec_hart i demo_regs
   in dispatch demo_env h = Inr (Dispatch (retire i (jump (pc_of h + 4) (put_rd i 0xFFFFFFFF h)))) \<and> isa_result i h = - 1"
proof -
  let ?i = "\<lparr>rd = 3, rs1 = 0, rs2 = 0, immidiate = 0xFFF, operation = ADDIW\<rparr>"
  have "ready demo_env (exec_hart ?i demo_regs)" by (rule demo_ready) (simp add: wf_instr_def is_direct_jump_def)
  moreover have "scast (ucast (- 1 :: u64) :: u32) = (- 1 :: u64)"
    by (rule bit_word_eqI) (simp add: bit_signed_iff bit_ucast_iff min_def)
  then have "isa_result ?i (exec_hart ?i demo_regs) = - 1"
    by (simp add: isa_result_def operand2_def register_ops_def SignExtend_12 [symmetric] SignExtend_def)
  moreover have "ucast (ucast (- 1 :: u64) :: u32) = (0xFFFFFFFF :: u64)"
    unfolding zero_extended(1) [symmetric] by (simp add: ExtractBits_def BitMask_def)
  ultimately show ?thesis
    using word_ops_zero_extend [of demo_env "exec_hart ?i demo_regs" ?i] by (simp add: Let_def)
qed

text \<open>
  C35: upper immediates.  \<^verbatim>\<open>LUI\<close> writes exactly the low twenty bits of the 32-bit immediate the decoder
  delivers, and \<^verbatim>\<open>AUIPC\<close> adds exactly these to the program counter: the value is the architecture's
  sign-extended immediate exactly when the bits from 20 on are zero.
\<close>
theorem upper_immediates_truncated:
  assumes "ready E h" and "current h = Inr i" and "operation i \<in> {LUI, AUIPC}" and "immidiate i < 2 ^ 32"
  shows "dispatch E h = Inr (Dispatch (retire i (jump (pc_of h + 4)
      (put_rd i (if operation i = LUI then take_bit 20 (immidiate i) else pc_of h + take_bit 20 (immidiate i)) h)))) \<and>
    (take_bit 20 (immidiate i) = signed_take_bit 31 (immidiate i) \<longleftrightarrow> drop_bit 20 (immidiate i) = 0)"
proof -
  have "unat (immidiate i) < 2 ^ 32" using assms(4) by (simp add: word_less_nat_alt)
  then have "take_bit 32 (unat (immidiate i)) = unat (immidiate i)" by (simp only: take_bit_nat_eq_self_iff)
  then have "take_bit 32 (immidiate i) = immidiate i"
    by (simp only: unsigned_take_bit_eq [symmetric] unsigned_word_eqI)
  then have "\<not> bit (immidiate i) k" if "32 \<le> k" for k
    using that by (metis bit_take_bit_iff not_le)
  then show ?thesis
    using assms(3) exec_facts [OF assms(1,2)] read_PC_eq [of h] upper_immediate_agree [of "immidiate i"]
    by (auto simp: exec_LUI_def exec_AUIPC_def extract20 simp del: reg_const_simps)
qed

theorem upper_immediates_truncated_witness:
  "let i = \<lparr>rd = 3, rs1 = 0, rs2 = 0, immidiate = 0x12345000, operation = LUI\<rparr>; h = exec_hart i demo_regs
   in dispatch demo_env h = Inr (Dispatch (retire i (jump (pc_of h + 4) (put_rd i 0x45000 h)))) \<and>
      0x45000 \<noteq> (signed_take_bit 31 0x12345000 :: u64)"
proof -
  let ?i = "\<lparr>rd = 3, rs1 = 0, rs2 = 0, immidiate = 0x12345000, operation = LUI\<rparr>"
  have "ready demo_env (exec_hart ?i demo_regs)" by (rule demo_ready) (simp add: wf_instr_def is_direct_jump_def)
  moreover have "drop_bit 20 (0x12345000 :: u64) \<noteq> 0" "take_bit 20 (0x12345000 :: u64) = 0x45000"
    by (simp_all add: drop_bit_eq_div take_bit_eq_mod)
  ultimately show ?thesis
    using upper_immediates_truncated [of demo_env "exec_hart ?i demo_regs" ?i] by (simp add: Let_def word_less_nat_alt)
qed

text \<open>
  Shifts by a register that holds 64 or more.  The architecture uses the low six bits of the
  amount; the handlers shift by the whole value, which is undefined in C++.
\<close>
theorem shift_out_of_range:
  assumes "ready E h" and "current h = Inr i" and "operation i \<in> {SLL, SRL, SRA, SLLW, SRLW, SRAW}"
    and "64 \<le> reg_val (h_gprf h) (rs2 i)"
  shows "dispatch E h = Inl UndefinedBehaviour"
  using assms(3,4) exec_facts [OF assms(1,2)]
  by (auto simp: exec_SLL_def exec_SRL_def exec_SRA_def exec_SLLW_def exec_SRLW_def exec_SRAW_def
      shift_left_def shift_right_def shift_right_signed_def)

theorem shift_out_of_range_witness:
  "dispatch demo_env (exec_hart \<lparr>rd = 3, rs1 = 1, rs2 = 2, immidiate = 0, operation = SLL\<rparr> demo_regs) = Inl UndefinedBehaviour"
proof -
  let ?i = "\<lparr>rd = 3, rs1 = 1, rs2 = 2, immidiate = 0, operation = SLL\<rparr>"
  have "ready demo_env (exec_hart ?i demo_regs)" by (rule demo_ready) (simp add: wf_instr_def is_direct_jump_def)
  then show ?thesis
    using shift_out_of_range [of demo_env "exec_hart ?i demo_regs" ?i] demo_regs_simps(3) [of 2] by (simp add: word_le_nat_alt)
qed

end
