(* ===== verification/DecoderRoundtrip.thy ===== *)
theory DecoderRoundtrip
  imports Decoder
begin

text \<open>
  Round trip of the decoder: the base RISC-V encodings, given as tables of function and opcode
  fields, and the instruction each encoded word has to decode to.  \<open>encode\<close> is the specification
  of the instruction formats; it is not code of the simulator.
\<close>

section \<open>The encodings\<close>

datatype asm =
    Asm_R InstructionOp "5 word" "5 word" "5 word"
  | Asm_I InstructionOp "5 word" "5 word" "12 word"
  | Asm_Shift32 InstructionOp "5 word" "5 word" "5 word"
  | Asm_Srai "5 word" "5 word" "6 word"
  | Asm_S InstructionOp "5 word" "5 word" "12 word"
  | Asm_B InstructionOp "5 word" "5 word" "13 word"
  | Asm_U InstructionOp "5 word" "20 word"
  | Asm_J InstructionOp "5 word" "21 word"
  | Asm_System InstructionOp

definition R_codes :: "(InstructionOp \<times> 7 word \<times> 3 word \<times> 7 word) list" where
  "R_codes =
     [(ADD, 0, 0, 0x33), (SUB, 0x20, 0, 0x33), (SLL, 0, 1, 0x33), (SLT, 0, 2, 0x33),
      (SLTU, 0, 3, 0x33), (XOR_op, 0, 4, 0x33), (SRL, 0, 5, 0x33), (SRA, 0x20, 5, 0x33),
      (OR_op, 0, 6, 0x33), (AND_op, 0, 7, 0x33), (ADDW, 0, 0, 0x3B), (SUBW, 0x20, 0, 0x3B),
      (SLLW, 0, 1, 0x3B), (SRLW, 0, 5, 0x3B), (SRAW, 0x20, 5, 0x3B)]"

definition I_codes :: "(InstructionOp \<times> 3 word \<times> 7 word) list" where
  "I_codes =
     [(LB, 0, 0x03), (LH, 1, 0x03), (LW, 2, 0x03), (LD, 3, 0x03), (LBU, 4, 0x03),
      (LHU, 5, 0x03), (LWU, 6, 0x03), (ADDI, 0, 0x13), (SLLI, 1, 0x13), (SLTI, 2, 0x13),
      (SLTIU, 3, 0x13), (XORI, 4, 0x13), (ORI, 6, 0x13), (ANDI, 7, 0x13), (ADDIW, 0, 0x1B),
      (SLLIW, 1, 0x1B), (JALR, 0, 0x67), (CSRRW, 1, 0x73), (CSRRS, 2, 0x73), (CSRRC, 3, 0x73),
      (CSRRWI, 5, 0x73), (CSRRSI, 6, 0x73), (CSRRCI, 7, 0x73)]"

definition Shift32_codes :: "(InstructionOp \<times> 7 word) list" where
  "Shift32_codes = [(SRLIW, 0), (SRAIW, 0x20)]"

definition S_codes :: "(InstructionOp \<times> 3 word) list" where
  "S_codes = [(SB, 0), (SH, 1), (SW, 2), (SD, 3)]"

definition B_codes :: "(InstructionOp \<times> 3 word) list" where
  "B_codes = [(BEQ, 0), (BNE, 1), (BLT, 4), (BGE, 5), (BLTU, 6), (BGEU, 7)]"

definition U_codes :: "(InstructionOp \<times> 7 word) list" where
  "U_codes = [(LUI, 0x37), (AUIPC, 0x17)]"

definition System_codes :: "(InstructionOp \<times> 12 word) list" where
  "System_codes = [(ECALL, 0), (EBREAK, 1), (SRET, 0x102), (MRET, 0x302)]"

definition enc_I :: "12 word \<Rightarrow> 5 word \<Rightarrow> 3 word \<Rightarrow> 5 word \<Rightarrow> 7 word \<Rightarrow> u32" where
  "enc_I imm r1 f3 d oc = rv_word (ucast (drop_bit 5 imm)) (ucast imm) r1 f3 d oc"

definition enc_S :: "12 word \<Rightarrow> 5 word \<Rightarrow> 5 word \<Rightarrow> 3 word \<Rightarrow> 7 word \<Rightarrow> u32" where
  "enc_S imm r2 r1 f3 oc = rv_word (ucast (drop_bit 5 imm)) r2 r1 f3 (ucast imm) oc"

text \<open>Branch offsets: bits 12 and 10:5 in the upper field, bits 4:1 and 11 in the lower one.\<close>

definition enc_B :: "13 word \<Rightarrow> 5 word \<Rightarrow> 5 word \<Rightarrow> 3 word \<Rightarrow> 7 word \<Rightarrow> u32" where
  "enc_B imm r2 r1 f3 oc =
     rv_word (push_bit 6 (ucast (drop_bit 12 imm)) OR take_bit 6 (ucast (drop_bit 5 imm))) r2 r1 f3
       (push_bit 1 (ucast (drop_bit 1 imm)) OR take_bit 1 (ucast (drop_bit 11 imm))) oc"

definition enc_U :: "20 word \<Rightarrow> 5 word \<Rightarrow> 7 word \<Rightarrow> u32" where
  "enc_U imm d oc = rv_word (ucast (drop_bit 13 imm)) (ucast (drop_bit 8 imm)) (ucast (drop_bit 3 imm))
     (ucast imm) d oc"

text \<open>Jump offsets: bits 20, 10:1, 11 and 19:12 from the top of the word down.\<close>

definition enc_J :: "21 word \<Rightarrow> 5 word \<Rightarrow> 7 word \<Rightarrow> u32" where
  "enc_J imm d oc =
     enc_U (push_bit 19 (ucast (drop_bit 20 imm)) OR push_bit 9 (take_bit 10 (ucast (drop_bit 1 imm))) OR
       push_bit 8 (take_bit 1 (ucast (drop_bit 11 imm))) OR take_bit 8 (ucast (drop_bit 12 imm))) d oc"

fun encode :: "asm \<Rightarrow> u32 option" where
  "encode (Asm_R op d r1 r2) =
     map_option (\<lambda>(f7, f3, oc). rv_word f7 r2 r1 f3 d oc) (map_of R_codes op)"
| "encode (Asm_I op d r1 imm) = map_option (\<lambda>(f3, oc). enc_I imm r1 f3 d oc) (map_of I_codes op)"
| "encode (Asm_Shift32 op d r1 sh) =
     map_option (\<lambda>f7. rv_word f7 sh r1 5 d 0x1B) (map_of Shift32_codes op)"
| "encode (Asm_Srai d r1 sh) = Some (enc_I (0x400 OR ucast sh) r1 5 d 0x13)"
| "encode (Asm_S op r1 r2 imm) = map_option (\<lambda>f3. enc_S imm r2 r1 f3 0x23) (map_of S_codes op)"
| "encode (Asm_B op r1 r2 imm) = map_option (\<lambda>f3. enc_B imm r2 r1 f3 0x63) (map_of B_codes op)"
| "encode (Asm_U op d imm) = map_option (\<lambda>oc. enc_U imm d oc) (map_of U_codes op)"
| "encode (Asm_J op d imm) = (if op = JAL then Some (enc_J imm d 0x6F) else None)"
| "encode (Asm_System op) = map_option (\<lambda>imm. enc_I imm 0 0 0 0x73) (map_of System_codes op)"

text \<open>The instruction an encoded word stands for, with unused fields as the decoder leaves them.\<close>

fun asm_instr :: "asm \<Rightarrow> Instruction" where
  "asm_instr (Asm_R op d r1 r2) =
     \<lparr>rd = ucast d, rs1 = ucast r1, rs2 = ucast r2, immidiate = IMMIDIATE_POISON, operation = op\<rparr>"
| "asm_instr (Asm_I op d r1 imm) =
     \<lparr>rd = ucast d, rs1 = ucast r1, rs2 = 0, immidiate = ucast imm, operation = op\<rparr>"
| "asm_instr (Asm_Shift32 op d r1 sh) =
     \<lparr>rd = ucast d, rs1 = ucast r1, rs2 = 0,
      immidiate = (if op = SRAIW then 0x400 OR ucast sh else ucast sh), operation = op\<rparr>"
| "asm_instr (Asm_Srai d r1 sh) =
     \<lparr>rd = ucast d, rs1 = ucast r1, rs2 = 0, immidiate = 0x400 OR ucast sh, operation = SRAI\<rparr>"
| "asm_instr (Asm_S op r1 r2 imm) =
     \<lparr>rd = 0, rs1 = ucast r1, rs2 = ucast r2, immidiate = ucast imm, operation = op\<rparr>"
| "asm_instr (Asm_B op r1 r2 imm) =
     \<lparr>rd = 0, rs1 = ucast r1, rs2 = ucast r2, immidiate = ucast imm AND NOT 1, operation = op\<rparr>"
| "asm_instr (Asm_U op d imm) =
     \<lparr>rd = ucast d, rs1 = 0, rs2 = 0, immidiate = push_bit 12 (ucast imm), operation = op\<rparr>"
| "asm_instr (Asm_J op d imm) =
     \<lparr>rd = ucast d, rs1 = 0, rs2 = 0, immidiate = ucast imm AND NOT 1, operation = op\<rparr>"
| "asm_instr (Asm_System op) =
     \<lparr>rd = 0, rs1 = 0, rs2 = 0, immidiate = ucast (the (map_of System_codes op)), operation = op\<rparr>"

section \<open>Fields of encoded words\<close>

lemma cat_I [simp]: "(word_cat (ucast (drop_bit 5 imm) :: 7 word) (ucast imm :: 5 word) :: 12 word) = imm"
  by (rule bit_word_eqI) (auto simp: bit_word_cat_iff bit_ucast_iff bit_drop_bit_eq)

lemma bit_even_part: "bit (ucast v AND NOT 1 :: u64) n \<longleftrightarrow> 0 < n \<and> n < 64 \<and> bit v n"
  by (auto simp: bit_and_iff bit_not_iff bit_ucast_iff bit_1_iff)

lemma imm_B_enc_B: "imm_B (enc_B imm r2 r1 f3 oc) = ucast imm AND NOT 1"
proof (rule bit_word_eqI)
  fix n :: nat
  consider "n = 0" | "1 \<le> n" "n < 5" | "5 \<le> n" "n < 11" | "n = 11" | "n = 12" | "13 \<le> n"
    by linarith
  then show "bit (imm_B (enc_B imm r2 r1 f3 oc)) n = bit (ucast imm AND NOT 1 :: u64) n"
    unfolding bit_imm_B bit_even_part enc_B_def bit_rv_word bit_or_iff bit_push_bit_iff
      bit_take_bit_iff bit_ucast_iff bit_drop_bit_eq comp_apply
    by cases (auto simp: bit_word_beyond)
qed

lemma enc_U_upper: "(ucast (drop_bit 12 (enc_U imm d oc)) :: u64) = ucast imm"
  by (rule bit_word_eqI)
    (auto simp: enc_U_def bit_rv_word bit_ucast_iff bit_drop_bit_eq dest: bit_imp_le_length)

lemma bit_enc_U: "12 \<le> n \<Longrightarrow> n < 32 \<Longrightarrow> bit (enc_U imm d oc) n \<longleftrightarrow> bit imm (n - 12)"
  by (auto simp: enc_U_def bit_rv_word bit_ucast_iff bit_drop_bit_eq)

lemma imm_J_enc_J: "imm_J (enc_J imm d oc) = ucast imm AND NOT 1"
proof (rule bit_word_eqI)
  fix n :: nat
  consider "n = 0" | "1 \<le> n" "n < 11" | "n = 11" | "12 \<le> n" "n < 20" | "n = 20" | "21 \<le> n"
    by linarith
  then show "bit (imm_J (enc_J imm d oc)) n = bit (ucast imm AND NOT 1 :: u64) n"
    unfolding bit_imm_J bit_even_part enc_J_def
    by cases
      (simp_all only: bit_enc_U bit_or_iff bit_push_bit_iff bit_take_bit_iff bit_ucast_iff
        bit_drop_bit_eq comp_apply, auto simp: bit_word_beyond bit_enc_U bit_or_iff
        bit_push_bit_iff bit_take_bit_iff bit_ucast_iff bit_drop_bit_eq)
qed

section \<open>Round trips, format by format\<close>

lemma parse_enc_R: "(op, f7, f3, oc) \<in> set R_codes \<Longrightarrow>
   parse (rv_word f7 r2 r1 f3 d oc) = Inr (asm_instr (Asm_R op d r1 r2))"
  by (auto simp: R_codes_def parse_format_R INSTR_WHO_nth op_R_def word_cat_eq)

lemma parse_enc_I: "(op, f3, oc) \<in> set I_codes \<Longrightarrow>
   parse (enc_I imm r1 f3 d oc) = Inr (asm_instr (Asm_I op d r1 imm))"
  by (auto simp: I_codes_def enc_I_def parse_format_I INSTR_WHO_nth)

lemma ucast_shamt:
  "(ucast (word_cat (0 :: 7 word) (sh :: 5 word) :: 12 word) :: u64) = ucast sh"
  "(ucast (word_cat (0x20 :: 7 word) (sh :: 5 word) :: 12 word) :: u64) = 0x400 OR ucast sh"
proof -
  have "(0x20 :: 7 word) = 2 ^ 5" "(0x400 :: u64) = 2 ^ 10" by simp_all
  then have b: "bit (0x20 :: 7 word) n \<longleftrightarrow> n = 5" "bit (0x400 :: u64) n \<longleftrightarrow> n = 10" for n
    by (simp_all only: bit_exp_iff) auto
  show "(ucast (word_cat (0 :: 7 word) (sh :: 5 word) :: 12 word) :: u64) = ucast sh"
    by (rule bit_word_eqI) (auto simp: bit_ucast_iff bit_word_cat_iff dest: bit_imp_le_length)
  show "(ucast (word_cat (0x20 :: 7 word) (sh :: 5 word) :: 12 word) :: u64) = 0x400 OR ucast sh"
    by (rule bit_word_eqI)
      (auto simp: bit_ucast_iff bit_word_cat_iff bit_or_iff b simp del: bit_numeral_word_iff dest: bit_imp_le_length)
qed

lemma ucast_ucast_shamt: "(ucast (ucast (sh :: 5 word) :: 12 word) :: u64) = ucast sh"
  by (rule bit_word_eqI) (auto simp: bit_ucast_iff dest: bit_imp_le_length)

lemma parse_enc_Shift32: "(op, f7) \<in> set Shift32_codes \<Longrightarrow>
   parse (rv_word f7 sh r1 5 d 0x1B) = Inr (asm_instr (Asm_Shift32 op d r1 sh))"
  by (auto simp: Shift32_codes_def parse_format_I INSTR_WHO_nth ucast_shamt ucast_ucast_shamt)

lemma ucast_srai: "(ucast (0x400 OR ucast (sh :: 6 word) :: 12 word) :: u64) = 0x400 OR ucast sh"
proof -
  have "(ucast (ucast sh :: 12 word) :: u64) = ucast sh"
    by (rule bit_word_eqI) (auto simp: bit_ucast_iff dest: bit_imp_le_length)
  then show ?thesis by (simp add: unsigned_or_eq)
qed

lemma parse_shift_right: "parse (enc_I imm r1 5 d 0x13) =
    Inr \<lparr>rd = ucast d, rs1 = ucast r1, rs2 = 0, immidiate = ucast imm, operation = SRAI\<rparr>"
  by (simp add: enc_I_def parse_format_I INSTR_WHO_nth)

lemma parse_enc_Srai: "parse (enc_I (0x400 OR ucast sh) r1 5 d 0x13) = Inr (asm_instr (Asm_Srai d r1 sh))"
  unfolding parse_shift_right by (simp only: ucast_srai asm_instr.simps)

lemma parse_enc_S: "(op, f3) \<in> set S_codes \<Longrightarrow>
   parse (enc_S imm r2 r1 f3 0x23) = Inr (asm_instr (Asm_S op r1 r2 imm))"
  by (auto simp: S_codes_def enc_S_def parse_format_S INSTR_WHO_nth)

lemma parse_enc_B: "(op, f3) \<in> set B_codes \<Longrightarrow>
   parse (enc_B imm r2 r1 f3 0x63) = Inr (asm_instr (Asm_B op r1 r2 imm))"
  using imm_B_enc_B [of imm r2 r1 f3 "0x63"] unfolding enc_B_def
  by (auto simp: B_codes_def parse_format_B INSTR_WHO_nth)

lemma parse_enc_U: "(op, oc) \<in> set U_codes \<Longrightarrow>
   parse (enc_U imm d oc) = Inr (asm_instr (Asm_U op d imm))"
  using enc_U_upper [of imm d oc] unfolding enc_U_def
  by (auto simp: U_codes_def parse_format_U INSTR_WHO_nth row_const)

lemma parse_enc_U_as_J: "parse (enc_U imm d 0x6F) =
    Inr \<lparr>rd = ucast d, rs1 = 0, rs2 = 0, immidiate = imm_J (enc_U imm d 0x6F), operation = JAL\<rparr>"
  unfolding enc_U_def by (simp add: parse_format_J INSTR_WHO_nth row_const)

lemma parse_enc_J: "parse (enc_J imm d 0x6F) = Inr (asm_instr (Asm_J JAL d imm))"
  using imm_J_enc_J [of imm d "0x6F"] by (simp add: enc_J_def parse_enc_U_as_J)

lemma parse_enc_System: "(op, imm) \<in> set System_codes \<Longrightarrow>
   parse (enc_I imm 0 0 0 0x73) = Inr (asm_instr (Asm_System op))"
  by (auto simp: System_codes_def enc_I_def parse_format_I INSTR_WHO_nth word_cat_eq)

lemma parse_encode: "encode a = Some w \<Longrightarrow> parse w = Inr (asm_instr a)"
  by (cases a)
    (auto dest!: map_of_SomeD split: if_splits
      intro: parse_enc_R parse_enc_I parse_enc_Shift32 parse_enc_Srai parse_enc_S parse_enc_B parse_enc_U
        parse_enc_J parse_enc_System
      simp del: asm_instr.simps)

section \<open>Properties\<close>

text \<open>
  C9: every word that encodes an instruction of the tables (49 operations of all seven formats,
  any registers, any immediate) decodes to exactly that instruction: the operation, the register
  numbers and the immediate, with the scattered bits of branch and jump offsets put back in place.
\<close>
theorem decode_encode: "encode a = Some w \<Longrightarrow> parse w = Inr (asm_instr a)"
  by (rule parse_encode)

theorem decode_encode_witness:
  "encode (Asm_B BGEU 5 6 0x1FF8) = Some 0xFE62FCE3 \<and>
   parse 0xFE62FCE3 = Inr \<lparr>rd = 0, rs1 = 5, rs2 = 6, immidiate = 0x1FF8, operation = BGEU\<rparr>"
proof -
  have "encode (Asm_B BGEU 5 6 0x1FF8) = Some 0xFE62FCE3"
    by (simp add: B_codes_def enc_B_def rv_word_def)
  then show ?thesis using decode_encode [of "Asm_B BGEU 5 6 0x1FF8"] by simp
qed

text \<open>
  C20: the decoder accepts every 32-bit word: no assertion in it can fail, the register numbers it
  returns name integer registers, it never returns the basic-block end marker, and the offset of a
  direct jump or branch is even.
\<close>
theorem decoder_total:
  "\<exists>i. parse w = Inr i \<and> rd i < 32 \<and> rs1 i < 32 \<and> rs2 i < 32 \<and> operation i \<noteq> BB_END \<and>
       (operation i \<in> {JAL, BEQ, BNE, BLT, BGE, BLTU, BGEU} \<longrightarrow> even (immidiate i))"
  using parse_wf [of w] by (auto simp: wf_instr_def is_direct_jump_def)

theorem decoder_total_witness:
  "\<exists>i. parse 0xFE62FCE3 = Inr i \<and> rd i < 32 \<and> operation i \<noteq> BB_END \<and>
       (operation i = BGEU \<longrightarrow> even (immidiate i))"
  using decoder_total [of "0xFE62FCE3"] by auto

text \<open>
  The two generated tables agree: the format of every cell of the operation matrix is the one
  the opcode table gives its opcode.
\<close>
theorem tables_consistent:
  "op < 128 \<and> f < 8 \<longrightarrow> cell_format (INSTR_WHO ! op ! f) = OPCODE2FORMAT ! op"
  by (simp add: INSTR_WHO_format)

theorem tables_consistent_witness:
  "cell_format (INSTR_WHO ! 0x63 ! 1) = Format_B \<and> OPCODE2FORMAT ! 0x63 = Format_B"
  using tables_consistent [of "0x63" 1] by (simp add: INSTR_WHO_nth)

text \<open>
  C40: a shift-right-immediate word decodes to the arithmetic shift whatever its upper immediate
  bits are, so the logical shift \<^verbatim>\<open>SRLI\<close> (upper bits zero) is decoded as \<^verbatim>\<open>SRAI\<close>; and a
  \<^verbatim>\<open>FENCE\<close> word (function bits zero) decodes to \<^verbatim>\<open>PAUSE\<close>, whatever its ordering bits.
\<close>
theorem decode_srli_and_fence:
  "parse (rv_word f7 sh r1 5 d 0x13) =
     Inr \<lparr>rd = ucast d, rs1 = ucast r1, rs2 = 0, immidiate = ucast (word_cat f7 sh :: 12 word),
          operation = SRAI\<rparr> \<and>
   parse (rv_word f7 sh r1 0 d 0x0F) =
     Inr \<lparr>rd = ucast d, rs1 = ucast r1, rs2 = 0, immidiate = ucast (word_cat f7 sh :: 12 word),
          operation = PAUSE\<rparr>"
  by (simp add: parse_format_I INSTR_WHO_nth)

end
