(* ===== verification/WordShifts.thy ===== *)
theory WordShifts
  imports HartSemantics DecoderRoundtrip
begin

text \<open>
  The 32-bit shifts to the right.  The architecture shifts the low half of the register; the handlers
  of \<^verbatim>\<open>src/sim/hart.cpp\<close> shift the whole register and take the low half of the result.  The lemmas say
  for which operands both give the same, and that \<^verbatim>\<open>SRAIW\<close>, the way the decoder delivers it, always
  shifts by an amount for which C++ defines no result.
\<close>

section \<open>Shifting before and after taking the low half\<close>

lemma upper_clear: "take_bit b (drop_bit 32 (a :: u64)) = 0 \<longleftrightarrow> (\<forall>k<b. \<not> bit a (32 + k))"
proof
  assume z: "take_bit b (drop_bit 32 a) = 0"
  show "\<forall>k<b. \<not> bit a (32 + k)"
  proof (intro allI impI)
    fix k
    assume "k < b"
    then have "bit a (32 + k) = bit (take_bit b (drop_bit 32 a)) k" by (simp only: bit_take_bit_iff bit_drop_bit_eq comp_apply simp_thms)
    then show "\<not> bit a (32 + k)" unfolding z by simp
  qed
next
  assume "\<forall>k<b. \<not> bit a (32 + k)"
  then show "take_bit b (drop_bit 32 a) = 0"
    by (intro bit_word_eqI) (simp only: bit_take_bit_iff bit_drop_bit_eq comp_apply bit_0_eq bot_apply bot_bool_def, blast)
qed

lemma bit_low_half: "bit (ExtractBits 32 0 (r :: u64)) k \<longleftrightarrow> k < 32 \<and> bit r k"
  by (simp add: bit_ExtractBits)

lemma bit_scast32: "bit (scast (w :: u32) :: u64) k \<longleftrightarrow> k < 64 \<and> bit w (min k 31)"
  by (auto simp: bit_signed_iff min_def)

text \<open>Two words of which the upper half of the first is clear and that of the second copies its bit 31.\<close>

lemma halves_eq:
  fixes r :: u64 and w :: u32
  shows "ExtractBits 32 0 r = scast w \<longleftrightarrow> (\<forall>k<32. bit r k = bit w k) \<and> \<not> bit w 31"
proof
  assume "ExtractBits 32 0 r = scast w"
  then have e: "(k < 32 \<and> bit r k) = (k < 64 \<and> bit w (min k 31))" for k
    using bit_low_half [of r k] bit_scast32 [of w k] by simp
  have "\<not> bit w 31" using e [of 32] by simp
  moreover have "bit r k = bit w k" if "k < 32" for k
  proof -
    have "min k 31 = k" "k < 64" using that by simp_all
    then show ?thesis using e [of k] that by simp
  qed
  ultimately show "(\<forall>k<32. bit r k = bit w k) \<and> \<not> bit w 31" by blast
next
  assume a: "(\<forall>k<32. bit r k = bit w k) \<and> \<not> bit w 31"
  show "ExtractBits 32 0 r = scast w"
  proof (rule bit_word_eqI)
    fix k :: nat
    assume "k < LENGTH(64)"
    then have k: "k < 64" by simp
    show "bit (ExtractBits 32 0 r) k = bit (scast w :: u64) k"
    proof (cases "k < 32")
      case True
      then have "min k 31 = k" by simp
      then show ?thesis using a k True by (simp add: bit_low_half bit_scast32)
    next
      case False
      then have "min k 31 = 31" by simp
      then show ?thesis using a k False by (simp add: bit_low_half bit_scast32)
    qed
  qed
qed

lemma tail_clear:
  fixes a :: u64
  assumes "b < 32"
  shows "(\<forall>k<32. bit a (b + k) = (b + k < 32 \<and> bit a (b + k))) \<longleftrightarrow> take_bit b (drop_bit 32 a) = 0"
  unfolding upper_clear
proof (rule iffI; intro allI impI)
  fix k
  assume e: "\<forall>k<32. bit a (b + k) = (b + k < 32 \<and> bit a (b + k))" and k: "k < b"
  have "32 + k - b < 32" "b + (32 + k - b) = 32 + k" using k assms by simp_all
  then show "\<not> bit a (32 + k)" using e by (metis not_add_less1)
next
  fix k :: nat
  assume n: "\<forall>k<b. \<not> bit a (32 + k)" and k: "k < 32"
  show "bit a (b + k) = (b + k < 32 \<and> bit a (b + k))"
  proof (cases "b + k < 32")
    case False
    then have "b + k - 32 < b" "32 + (b + k - 32) = b + k" using k by simp_all
    then show ?thesis using n by metis
  qed simp
qed

lemma srl_agree:
  fixes a :: u64
  assumes "b < 32"
  shows "ExtractBits 32 0 (drop_bit b a) = scast (drop_bit b (ucast a :: u32)) \<longleftrightarrow>
    take_bit b (drop_bit 32 a) = 0 \<and> (b = 0 \<longrightarrow> \<not> bit a 31)"
proof -
  have l: "bit (drop_bit b a) k = bit a (b + k)"
    and r: "bit (drop_bit b (ucast a :: u32)) k = (b + k < 32 \<and> bit a (b + k))" for k :: nat
    by (simp_all add: bit_drop_bit_eq bit_ucast_iff)
  have "bit (drop_bit b (ucast a :: u32)) 31 \<longleftrightarrow> b = 0 \<and> bit a 31" unfolding r by auto
  moreover have "(\<forall>k<32. bit (drop_bit b a) k = bit (drop_bit b (ucast a :: u32)) k) \<longleftrightarrow> take_bit b (drop_bit 32 a) = 0"
    unfolding l r by (rule tail_clear [OF assms])
  ultimately show ?thesis unfolding halves_eq by blast
qed

lemma sra_agree:
  fixes a :: u64
  assumes "b < 32"
  shows "ExtractBits 32 0 (signed_drop_bit b a) = scast (signed_drop_bit b (ucast a :: u32)) \<longleftrightarrow>
    take_bit b (drop_bit 32 a) = 0 \<and> \<not> bit a 31"
proof -
  have l: "bit (signed_drop_bit b a) k = bit a (b + k)"
    and r: "bit (signed_drop_bit b (ucast a :: u32)) k = (if b + k < 32 then bit a (b + k) else bit a 31)" if "k < 32" for k :: nat
    using that assms by (auto simp: bit_signed_drop_bit_iff bit_ucast_iff)
  have top: "bit (signed_drop_bit b (ucast a :: u32)) 31 \<longleftrightarrow> bit a 31" using r [of 31] by (cases "b = 0") simp_all
  have "(\<forall>k<32. bit (signed_drop_bit b a) k = bit (signed_drop_bit b (ucast a :: u32)) k) \<longleftrightarrow>
      (\<forall>k<32. bit a (b + k) = (b + k < 32 \<and> bit a (b + k)))" if "\<not> bit a 31"
    using l r that by auto
  then show ?thesis unfolding halves_eq top tail_clear [OF assms] by blast
qed

section \<open>The handlers\<close>

definition right_shifted :: "Instruction \<Rightarrow> Hart \<Rightarrow> u64" where
  "right_shifted i h =
     (let a = reg_val (h_gprf h) (rs1 i); b = unat (operand2 i h)
      in if operation i = SRAW then signed_drop_bit b a else drop_bit b a)"

text \<open>The operands for which shifting the whole register gives the architecture's result.\<close>

definition right_exact :: "InstructionOp \<Rightarrow> u64 \<Rightarrow> u64 \<Rightarrow> bool" where
  "right_exact x a b \<longleftrightarrow> take_bit (unat b) (drop_bit 32 a) = 0 \<and> (x = SRAW \<or> b = 0 \<longrightarrow> \<not> bit a 31)"

lemma right_dispatch:
  assumes "ready E h" and "current h = Inr i" and "operation i \<in> {SRLW, SRLIW, SRAW}"
  shows "dispatch E h =
    (if operand2 i h < 64 then Inr (Dispatch (retire i (jump (pc_of h + 4) (put_rd i (ExtractBits 32 0 (right_shifted i h)) h))))
     else Inl UndefinedBehaviour)"
  using assms(3) exec_facts [OF assms(1,2)]
  by (auto simp: exec_SRLW_def exec_SRLIW_def exec_SRAW_def shift_right_def shift_right_signed_def right_shifted_def
      operand2_def register_ops_def SignExtend_12 Unsignify_shift Let_def)

lemma right_agree:
  assumes op: "operation i \<in> {SRLW, SRLIW, SRAW}" and lt: "operand2 i h < 32"
  shows "ExtractBits 32 0 (right_shifted i h) = isa_result i h \<longleftrightarrow>
      right_exact (operation i) (reg_val (h_gprf h) (rs1 i)) (operand2 i h)"
proof -
  have u: "unat (operand2 i h) < 32" using lt by (simp add: word_less_nat_alt)
  show ?thesis
  proof (cases "operation i = SRAW")
    case True
    then show ?thesis
      using sra_agree [OF u(1)] low5_small [OF lt] by (simp add: right_shifted_def right_exact_def isa_result_def Let_def)
  next
    case False
    have "isa_result i h = scast (drop_bit (unat (operand2 i h)) (ucast (reg_val (h_gprf h) (rs1 i)) :: u32))"
      using op False low5_small [OF lt] by (auto simp: isa_result_def)
    then show ?thesis
      using False srl_agree [OF u(1)] by (simp add: right_shifted_def right_exact_def Let_def unat_eq_0)
  qed
qed

lemma right_step:
  assumes "ready E h" and "current h = Inr i" and "operation i \<in> {SRLW, SRLIW, SRAW}" and "operand2 i h < 32"
  shows "dispatch E h = Inr (Dispatch (retire i (jump (pc_of h + 4) (put_rd i (ExtractBits 32 0 (right_shifted i h)) h))))"
    and "ExtractBits 32 0 (right_shifted i h) = isa_result i h \<longleftrightarrow>
      right_exact (operation i) (reg_val (h_gprf h) (rs1 i)) (operand2 i h)"
  using right_dispatch [OF assms(1-3)] right_agree [OF assms(3,4)] assms(4) by (simp_all add: word_less_nat_alt)

lemma bit_not_less_64: "bit (w :: u64) n \<Longrightarrow> 6 \<le> n \<Longrightarrow> \<not> w < 64"
proof
  assume b: "bit w n" "6 \<le> n" and "w < 64"
  then have "unat w < 2 ^ 6" by (simp add: word_less_nat_alt)
  then have "take_bit 6 (unat w) = unat w" by (simp only: take_bit_nat_eq_self_iff)
  then have "take_bit 6 w = w" by (simp only: unsigned_take_bit_eq [symmetric] unsigned_word_eqI)
  then show False using b bit_take_bit_iff [of 6 w n] by simp
qed

lemma sraiw_amount: "\<not> signed_take_bit 11 (0x400 OR ucast (sh :: 5 word)) < (64 :: u64)"
proof (rule bit_not_less_64 [of _ 10])
  have "(0x400 :: u64) = push_bit 10 1" by (simp add: push_bit_eq_mult)
  then have "bit (0x400 :: u64) 10" by (simp only: bit_push_bit_iff bit_1_iff) simp
  then show "bit (signed_take_bit 11 (0x400 OR ucast sh) :: u64) 10" by (simp add: bit_signed_take_bit_iff bit_or_iff)
qed simp

section \<open>Properties\<close>

text \<open>
  C32: 32-bit shifts to the right.  For an amount below 64 the handlers of \<^verbatim>\<open>SRLW\<close>, \<^verbatim>\<open>SRLIW\<close> and \<^verbatim>\<open>SRAW\<close>
  shift the whole 64-bit register and write the low half of the result, zero-extended; from 64 on the
  shift is undefined.  For an amount below 32 the value is the architecture's exactly when no set bit
  of the upper half of the source is shifted into the lower half and the result is not negative: for a
  logical shift that excludes amount zero on a value with bit 31 set, for \<^verbatim>\<open>SRAW\<close> every value with bit
  31 set.
\<close>
theorem word_right_shifts:
  assumes "ready E h" and "current h = Inr i" and "operation i \<in> {SRLW, SRLIW, SRAW}"
  shows "let a = reg_val (h_gprf h) (rs1 i); b = operand2 i h;
       r = (if operation i = SRAW then signed_drop_bit (unat b) a else drop_bit (unat b) a);
       v = ucast (ucast r :: u32)
     in dispatch E h = (if b < 64 then Inr (Dispatch (retire i (jump (pc_of h + 4) (put_rd i v h)))) else Inl UndefinedBehaviour) \<and>
        (b < 32 \<longrightarrow> (v = isa_result i h \<longleftrightarrow>
           take_bit (unat b) (drop_bit 32 a) = 0 \<and> (operation i = SRAW \<or> b = 0 \<longrightarrow> \<not> bit a 31)))"
proof -
  have "ExtractBits 32 0 (right_shifted i h) = ucast (ucast (right_shifted i h) :: u32)" by (rule zero_extended)
  then show ?thesis
    using right_dispatch [OF assms] right_agree [OF assms(3), of h] unfolding right_exact_def right_shifted_def Let_def by simp
qed

theorem word_right_shifts_witness:
  "let i = \<lparr>rd = 3, rs1 = 1, rs2 = 0, immidiate = 4, operation = SRLIW\<rparr>; h = exec_hart i demo_regs
   in dispatch demo_env h = Inr (Dispatch (retire i (jump (pc_of h + 4) (put_rd i (isa_result i h) h))))"
proof -
  let ?i = "\<lparr>rd = 3, rs1 = 1, rs2 = 0, immidiate = 4, operation = SRLIW\<rparr>"
  have "ready demo_env (exec_hart ?i demo_regs)" by (rule demo_ready) (simp add: wf_instr_def is_direct_jump_def)
  moreover have "operand2 ?i (exec_hart ?i demo_regs) = 4"
    by (simp add: operand2_def register_ops_def SignExtend_12 [symmetric] SignExtend_def)
  moreover have "drop_bit 32 (0x60 :: u64) = 0" by (simp add: drop_bit_eq_div)
  ultimately show ?thesis
    using word_right_shifts [of demo_env "exec_hart ?i demo_regs" ?i] demo_regs_simps(3) [of 1]
    by (simp add: Let_def word_less_nat_alt)
qed

text \<open>
  C34: \<^verbatim>\<open>SRAIW\<close>.  The decoder leaves bit 10 of the word, which distinguishes the arithmetic from the logical
  shift, in the immediate, and the handler shifts by the whole immediate: every \<^verbatim>\<open>SRAIW\<close> shifts by 1024
  or more, for which C++ defines no result.
\<close>
theorem sraiw_undefined:
  assumes "encode (Asm_Shift32 SRAIW d r sh) = Some w" and "parse w = Inr i" and "ready E h" and "current h = Inr i"
  shows "dispatch E h = Inl UndefinedBehaviour"
proof -
  have "i = asm_instr (Asm_Shift32 SRAIW d r sh)" using parse_encode [OF assms(1)] assms(2) by simp
  then have "operation i = SRAIW" "immidiate i = 0x400 OR ucast sh" by simp_all
  then show ?thesis
    using exec_facts [OF assms(3,4)] sraiw_amount [of sh]
    by (simp add: exec_SRAIW_def SignExtend_12 shift_right_signed_def)
qed

theorem sraiw_undefined_witness:
  "parse 0x4010D19B = Inr \<lparr>rd = 3, rs1 = 1, rs2 = 0, immidiate = 0x401, operation = SRAIW\<rparr> \<and>
   dispatch demo_env (exec_hart \<lparr>rd = 3, rs1 = 1, rs2 = 0, immidiate = 0x401, operation = SRAIW\<rparr> demo_regs) = Inl UndefinedBehaviour"
proof -
  let ?i = "\<lparr>rd = 3, rs1 = 1, rs2 = 0, immidiate = 0x401, operation = SRAIW\<rparr>"
  have e: "encode (Asm_Shift32 SRAIW 3 1 1) = Some 0x4010D19B" by (simp add: Shift32_codes_def rv_word_def)
  have p: "parse 0x4010D19B = Inr ?i" using parse_encode [OF e] by simp
  have "ready demo_env (exec_hart ?i demo_regs)" by (rule demo_ready) (simp add: wf_instr_def is_direct_jump_def)
  then show ?thesis using sraiw_undefined [OF e p] p by simp
qed

end
