(* ===== verification/HartTraps.thy ===== *)
theory HartTraps
  imports HartSemantics
begin

text \<open>
  Trap entry and return: \<^verbatim>\<open>Hart::raiseException\<close>, the handlers of \<^verbatim>\<open>ECALL\<close>, \<^verbatim>\<open>MRET\<close> and of instructions
  that are refused, field by field of the control registers they change.
\<close>

section \<open>Fields of the control registers after a sequence of updates\<close>

lemma get_set_same:
  assumes "Spec f = UNCHECKED"
  shows "csr_get f (mstatus (set_mstatus f v c)) = take_bit (rank (Mask f) 64) v"
  using assms field_get_set_same [of f v] by (simp add: set_mstatus_def csr_set_eq csr_get_def accepts_def)

lemma get_set_other:
  "Mask f AND Mask g = 0 \<Longrightarrow> csr_get g (mstatus (set_mstatus f v c)) = csr_get g (mstatus c)"
  by (simp add: set_mstatus_def csr_set_eq csr_get_def field_get_set_other)

lemma get_width:
  assumes "Spec f = UNCHECKED"
  shows "take_bit (rank (Mask f) 64) (csr_get f s) = csr_get f s"
proof (rule bit_word_eqI)
  fix i :: nat
  have "i < rank (Mask f) 64" if "bit (csr_get f s) i"
    using that assms rank_less_total [of "Mask f"] by (auto simp: csr_get_def field_get_def bit_ExtractMasked)
  then show "bit (take_bit (rank (Mask f) 64) (csr_get f s)) i = bit (csr_get f s) i"
    by (auto simp: bit_take_bit_iff)
qed

lemma set_mstatus_frame [simp]:
  "privillege (set_mstatus f v c) = privillege c" "mepc (set_mstatus f v c) = mepc c"
  "mtvec (set_mstatus f v c) = mtvec c" "mcause (set_mstatus f v c) = mcause c" "mhartid (set_mstatus f v c) = mhartid c"
  by (simp_all add: set_mstatus_def)

lemma set_mcause_frame [simp]:
  "privillege (set_mcause f v c) = privillege c" "mepc (set_mcause f v c) = mepc c"
  "mtvec (set_mcause f v c) = mtvec c" "mstatus (set_mcause f v c) = mstatus c" "mhartid (set_mcause f v c) = mhartid c"
  by (simp_all add: set_mcause_def)

lemma set_mepc_frame [simp]:
  "privillege (set_mepc f v c) = privillege c" "mcause (set_mepc f v c) = mcause c"
  "mtvec (set_mepc f v c) = mtvec c" "mstatus (set_mepc f v c) = mstatus c" "mhartid (set_mepc f v c) = mhartid c"
  by (simp_all add: set_mepc_def)

lemma setPrivillege_frame [simp]:
  "privillege (setPrivillege p c) = p" "mepc (setPrivillege p c) = mepc c" "mcause (setPrivillege p c) = mcause c"
  "mtvec (setPrivillege p c) = mtvec c" "mstatus (setPrivillege p c) = mstatus c" "mhartid (setPrivillege p c) = mhartid c"
  by (simp_all add: setPrivillege_def)

lemma mepc_set_value: "csr_value (mepc (set_mepc MEPC_Value v c)) = (if v mod 4 = 0 then v else csr_value (mepc c))"
  by (simp add: set_mepc_def csr_set_eq mepc_set)

lemma mstatus_field_facts:
  assumes "masks_ok M"
  shows "Spec (MStatus_MIE M) = UNCHECKED" "Spec (MStatus_MPIE M) = UNCHECKED" "Spec (MStatus_MPP M) = UNCHECKED"
    "Mask (MStatus_MIE M) AND Mask (MStatus_MPIE M) = 0" "Mask (MStatus_MPIE M) AND Mask (MStatus_MIE M) = 0"
    "Mask (MStatus_MIE M) AND Mask (MStatus_MPP M) = 0" "Mask (MStatus_MPP M) AND Mask (MStatus_MIE M) = 0"
    "Mask (MStatus_MPIE M) AND Mask (MStatus_MPP M) = 0" "Mask (MStatus_MPP M) AND Mask (MStatus_MPIE M) = 0"
    "rank (Mask (MStatus_MIE M)) 64 = 1" "rank (Mask (MStatus_MPIE M)) 64 = 1" "rank (Mask (MStatus_MPP M)) 64 = 2"
  using assms by (simp_all add: masks_ok_def MStatus_MIE_def MStatus_MPIE_def MStatus_MPP_def and.commute)

lemma mcause_after:
  assumes "code < 2 ^ 63"
  shows "csr_value (mcause (set_mcause MCause_ExceptionCode code (set_mcause MCause_Interrupt 0 c))) = code"
proof (rule bit_word_eqI)
  fix i :: nat
  assume i: "i < LENGTH(64)"
  have m: "push_bit 63 1 - 1 = (mask 63 :: u64)" by (simp only: push_bit_of_1 exp_minus_1_eq_mask)
  have "unat code < 2 ^ 63" using assms by (simp add: word_less_nat_alt)
  then have "take_bit 63 (unat code) = unat code" by (simp only: take_bit_nat_eq_self_iff)
  then have "take_bit 63 code = code" by (simp only: unsigned_take_bit_eq [symmetric] unsigned_word_eqI)
  then have top: "\<not> bit code 63" by (metis bit_take_bit_iff less_irrefl)
  show "bit (csr_value (mcause (set_mcause MCause_ExceptionCode code (set_mcause MCause_Interrupt 0 c)))) i = bit code i"
  proof (cases "i = 63")
    case True
    then show ?thesis
      using top by (simp add: set_mcause_def csr_set_eq field_set_eq MCause_ExceptionCode_def MCause_Interrupt_def MXLEN_def m
          bit_InsertMasked bit_mask_iff bit_push_bit_iff del: push_bit_of_1 mask_numeral)
  next
    case False
    then have "i < 63" using i by simp
    then show ?thesis
      by (simp add: set_mcause_def csr_set_eq field_set_eq MCause_ExceptionCode_def MCause_Interrupt_def MXLEN_def m
          bit_InsertMasked bit_mask_iff rank_mask del: push_bit_of_1 mask_numeral)
  qed
qed

lemma exception_code_small: "exception_code ex < 2 ^ 63"
  by (cases ex) (simp_all add: word_less_nat_alt)

lemma trap_csrs_fields:
  assumes "masks_ok M" and "privillege c < 4"
  shows "csr_get (MStatus_MPIE M) (mstatus (trap_csrs M ex c)) = csr_get (MStatus_MIE M) (mstatus c)"
    and "csr_get (MStatus_MIE M) (mstatus (trap_csrs M ex c)) = 0"
    and "csr_get (MStatus_MPP M) (mstatus (trap_csrs M ex c)) = privillege c"
    and "privillege (trap_csrs M ex c) = PRIVILLEGE_MACHINE"
    and "csr_value (mcause (trap_csrs M ex c)) = exception_code ex"
    and "mepc (trap_csrs M ex c) = mepc c" "mtvec (trap_csrs M ex c) = mtvec c" "mhartid (trap_csrs M ex c) = mhartid c"
proof -
  note F = mstatus_field_facts [OF assms(1)]
  have "take_bit (Suc 0) (csr_get (MStatus_MIE M) s) = csr_get (MStatus_MIE M) s" for s
    using get_width [OF F(1), of s] F(10) by simp
  moreover have "take_bit 2 (privillege c) = privillege c"
  proof -
    have "take_bit 2 (unat (privillege c)) = unat (privillege c)"
      using assms(2) by (simp add: take_bit_nat_eq_self_iff word_less_nat_alt)
    then show ?thesis by (simp only: unsigned_take_bit_eq [symmetric] unsigned_word_eqI)
  qed
  ultimately show "csr_get (MStatus_MPIE M) (mstatus (trap_csrs M ex c)) = csr_get (MStatus_MIE M) (mstatus c)"
    "csr_get (MStatus_MIE M) (mstatus (trap_csrs M ex c)) = 0"
    "csr_get (MStatus_MPP M) (mstatus (trap_csrs M ex c)) = privillege c"
    using F by (simp_all add: trap_csrs_def Let_def get_set_same get_set_other getPrivillege_def)
  show "csr_value (mcause (trap_csrs M ex c)) = exception_code ex"
    using mcause_after [OF exception_code_small] by (simp add: trap_csrs_def Let_def)
  show "privillege (trap_csrs M ex c) = PRIVILLEGE_MACHINE"
    "mepc (trap_csrs M ex c) = mepc c" "mtvec (trap_csrs M ex c) = mtvec c" "mhartid (trap_csrs M ex c) = mhartid c"
    by (simp_all add: trap_csrs_def Let_def)
qed

text \<open>The bits of \<^verbatim>\<open>mstatus\<close> that trap entry may change.\<close>

definition trap_bits :: "mstatus_masks \<Rightarrow> RV64UDWord" where
  "trap_bits M = MSTATUS_MIE M OR MSTATUS_MPIE M OR MSTATUS_MPP M"

lemma trap_csrs_others:
  "csr_value (mstatus (trap_csrs M ex c)) AND NOT (trap_bits M) = csr_value (mstatus c) AND NOT (trap_bits M)"
  "csr_table (trap_csrs M ex c) = csr_table c"
proof -
  have keeps: "csr_value (mstatus (set_mstatus f v d)) AND NOT m = csr_value (mstatus d) AND NOT m"
    if "\<forall>i. bit (Mask f) i \<longrightarrow> bit m i" for f v d m
    using that by (intro bit_word_eqI)
      (auto simp: set_mstatus_def csr_set_eq field_set_eq bit_InsertMasked bit_and_iff bit_not_iff)
  have inside: "bit (Mask f) i \<longrightarrow> bit (trap_bits M) i" if "f \<in> {MStatus_MIE M, MStatus_MPIE M, MStatus_MPP M}" for f i
    using that by (auto simp: trap_bits_def MStatus_MIE_def MStatus_MPIE_def MStatus_MPP_def bit_or_iff)
  show "csr_value (mstatus (trap_csrs M ex c)) AND NOT (trap_bits M) = csr_value (mstatus c) AND NOT (trap_bits M)"
    using keeps [OF allI [OF inside]] by (simp add: trap_csrs_def Let_def)
  show "csr_table (trap_csrs M ex c) = csr_table c"
    by (simp add: trap_csrs_def Let_def set_mstatus_def set_mcause_def setPrivillege_def)
qed

section \<open>Trap entry\<close>

lemma mtvec_fields:
  "csr_get MTVec_Mode s = csr_value s AND 3" "csr_get MTVec_Base s = drop_bit 2 (csr_value s)"
proof -
  have "ExtractMasked 3 v = v AND 3" "ExtractMasked (NOT 3) v = drop_bit 2 v" for v :: u64
    using ExtractMasked_mask [of 2 v] ExtractMasked_not_mask [of 2 v] mtvec_masks
    by (simp_all add: take_bit_eq_mask)
  then show "csr_get MTVec_Mode s = csr_value s AND 3" "csr_get MTVec_Base s = drop_bit 2 (csr_value s)"
    by (simp_all add: csr_get_def field_get_def MTVec_Mode_def MTVec_Base_def)
qed

lemma trap_vector_eq:
  "trap_vector ex c = (csr_value (mtvec c) AND NOT 3) +
     (if csr_value (mtvec c) AND 3 = 1 then 4 * exception_code ex else 0)"
proof -
  have "drop_bit 2 v * 4 = v AND NOT 3" for v :: u64
  proof -
    have "drop_bit 2 v * 4 = push_bit 2 (drop_bit 2 v)" by (simp add: push_bit_eq_mult)
    also have "\<dots> = v AND NOT (mask 2)"
    proof (rule bit_word_eqI)
      fix n :: nat
      assume n: "n < LENGTH(64)"
      have "bit (drop_bit 2 v) (n - 2) = bit v n" if "2 \<le> n"
        using that by (simp only: bit_drop_bit_eq comp_apply le_add_diff_inverse)
      then show "bit (push_bit 2 (drop_bit 2 v)) n = bit (v AND NOT (mask 2)) n"
        using n by (auto simp: bit_push_bit_iff bit_and_iff bit_not_iff bit_mask_iff simp del: mask_numeral)
    qed
    finally show ?thesis unfolding mtvec_masks(2) .
  qed
  then show ?thesis
    by (simp add: trap_vector_def mtvec_fields VectoredMode_def distrib_right)
qed

lemma fetchBB_frame:
  assumes "fetchBB h = Inr h'"
  shows "h_gprf h' = h_gprf h" "h_csrf h' = h_csrf h" "instrsExecuted h' = instrsExecuted h" "hookManager h' = hookManager h"
    "\<exists>b. currentInstr h' = Some (b, 0)"
proof -
  have "h_gprf h' = h_gprf h \<and> h_csrf h' = h_csrf h \<and> instrsExecuted h' = instrsExecuted h \<and> hookManager h' = hookManager h \<and>
    (\<exists>b. currentInstr h' = Some (b, 0))"
  proof -
    obtain found i c where l: "lookup (reg_val (h_gprf h) PC) (bbCache h) = ((found, i), c)" by (metis surj_pair)
    show ?thesis
      using assms unfolding fetchBB_def read_PC bindE_Inr l
      by (cases found) (auto simp: assembleBB_def bindE_eq_Inr_iff Let_def)
  qed
  then show "h_gprf h' = h_gprf h" "h_csrf h' = h_csrf h" "instrsExecuted h' = instrsExecuted h" "hookManager h' = hookManager h"
    "\<exists>b. currentInstr h' = Some (b, 0)" by blast+
qed

lemma pc_of_jump: "wf_gprf (h_gprf h) \<Longrightarrow> pc_of (jump t h) = t"
  using reg_val_set_reg [of "h_gprf h" PC t PC] by (simp add: pc_of_def jump_def)

lemma raiseException_eq:
  "raiseException E ex h =
     fetchBB (jump (trap_vector ex (h_csrf h)) (h\<lparr>h_csrf := set_mepc MEPC_Value (pc_of h) (trap_csrs (env_masks E) ex (h_csrf h))\<rparr>))"
proof -
  have "mtvec (trap_csrs M ex c) = mtvec c" for M c by (simp add: trap_csrs_def Let_def)
  then have "trap_vector ex (trap_csrs M ex c) = trap_vector ex c" for M c by (simp add: trap_vector_def)
  then show ?thesis unfolding raiseException_def Let_def read_PC_eq bindE_Inr write_PC_eq by simp
qed

lemma raiseException_result:
  assumes "raiseException E ex h = Inr h'" and "wf_gprf (h_gprf h)"
  shows "h_csrf h' = set_mepc MEPC_Value (pc_of h) (trap_csrs (env_masks E) ex (h_csrf h))"
    and "pc_of h' = trap_vector ex (h_csrf h)" and "\<exists>b. currentInstr h' = Some (b, 0)"
    and "r < 32 \<Longrightarrow> reg_val (h_gprf h') r = reg_val (h_gprf h) r" and "instrsExecuted h' = instrsExecuted h"
proof -
  note f = fetchBB_frame [OF assms(1) [unfolded raiseException_eq]]
  show "h_csrf h' = set_mepc MEPC_Value (pc_of h) (trap_csrs (env_masks E) ex (h_csrf h))"
    using f(2) by (simp add: jump_def)
  show "\<exists>b. currentInstr h' = Some (b, 0)" by (rule f(5))
  show "pc_of h' = trap_vector ex (h_csrf h)"
    using f(1) pc_of_jump [of "h\<lparr>h_csrf := c\<rparr>" for c] assms(2) by (simp add: pc_of_def)
  show "reg_val (h_gprf h') r = reg_val (h_gprf h) r" if "r < 32"
    using that f(1) reg_val_set_reg [OF assms(2), of PC _ r] by (auto simp: jump_def)
  show "instrsExecuted h' = instrsExecuted h" using f(3) by (simp add: jump_def)
qed

section \<open>Return from a trap\<close>

lemma mret_csrs_fields:
  assumes "masks_ok M"
  shows "privillege (mret_csrs M c) = csr_get (MStatus_MPP M) (mstatus c)"
    and "csr_get (MStatus_MIE M) (mstatus (mret_csrs M c)) = csr_get (MStatus_MPIE M) (mstatus c)"
    and "csr_get (MStatus_MPIE M) (mstatus (mret_csrs M c)) = 1"
    and "csr_get (MStatus_MPP M) (mstatus (mret_csrs M c)) = PRIVILLEGE_USER"
    and "mepc (mret_csrs M c) = mepc c" "mcause (mret_csrs M c) = mcause c" "mtvec (mret_csrs M c) = mtvec c"
proof -
  note F = mstatus_field_facts [OF assms]
  have "take_bit (Suc 0) (csr_get (MStatus_MPIE M) s) = csr_get (MStatus_MPIE M) s" for s
    using get_width [OF F(2), of s] F(11) by simp
  then show "csr_get (MStatus_MIE M) (mstatus (mret_csrs M c)) = csr_get (MStatus_MPIE M) (mstatus c)"
    "csr_get (MStatus_MPIE M) (mstatus (mret_csrs M c)) = 1"
    "csr_get (MStatus_MPP M) (mstatus (mret_csrs M c)) = PRIVILLEGE_USER"
    using F by (simp_all add: mret_csrs_def Let_def get_set_same get_set_other PRIVILLEGE_USER_def)
  show "privillege (mret_csrs M c) = csr_get (MStatus_MPP M) (mstatus c)"
    "mepc (mret_csrs M c) = mepc c" "mcause (mret_csrs M c) = mcause c" "mtvec (mret_csrs M c) = mtvec c"
    by (simp_all add: mret_csrs_def Let_def)
qed

lemma mret_step:
  assumes "ready E h" and "current h = Inr i" and "operation i = MRET" and "privillege (h_csrf h) = PRIVILLEGE_MACHINE"
  shows "dispatch E h = Inr (Dispatch (retire i
    (jump (csr_value (mepc (h_csrf h))) (h\<lparr>h_csrf := mret_csrs (env_masks E) (h_csrf h)\<rparr>))))"
proof -
  let ?h = "h\<lparr>h_csrf := mret_csrs (env_masks E) (h_csrf h)\<rparr>"
  have "csr_get MEPC_Value (mepc (mret_csrs M c)) = csr_value (mepc c)" for M c
    by (simp add: csr_get_def field_get_def MEPC_Value_def mret_csrs_def Let_def)
  moreover have "current (jump t ?h) = Inr i" for t using assms(2) by simp
  ultimately show ?thesis
    using exec_facts(1) [OF assms(1,2)] assms(3,4) execNextInstr_eq
    by (simp add: exec_MRET_def getPrivillege_def write_PC_eq del: reg_const_simps)
qed

section \<open>Instructions that trap\<close>

definition ecall_cause :: "RV64UDWord \<Rightarrow> ExceptionId" where
  "ecall_cause p = (if p = 0 then EXCEPTION_ECALL_UMODE else if p = 1 then EXCEPTION_ECALL_SMODE else EXCEPTION_ECALL_MMODE)"

lemma ecall_step:
  assumes "ready E h" and "current h = Inr i" and "operation i = ECALL" and "privillege (h_csrf h) \<in> {0, 1, 3}"
  shows "dispatch E h = bindE (raiseException E (ecall_cause (privillege (h_csrf h))) h) execNextInstr"
  using exec_facts(1) [OF assms(1,2)] assms(3,4)
  by (auto simp: exec_ECALL_def getPrivillege_def ecall_cause_def PRIVILLEGE_USER_def PRIVILLEGE_SUPERVISOR_def PRIVILLEGE_MACHINE_def)

lemma after_raise:
  assumes "ready E h" and "raiseException E ex h = Inr h1"
  shows "\<exists>b i1. currentInstr h1 = Some (b, 0) \<and> current h1 = Inr i1 \<and> ready E h1 \<and>
    execNextInstr h1 = Inr (Dispatch (retire i1 h1)) \<and> currentInstr (retire i1 h1) = Some (b, 1) \<and>
    pc_of (retire i1 h1) = trap_vector ex (h_csrf h)"
proof -
  have r: "ready E h1" using validD [OF raiseException_ok [OF assms(1)] assms(2)] .
  obtain i1 where i1: "current h1 = Inr i1" using current_ready [OF r] by blast
  obtain b where b: "currentInstr h1 = Some (b, 0)" using raiseException_result(3) [OF assms(2) ready_gprf [OF assms(1)]] by blast
  have "pc_of (retire i1 h1) = pc_of h1" by (simp add: pc_of_def retire_def)
  then show ?thesis
    using r i1 b execNextInstr_eq [OF i1] raiseException_result(2) [OF assms(2) ready_gprf [OF assms(1)]]
    by (auto simp: retire_def)
qed

text \<open>A block that was just fetched is found again: the cache answers the same address with the same block.\<close>

lemma lookup_resident:
  assumes "cache_ok c" and "pc \<noteq> 1" and "i < 1024" "i div 8 = unat (bb_hash pc)" "bb_pc (bbs c ! i) = pc"
  shows "lookup pc c = ((True, i), c)"
proof -
  have i: "8 * (i div 8) + i mod 8 = i" by simp
  then have "way_pc c (unat (bb_hash pc)) (i mod 8) = pc" using assms(4,5) by (simp add: way_pc_def)
  then have "find (\<lambda>w. way_pc c (unat (bb_hash pc)) w = pc) [0 ..< 8] = Some (i mod 8)"
    using hit_way_iff [OF assms(1,2), of "i mod 8"] by (simp add: hit_way_def del: upt_rec_numeral)
  then show ?thesis using i assms(4) by (simp add: lookup_eq [OF cache_okD [OF assms(1)]] del: upt_rec_numeral)
qed

lemma fetchBB_resident:
  assumes core: "core_ok E h" and f: "fetchBB h = Inr h1" and b: "currentInstr h1 = Some (b, k)"
  shows "lookup (pc_of h1) (bbCache h1) = ((True, b), bbCache h1)"
proof -
  let ?pc = "reg_val (h_gprf h) PC"
  have core1: "core_ok E h1" using validD [OF fetchBB_core [OF core] f] by (rule ready_core)
  have pc: "?pc \<noteq> 1" "pc_of h1 = ?pc" using core fetchBB_frame(1) [OF f] by (auto simp: core_ok_def pc_of_def)
  have cache: "cache_ok (bbCache h)" "cache_shape (bbCache h)" "blocks_ok (bbCache h)" "length (bbs (bbCache h)) = 1024"
    using core by (auto simp: core_ok_def cache_ok_def cache_shape_def)
  obtain found i c where l: "lookup ?pc (bbCache h) = ((found, i), c)" by (metis surj_pair)
  note slot = lookup_slot [OF cache(2) l]
  have "b = i \<and> bb_pc (bbs (bbCache h1) ! i) = ?pc"
  proof (cases found)
    case True
    then show ?thesis
      using f b slot(3,4) l by (auto simp: fetchBB_def read_PC bindE_eq_Inr_iff Let_def simp del: reg_const_simps)
  next
    case False
    then obtain bb p pm where a: "assemble_loop kCapacity (mkBasicBlockRebuilder (bbs c ! i) ?pc) ?pc (prefetcher h) (h_mem h) = Inr (bb, p, pm)"
        and h1: "bbCache h1 = set_bb i bb c" "b = i"
      using f b l by (auto simp: fetchBB_def read_PC assembleBB_def bindE_eq_Inr_iff Let_def simp del: reg_const_simps)
    have "bbs c ! i \<in> set (bbs (bbCache h))" using slot(1,3) cache(4) by simp
    then have "partial_block (mkBasicBlockRebuilder (bbs c ! i) ?pc)"
      using cache(3) by (intro partial_block_init) (simp add: blocks_ok_def)
    then have "bb_pc bb = ?pc"
      using assemble_loop_ok [OF a, of "env_os E"] core by (simp add: core_ok_def mkBasicBlockRebuilder_def)
    then show ?thesis using h1 slot(1,3) cache(4) by (simp add: set_bb_def)
  qed
  moreover have "cache_ok (bbCache h1)" using core1 by (simp add: core_ok_def)
  ultimately show ?thesis using lookup_resident slot(1,2) pc by simp
qed

text \<open>Dispatching the end marker of the block just fetched makes its first instruction current again.\<close>

lemma refetch:
  assumes "lookup (pc_of h) (bbCache h) = ((True, b), bbCache h)"
  shows "\<exists>h'. exec_BB_END E h = Inr (Dispatch h') \<and> currentInstr h' = Some (b, 0) \<and> bbCache h' = bbCache h \<and>
    h_gprf h' = h_gprf h \<and> instrsExecuted h' = instrsExecuted h"
proof -
  obtain calls where "triggerBBFetchHook (bbs (bbCache h) ! b) (hookManager h) = Inr calls" using trigger_total by blast
  then show ?thesis
    using assms by (simp add: exec_BB_END_def fetchBB_def read_PC pc_of_def del: reg_const_simps)
qed

lemma raised_resident:
  assumes "ready E h" and "raiseException E ex h = Inr h1" and "currentInstr h1 = Some (b, k)"
  shows "lookup (pc_of h1) (bbCache h1) = ((True, b), bbCache h1)"
proof -
  let ?c = "set_mepc MEPC_Value (pc_of h) (trap_csrs (env_masks E) ex (h_csrf h))"
  let ?j = "jump (trap_vector ex (h_csrf h)) (h\<lparr>h_csrf := ?c\<rparr>)"
  have ok: "csrf_ok (env_masks E) (h_csrf h)" using assms(1) by (simp add: ready_def core_ok_def)
  then have r1: "ready E (h\<lparr>h_csrf := ?c\<rparr>)" using ready_csrf [OF assms(1)] csrf_ok_set_mepc csrf_ok_trap by simp
  have "even (trap_vector ex (h_csrf h))" by (simp add: trap_vector_def)
  then have "ready E ?j"
    using write_PC_ready [OF r1, of "trap_vector ex (h_csrf h)"] write_PC_eq [of _ "h\<lparr>h_csrf := ?c\<rparr>"] by (simp add: valid_def)
  then show ?thesis
    using fetchBB_resident [of E ?j h1 b k] assms(2,3) by (simp add: ready_def raiseException_eq)
qed

section \<open>Which handlers return\<close>

definition calls_on :: "outcome \<Rightarrow> bool" where
  "calls_on r \<longleftrightarrow> (\<exists>h. r = Dispatch h)"

lemma valid_case_prod: "(\<And>a b. x = (a, b) \<Longrightarrow> valid P (f a b)) \<Longrightarrow> valid P (case_prod f x)"
  by (cases x) simp

lemma calls_on_ends:
  "valid calls_on (execNextInstr h)" "valid calls_on (advance h)" "valid calls_on (finish i v h)"
  "valid calls_on (branch_to t a h)" "valid calls_on (csr_status E i st h)"
proof -
  show next_calls: "valid calls_on (execNextInstr h)" for h
    by (auto simp: valid_def execNextInstr_def Let_def bindE_eq_Inr_iff calls_on_def)
  show "valid calls_on (advance h)" "valid calls_on (finish i v h)" "valid calls_on (branch_to t a h)"
    "valid calls_on (csr_status E i st h)"
    unfolding finish_def advance_def branch_to_def csr_status_def by (rule valid_bind_any next_calls)+
qed

lemma calls_on_Dispatch: "valid calls_on (Inr (Dispatch h))"
  by (simp add: valid_def calls_on_def)

lemmas calls_on_rules = valid_if calls_on_ends calls_on_Dispatch valid_Inl valid_case_prod valid_bind_any

lemma handlers_call_on:
  "valid calls_on (exec_BB_END E h)" "valid calls_on (exec_ADDI E h)" "valid calls_on (exec_SLTI E h)"
  "valid calls_on (exec_SLTIU E h)" "valid calls_on (exec_ORI E h)" "valid calls_on (exec_ANDI E h)"
  "valid calls_on (exec_XORI E h)" "valid calls_on (exec_SLLI E h)" "valid calls_on (exec_SRLI E h)"
  "valid calls_on (exec_SRAI E h)" "valid calls_on (exec_LUI E h)" "valid calls_on (exec_AUIPC E h)"
  "valid calls_on (exec_ADD E h)" "valid calls_on (exec_SLT E h)" "valid calls_on (exec_SLTU E h)"
  "valid calls_on (exec_AND E h)" "valid calls_on (exec_OR E h)" "valid calls_on (exec_XOR E h)"
  "valid calls_on (exec_SLL E h)" "valid calls_on (exec_SRL E h)" "valid calls_on (exec_SUB E h)"
  "valid calls_on (exec_SRA E h)" "valid calls_on (exec_JAL E h)" "valid calls_on (exec_JALR E h)"
  "valid calls_on (exec_BEQ E h)" "valid calls_on (exec_BNE E h)" "valid calls_on (exec_BLT E h)"
  "valid calls_on (exec_BLTU E h)" "valid calls_on (exec_BGE E h)" "valid calls_on (exec_BGEU E h)"
  "valid calls_on (exec_LB E h)" "valid calls_on (exec_LH E h)" "valid calls_on (exec_LW E h)"
  "valid calls_on (exec_LD E h)" "valid calls_on (exec_LBU E h)" "valid calls_on (exec_LHU E h)"
  "valid calls_on (exec_LWU E h)" "valid calls_on (exec_SB E h)" "valid calls_on (exec_SH E h)"
  "valid calls_on (exec_SW E h)" "valid calls_on (exec_SD E h)" "valid calls_on (exec_FENCE E h)"
  "valid calls_on (exec_FENCE_TSO E h)" "valid calls_on (exec_PAUSE E h)" "valid calls_on (exec_ECALL E h)"
  "valid calls_on (exec_ADDIW E h)" "valid calls_on (exec_SLLIW E h)" "valid calls_on (exec_SRLIW E h)"
  "valid calls_on (exec_SRAIW E h)" "valid calls_on (exec_ADDW E h)" "valid calls_on (exec_SUBW E h)"
  "valid calls_on (exec_SLLW E h)" "valid calls_on (exec_SRLW E h)" "valid calls_on (exec_SRAW E h)"
  "valid calls_on (exec_MRET E h)" "valid calls_on (exec_SRET E h)" "valid calls_on (exec_CSRRW E h)"
  "valid calls_on (exec_CSRRS E h)" "valid calls_on (exec_CSRRC E h)" "valid calls_on (exec_CSRRWI E h)"
  "valid calls_on (exec_CSRRSI E h)" "valid calls_on (exec_CSRRCI E h)"
  unfolding
    exec_BB_END_def exec_ADDI_def exec_SLTI_def exec_SLTIU_def exec_ORI_def exec_ANDI_def exec_XORI_def
    exec_SLLI_def exec_SRLI_def exec_SRAI_def exec_LUI_def exec_AUIPC_def exec_ADD_def exec_SLT_def exec_SLTU_def
    exec_AND_def exec_OR_def exec_XOR_def exec_SLL_def exec_SRL_def exec_SUB_def exec_SRA_def exec_JAL_def
    exec_JALR_def exec_BEQ_def exec_BNE_def exec_BLT_def exec_BLTU_def exec_BGE_def exec_BGEU_def exec_LB_def
    exec_LH_def exec_LW_def exec_LD_def exec_LBU_def exec_LHU_def exec_LWU_def exec_SB_def exec_SH_def exec_SW_def
    exec_SD_def exec_FENCE_def exec_FENCE_TSO_def exec_PAUSE_def exec_ECALL_def exec_ADDIW_def exec_SLLIW_def
    exec_SRLIW_def exec_SRAIW_def exec_ADDW_def exec_SUBW_def exec_SLLW_def exec_SRLW_def exec_SRAW_def
    exec_MRET_def exec_SRET_def exec_CSRRW_def exec_CSRRS_def exec_CSRRC_def exec_CSRRWI_def exec_CSRRSI_def
    exec_CSRRCI_def
    Let_def
  by (rule calls_on_rules)+

lemma handler_calls_on: "x \<noteq> EBREAK \<Longrightarrow> x \<noteq> INV_OP \<Longrightarrow> valid calls_on (handler x E h)"
  using handlers_call_on [of E h] by (cases x) simp_all

lemma return_only_at:
  assumes "current h = Inr i" and "dispatch E h = Inr (Return h')"
  shows "operation i = EBREAK \<or> operation i = INV_OP"
proof (rule ccontr)
  assume "\<not> ?thesis"
  then have "valid calls_on (dispatch E h)" using handler_calls_on dispatch_eq [OF assms(1)] by metis
  then show False using assms(2) by (auto simp: valid_def calls_on_def)
qed

section \<open>A concrete trap\<close>

lemma fetchBB_total:
  assumes "core_ok E h" and "whole_pages (h_mem h)" and "pf_ok (h_mem h) (prefetcher h)"
    and "code_area (h_mem h) (pc_of h) 7"
  shows "\<exists>h'. fetchBB h = Inr h'"
proof (cases "content (pc_of h) (bbCache h)")
  case None
  then show ?thesis using fetchBB_miss [OF assms(1-3) _ assms(4)] unfolding pc_of_def by blast
next
  case (Some code)
  then show ?thesis using fetchBB_hit unfolding pc_of_def by blast
qed

lemma demo_csrs:
  "csr_value (mtvec (h_csrf demo_hart)) = 0" "csr_value (mhartid (h_csrf demo_hart)) = 0"
  "privillege (h_csrf demo_hart) = 3" "csr_value (mepc (h_csrf demo_hart)) = 0"
  using mkCSRF_value [of Ref_mtvec standard_masks "\<lambda>_. 0"] mkCSRF_value [of Ref_mhartid standard_masks "\<lambda>_. 0"] mkCSRF_value [of Ref_mepc standard_masks "\<lambda>_. 0"]
  by (simp_all add: demo_hart_def mkHart_def mkCSRF_def PRIVILLEGE_MACHINE_def)

lemma demo_counter: "instrsExecuted (exec_hart i g) = 0"
  by (simp add: exec_hart_def demo_hart_def mkHart_def)

lemma demo_raise:
  assumes "wf_instr i"
  shows "\<exists>h1. raiseException demo_env ex (exec_hart i demo_regs) = Inr h1"
proof -
  let ?h = "exec_hart i demo_regs"
  let ?c = "set_mepc MEPC_Value (pc_of ?h) (trap_csrs standard_masks ex (h_csrf ?h))"
  let ?j = "jump (trap_vector ex (h_csrf ?h)) (?h\<lparr>h_csrf := ?c\<rparr>)"
  have r: "ready demo_env ?h" using demo_ready [OF assms] .
  then have "csrf_ok standard_masks ?c" using csrf_ok_set_mepc csrf_ok_trap by (simp add: ready_def core_ok_def)
  then have r1: "ready demo_env (?h\<lparr>h_csrf := ?c\<rparr>)" using ready_csrf [OF r] by simp
  have v: "trap_vector ex (h_csrf ?h) = 0" by (simp add: trap_vector_eq demo_csrs)
  have "ready demo_env ?j"
    using write_PC_ready [OF r1, of 0] write_PC_eq [of 0 "?h\<lparr>h_csrf := ?c\<rparr>"] unfolding v by (simp add: valid_def)
  then have "core_ok demo_env ?j" by (simp add: ready_def)
  moreover have "h_mem ?j = demo_pm" "prefetcher ?j = mkPrefetcher"
    by (simp_all add: jump_def exec_hart_def demo_hart_simps)
  moreover have "pc_of ?j = 0" unfolding v by (rule pc_of_jump) (simp add: demo_regs_simps)
  ultimately show ?thesis
    using fetchBB_total [of demo_env ?j] demo_pm_ok(3) pf_ok_mk demo_code_area unfolding raiseException_eq by simp
qed

text \<open>The run of the demonstration hart: the zeroed word at address zero is no instruction.\<close>

lemma parse_zero: "\<exists>i. parse 0 = Inr i \<and> operation i = INV_OP"
  by (simp add: parse_def Let_def ExtractBits_def INSTR_WHO_def INSTR_WHO_rows illegal_row_def word_less_nat_alt)

lemma demo_run: "\<exists>h'. run demo_env demo_hart = Some (Inr h')"
proof -
  have core: "core_ok demo_env demo_hart" by (rule fresh_core [OF demo_hart_fresh])
  obtain h b n where h: "fetchBB demo_hart = Inr h" "currentInstr h = Some (b, 0)" "block_end (bbs (bbCache h) ! b) n"
      "\<forall>k<n. code_at demo_pm (0 + of_nat (4 * k)) = Inr (instrs (bbs (bbCache h) ! b) ! k)"
      "same_memory demo_pm (h_mem h)" "pf_ok (h_mem h) (prefetcher h)" "ready demo_env h" "h_csrf h = h_csrf demo_hart"
    using fetchBB_miss [OF core _ _ demo_hart_simps(3) _ demo_hart_simps(4)]
      demo_pm_ok(3) pf_ok_mk demo_code_area unfolding demo_hart_simps by blast
  have r: "reachable demo_env demo_hart h" using h(1) by (intro reachable_start) (simp add: exec_BB_END_def)
  have bl: "b < length (bbs (bbCache h))" using h(2,7) by (auto simp: ready_def within_def)
  have "current h = Inr (instrs (bbs (bbCache h) ! b) ! 0)" using current_at [OF h(2) bl h(3)] by simp
  moreover have "code_at demo_pm 0 = Inr (instrs (bbs (bbCache h) ! b) ! 0)"
    using h(3,4) by (auto simp: block_end_def dest: spec [of _ 0])
  moreover have "code_at demo_pm 0 = parse 0" by (simp add: code_at_def demo_pm_ok(2) mem_get_def numeral_eq_Suc)
  ultimately obtain i where i: "current h = Inr i" "operation i = INV_OP" using parse_zero by auto
  let ?c = "set_mepc MEPC_Value (pc_of h) (trap_csrs standard_masks EXCEPTION_ILLEGAL_INSTR (h_csrf h))"
  let ?j = "jump (trap_vector EXCEPTION_ILLEGAL_INSTR (h_csrf h)) (h\<lparr>h_csrf := ?c\<rparr>)"
  have "csrf_ok standard_masks ?c" using h(7) csrf_ok_set_mepc csrf_ok_trap by (simp add: ready_def core_ok_def)
  then have r1: "ready demo_env (h\<lparr>h_csrf := ?c\<rparr>)" using ready_csrf [OF h(7)] by simp
  have v: "trap_vector EXCEPTION_ILLEGAL_INSTR (h_csrf h) = 0" by (simp add: trap_vector_eq h(8) demo_csrs)
  have "ready demo_env ?j"
    using write_PC_ready [OF r1, of 0] write_PC_eq [of 0 "h\<lparr>h_csrf := ?c\<rparr>"] unfolding v by (simp add: valid_def)
  moreover have "pc_of ?j = 0" unfolding v by (rule pc_of_jump) (simp add: ready_gprf [OF h(7)])
  moreover have "h_mem ?j = h_mem h" "prefetcher ?j = prefetcher h" by (simp_all add: jump_def)
  ultimately obtain h' where "fetchBB ?j = Inr h'"
    using fetchBB_total [of demo_env ?j] same_memory_transfer [OF h(5)] demo_pm_ok(3) h(6) demo_code_area ready_core by auto
  then have "dispatch demo_env h = Inr (Return h')"
    using dispatch_eq [OF i(1)] i(2) by (simp add: exec_INV_OP_def raiseIllegalInstruction_def raiseException_eq)
  then show ?thesis using ends_run [of demo_env demo_hart "Inr h'"] r by (auto simp: ends_def)
qed

section \<open>Properties\<close>

text \<open>
  C5: trap entry.  Raising an exception switches to machine mode, saves the interrupt-enable bit and
  the privilege it leaves in \<^verbatim>\<open>mstatus\<close>, disables interrupts, puts exactly the exception's number
  into \<^verbatim>\<open>mcause\<close> and, when it is a multiple of four, the program counter into \<^verbatim>\<open>mepc\<close>.  Every bit of
  \<^verbatim>\<open>mstatus\<close> outside the fields \<^verbatim>\<open>MIE\<close>, \<^verbatim>\<open>MPIE\<close> and \<^verbatim>\<open>MPP\<close>, the registers \<^verbatim>\<open>mtvec\<close> and \<^verbatim>\<open>mhartid\<close>, the
  integer registers and the count of instructions stay as they were.  Execution goes on
  at the base of \<^verbatim>\<open>mtvec\<close>, in vectored mode at the entry of the exception (also for these synchronous
  exceptions, which the architecture sends to the base).
\<close>
theorem trap_entry:
  assumes "raiseException E ex h = Inr h'" and "wf_gprf (h_gprf h)" and "masks_ok (env_masks E)" and "privillege (h_csrf h) < 4"
  shows "let M = env_masks E; c = h_csrf h; c' = h_csrf h' in
     privillege c' = PRIVILLEGE_MACHINE \<and>
     csr_get (MStatus_MPIE M) (mstatus c') = csr_get (MStatus_MIE M) (mstatus c) \<and>
     csr_get (MStatus_MIE M) (mstatus c') = 0 \<and>
     csr_get (MStatus_MPP M) (mstatus c') = privillege c \<and>
     csr_value (mcause c') = exception_code ex \<and>
     csr_value (mepc c') = (if pc_of h mod 4 = 0 then pc_of h else csr_value (mepc c)) \<and>
     csr_value (mstatus c') AND NOT (trap_bits M) = csr_value (mstatus c) AND NOT (trap_bits M) \<and>
     mtvec c' = mtvec c \<and> mhartid c' = mhartid c \<and> csr_table c' = csr_table c \<and>
     (\<forall>r<32. reg_val (h_gprf h') r = reg_val (h_gprf h) r) \<and> instrsExecuted h' = instrsExecuted h \<and>
     pc_of h' = (csr_value (mtvec c) AND NOT 3) + (if csr_value (mtvec c) AND 3 = 1 then 4 * exception_code ex else 0)"
proof -
  have "csr_table (set_mepc f v c) = csr_table c" for f v c by (simp add: set_mepc_def)
  then show ?thesis
    using raiseException_result [OF assms(1,2)] trap_csrs_fields [OF assms(3,4), of ex] trap_csrs_others [of "env_masks E" ex]
    by (simp add: Let_def mepc_set_value trap_vector_eq)
qed

theorem trap_entry_witness:
  "\<exists>h'. raiseException demo_env EXCEPTION_ILLEGAL_INSTR (exec_hart blank_instr demo_regs) = Inr h' \<and>
     csr_value (mcause (h_csrf h')) = 2 \<and> pc_of h' = 0"
proof -
  have "wf_instr blank_instr" by (simp add: wf_instr_def blank_instr_def is_direct_jump_def)
  then obtain h' where "raiseException demo_env EXCEPTION_ILLEGAL_INSTR (exec_hart blank_instr demo_regs) = Inr h'"
    using demo_raise by blast
  then show ?thesis
    using trap_entry [of demo_env EXCEPTION_ILLEGAL_INSTR "exec_hart blank_instr demo_regs" h'] masks_ok_standard demo_regs_simps(1)
    by (simp add: demo_csrs Let_def word_less_nat_alt)
qed

text \<open>
  C17: return from a trap.  When a state with the control registers of trap entry executes \<^verbatim>\<open>MRET\<close>, it goes
  on at the instruction that was interrupted, in the privilege mode and with the interrupt-enable
  bit from before the trap.
\<close>
theorem trap_return:
  assumes "raiseException E ex h = Inr h1" and "wf_gprf (h_gprf h)" and "masks_ok (env_masks E)" and "privillege (h_csrf h) < 4"
    and "pc_of h mod 4 = 0"
    and "ready E h2" and "h_csrf h2 = h_csrf h1" and "current h2 = Inr i" and "operation i = MRET"
  shows "\<exists>h3. dispatch E h2 = Inr (Dispatch h3) \<and> pc_of h3 = pc_of h \<and>
     privillege (h_csrf h3) = privillege (h_csrf h) \<and>
     csr_get (MStatus_MIE (env_masks E)) (mstatus (h_csrf h3)) = csr_get (MStatus_MIE (env_masks E)) (mstatus (h_csrf h))"
proof -
  note c = raiseException_result(1) [OF assms(1,2)] and t = trap_csrs_fields [OF assms(3,4), of ex]
  have "privillege (h_csrf h2) = PRIVILLEGE_MACHINE" using assms(7) c t(4) by simp
  note d = mret_step [OF assms(6,8,9) this]
  have "csr_value (mepc (h_csrf h2)) = pc_of h" using assms(5,7) c by (simp add: mepc_set_value)
  moreover have "pc_of (retire i (jump x s)) = x" if "wf_gprf (h_gprf s)" for x s
    using pc_of_jump [OF that, of x] by (simp add: pc_of_def retire_def)
  moreover have "h_csrf (retire i (jump x s)) = h_csrf s" for x s by (simp add: retire_def jump_def)
  ultimately show ?thesis
    using d mret_csrs_fields(1,2) [OF assms(3), of "h_csrf h2"] assms(7) c t(1,3) ready_gprf [OF assms(6)] by simp
qed

theorem trap_return_witness:
  "\<exists>h1 h2 h3. raiseException demo_env EXCEPTION_ECALL_MMODE (exec_hart blank_instr demo_regs) = Inr h1 \<and>
     h_csrf h2 = h_csrf h1 \<and> dispatch demo_env h2 = Inr (Dispatch h3) \<and> pc_of h3 = 0 \<and> privillege (h_csrf h3) = 3"
proof -
  let ?h = "exec_hart blank_instr demo_regs" and ?i = "blank_instr\<lparr>operation := MRET\<rparr>"
  have wf: "wf_instr blank_instr" "wf_instr ?i" by (simp_all add: wf_instr_def blank_instr_def is_direct_jump_def)
  obtain h1 where h1: "raiseException demo_env EXCEPTION_ECALL_MMODE ?h = Inr h1" using demo_raise [OF wf(1)] by blast
  have "ready demo_env h1" using validD [OF raiseException_ok [OF demo_ready [OF wf(1)]] h1] .
  then have r: "ready demo_env (exec_hart ?i demo_regs\<lparr>h_csrf := h_csrf h1\<rparr>)"
    by (intro ready_csrf demo_ready wf(2)) (simp add: ready_def core_ok_def)
  have pc: "pc_of ?h = 0" using demo_regs_simps(2) by (simp add: pc_of_def)
  then obtain h3 where "dispatch demo_env (exec_hart ?i demo_regs\<lparr>h_csrf := h_csrf h1\<rparr>) = Inr (Dispatch h3)"
      "pc_of h3 = 0" "privillege (h_csrf h3) = 3"
    using trap_return [OF h1 _ _ _ _ r, of ?i] masks_ok_standard demo_regs_simps(1)
    by (auto simp: demo_csrs word_less_nat_alt)
  then show ?thesis
    using h1 by (intro exI [of _ h1] exI [of _ "exec_hart ?i demo_regs\<lparr>h_csrf := h_csrf h1\<rparr>"] exI [of _ h3]) simp
qed

text \<open>
  C36: an environment call passes over the first instruction of its handler.  Trap entry makes the
  first instruction of the handler's block current; the call then goes on as after an executed
  instruction: that first instruction is counted and reported to the hooks, and the slot after it is
  dispatched, with the program counter still at the first.  In a block of several instructions that
  is the second instruction, and the first is lost.  In a block of one instruction, as when the
  handler starts with a jump, it is the end marker: the block is fetched again and its instruction is
  dispatched after having been counted.
\<close>
theorem ecall_skips_first:
  assumes "ready E h" and "current h = Inr i" and "operation i = ECALL" and "privillege (h_csrf h) \<in> {0, 1, 3}"
    and "raiseException E (ecall_cause (privillege (h_csrf h))) h = Inr h1"
  shows "\<exists>b n i1. currentInstr h1 = Some (b, 0) \<and> block_end (bbs (bbCache h1) ! b) n \<and> current h1 = Inr i1 \<and>
     (let h2 = retire i1 h1
      in dispatch E h = Inr (Dispatch h2) \<and> instrsExecuted h2 = instrsExecuted h + 1 \<and>
         pc_of h2 = trap_vector (ecall_cause (privillege (h_csrf h))) (h_csrf h) \<and>
         (1 < n \<longrightarrow> current h2 = Inr (instrs (bbs (bbCache h1) ! b) ! 1)) \<and> (isJump i1 \<longrightarrow> n = 1) \<and>
         (n = 1 \<longrightarrow> (\<exists>h3. dispatch E h2 = Inr (Dispatch h3) \<and> current h3 = Inr i1 \<and> pc_of h3 = pc_of h2 \<and>
            instrsExecuted h3 = instrsExecuted h2)))"
proof -
  let ?ex = "ecall_cause (privillege (h_csrf h))"
  obtain b i1 where b: "currentInstr h1 = Some (b, 0)" and i1: "current h1 = Inr i1" and r: "ready E h1"
    and e: "execNextInstr h1 = Inr (Dispatch (retire i1 h1))" "pc_of (retire i1 h1) = trap_vector ?ex (h_csrf h)"
    using after_raise [OF assms(1,5)] by blast
  obtain n where n: "block_end (bbs (bbCache h1) ! b) n" "b < length (bbs (bbCache h1))"
    using r b by (auto simp: ready_def within_def)
  let ?bb = "bbs (bbCache h1) ! b" and ?h2 = "retire i1 h1"
  have first: "instrs ?bb ! 0 = i1" using current_at [OF b n(2,1)] i1 by simp
  have n1: "1 \<le> n" "isJump i1 \<longrightarrow> n = 1" using n(1) first by (auto simp: block_end_def)
  have parts: "bbCache ?h2 = bbCache h1" "currentInstr ?h2 = Some (b, 1)" "pc_of ?h2 = pc_of h1" by (simp_all add: retire_def b pc_of_def)
  have second: "current ?h2 = Inr (instrs ?bb ! 1)" by (rule current_at [of ?h2 b 1 n, unfolded parts(1)]) (use n n1(1) parts(2) in simp_all)
  have "\<exists>h3. dispatch E ?h2 = Inr (Dispatch h3) \<and> current h3 = Inr i1 \<and> pc_of h3 = pc_of ?h2 \<and> instrsExecuted h3 = instrsExecuted ?h2"
    if "n = 1"
  proof -
    have "lookup (pc_of h1) (bbCache h1) = ((True, b), bbCache h1)" using raised_resident [OF assms(1,5) b] .
    then obtain h3 where h3: "exec_BB_END E ?h2 = Inr (Dispatch h3)" "currentInstr h3 = Some (b, 0)" "bbCache h3 = bbCache h1"
        "h_gprf h3 = h_gprf ?h2" "instrsExecuted h3 = instrsExecuted ?h2"
      using refetch [of ?h2 b E] parts(1,3) by auto
    have "operation (instrs ?bb ! 1) = BB_END" using n(1) that by (simp add: block_end_def)
    then have "dispatch E ?h2 = Inr (Dispatch h3)" using dispatch_eq [OF second] h3(1) by simp
    moreover have "current h3 = Inr i1" using current_at [of h3 b 0 n] h3(2,3) n first by simp
    ultimately show ?thesis using h3(4,5) by (simp add: pc_of_def)
  qed
  moreover have "instrsExecuted ?h2 = instrsExecuted h + 1"
    using raiseException_result(5) [OF assms(5) ready_gprf [OF assms(1)]] by (simp add: retire_def)
  ultimately show ?thesis using b n(1) i1 e ecall_step [OF assms(1-4)] assms(5) n1(2) second by (auto simp: Let_def)
qed

theorem ecall_skips_first_witness:
  "\<exists>h1 i1. current h1 = Inr i1 \<and> instrsExecuted (retire i1 h1) = 1 \<and>
     dispatch demo_env (exec_hart (blank_instr\<lparr>operation := ECALL\<rparr>) demo_regs) = Inr (Dispatch (retire i1 h1))"
proof -
  let ?i = "blank_instr\<lparr>operation := ECALL\<rparr>"
  have wf: "wf_instr ?i" by (simp add: wf_instr_def blank_instr_def is_direct_jump_def)
  obtain h1 where "raiseException demo_env (ecall_cause 3) (exec_hart ?i demo_regs) = Inr h1" using demo_raise [OF wf] by blast
  then show ?thesis
    using ecall_skips_first [OF demo_ready [OF wf], of ?i h1] demo_counter by (auto simp: demo_csrs Let_def)
qed

text \<open>
  Reading the read-only register \<^verbatim>\<open>mhartid\<close> in machine mode.  \<^verbatim>\<open>CSRRS\<close> with register zero reads it;
  \<^verbatim>\<open>CSRRC\<close>, \<^verbatim>\<open>CSRRSI\<close> and \<^verbatim>\<open>CSRRCI\<close> with a zero operand, which by the architecture do not write either,
  raise the illegal instruction exception.
\<close>
theorem read_only_access:
  assumes "ready E h" and "current h = Inr i" and "immidiate i = MHARTID" and "rs1 i = 0" and "privillege (h_csrf h) = 3"
  shows "(operation i = CSRRS \<longrightarrow> dispatch E h =
            Inr (Dispatch (retire i (jump (pc_of h + 4) (put_rd i (csr_value (mhartid (h_csrf h))) h))))) \<and>
         (operation i \<in> {CSRRC, CSRRSI, CSRRCI} \<longrightarrow> dispatch E h =
            bindE (raiseException E EXCEPTION_ILLEGAL_INSTR h) execNextInstr)"
proof -
  note facts = exec_facts [OF assms(1,2)]
  have ok: "csrf_ok (env_masks E) (h_csrf h)" using assms(1) by (simp add: ready_def core_ok_def)
  have read: "csrf_read MHARTID (h_csrf h) = Inr (csr_value (mhartid (h_csrf h)))"
    using csrf_read_eq [OF ok, of MHARTID] assms(5) by (simp add: full_table_lookup id_defs)
  have refuse: "csrf_setBits (env_masks E) MHARTID v (h_csrf h) = (Inl False, h_csrf h)"
    "csrf_clearBits (env_masks E) MHARTID v (h_csrf h) = (Inl False, h_csrf h)" for v
    using register_attributes(6) by (simp_all add: csrf_setBits_def csrf_clearBits_def)
  have wf: "wf_instr i" "wf_gprf (h_gprf h)" using current_wf [OF assms(1,2)] ready_gprf [OF assms(1)] .
  have "csr_status E i (Inr v) h = finish i v h" for v
    using write_rd_eq [OF wf(1)] by (simp add: csr_status_def finish_def advance_def)
  moreover have "csr_status E i (Inl b) h = bindE (raiseException E EXCEPTION_ILLEGAL_INSTR h) execNextInstr" for b
    by (simp add: csr_status_def raiseIllegalInstruction_def)
  ultimately show ?thesis
    using facts read refuse assms(3,4)
    by (auto simp: exec_CSRRS_def exec_CSRRC_def exec_CSRRSI_def exec_CSRRCI_def)
qed

theorem read_only_access_witness:
  "let i = \<lparr>rd = 5, rs1 = 0, rs2 = 0, immidiate = MHARTID, operation = CSRRS\<rparr>; h = exec_hart i demo_regs
   in dispatch demo_env h = Inr (Dispatch (retire i (jump (pc_of h + 4) (put_rd i 0 h))))"
proof -
  let ?i = "\<lparr>rd = 5, rs1 = 0, rs2 = 0, immidiate = MHARTID, operation = CSRRS\<rparr>"
  have "ready demo_env (exec_hart ?i demo_regs)" by (rule demo_ready) (simp add: wf_instr_def is_direct_jump_def)
  then show ?thesis
    using read_only_access [of demo_env "exec_hart ?i demo_regs" ?i] by (simp add: Let_def demo_csrs)
qed

text \<open>
  C18: how a run ends.  A run of a hart that was started as constructed returns only from a state whose
  current instruction is \<^verbatim>\<open>EBREAK\<close> or one the decoder does not know.  At \<^verbatim>\<open>EBREAK\<close> the state is returned as
  it is; at an unknown instruction trap entry is performed first, but the trap handler is not
  executed.
\<close>
theorem run_returns_at:
  assumes "fresh E h0" and "run E h0 = Some (Inr h')"
  shows "\<exists>h i. reachable E h0 h \<and> current h = Inr i \<and>
     (operation i = EBREAK \<and> h' = h \<or>
      operation i = INV_OP \<and> raiseException E EXCEPTION_ILLEGAL_INSTR h = Inr h')"
proof -
  obtain h where h: "reachable E h0 h" "dispatch E h = Inr (Return h')"
    using run_ends [OF assms(2)] by (auto simp: ends_def)
  obtain i where i: "current h = Inr i" using current_hart_ok reachable_ok [OF fresh_core [OF assms(1)] h(1)] by blast
  have "operation i = EBREAK \<or> operation i = INV_OP" by (rule return_only_at [OF i h(2)])
  then show ?thesis
    using h i dispatch_eq [OF i]
    by (auto simp: exec_EBREAK_def exec_INV_OP_def raiseIllegalInstruction_def bindE_eq_Inr_iff)
qed

theorem run_returns_at_witness:
  "\<exists>h' h i. run demo_env demo_hart = Some (Inr h') \<and> reachable demo_env demo_hart h \<and> current h = Inr i \<and>
     operation i \<in> {EBREAK, INV_OP}"
proof -
  obtain h' where "run demo_env demo_hart = Some (Inr h')" using demo_run by blast
  then show ?thesis using run_returns_at [OF demo_hart_fresh, of h'] by blast
qed

end
