(* ===== verification/Machine.thy ===== *)
theory Machine
  imports HartTraps
begin

text \<open>
  The configuration (\<^verbatim>\<open>include/besm-666/sim/config.hpp\<close>, \<^verbatim>\<open>src/sim/config.cpp\<close>) and the machine that is
  built from it (\<^verbatim>\<open>include/besm-666/sim/machine.hpp\<close>, \<^verbatim>\<open>src/sim/machine.cpp\<close>): physical memory from the
  RAM ranges, the executable loaded into it, and a hart on it.  The machine's pointers to the
  memory and to the hook manager are those its hart holds, so the hart is its state.  The theorem
  at the end composes the components: construction from a sound configuration succeeds and gives a
  hart in its initial state over a memory that holds exactly the segments of the executable.
\<close>

section \<open>Configuration\<close>

record ConfigData =
  executablePath :: string
  ramRanges :: "RV64Ptr Range list"
  ramPageSize :: u64
  ramChunkSize :: u64

definition mkConfig :: ConfigData where
  "mkConfig = \<lparr>executablePath = [], ramRanges = [], ramPageSize = 0, ramChunkSize = 0\<rparr>"

text \<open>A default-constructed builder: the two sizes are indeterminate.\<close>

definition mkConfigBuilder :: "u64 \<Rightarrow> u64 \<Rightarrow> ConfigData" where
  "mkConfigBuilder ps cs = \<lparr>executablePath = [], ramRanges = [], ramPageSize = ps, ramChunkSize = cs\<rparr>"

definition setExecutablePath :: "string \<Rightarrow> ConfigData \<Rightarrow> ConfigData" where
  "setExecutablePath p d = d\<lparr>executablePath := p\<rparr>"

definition addRamRange :: "RV64Ptr Range \<Rightarrow> ConfigData \<Rightarrow> ConfigData" where
  "addRamRange r d = d\<lparr>ramRanges := ramRanges d @ [r]\<rparr>"

definition setRamPageSize :: "u64 \<Rightarrow> ConfigData \<Rightarrow> ConfigData" where
  "setRamPageSize v d = d\<lparr>ramPageSize := v\<rparr>"

definition setRamChunkSize :: "u64 \<Rightarrow> ConfigData \<Rightarrow> ConfigData" where
  "setRamChunkSize v d = d\<lparr>ramChunkSize := v\<rparr>"

definition validateState :: "ConfigData \<Rightarrow> unit res" where
  "validateState d = (if executablePath d = [] then Inl InvalidConfiguration else Inr ())"

text \<open>
  \<^verbatim>\<open>build\<close> moves the data out of the builder.  What stays behind of the path is left open by the
  library and is an argument; the vector is empty.
\<close>

definition config_build :: "string \<Rightarrow> ConfigData \<Rightarrow> (ConfigData \<times> ConfigData) res" where
  "config_build moved_from d =
     bindE (validateState d) (\<lambda>_. Inr (d, d\<lparr>executablePath := moved_from, ramRanges := []\<rparr>))"

section \<open>The machine\<close>

record Machine =
  machine_hart :: Hart

primrec map_ranges :: "u64 \<Rightarrow> u64 \<Rightarrow> RV64Ptr Range list \<Rightarrow> PhysMemBuilder \<Rightarrow> PhysMemBuilder res" where
  "map_ranges ps cs [] b = Inr b"
| "map_ranges ps cs (r # rs) b =
     bindE (mapRAM (leftBorder r) (range_size r) ps cs b) (map_ranges ps cs rs)"

definition mkMachine ::
    "env \<Rightarrow> elfio \<Rightarrow> host \<Rightarrow> (nat \<Rightarrow> Instruction list) \<Rightarrow> RV64UDWord list \<Rightarrow> (csr_ref \<Rightarrow> RV64UDWord) \<Rightarrow> ConfigData \<Rightarrow> Machine res" where
  "mkMachine E L h slots regs word config =
     bindE (map_ranges (ramPageSize config) (ramChunkSize config) (ramRanges config) mkPhysMemBuilder) (\<lambda>pMemBuilder.
     let pMem = build h pMemBuilder in
     bindE (loadElf (env_os E) L (executablePath config) pMem) (\<lambda>pMem.
     let hookManager = mkHookManager in
     Inr \<lparr>machine_hart = mkHart E slots regs word pMem hookManager\<rparr>))"

definition machine_run :: "env \<Rightarrow> Machine \<Rightarrow> Machine res option" where
  "machine_run E m = map_option (\<lambda>r. bindE r (\<lambda>h. Inr (m\<lparr>machine_hart := h\<rparr>))) (run E (machine_hart m))"

definition getHart :: "Machine \<Rightarrow> Hart" where
  "getHart m = machine_hart m"

definition machine_getInstrsExecuted :: "Machine \<Rightarrow> u64" where
  "machine_getInstrsExecuted m = getInstrsExecuted (machine_hart m)"

definition getHookManager :: "Machine \<Rightarrow> HookManager" where
  "getHookManager m = hookManager (machine_hart m)"

text \<open>Registering through the reference the machine hands out changes the hart's manager.\<close>

definition with_hooks :: "(HookManager \<Rightarrow> HookManager res) \<Rightarrow> Machine \<Rightarrow> Machine res" where
  "with_hooks f m =
     bindE (f (getHookManager m)) (\<lambda>hm. Inr (m\<lparr>machine_hart := (machine_hart m)\<lparr>hookManager := hm\<rparr>\<rparr>))"

section \<open>Mapping the configured ranges\<close>

definition b_whole :: "PhysMemBuilder \<Rightarrow> bool" where
  "b_whole b \<longleftrightarrow> (\<forall>e\<in>set (b_devices b). unat (pageSize (b_rams b ! snd e)) dvd unat (range_size (fst e)))"

definition range_ok :: "u64 \<Rightarrow> RV64Ptr Range \<Rightarrow> bool" where
  "range_ok ps r \<longleftrightarrow> leftBorder r < rightBorder r \<and> unat ps dvd unat (range_size r)"

definition ranges_apart :: "RV64Ptr Range list \<Rightarrow> bool" where
  "ranges_apart rs \<longleftrightarrow> sorted_wrt (\<lambda>r q. range_set r \<inter> range_set q = {}) rs"

lemma mapRAM_whole:
  assumes b: "b_ok E b" "b_whole b" and m: "mapRAM a rs ps cs b = Inr b'"
    and d: "set (b_devices b') = insert (mkRange a (a + rs), length (b_rams b)) (set (b_devices b))"
    and p: "unat ps dvd unat rs"
  shows "b_whole b'"
proof -
  obtain ram where ram: "mkRAM rs ps cs = Inr ram" "b_rams b' = b_rams b @ [ram]"
    using m by (auto simp: mapRAM_def mapDevice_def bindE_eq_Inr_iff Let_def split: if_splits)
  have "pageSize ram = ps" using ram(1) by (auto simp: mkRAM_eq split: if_splits)
  moreover have "snd e < length (b_rams b)" if "e \<in> set (b_devices b)" for e
    using b(1) that by (auto simp: b_ok_def dev_ok_def)
  ultimately show ?thesis
    using b(2) d ram(2) p by (auto simp: b_whole_def nth_append range_size_def)
qed

lemma map_ranges_ok:
  assumes "b_ok E b" "b_whole b" "cfg_ok E ps cs" "\<forall>r\<in>set rs. range_ok ps r" "ranges_apart rs"
    and "\<forall>r\<in>set rs. \<forall>e\<in>set (b_devices b). range_set (fst e) \<inter> range_set r = {}"
  shows "\<exists>b'. map_ranges ps cs rs b = Inr b' \<and> b_ok E b' \<and> b_whole b' \<and>
    fst ` set (b_devices b') = fst ` set (b_devices b) \<union> set rs"
  using assms(1,2,4-)
proof (induction rs arbitrary: b)
  case (Cons r rs)
  have r: "leftBorder r < rightBorder r" "unat ps dvd unat (range_size r)" using Cons.prems(3) by (simp_all add: range_ok_def)
  have size: "range_size r \<noteq> 0" "leftBorder r + range_size r = rightBorder r" using r(1) by (auto simp: range_size_def)
  have "unat (range_size r) = unat (rightBorder r) - unat (leftBorder r)" "unat (leftBorder r) < unat (rightBorder r)"
    using r(1) less_imp_le [OF r(1)] by (simp_all add: range_size_def unat_sub) (simp add: word_less_nat_alt)
  then have fit: "unat (leftBorder r) + unat (range_size r) < 2 ^ 64"
    using unsigned_less [where 'a = nat, of "rightBorder r"] by simp
  have mk: "mkRange (leftBorder r) (leftBorder r + range_size r) = r" using size(2) by (cases r) (simp add: mkRange_def)
  obtain b1 where b1: "mapRAM (leftBorder r) (range_size r) ps cs b = Inr b1" "b_ok E b1"
      "set (b_devices b1) = insert (r, length (b_rams b)) (set (b_devices b))"
    using mapRAM_ok [OF Cons.prems(1) assms(3) size(1) fit] Cons.prems(5) unfolding mk by auto
  have "b_whole b1" by (rule mapRAM_whole [OF Cons.prems(1,2) b1(1) _ r(2)]) (simp add: b1(3) mk)
  moreover have "\<forall>q\<in>set rs. \<forall>e\<in>set (b_devices b1). range_set (fst e) \<inter> range_set q = {}"
    using Cons.prems(4,5) b1(3) by (auto simp: ranges_apart_def)
  ultimately obtain b' where "map_ranges ps cs rs b1 = Inr b'" "b_ok E b'" "b_whole b'"
      "fst ` set (b_devices b') = fst ` set (b_devices b1) \<union> set rs"
    using Cons.IH [OF b1(2)] Cons.prems(3,4) by (auto simp: ranges_apart_def)
  then show ?case using b1 by auto
qed simp

section \<open>Loading the executable\<close>

definition segment_bytes :: "LoadableSegment \<Rightarrow> u8 list" where
  "segment_bytes s = take (unat (ls_size s)) (ls_data s)"

definition place :: "LoadableSegment list \<Rightarrow> flat \<Rightarrow> flat" where
  "place ss m = fold (\<lambda>s m. mem_put (ls_address s) (segment_bytes s) m) ss m"

lemma covered_same: "devices pm' = devices pm \<Longrightarrow> covered pm' = covered pm"
  by (simp add: covered_def dev_at_def fun_eq_iff)

lemma store_segments_ok:
  assumes "mmap_ok E" and full: "\<forall>s\<in>set ss. unat (ls_size s) \<le> length (ls_data s)"
    and "pm_ok E pm" "whole_pages pm" "\<forall>s\<in>set ss. covered pm (ls_address s) (length (segment_bytes s))"
  shows "\<exists>pm'. store_segments E ss pm = Inr pm' \<and> pm_ok E pm' \<and> whole_pages pm' \<and> devices pm' = devices pm \<and>
    pm_peek pm' = place ss (pm_peek pm)"
  using assms(2-)
proof (induction ss arbitrary: pm)
  case Nil
  then show ?case by (simp add: place_def)
next
  case (Cons s ss)
  let ?bs = "segment_bytes s"
  have "covered pm (ls_address s + of_nat 0) (length ?bs - 0)" using Cons.prems(4) by simp
  from storeContArea_loop_ok [OF assms(1) Cons.prems(2,3) this, of "length ?bs"]
  obtain pm1 where pm1: "storeContArea E (ls_address s) ?bs pm = Inr pm1" "pm_ok E pm1" "whole_pages pm1"
      "devices pm1 = devices pm" "pm_peek pm1 = mem_put (ls_address s) ?bs (pm_peek pm)"
    unfolding storeContArea_def by auto
  have "\<forall>s\<in>set ss. covered pm1 (ls_address s) (length (segment_bytes s))"
    using Cons.prems(4) covered_same [OF pm1(4)] by simp
  from Cons.IH [OF _ pm1(2,3) this] Cons.prems(1)
  obtain pm' where pm': "store_segments E ss pm1 = Inr pm'" "pm_ok E pm'" "whole_pages pm'" "devices pm' = devices pm1"
      "pm_peek pm' = place ss (pm_peek pm1)" by auto
  have "store_segments E (s # ss) pm = Inr pm'" using pm1(1) pm'(1) Cons.prems(1) by (simp add: segment_bytes_def)
  moreover have "pm_peek pm' = place (s # ss) (pm_peek pm)" using pm1(5) pm'(5) by (simp add: place_def)
  ultimately show ?case using pm'(2-4) pm1(4) by simp
qed

section \<open>Properties\<close>

definition in_ranges :: "RV64Ptr Range list \<Rightarrow> RV64Ptr \<Rightarrow> nat \<Rightarrow> bool" where
  "in_ranges rs a n \<longleftrightarrow> unat a + n < 2 ^ 64 \<and> (\<forall>i<n. \<exists>r\<in>set rs. contains_pos r (a + of_nat i))"

lemma in_ranges_covered:
  assumes "in_ranges rs a n" "fst ` set (devices pm) = set rs"
  shows "covered pm a n"
proof -
  have "dev_at pm (a + of_nat i) \<noteq> None" if i: "i < n" for i
  proof -
    obtain r where "r \<in> set rs" "contains_pos r (a + of_nat i)" using assms(1) i unfolding in_ranges_def by blast
    then obtain d where "(r, d) \<in> set (devices pm)" "contains_pos r (a + of_nat i)" using assms(2) by force
    then show ?thesis by (auto simp: dev_at_def find_None_iff)
  qed
  then show ?thesis using assms(1) by (simp add: in_ranges_def covered_def)
qed

text \<open>What construction needs of the configuration and of the executable, and what it then gives.\<close>

definition bootable :: "env \<Rightarrow> elfio \<Rightarrow> ConfigData \<Rightarrow> LoadableSegment list \<Rightarrow> bool" where
  "bootable E L config segs \<longleftrightarrow>
     mmap_ok (env_os E) \<and> elfio_ok L \<and> cfg_ok (env_os E) (ramPageSize config) (ramChunkSize config) \<and>
     (\<forall>r\<in>set (ramRanges config). range_ok (ramPageSize config) r) \<and> ranges_apart (ramRanges config) \<and>
     (\<exists>parser. createParser L (executablePath config) = Inr parser \<and> segs = fst (getLoadableSegments L parser)) \<and>
     (\<forall>s\<in>set segs. in_ranges (ramRanges config) (ls_address s) (length (segment_bytes s)))"

lemma boot_ok:
  assumes boot: "bootable E L config segs"
  shows "\<exists>pm. mkMachine E L h slots regs word config = Inr \<lparr>machine_hart = mkHart E slots regs word pm mkHookManager\<rparr> \<and>
    pm_ok (env_os E) pm \<and> whole_pages pm \<and> fst ` set (devices pm) = set (ramRanges config) \<and> pm_peek pm = place segs (\<lambda>_. 0)"
proof -
  let ?b0 = mkPhysMemBuilder
  have mm: "mmap_ok (env_os E)" and cfg: "cfg_ok (env_os E) (ramPageSize config) (ramChunkSize config)"
      "\<forall>r\<in>set (ramRanges config). range_ok (ramPageSize config) r" "ranges_apart (ramRanges config)"
      and inside: "\<forall>s\<in>set segs. in_ranges (ramRanges config) (ls_address s) (length (segment_bytes s))"
    using boot by (simp_all add: bootable_def)
  obtain parser where parser: "createParser L (executablePath config) = Inr parser" "segs = fst (getLoadableSegments L parser)"
    using boot by (auto simp: bootable_def)
  have full: "\<forall>s\<in>set segs. unat (ls_size s) \<le> length (ls_data s)"
    using boot segments_complete [OF _ parser(1)] parser(2) by (auto simp: bootable_def)
  have "b_whole ?b0" "b_devices ?b0 = []" by (simp_all add: b_whole_def mkPhysMemBuilder_def)
  then obtain b where b: "map_ranges (ramPageSize config) (ramChunkSize config) (ramRanges config) ?b0 = Inr b"
      "b_ok (env_os E) b" "b_whole b" "fst ` set (b_devices b) = set (ramRanges config)"
    using map_ranges_ok [OF b_ok_empty _ cfg] by auto
  have wp: "whole_pages (build h b)" "devices (build h b) = b_devices b"
    using b(3) by (simp_all add: whole_pages_def b_whole_def build_def)
  have "\<forall>s\<in>set segs. covered (build h b) (ls_address s) (length (segment_bytes s))"
    using inside b(4) wp(2) in_ranges_covered by metis
  from store_segments_ok [OF mm full build_ok(1) [OF b(2)] wp(1) this]
  obtain pm where pm: "store_segments (env_os E) segs (build h b) = Inr pm" "pm_ok (env_os E) pm" "whole_pages pm"
      "devices pm = b_devices b" "pm_peek pm = place segs (\<lambda>_. 0)"
    unfolding build_ok(2) [OF b(2)] wp(2) by blast
  have "loadElf (env_os E) L (executablePath config) (build h b) = Inr pm"
    using parser pm(1) by (simp add: loadElf_def)
  then show ?thesis using b(1,4) pm by (intro exI [of _ pm]) (simp add: mkMachine_def Let_def)
qed

text \<open>
  C11: booting.  From a configuration with valid page and chunk sizes and disjoint, non-empty RAM
  ranges that consist of whole pages, and from an executable whose loadable segments lie in the
  RAM and have the bytes their sizes announce, the machine is constructed: its hart is in the initial state, its memory reads as the
  segments laid over zeros (a later segment over an earlier one) and the program counter is zero,
  whatever entry point the executable names.
\<close>
theorem machine_boot:
  assumes "mmap_ok (env_os E)" and "elfio_ok L" and "cfg_ok (env_os E) (ramPageSize config) (ramChunkSize config)"
    and "\<forall>r\<in>set (ramRanges config). range_ok (ramPageSize config) r" and "ranges_apart (ramRanges config)"
    and "createParser L (executablePath config) = Inr parser"
    and "segs = fst (getLoadableSegments L parser)"
    and "\<forall>s\<in>set segs. in_ranges (ramRanges config) (ls_address s) (length (segment_bytes s))"
    and "\<forall>i. length (slots i) = kCapacity" and "length regs = GPRF_Size"
  shows "\<exists>m. mkMachine E L h slots regs word config = Inr m \<and> fresh E (getHart m) \<and>
    whole_pages (h_mem (getHart m)) \<and> pm_peek (h_mem (getHart m)) = place segs (\<lambda>_. 0) \<and> pc_of (getHart m) = 0"
proof -
  have "bootable E L config segs" using assms(1-8) unfolding bootable_def by blast
  from boot_ok [OF this, of h slots regs word] obtain pm
    where m: "mkMachine E L h slots regs word config = Inr \<lparr>machine_hart = mkHart E slots regs word pm mkHookManager\<rparr>"
      and pm: "pm_ok (env_os E) pm" "whole_pages pm" "pm_peek pm = place segs (\<lambda>_. 0)"
    by blast
  let ?h = "mkHart E slots regs word pm mkHookManager"
  have mem: "h_mem ?h = pm" by (simp add: mkHart_def)
  have "fresh E ?h" unfolding fresh_def mem pm_inv_def using assms(1,9,10) pm(1) by blast
  moreover have "pc_of ?h = 0" using reg_val_mkGPRF [OF assms(10)] by (simp add: pc_of_def mkHart_def)
  ultimately show ?thesis using m pm mem by (simp add: getHart_def)
qed

definition demo_elfio :: elfio where
  "demo_elfio = \<lparr>elfio_load = (\<lambda>p. if p = ''prog'' then Some \<lparr>rd_class = 2, rd_encoding = 1, rd_machine = 243,
       rd_segments = [\<lparr>seg_type = 1, seg_virtual_address = 0x100, seg_data = [0x13, 0, 0, 0], seg_file_size = 4\<rparr>]\<rparr> else None),
     ELFCLASS64 = 2, ELFDATA2LSB = 1, EM_RISCV = 243, PT_LOAD = 1\<rparr>"

definition demo_config :: ConfigData where
  "demo_config = setRamChunkSize 65536 (setRamPageSize 4096 (addRamRange (mkRange 0 0x100000)
     (setExecutablePath ''prog'' (mkConfigBuilder 0 0))))"

theorem machine_boot_witness:
  "\<exists>m. mkMachine demo_env demo_elfio [] (\<lambda>_. replicate 8 blank_instr) (replicate 33 0) (\<lambda>_. 0) demo_config = Inr m \<and>
       pm_peek (h_mem (getHart m)) 0x100 = 0x13 \<and> pc_of (getHart m) = 0"
proof -
  let ?seg = "\<lparr>ls_address = 0x100, ls_data = [0x13, 0, 0, 0], ls_size = 4\<rparr>"
  let ?reader = "\<lparr>rd_class = 2, rd_encoding = 1, rd_machine = 243,
       rd_segments = [\<lparr>seg_type = 1, seg_virtual_address = 0x100, seg_data = [0x13, 0, 0, 0], seg_file_size = 4\<rparr>]\<rparr>"
  have cfg: "executablePath demo_config = ''prog''" "ramRanges demo_config = [mkRange 0 0x100000]"
      "ramPageSize demo_config = 4096" "ramChunkSize demo_config = 65536"
    by (simp_all add: demo_config_def setRamChunkSize_def setRamPageSize_def addRamRange_def setExecutablePath_def mkConfigBuilder_def)
  have parser: "createParser demo_elfio (executablePath demo_config) = Inr \<lparr>reader = ?reader, loadableSegments = []\<rparr>"
    unfolding cfg by (simp add: createParser_ok_iff demo_elfio_def)
  have segs: "fst (getLoadableSegments demo_elfio \<lparr>reader = ?reader, loadableSegments = []\<rparr>) = [?seg]"
    by (simp add: getLoadableSegments_def Let_def demo_elfio_def mkLoadableSegment_def)
  have "0x100 + of_nat i < (0x100000 :: u64)" if "i < 4" for i
    using that by (simp add: word_less_nat_alt unat_add_offset [of _ 4])
  then have "\<forall>s\<in>set [?seg]. in_ranges (ramRanges demo_config) (ls_address s) (length (segment_bytes s))"
    unfolding cfg by (simp add: in_ranges_def segment_bytes_def contains_pos_def mkRange_def)
  moreover have "\<forall>r\<in>set (ramRanges demo_config). range_ok (ramPageSize demo_config) r" "ranges_apart (ramRanges demo_config)"
    unfolding cfg by (simp_all add: range_ok_def ranges_apart_def mkRange_def range_size_def)
  moreover have "cfg_ok (env_os demo_env) (ramPageSize demo_config) (ramChunkSize demo_config)" "mmap_ok (env_os demo_env)"
    using cfg_ok_plenty mmap_ok_plenty unfolding cfg demo_env_simps by simp_all
  moreover have "elfio_ok demo_elfio" by (simp add: elfio_ok_def demo_elfio_def)
  ultimately obtain m where m: "mkMachine demo_env demo_elfio [] (\<lambda>_. replicate 8 blank_instr) (replicate 33 0) (\<lambda>_. 0) demo_config = Inr m"
      "pm_peek (h_mem (getHart m)) = place [?seg] (\<lambda>_. 0)" "pc_of (getHart m) = 0"
    using machine_boot [OF _ _ _ _ _ parser segs [symmetric], where E = demo_env and h = "[]" and word = "\<lambda>_. 0"
        and slots = "\<lambda>_. replicate 8 blank_instr" and regs = "replicate 33 0"] by auto
  then show ?thesis by (simp add: place_def segment_bytes_def mem_put_def in_area_def)
qed

end
