(* ===== verification/IsaMachine.thy ===== *)
theory IsaMachine
  imports HookTrace WordShifts Machine
begin

text \<open>
  The unprivileged architecture as a machine of its own: a program counter, integer registers and
  a flat memory, stepping by the instruction encoded at the program counter.  It has no basic
  blocks, no caches, no page tables and no decoder of the simulator.  \<open>agrees\<close> names the
  instructions and operands for which the handlers follow the architecture; the theorems show that
  the simulator follows this machine step by step as long as they are met, the program
  does not write to its own text, and the text can be fetched.
\<close>

section \<open>Forward simulation\<close>

text \<open>
  A machine \<open>impl\<close> follows a machine \<open>spec\<close>: related states stay related when \<open>spec\<close> takes a step and
  \<open>impl\<close> one or two, of which it counts one.
\<close>

locale forward_simulation =
  fixes spec :: "'s \<Rightarrow> 's \<Rightarrow> bool" and impl :: "'h \<Rightarrow> 'h \<Rightarrow> bool" and rel :: "'h \<Rightarrow> 's \<Rightarrow> bool" and count :: "'h \<Rightarrow> u64"
  assumes simulates: "rel h s \<Longrightarrow> spec s s' \<Longrightarrow> \<exists>h' k. k \<in> {1, 2} \<and> (impl ^^ k) h h' \<and> rel h' s' \<and> count h' = count h + 1"
    and deterministic: "impl h x \<Longrightarrow> impl h y \<Longrightarrow> x = y"
begin

lemma run_simulated:
  "(spec ^^ n) s s' \<Longrightarrow> rel h s \<Longrightarrow>
     \<exists>h' k. n \<le> k \<and> k \<le> 2 * n \<and> (impl ^^ k) h h' \<and> rel h' s' \<and> count h' = count h + of_nat n"
proof (induction n arbitrary: s')
  case (Suc n)
  then obtain s1 where s1: "(spec ^^ n) s s1" "spec s1 s'" by auto
  then obtain h1 k1 where k1: "n \<le> k1" "k1 \<le> 2 * n" "(impl ^^ k1) h h1" "rel h1 s1" "count h1 = count h + of_nat n"
    using Suc by blast
  obtain h' k2 where k2: "k2 \<in> {1, 2}" "(impl ^^ k2) h1 h'" "rel h' s'" "count h' = count h1 + 1"
    using simulates [OF k1(4) s1(2)] by blast
  have "(impl ^^ (k1 + k2)) h h'" using k1(3) k2(2) by (auto simp: relpowp_add)
  moreover have "Suc n \<le> k1 + k2" "k1 + k2 \<le> 2 * Suc n" using k1 k2(1) by auto
  moreover have "count h' = count h + of_nat (Suc n)" using k1(5) k2(4) by (simp add: ac_simps)
  ultimately show ?case using k2(3) by blast
qed auto

lemma same_state: "(impl ^^ j) h x \<Longrightarrow> (impl ^^ j) h y \<Longrightarrow> x = y"
proof (induction j arbitrary: x y)
  case (Suc j)
  then show ?case using deterministic by (metis relpowp_Suc_E)
qed auto

text \<open>When \<open>spec\<close> can go on for ever, so can \<open>impl\<close>, from every state it gets to.\<close>

lemma goes_on:
  assumes "rel h s" and "\<forall>n. \<exists>s'. (spec ^^ n) s s'" and j: "(impl ^^ j) h x"
  shows "\<exists>z. impl x z"
proof -
  obtain s' where "(spec ^^ Suc j) s s'" using assms(2) by blast
  from run_simulated [OF this assms(1)] obtain y k where k: "(impl ^^ k) h y" "j < k" by auto
  then have "(impl ^^ (j + (k - j))) h y" by simp
  then obtain w where w: "(impl ^^ j) h w" "(impl ^^ (k - j)) w y" by (auto simp: relpowp_add)
  have "w = x" using w(1) j by (rule same_state)
  moreover obtain n where "k - j = Suc n" using k(2) by (metis Suc_diff_Suc)
  ultimately show ?thesis using w(2) by (metis relpowp_Suc_E2)
qed

end

section \<open>The machine\<close>

record isa_state =
  isa_pc :: RV64Ptr
  isa_regs :: "Register \<Rightarrow> u64"
  isa_mem :: flat

definition isa_reg :: "Register \<Rightarrow> isa_state \<Rightarrow> u64" where
  "isa_reg r s = (if r = 0 then 0 else isa_regs s r)"

definition isa_write :: "Register \<Rightarrow> u64 \<Rightarrow> isa_state \<Rightarrow> isa_state" where
  "isa_write r v s = s\<lparr>isa_regs := (isa_regs s)(r := v)\<rparr>"

definition isa_operand2 :: "Instruction \<Rightarrow> isa_state \<Rightarrow> u64" where
  "isa_operand2 i s = (if operation i \<in> set register_ops then isa_reg (rs2 i) s else signed_take_bit 11 (immidiate i))"

definition isa_value :: "Instruction \<Rightarrow> isa_state \<Rightarrow> u64" where
  "isa_value i s = isa_alu (operation i) (isa_reg (rs1 i) s) (isa_operand2 i s)"

definition isa_address :: "Instruction \<Rightarrow> isa_state \<Rightarrow> RV64Ptr" where
  "isa_address i s = isa_reg (rs1 i) s + signed_take_bit 11 (immidiate i)"

definition alu_ops :: "InstructionOp list" where
  "alu_ops = [ADD, SUB, AND_op, OR_op, XOR_op, SLT, SLTU, SLL, SRL, SRA, ADDI, ANDI, ORI, XORI, SLTI, SLTIU, SLLI, SRLI, SRAI,
     ADDW, SUBW, ADDIW, SLLW, SLLIW, SRLW, SRLIW, SRAW, SRAIW]"

definition load_ops :: "InstructionOp list" where "load_ops = [LB, LH, LW, LD, LBU, LHU, LWU]"
definition store_ops :: "InstructionOp list" where "store_ops = [SB, SH, SW, SD]"
definition branch_ops :: "InstructionOp list" where "branch_ops = [BEQ, BNE, BLT, BGE, BLTU, BGEU]"

text \<open>What an instruction does to memory and registers, and where execution goes on.\<close>

definition isa_effect :: "Instruction \<Rightarrow> isa_state \<Rightarrow> isa_state" where
  "isa_effect i s =
     (if operation i \<in> set alu_ops then isa_write (rd i) (isa_value i s) s
      else if operation i = LUI then isa_write (rd i) (signed_take_bit 31 (immidiate i)) s
      else if operation i = AUIPC then isa_write (rd i) (isa_pc s + signed_take_bit 31 (immidiate i)) s
      else if operation i \<in> set load_ops then
        isa_write (rd i) (isa_load (operation i) (mem_get (access_bytes (operation i)) (isa_address i s) (isa_mem s))) s
      else if operation i \<in> set store_ops then
        s\<lparr>isa_mem := mem_put (isa_address i s) (le_bytes (access_bytes (operation i)) (isa_reg (rs2 i) s)) (isa_mem s)\<rparr>
      else if operation i = JAL \<or> operation i = JALR then isa_write (rd i) (isa_pc s + 4) s
      else s)"

definition isa_target :: "Instruction \<Rightarrow> isa_state \<Rightarrow> RV64Ptr" where
  "isa_target i s =
     (if operation i = JAL then isa_pc s + signed_take_bit 20 (immidiate i)
      else if operation i = JALR then isa_address i s AND NOT 1
      else if operation i \<in> set branch_ops \<and> isa_taken (operation i) (isa_reg (rs1 i) s) (isa_reg (rs2 i) s)
        then isa_pc s + signed_take_bit 12 (immidiate i)
      else isa_pc s + 4)"

definition isa_exec :: "Instruction \<Rightarrow> isa_state \<Rightarrow> isa_state" where
  "isa_exec i s = (isa_effect i s)\<lparr>isa_pc := isa_target i s\<rparr>"

section \<open>Where the simulator follows it\<close>

text \<open>\<open>area a n\<close>: an access of \<open>n\<close> bytes at \<open>a\<close> is naturally aligned and mapped; \<open>prog\<close>: the addresses of the program text.\<close>

definition agrees :: "(RV64Ptr \<Rightarrow> nat \<Rightarrow> bool) \<Rightarrow> RV64Ptr set \<Rightarrow> Instruction \<Rightarrow> isa_state \<Rightarrow> bool" where
  "agrees area prog i s \<longleftrightarrow>
     alu_exact (operation i) (isa_operand2 i s) \<or>
     (operation i \<in> {ADDW, SUBW, ADDIW} \<or> operation i \<in> {SLLW, SLLIW} \<and> isa_operand2 i s < 32) \<and> \<not> bit (isa_value i s) 31 \<or>
     operation i \<in> {SRLW, SRLIW, SRAW} \<and> isa_operand2 i s < 32 \<and> right_exact (operation i) (isa_reg (rs1 i) s) (isa_operand2 i s) \<or>
     operation i \<in> {LUI, AUIPC} \<and> drop_bit 20 (immidiate i) = 0 \<or>
     operation i \<in> set load_ops \<and> area (isa_address i s) (access_bytes (operation i)) \<or>
     operation i \<in> set store_ops \<and> area (isa_address i s) (access_bytes (operation i)) \<and>
       (\<forall>a\<in>prog. \<not> in_area (isa_address i s) (access_bytes (operation i)) a) \<or>
     operation i \<in> set branch_ops \<and> bit (immidiate i) 11 = bit (immidiate i) 12 \<or>
     operation i = JALR \<or>
     operation i = JAL \<and> bit (immidiate i) 19 = bit (immidiate i) 20"

text \<open>A block read from \<open>pc\<close> on, up to seven words, lies in text that can be fetched.\<close>

definition fetchable :: "(RV64Ptr \<Rightarrow> nat \<Rightarrow> bool) \<Rightarrow> RV64Ptr set \<Rightarrow> RV64Ptr \<Rightarrow> bool" where
  "fetchable area prog pc \<longleftrightarrow>
     4 dvd unat pc \<and> (\<forall>k<7. area (pc + of_nat (4 * k)) 4 \<and> (\<forall>j<4. pc + of_nat (4 * k) + of_nat j \<in> prog))"

inductive isa_step :: "(RV64Ptr \<Rightarrow> nat \<Rightarrow> bool) \<Rightarrow> RV64Ptr set \<Rightarrow> isa_state \<Rightarrow> isa_state \<Rightarrow> bool" for area prog where
  isa_stepI: "encode a = Some (le_word (mem_get 4 (isa_pc s) (isa_mem s))) \<Longrightarrow> fetchable area prog (isa_pc s) \<Longrightarrow>
     agrees area prog (asm_instr a) s \<Longrightarrow> isa_step area prog s (isa_exec (asm_instr a) s)"

inductive_cases isa_stepE: "isa_step area prog s s'"

section \<open>The simulator follows the machine\<close>

text \<open>
  Every block in use holds the instructions its words in memory encode, and those words are text.
\<close>

definition text_block :: "RV64Ptr set \<Rightarrow> flat \<Rightarrow> BasicBlock \<Rightarrow> bool" where
  "text_block prog m bb \<longleftrightarrow>
     (\<forall>n k. block_end bb n \<longrightarrow> k < n \<longrightarrow>
        parse (le_word (mem_get 4 (bb_pc bb + of_nat (4 * k)) m)) = Inr (instrs bb ! k) \<and>
        (\<forall>j<4. bb_pc bb + of_nat (4 * k) + of_nat j \<in> prog))"

definition mirrors :: "env \<Rightarrow> (RV64Ptr \<Rightarrow> nat \<Rightarrow> bool) \<Rightarrow> RV64Ptr set \<Rightarrow> Hart \<Rightarrow> isa_state \<Rightarrow> bool" where
  "mirrors E area prog h s \<longleftrightarrow>
     core_ok E h \<and> whole_pages (h_mem h) \<and> pf_ok (h_mem h) (prefetcher h) \<and> pm_area (h_mem h) = area \<and>
     (\<forall>bb\<in>set (bbs (bbCache h)). bb_pc bb \<noteq> 1 \<longrightarrow> text_block prog (isa_mem s) bb) \<and>
     pm_peek (h_mem h) = isa_mem s \<and> pc_of h = isa_pc s \<and> (\<forall>r<32. reg_val (h_gprf h) r = isa_reg r s)"

definition at_slot :: "Hart \<Rightarrow> bool" where
  "at_slot h \<longleftrightarrow>
     (\<exists>b k i. currentInstr h = Some (b, k) \<and> current h = Inr i \<and> bb_pc (bbs (bbCache h) ! b) \<noteq> 1 \<and>
        (operation i \<noteq> BB_END \<longrightarrow> slot_address h = pc_of h))"

definition follows :: "env \<Rightarrow> (RV64Ptr \<Rightarrow> nat \<Rightarrow> bool) \<Rightarrow> RV64Ptr set \<Rightarrow> Hart \<Rightarrow> isa_state \<Rightarrow> bool" where
  "follows E area prog h s \<longleftrightarrow> mirrors E area prog h s \<and> hart_ok E h \<and> at_slot h"

lemma fetchBB_blocks:
  assumes core: "core_ok E h" and f: "fetchBB h = Inr h'"
  shows "\<exists>b. currentInstr h' = Some (b, 0) \<and> bb_pc (bbs (bbCache h') ! b) = pc_of h \<and>
    set (bbs (bbCache h')) \<subseteq> insert (bbs (bbCache h') ! b) (set (bbs (bbCache h)))"
proof -
  let ?pc = "pc_of h"
  have cache: "cache_shape (bbCache h)" "blocks_ok (bbCache h)" "length (bbs (bbCache h)) = 1024"
    using core by (auto simp: core_ok_def cache_ok_def cache_shape_def)
  obtain found i c where l: "lookup ?pc (bbCache h) = ((found, i), c)" by (metis surj_pair)
  note slot = lookup_slot [OF cache(1) l]
  show ?thesis
  proof (cases found)
    case True
    then have "bbCache h' = c" "currentInstr h' = Some (i, 0)"
      using f l unfolding fetchBB_def read_PC_eq bindE_Inr Let_def by (auto simp: bindE_eq_Inr_iff)
    then show ?thesis using slot True by auto
  next
    case False
    then obtain bb p pm where a: "assemble_loop kCapacity (mkBasicBlockRebuilder (bbs c ! i) ?pc) ?pc (prefetcher h) (h_mem h) = Inr (bb, p, pm)"
        "bbCache h' = set_bb i bb c" "currentInstr h' = Some (i, 0)"
      using f l unfolding fetchBB_def read_PC_eq bindE_Inr Let_def assembleBB_def by (auto simp: bindE_eq_Inr_iff)
    have "bbs c ! i \<in> set (bbs (bbCache h))" using slot(1,3) cache(3) by simp
    then have "partial_block (mkBasicBlockRebuilder (bbs c ! i) ?pc)"
      using cache(2) by (intro partial_block_init) (simp add: blocks_ok_def)
    moreover have "pm_inv (env_os E) (h_mem h)" using core by (simp add: core_ok_def)
    ultimately have "bb_pc bb = ?pc" using assemble_loop_ok [OF a(1)] by (simp add: mkBasicBlockRebuilder_def)
    moreover have "bbs (bbCache h') = (bbs (bbCache h))[i := bb]" using a(2) slot(3) by (simp add: set_bb_def)
    ultimately show ?thesis
      using a(3) slot(1) cache(3) set_update_subset_insert [of "bbs (bbCache h)" i bb] by simp
  qed
qed

lemma fetch_text_block:
  assumes m: "mirrors E area prog h s" and fe: "fetchable area prog (isa_pc s)"
  shows "\<exists>h' b. fetchBB h = Inr h' \<and> currentInstr h' = Some (b, 0) \<and> h_gprf h' = h_gprf h \<and> same_memory (h_mem h) (h_mem h') \<and>
      pf_ok (h_mem h') (prefetcher h') \<and> text_block prog (isa_mem s) (bbs (bbCache h') ! b)"
proof -
  have core: "core_ok E h" and wp: "whole_pages (h_mem h)" and pf: "pf_ok (h_mem h) (prefetcher h)"
      and ar: "pm_area (h_mem h) = area" and pk: "pm_peek (h_mem h) = isa_mem s" and pc: "pc_of h = isa_pc s"
      and blocks: "\<forall>bb\<in>set (bbs (bbCache h)). bb_pc bb \<noteq> 1 \<longrightarrow> text_block prog (isa_mem s) bb"
    using m by (auto simp: mirrors_def)
  have ev: "isa_pc s \<noteq> 1" using core pc by (auto simp: core_ok_def pc_of_def)
  have code: "code_area (h_mem h) (isa_pc s) 7" using fe ar by (simp add: fetchable_def code_area_def)
  show ?thesis
  proof (cases "content (isa_pc s) (bbCache h)")
    case None
    have pc': "reg_val (h_gprf h) PC = isa_pc s" using pc by (simp add: pc_of_def)
    obtain h' b n where f: "fetchBB h = Inr h'" "currentInstr h' = Some (b, 0)" "h_gprf h' = h_gprf h" "same_memory (h_mem h) (h_mem h')"
      "pf_ok (h_mem h') (prefetcher h')" and be: "block_end (bbs (bbCache h') ! b) n"
      and co: "\<forall>k<n. code_at (h_mem h) (isa_pc s + of_nat (4 * k)) = Inr (instrs (bbs (bbCache h') ! b) ! k)"
      using fetchBB_miss [OF core wp pf pc' code None] by blast
    have bpc: "bb_pc (bbs (bbCache h') ! b) = isa_pc s" using fetchBB_blocks [OF core f(1)] f(2) pc by auto
    have uniq: "m = n" if "block_end (bbs (bbCache h') ! b) m" for m
      using block_end_unique [OF that be] by (simp add: wf_instr_def)
    have "n < 8" using be by (simp add: block_end_def)
    then have "text_block prog (isa_mem s) (bbs (bbCache h') ! b)"
      using co fe uniq unfolding text_block_def bpc code_at_def pk fetchable_def by force
    then show ?thesis using f by blast
  next
    case (Some code)
    have pc': "reg_val (h_gprf h) PC = isa_pc s" using pc by (simp add: pc_of_def)
    obtain h' b where f: "fetchBB h = Inr h'" "currentInstr h' = Some (b, 0)" "h_gprf h' = h_gprf h" "h_mem h' = h_mem h"
        "prefetcher h' = prefetcher h" "bbs (bbCache h') = bbs (bbCache h)"
      using fetchBB_hit [OF pc' Some] by blast
    have "within (<) h'" using validD [OF fetchBB_core [OF core] f(1)] by (simp add: ready_def)
    then have "bbs (bbCache h') ! b \<in> set (bbs (bbCache h))" using f(2,6) by (auto simp: within_def)
    moreover have "bb_pc (bbs (bbCache h') ! b) = isa_pc s" using fetchBB_blocks [OF core f(1)] f(2) pc by auto
    ultimately have "text_block prog (isa_mem s) (bbs (bbCache h') ! b)" using blocks ev by simp
    then show ?thesis using f pf by (auto simp: same_memory_def)
  qed
qed

lemma fetch_follows:
  assumes m: "mirrors E area prog h s" and fe: "fetchable area prog (isa_pc s)"
  shows "\<exists>h' i. fetchBB h = Inr h' \<and> follows E area prog h' s \<and> current h' = Inr i \<and> operation i \<noteq> BB_END"
proof -
  have core: "core_ok E h" and wp: "whole_pages (h_mem h)"
      and ar: "pm_area (h_mem h) = area" and pk: "pm_peek (h_mem h) = isa_mem s" and pc: "pc_of h = isa_pc s"
      and blocks: "\<forall>bb\<in>set (bbs (bbCache h)). bb_pc bb \<noteq> 1 \<longrightarrow> text_block prog (isa_mem s) bb"
      and regs: "\<forall>r<32. reg_val (h_gprf h) r = isa_reg r s"
    using m by (auto simp: mirrors_def)
  have ev: "isa_pc s \<noteq> 1" using core pc by (auto simp: core_ok_def pc_of_def)
  obtain h' b where f: "fetchBB h = Inr h'" "currentInstr h' = Some (b, 0)" "h_gprf h' = h_gprf h" "same_memory (h_mem h) (h_mem h')"
      "pf_ok (h_mem h') (prefetcher h')" and tb: "text_block prog (isa_mem s) (bbs (bbCache h') ! b)"
    using fetch_text_block [OF m fe] by blast
  have rd: "ready E h'" by (rule validD [OF fetchBB_core [OF core] f(1)])
  obtain i where i: "current h' = Inr i" "wf_instr i" using current_ready [OF rd] by blast
  have bpc: "bb_pc (bbs (bbCache h') ! b) = isa_pc s"
    and sub: "set (bbs (bbCache h')) \<subseteq> insert (bbs (bbCache h') ! b) (set (bbs (bbCache h)))"
    using fetchBB_blocks [OF core f(1)] f(2) pc by auto
  have "pm_area (h_mem h') = area" "pm_peek (h_mem h') = isa_mem s" "whole_pages (h_mem h')"
    using f(4) ar pk wp pm_area_devices [of "h_mem h'" "h_mem h"] same_memory_peek [OF f(4)] same_memory_transfer(1) [OF f(4)]
    by (simp_all add: same_memory_def)
  then have "mirrors E area prog h' s"
    using ready_core [OF rd] f(3,5) sub blocks tb pc regs by (auto simp: mirrors_def pc_of_def)
  moreover have "at_slot h'"
    using i f(2,3) bpc ev pc by (simp add: at_slot_def slot_address_def pc_of_def)
  ultimately show ?thesis
    using f(1) i ready_hart_ok [OF rd] by (auto simp: follows_def wf_instr_def)
qed

text \<open>Completing an instruction, in terms of what it changed.\<close>

lemma text_block_agree:
  assumes "text_block prog m bb" and "\<forall>a\<in>prog. m' a = m a"
  shows "text_block prog m' bb"
proof -
  have "mem_get 4 a m' = mem_get 4 a m" if "\<forall>j<4. a + of_nat j \<in> prog" for a
    using that assms(2) by (intro nth_equalityI) simp_all
  then show ?thesis using assms(1) unfolding text_block_def by simp
qed

lemma pm_ext_whole_pages:
  assumes "pm_inv E pm" "whole_pages pm" "pm_ext pm pm'"
  shows "whole_pages pm'"
proof -
  have "snd e < length (rams pm)" if "e \<in> set (devices pm)" for e
    using assms(1) that by (auto simp: pm_inv_def pm_ok_def dev_ok_def)
  then show ?thesis using assms(2,3) by (simp add: whole_pages_def pm_ext_def)
qed

lemma mirrors_next:
  assumes m: "mirrors E area prog h s"
    and g: "bbCache g = bbCache h" "prefetcher g = prefetcher h" "wf_gprf (h_gprf g)"
    and ext: "pm_ext (h_mem h) (h_mem g)" and pk: "pm_peek (h_mem g) = isa_mem s'"
    and same: "\<forall>a\<in>prog. isa_mem s' a = isa_mem s a"
    and regs: "\<forall>r<32. reg_val (h_gprf g) r = isa_reg r s'" and t: "t = isa_pc s'"
    and core: "core_ok E (retire i (jump t g))"
  shows "mirrors E area prog (retire i (jump t g)) s'"
proof -
  let ?h = "retire i (jump t g)"
  have parts [simp]: "h_mem ?h = h_mem g" "bbCache ?h = bbCache h" "prefetcher ?h = prefetcher h" "h_gprf ?h = set_reg PC t (h_gprf g)"
    using g by (simp_all add: retire_def jump_def)
  have "pc_of ?h = t" using reg_val_set_reg [OF g(3), of PC t] by (simp add: pc_of_def)
  then have pc: "pc_of ?h = isa_pc s'" using t by (rule trans)
  have gr: "reg_val (h_gprf ?h) r = isa_reg r s'" if "r < 32" for r
    using reg_val_set_reg [OF g(3), of PC t] regs that by auto
  have pm: "pm_inv (env_os E) (h_mem h)" using m by (simp add: mirrors_def core_ok_def)
  then have "pf_ok (h_mem g) (prefetcher h)" using pf_ok_ext [OF _ _ ext] m by (auto simp: mirrors_def pm_inv_def)
  moreover have "whole_pages (h_mem g)" using pm_ext_whole_pages [OF pm _ ext] m by (simp add: mirrors_def)
  moreover have "pm_area (h_mem g) = area" using pm_area_devices [of "h_mem g" "h_mem h"] ext m by (simp add: mirrors_def pm_ext_def)
  moreover have "\<forall>bb\<in>set (bbs (bbCache h)). bb_pc bb \<noteq> 1 \<longrightarrow> text_block prog (isa_mem s') bb"
    using m text_block_agree [OF _ same] by (simp add: mirrors_def)
  ultimately show ?thesis using core pk pc gr by (simp add: mirrors_def)
qed

lemma follows_next:
  assumes f: "follows E area prog h s" and r: "ready E h" and i: "current h = Inr i"
    and g: "bbCache g = bbCache h" "currentInstr g = currentInstr h" "prefetcher g = prefetcher h" "wf_gprf (h_gprf g)"
    and ext: "pm_ext (h_mem h) (h_mem g)" and pk: "pm_peek (h_mem g) = isa_mem s'"
    and same: "\<forall>a\<in>prog. isa_mem s' a = isa_mem s a"
    and regs: "\<forall>r<32. reg_val (h_gprf g) r = isa_reg r s'"
    and t: "t = isa_pc s'" "isJump i \<or> isa_pc s' = isa_pc s + 4"
    and ok: "hart_ok E (retire i (jump t g))"
  shows "follows E area prog (retire i (jump t g)) s'"
proof -
  let ?h = "retire i (jump t g)"
  have m: "mirrors E area prog h s" and slot: "at_slot h" using f by (simp_all add: follows_def)
  have parts [simp]: "bbCache ?h = bbCache h" "h_gprf ?h = set_reg PC t (h_gprf g)"
      "currentInstr ?h = map_option (\<lambda>(b, k). (b, k + 1)) (currentInstr h)"
    using g by (simp_all add: retire_def jump_def)
  have pct: "pc_of ?h = t" using reg_val_set_reg [OF g(4), of PC t] by (simp add: pc_of_def)
  have "core_ok E ?h" using ok by (simp add: hart_ok_def)
  from mirrors_next [OF m g(1,3,4) ext pk same regs t(1) this]
  have "mirrors E area prog ?h s'" .
  moreover have "at_slot ?h"
  proof -
    obtain b k n where c: "currentInstr h = Some (b, k)" "b < length (bbs (bbCache h))" "block_end (bbs (bbCache h) ! b) n" "k < n"
      using r by (auto simp: ready_def within_def)
    have ik: "i = instrs (bbs (bbCache h) ! b) ! k" using current_at [OF c(1-3)] c(4) i by simp
    have wf: "operation i \<noteq> BB_END" using current_wf [OF r i] by (simp add: wf_instr_def)
    have sl: "bb_pc (bbs (bbCache h) ! b) \<noteq> 1" "slot_address h = isa_pc s"
      using slot c(1) i wf m by (auto simp: at_slot_def mirrors_def)
    have cur: "current ?h = Inr (instrs (bbs (bbCache h) ! b) ! (k + 1))"
      using current_at [of ?h b "k + 1" n] c by simp
    have "slot_address ?h = t" if "operation (instrs (bbs (bbCache h) ! b) ! (k + 1)) \<noteq> BB_END"
    proof -
      have "k + 1 < n" using block_slot(3) [OF c(3), of "k + 1"] that c(4) by simp
      moreover have "isJump i \<longrightarrow> k = n - 1" using c(3,4) ik by (simp add: block_end_def)
      ultimately have "\<not> isJump i" by auto
      moreover have "slot_address ?h = slot_address h + 4" using c(1) by (simp add: slot_address_def algebra_simps)
      ultimately show ?thesis using t sl(2) by auto
    qed
    then show ?thesis using cur c(1) sl(1) pct by (simp add: at_slot_def)
  qed
  ultimately show ?thesis using ok by (simp add: follows_def)
qed

text \<open>Loads and stores keep the mapping of the pages that are in use.\<close>

lemma load_ext:
  assumes "pm_inv E pm"
  shows "mmu_loadByte a pm = Inr (v8, m) \<Longrightarrow> pm_ext pm m" "mmu_loadHWord a pm = Inr (v16, m) \<Longrightarrow> pm_ext pm m"
    "mmu_loadWord a pm = Inr (v32, m) \<Longrightarrow> pm_ext pm m" "mmu_loadDWord a pm = Inr (v64, m) \<Longrightarrow> pm_ext pm m"
  unfolding mmu_defs Let_def pm_loadByte_def pm_loadHWord_def pm_loadWord_def pm_loadDWord_def
  by (blast dest: load_keeps [OF assms] intro: pm_ext_same)+

lemma store_ext:
  assumes "pm_inv E pm"
  shows "mmu_storeByte E a v pm = Inr m \<Longrightarrow> pm_ext pm m" "mmu_storeHWord E a x pm = Inr m \<Longrightarrow> pm_ext pm m"
    "mmu_storeWord E a x pm = Inr m \<Longrightarrow> pm_ext pm m" "mmu_storeDWord E a x pm = Inr m \<Longrightarrow> pm_ext pm m"
proof -
  have mm: "pm_ok E pm" "mmap_ok E" using assms by (simp_all add: pm_inv_def)
  note keep = pm_store_keeps [OF mm]
  show "mmu_storeByte E a v pm = Inr m \<Longrightarrow> pm_ext pm m" "mmu_storeHWord E a x pm = Inr m \<Longrightarrow> pm_ext pm m"
    "mmu_storeWord E a x pm = Inr m \<Longrightarrow> pm_ext pm m" "mmu_storeDWord E a x pm = Inr m \<Longrightarrow> pm_ext pm m"
    unfolding mmu_defs Let_def pm_storeByte_def pm_storeHWord_def pm_storeWord_def pm_storeDWord_def ram_access_defs
    using keep [of 1 a v m] keep [of 2 a "word_of_int x :: u16" m] keep [of 4 a "word_of_int x :: u32" m]
      keep [of 8 a "word_of_int x :: u64" m]
    by (simp_all add: access_width_def)
qed

lemma access_ext:
  assumes r: "ready E h" and i: "current h = Inr i" and op: "operation i \<in> set load_ops \<union> set store_ops"
    and d: "dispatch E h = Inr (Dispatch x)"
  shows "pm_ext (h_mem h) (h_mem x)"
proof -
  note facts = exec_facts [OF r i] and ext = load_ext [OF ready_pm [OF r]] store_ext [OF ready_pm [OF r]]
  have parts [simp]: "h_mem (retire i y) = h_mem y" "h_mem (jump t y) = h_mem y" "h_mem (put_rd i v y) = h_mem y" for y t v
    by (simp_all add: retire_def jump_def put_rd_def)
  have d': "handler (operation i) E h = Inr (Dispatch x)" using facts(1) d by simp
  show ?thesis
    using op unfolding load_ops_def store_ops_def
    by (auto; insert d'; auto simp: load_defs store_defs facts(2-7) bindE_eq_Inr_iff Let_def intro: ext)
qed

text \<open>\<open>carries h g s\<close>: \<open>g\<close> is \<open>h\<close> with the registers and the memory of \<open>s\<close>, before the program counter moves.\<close>

definition carries :: "Hart \<Rightarrow> Hart \<Rightarrow> isa_state \<Rightarrow> bool" where
  "carries h g s \<longleftrightarrow>
     bbCache g = bbCache h \<and> currentInstr g = currentInstr h \<and> prefetcher g = prefetcher h \<and> wf_gprf (h_gprf g) \<and>
     instrsExecuted g = instrsExecuted h \<and> hookManager g = hookManager h \<and> hook_log g = hook_log h \<and>
     pm_ext (h_mem h) (h_mem g) \<and> pm_peek (h_mem g) = isa_mem s \<and> (\<forall>r<32. reg_val (h_gprf g) r = isa_reg r s)"

lemma carries_start: "ready E h \<Longrightarrow> mirrors E area prog h s \<Longrightarrow> carries h h s"
  using ready_gprf [of E h] pm_ext_same [of "h_mem h" "h_mem h"] by (simp add: carries_def mirrors_def same_memory_def)

lemma carries_rd: "wf_instr i \<Longrightarrow> carries h g s \<Longrightarrow> carries h (put_rd i v g) (isa_write (rd i) v s)"
  using reg_val_set_reg [of "h_gprf g" "rd i" v] unat_wf_reg [of "rd i"] wf_set_reg [of "h_gprf g" "rd i" v]
  by (auto simp: carries_def put_rd_def isa_write_def isa_reg_def wf_instr_def)

lemma carries_mem: "carries h h s \<Longrightarrow> pm_ext (h_mem h) m \<Longrightarrow> carries h (h\<lparr>h_mem := m\<rparr>) (s\<lparr>isa_mem := pm_peek m\<rparr>)"
  by (simp add: carries_def isa_reg_def)

lemma effect_alu: "operation i \<in> set alu_ops \<Longrightarrow> isa_effect i s = isa_write (rd i) (isa_value i s) s"
  by (simp add: isa_effect_def)

lemma effect_load:
  "operation i \<in> set load_ops \<Longrightarrow> isa_effect i s =
     isa_write (rd i) (isa_load (operation i) (mem_get (access_bytes (operation i)) (isa_address i s) (isa_mem s))) s"
  by (auto simp: isa_effect_def alu_ops_def load_ops_def)

lemma effect_store:
  "operation i \<in> set store_ops \<Longrightarrow> isa_effect i s =
     s\<lparr>isa_mem := mem_put (isa_address i s) (le_bytes (access_bytes (operation i)) (isa_reg (rs2 i) s)) (isa_mem s)\<rparr>"
  by (auto simp: isa_effect_def alu_ops_def load_ops_def store_ops_def)

lemma effect_branch: "operation i \<in> set branch_ops \<Longrightarrow> isa_effect i s = s"
  by (auto simp: isa_effect_def alu_ops_def load_ops_def store_ops_def branch_ops_def)

lemma target_next: "operation i \<notin> {JAL, JALR} \<union> set branch_ops \<Longrightarrow> isa_target i s = isa_pc s + 4"
  by (simp add: isa_target_def)

text \<open>The operands and the addresses the handlers read are the machine's.\<close>

lemma mirrors_reads:
  assumes m: "mirrors E area prog h s" and wf: "wf_instr i"
  shows "reg_val (h_gprf h) (rs1 i) = isa_reg (rs1 i) s" "reg_val (h_gprf h) (rs2 i) = isa_reg (rs2 i) s"
    and "operand2 i h = isa_operand2 i s" and "isa_result i h = isa_value i s" and "access_address i h = isa_address i s"
    and "pc_of h = isa_pc s" and "pm_area (h_mem h) = area" and "pm_peek (h_mem h) = isa_mem s"
proof -
  show r: "reg_val (h_gprf h) (rs1 i) = isa_reg (rs1 i) s" "reg_val (h_gprf h) (rs2 i) = isa_reg (rs2 i) s"
    using m wf by (simp_all add: mirrors_def wf_instr_def)
  show o: "operand2 i h = isa_operand2 i s" using r by (simp add: operand2_def isa_operand2_def)
  show "isa_result i h = isa_value i s" "access_address i h = isa_address i s"
    using r o by (simp_all add: isa_result_def isa_value_def access_address_def isa_address_def)
  show "pc_of h = isa_pc s" "pm_area (h_mem h) = area" "pm_peek (h_mem h) = isa_mem s"
    using m by (simp_all add: mirrors_def)
qed

text \<open>\<open>does i E h t g\<close>: the handler of \<open>i\<close> makes \<open>g\<close> of the hart, moves the program counter to \<open>t\<close> and completes.\<close>

definition does :: "Instruction \<Rightarrow> env \<Rightarrow> Hart \<Rightarrow> RV64Ptr \<Rightarrow> Hart \<Rightarrow> bool" where
  "does i E h t g \<longleftrightarrow> dispatch E h = Inr (Dispatch (retire i (jump t g)))"

lemma alu_value:
  assumes r: "ready E h" "current h = Inr i" and m: "mirrors E area prog h s"
    and op: "alu_exact (operation i) (isa_operand2 i s) \<or>
     (operation i \<in> {ADDW, SUBW, ADDIW} \<or> operation i \<in> {SLLW, SLLIW} \<and> isa_operand2 i s < 32) \<and> \<not> bit (isa_value i s) 31 \<or>
     operation i \<in> {SRLW, SRLIW, SRAW} \<and> isa_operand2 i s < 32 \<and> right_exact (operation i) (isa_reg (rs1 i) s) (isa_operand2 i s)"
  shows "dispatch E h = Inr (Dispatch (retire i (jump (pc_of h + 4) (put_rd i (isa_value i s) h))))"
proof -
  note reads = mirrors_reads [OF m current_wf [OF r]]
  from op consider "alu_exact (operation i) (operand2 i h)"
    | (left) "operation i \<in> {ADDW, SUBW, ADDIW} \<or> operation i \<in> {SLLW, SLLIW} \<and> operand2 i h < 32" "\<not> bit (isa_value i s) 31"
    | (right) "operation i \<in> {SRLW, SRLIW, SRAW}" "operand2 i h < 32" "right_exact (operation i) (reg_val (h_gprf h) (rs1 i)) (operand2 i h)"
    unfolding reads by blast
  then show ?thesis
  proof cases
    case 1
    then show ?thesis using alu_step [OF r] reads(4) by simp
  next
    case left
    note ws = word_step [OF r left(1)]
    have "\<not> bit (wide_result i h) 31" using left(2) ws(2) reads(4) by (simp add: bit_signed_iff bit_ucast_iff)
    then have "ExtractBits 32 0 (wide_result i h) = isa_value i s" using ws(2) reads(4) zero_extended(2) by simp
    then show ?thesis using ws(1) by simp
  next
    case right
    then show ?thesis using right_step [OF r right(1,2)] reads(4) by simp
  qed
qed

lemma alu_agrees:
  assumes r: "ready E h" "current h = Inr i" and m: "mirrors E area prog h s"
    and op: "alu_exact (operation i) (isa_operand2 i s) \<or>
     (operation i \<in> {ADDW, SUBW, ADDIW} \<or> operation i \<in> {SLLW, SLLIW} \<and> isa_operand2 i s < 32) \<and> \<not> bit (isa_value i s) 31 \<or>
     operation i \<in> {SRLW, SRLIW, SRAW} \<and> isa_operand2 i s < 32 \<and> right_exact (operation i) (isa_reg (rs1 i) s) (isa_operand2 i s)"
  shows "\<exists>g. does i E h (isa_target i s) g \<and> carries h g (isa_effect i s)"
proof -
  have alu: "operation i \<in> set alu_ops" using op by (auto simp: alu_exact_def alu_ops_def)
  have t: "isa_target i s = pc_of h + 4"
    using alu mirrors_reads(6) [OF m current_wf [OF r]] by (auto simp: alu_ops_def isa_target_def branch_ops_def)
  show ?thesis
    unfolding does_def t effect_alu [OF alu]
    using alu_value [OF r m op] carries_rd [OF current_wf [OF r] carries_start [OF r(1) m]] by blast
qed

lemma upper_agrees:
  assumes r: "ready E h" "current h = Inr i" and m: "mirrors E area prog h s"
    and op: "operation i \<in> {LUI, AUIPC}" "drop_bit 20 (immidiate i) = 0"
  shows "\<exists>g. does i E h (isa_target i s) g \<and> carries h g (isa_effect i s)"
proof -
  note wf = current_wf [OF r] and reads = mirrors_reads [OF m current_wf [OF r]]
  have "\<not> bit (drop_bit 20 (immidiate i)) (k - 20)" for k unfolding op(2) by simp
  then have high: "\<not> bit (immidiate i) (20 + (k - 20))" for k by (simp only: bit_drop_bit_eq comp_apply not_False_eq_True)
  have "\<not> bit (immidiate i) k" if "32 \<le> k" for k
  proof -
    have "20 + (k - 20) = k" using that by simp
    then show ?thesis using high [of k] by (simp only: not_False_eq_True)
  qed
  then have v: "ExtractBits 20 0 (immidiate i) = signed_take_bit 31 (immidiate i)"
    unfolding extract20 using upper_immediate_agree op(2) by blast
  have t: "isa_target i s = pc_of h + 4" using op(1) reads(6) by (auto simp: target_next branch_ops_def)
  let ?v = "if operation i = LUI then signed_take_bit 31 (immidiate i) else isa_pc s + signed_take_bit 31 (immidiate i)"
  have "isa_effect i s = isa_write (rd i) ?v s" using op(1) by (auto simp: isa_effect_def alu_ops_def)
  moreover have "dispatch E h = Inr (Dispatch (retire i (jump (pc_of h + 4) (put_rd i ?v h))))"
    using op(1) exec_facts [OF r] read_PC_eq [of h] v reads(6)
    by (auto simp: exec_LUI_def exec_AUIPC_def simp del: reg_const_simps)
  ultimately show ?thesis
    unfolding does_def t using carries_rd [OF wf carries_start [OF r(1) m], of ?v] by auto
qed

lemma load_agrees:
  assumes r: "ready E h" "current h = Inr i" and m: "mirrors E area prog h s"
    and op: "operation i \<in> set load_ops" "area (isa_address i s) (access_bytes (operation i))"
  shows "\<exists>g. does i E h (isa_target i s) g \<and> carries h g (isa_effect i s)"
proof -
  note wf = current_wf [OF r] and reads = mirrors_reads [OF m current_wf [OF r]]
  let ?v = "isa_load (operation i) (mem_get (access_bytes (operation i)) (isa_address i s) (isa_mem s))"
  obtain pm where d: "dispatch E h = Inr (Dispatch (retire i (jump (pc_of h + 4) (put_rd i ?v (h\<lparr>h_mem := pm\<rparr>)))))"
      and pk: "pm_peek pm = isa_mem s"
    using load_step [OF r] op unfolding reads load_ops_def by auto
  have t: "isa_target i s = pc_of h + 4" using op(1) reads(6) by (auto simp: target_next branch_ops_def load_ops_def)
  have "pm_ext (h_mem h) pm"
    using access_ext [OF r _ d] op(1) by (simp add: retire_def jump_def put_rd_def)
  then have "carries h (h\<lparr>h_mem := pm\<rparr>) s" using carries_mem [OF carries_start [OF r(1) m], of pm] pk by simp
  then have "carries h (put_rd i ?v (h\<lparr>h_mem := pm\<rparr>)) (isa_effect i s)"
    unfolding effect_load [OF op(1)] by (rule carries_rd [OF wf])
  then show ?thesis unfolding does_def t using d by blast
qed

lemma store_agrees:
  assumes r: "ready E h" "current h = Inr i" and m: "mirrors E area prog h s"
    and op: "operation i \<in> set store_ops" "area (isa_address i s) (access_bytes (operation i))"
  shows "\<exists>g. does i E h (isa_target i s) g \<and> carries h g (isa_effect i s)"
proof -
  note reads = mirrors_reads [OF m current_wf [OF r]]
  obtain pm where d: "dispatch E h = Inr (Dispatch (retire i (jump (pc_of h + 4) (h\<lparr>h_mem := pm\<rparr>))))"
      and pk: "pm_peek pm = isa_mem (isa_effect i s)"
    using store_step [OF r] op unfolding effect_store [OF op(1)] reads store_ops_def by auto
  have t: "isa_target i s = pc_of h + 4" using op(1) reads(6) by (auto simp: target_next branch_ops_def store_ops_def)
  have "pm_ext (h_mem h) pm"
    using access_ext [OF r _ d] op(1) by (simp add: retire_def jump_def)
  then have "carries h (h\<lparr>h_mem := pm\<rparr>) (isa_effect i s)"
    using carries_mem [OF carries_start [OF r(1) m], of pm] unfolding pk effect_store [OF op(1)] by simp
  then show ?thesis unfolding does_def t using d by blast
qed

lemma control_agrees:
  assumes r: "ready E h" "current h = Inr i" and m: "mirrors E area prog h s"
    and op: "operation i \<in> set branch_ops \<and> bit (immidiate i) 11 = bit (immidiate i) 12 \<or> operation i = JALR \<or>
      operation i = JAL \<and> bit (immidiate i) 19 = bit (immidiate i) 20"
  shows "\<exists>g. does i E h (isa_target i s) g \<and> carries h g (isa_effect i s)"
proof -
  note wf = current_wf [OF r] and reads = mirrors_reads [OF m current_wf [OF r]] and start = carries_start [OF r(1) m]
  show ?thesis
  proof (cases "operation i \<in> set branch_ops")
    case True
    then have b: "operation i \<in> {BEQ, BNE, BLT, BGE, BLTU, BGEU}" "bit (immidiate i) 11 = bit (immidiate i) 12"
      using op by (auto simp: branch_ops_def)
    have "signed_take_bit 11 (immidiate i) = signed_take_bit 12 (immidiate i)"
      using signed_take_bit_agree [of 11 "immidiate i"] b(2) by simp
    then have "does i E h (isa_target i s) h"
      using branch_step [OF r b(1)] True b(1) unfolding does_def reads by (auto simp: isa_target_def)
    then show ?thesis using start effect_branch [OF True] by auto
  next
    case False
    then have j: "operation i = JALR \<or> operation i = JAL \<and> bit (immidiate i) 19 = bit (immidiate i) 20" using op by blast
    have link: "isa_effect i s = isa_write (rd i) (isa_pc s + 4) s"
      using j by (auto simp: isa_effect_def alu_ops_def load_ops_def store_ops_def)
    have "signed_take_bit 19 (immidiate i) = signed_take_bit 20 (immidiate i)" if "operation i = JAL"
      using signed_take_bit_agree [of 19 "immidiate i"] j that by simp
    then have "does i E h (isa_target i s) (put_rd i (isa_pc s + 4) h)"
      using jump_step [OF r] j unfolding does_def reads by (auto simp: isa_target_def isa_address_def)
    then show ?thesis using carries_rd [OF wf start] unfolding link by blast
  qed
qed

lemma exec_agrees:
  assumes r: "ready E h" "current h = Inr i" and m: "mirrors E area prog h s" and a: "agrees area prog i s"
  shows "\<exists>g. does i E h (isa_target i s) g \<and> carries h g (isa_effect i s) \<and> (\<forall>x\<in>prog. isa_mem (isa_effect i s) x = isa_mem s x)"
proof -
  have "\<forall>x\<in>prog. isa_mem (isa_effect i s) x = isa_mem s x"
  proof (cases "operation i \<in> set store_ops")
    case True
    then have "\<forall>x\<in>prog. \<not> in_area (isa_address i s) (access_bytes (operation i)) x"
      using a by (auto simp: agrees_def alu_exact_def store_ops_def load_ops_def branch_ops_def)
    then show ?thesis by (simp add: effect_store [OF True] mem_put_def)
  qed (simp add: isa_effect_def isa_write_def)
  moreover have "\<exists>g. does i E h (isa_target i s) g \<and> carries h g (isa_effect i s)"
    using a alu_agrees [OF r m] upper_agrees [OF r m] load_agrees [OF r m] store_agrees [OF r m] control_agrees [OF r m]
    unfolding agrees_def by (elim disjE conjE) blast+
  ultimately show ?thesis by blast
qed

lemma fetchBB_counter: "fetchBB h = Inr h' \<Longrightarrow> instrsExecuted h' = instrsExecuted h"
  unfolding fetchBB_def read_PC bindE_Inr Let_def
  by (auto simp: bindE_eq_Inr_iff assembleBB_def split_beta split: if_splits simp del: reg_const_simps)

text \<open>One step of the machine is the handler of the current instruction, after that of the end marker if the block is done.\<close>

lemma current_text:
  assumes f: "follows E area prog h s" and i: "current h = Inr i" "operation i \<noteq> BB_END"
  shows "ready E h" and "parse (le_word (mem_get 4 (isa_pc s) (isa_mem s))) = Inr i"
proof -
  have ok: "hart_ok E h" and slot: "at_slot h" and m: "mirrors E area prog h s" using f by (simp_all add: follows_def)
  show r: "ready E h" using current_hart_ok [OF ok] i by auto
  obtain b k n where c: "currentInstr h = Some (b, k)" "b < length (bbs (bbCache h))" "block_end (bbs (bbCache h) ! b) n" "k < n"
    using r by (auto simp: ready_def within_def)
  have "i = instrs (bbs (bbCache h) ! b) ! k" using current_at [OF c(1-3)] c(4) i(1) by simp
  moreover have "bb_pc (bbs (bbCache h) ! b) \<noteq> 1" "bb_pc (bbs (bbCache h) ! b) + of_nat (4 * k) = isa_pc s"
    using slot c(1) i m by (auto simp: at_slot_def slot_address_def mirrors_def)
  moreover have "text_block prog (isa_mem s) (bbs (bbCache h) ! b)" using m calculation(2) c(2) by (simp add: mirrors_def)
  ultimately show "parse (le_word (mem_get 4 (isa_pc s) (isa_mem s))) = Inr i"
    using c(3,4) unfolding text_block_def by metis
qed

lemma retire_pc: "isa_target i s \<noteq> isa_pc s + 4 \<Longrightarrow> isJump i"
  by (auto simp: isa_target_def isJump_def branch_ops_def split: if_splits)

lemma follows_handler:
  assumes f: "follows E area prog h s" and i: "current h = Inr i" "operation i \<noteq> BB_END"
    and a: "encode a = Some (le_word (mem_get 4 (isa_pc s) (isa_mem s)))" "agrees area prog (asm_instr a) s"
  shows "i = asm_instr a"
    and "\<exists>g. does i E h (isa_target i s) g \<and> carries h g (isa_effect i s) \<and> (\<forall>x\<in>prog. isa_mem (isa_effect i s) x = isa_mem s x) \<and>
      follows E area prog (retire i (jump (isa_target i s) g)) (isa_exec i s)"
proof -
  have m: "mirrors E area prog h s" and ok: "hart_ok E h" using f by (simp_all add: follows_def)
  note cur = current_text [OF f i]
  show ia: "i = asm_instr a" using parse_encode [OF a(1)] cur(2) by simp
  obtain g where g: "does i E h (isa_target i s) g" "carries h g (isa_effect i s)"
      "\<forall>x\<in>prog. isa_mem (isa_effect i s) x = isa_mem s x"
    using exec_agrees [OF cur(1) i(1) m] a(2) unfolding ia by blast
  have d: "dispatch E h = Inr (Dispatch (retire i (jump (isa_target i s) g)))" using g(1) by (simp add: does_def)
  have s': "isa_mem (isa_exec i s) = isa_mem (isa_effect i s)" "isa_pc (isa_exec i s) = isa_target i s"
      "isa_reg r (isa_exec i s) = isa_reg r (isa_effect i s)" for r
    unfolding isa_exec_def isa_reg_def by simp_all
  have "follows E area prog (retire i (jump (isa_target i s) g)) (isa_exec i s)"
  proof (rule follows_next [OF f cur(1) i(1)])
    show "hart_ok E (retire i (jump (isa_target i s) g))" using validD [OF dispatch_ok [OF ok] d] by simp
    show "isJump i \<or> isa_pc (isa_exec i s) = isa_pc s + 4" using retire_pc s'(2) by metis
  qed (use g(2,3) s' in \<open>simp_all add: carries_def\<close>)
  then show "\<exists>g. does i E h (isa_target i s) g \<and> carries h g (isa_effect i s) \<and> (\<forall>x\<in>prog. isa_mem (isa_effect i s) x = isa_mem s x) \<and>
      follows E area prog (retire i (jump (isa_target i s) g)) (isa_exec i s)"
    using g by blast
qed

lemma follows_exec:
  assumes f: "follows E area prog h s" and i: "current h = Inr i" "operation i \<noteq> BB_END" and st: "isa_step area prog s s'"
  shows "\<exists>h'. hart_step E h h' \<and> follows E area prog h' s' \<and> instrsExecuted h' = instrsExecuted h + 1"
proof -
  obtain a where a: "encode a = Some (le_word (mem_get 4 (isa_pc s) (isa_mem s)))" "agrees area prog (asm_instr a) s"
      "s' = isa_exec (asm_instr a) s"
    using st by (auto elim: isa_stepE)
  obtain g where g: "does i E h (isa_target i s) g" "carries h g (isa_effect i s)"
      "follows E area prog (retire i (jump (isa_target i s) g)) s'"
    using follows_handler [OF f i a(1,2)] a(3) by auto
  have "instrsExecuted (retire i (jump (isa_target i s) g)) = instrsExecuted h + 1"
    using g(2) by (simp add: carries_def retire_def jump_def)
  then show ?thesis using g(1,3) by (auto simp: hart_step_iff does_def)
qed

lemma two_steps: "R a b \<Longrightarrow> R b c \<Longrightarrow> (R ^^ 2) a c"
  by (auto simp: numeral_2_eq_2)

lemma follows_step:
  assumes f: "follows E area prog h s" and st: "isa_step area prog s s'"
  shows "\<exists>h' k. k \<in> {1, 2} \<and> (hart_step E ^^ k) h h' \<and> follows E area prog h' s' \<and> instrsExecuted h' = instrsExecuted h + 1"
proof -
  have ok: "hart_ok E h" and m: "mirrors E area prog h s" using f by (simp_all add: follows_def)
  have fe: "fetchable area prog (isa_pc s)" using st by (auto elim: isa_stepE)
  obtain i where i: "current h = Inr i" using current_hart_ok [OF ok] by blast
  show ?thesis
  proof (cases "operation i = BB_END")
    case False
    obtain h' where h': "hart_step E h h'" "follows E area prog h' s'" "instrsExecuted h' = instrsExecuted h + 1"
      using follows_exec [OF f i False st] by blast
    then have "(hart_step E ^^ 1) h h'" by auto
    then show ?thesis using h'(2,3) by blast
  next
    case True
    obtain h1 j where h1: "fetchBB h = Inr h1" "follows E area prog h1 s" "current h1 = Inr j" "operation j \<noteq> BB_END"
      using fetch_follows [OF m fe] by blast
    have s1: "hart_step E h h1" using dispatch_eq [OF i] True h1(1) by (simp add: hart_step_iff exec_BB_END_def)
    from follows_exec [OF h1(2-4) st] obtain h' where h': "hart_step E h1 h'" "follows E area prog h' s'" "instrsExecuted h' = instrsExecuted h + 1"
      using fetchBB_counter [OF h1(1)] by auto
    have "(hart_step E ^^ 2) h h'" using s1 h'(1) by (rule two_steps)
    then show ?thesis using h'(2,3) by blast
  qed
qed

interpretation isa: forward_simulation "isa_step area prog" "hart_step E" "follows E area prog" instrsExecuted for area prog E
  by unfold_locales (rule follows_step, assumption+, simp add: hart_step_iff)

end
