(* ===== verification/IsaProgram.thy ===== *)
theory IsaProgram
  imports IsaMachine
begin

text \<open>
  Whole programs.  A machine constructed from a configuration and an executable is compared with the
  architecture's machine started at address zero on the same registers and on the memory image of
  the executable: what one computes in \<open>n\<close> instructions the other computes in between \<open>n\<close> and
  \<open>2 n + 1\<close> handler calls, it returns at the \<^verbatim>\<open>EBREAK\<close> the program reaches, and it does not return from
  a program that goes on for ever.
\<close>

section \<open>The initial states\<close>

text \<open>Natural alignment and mapping, in terms of the configured ranges.\<close>

definition range_area :: "RV64Ptr Range list \<Rightarrow> RV64Ptr \<Rightarrow> nat \<Rightarrow> bool" where
  "range_area rs a n \<longleftrightarrow> access_width n \<and>
     (\<exists>r\<in>set rs. leftBorder r \<le> a \<and> unat a + n \<le> unat (rightBorder r) \<and> n dvd unat (a - leftBorder r))"

lemma pm_area_ranges:
  assumes "fst ` set (devices pm) = set rs"
  shows "pm_area pm = range_area rs"
  unfolding pm_area_def range_area_def assms [symmetric] fun_eq_iff by (simp add: split_beta)

definition isa_boot :: "RV64UDWord list \<Rightarrow> LoadableSegment list \<Rightarrow> isa_state" where
  "isa_boot regs segs = \<lparr>isa_pc = 0, isa_regs = (\<lambda>r. regs ! unat r), isa_mem = place segs (\<lambda>_. 0)\<rparr>"

lemma mkHart_mirrors:
  assumes "mmap_ok (env_os E)" and "pm_ok (env_os E) pm" "whole_pages pm" "fst ` set (devices pm) = set rs"
    and pk: "pm_peek pm = place segs (\<lambda>_. 0)" and len: "\<forall>i. length (slots i) = kCapacity" "length regs = GPRF_Size"
  shows "mirrors E (range_area rs) prog (mkHart E slots regs word pm hm) (isa_boot regs segs)"
proof -
  let ?h = "mkHart E slots regs word pm hm"
  have s: "h_mem ?h = pm" "prefetcher ?h = mkPrefetcher" "h_gprf ?h = mkGPRF regs" "bbCache ?h = mkBasicBlockCache slots"
    by (simp_all add: mkHart_def)
  have "fresh E ?h" unfolding fresh_def s(1) pm_inv_def using assms(1,2) len by blast
  then have "core_ok E ?h" by (rule fresh_core)
  moreover have "bb_pc bb = 1" if "bb \<in> set (bbs (bbCache ?h))" for bb
    using that unfolding s(4) by (auto simp: mkBasicBlock_def dest!: mem_bbs_mk)
  moreover have "pc_of ?h = 0" using reg_val_mkGPRF [OF len(2)] by (simp add: pc_of_def s(3))
  moreover have "reg_val (h_gprf ?h) r = isa_reg r (isa_boot regs segs)" if "r < 32" for r
    using that unat_reg_less [of r] len(2) by (auto simp: s(3) reg_val_def mkGPRF_def isa_reg_def isa_boot_def nth_list_update)
  ultimately show ?thesis
    unfolding mirrors_def s(1,2) using assms(3) pf_ok_mk pm_area_ranges [OF assms(4)] pk by (simp add: isa_boot_def)
qed

lemma boot_follows:
  assumes "bootable E L config segs" and "\<forall>i. length (slots i) = kCapacity" "length regs = GPRF_Size"
    and fe: "fetchable (range_area (ramRanges config)) prog 0"
  shows "\<exists>m h1. mkMachine E L h slots regs word config = Inr m \<and> exec_BB_END E (getHart m) = Inr (Dispatch h1) \<and>
    follows E (range_area (ramRanges config)) prog h1 (isa_boot regs segs) \<and> instrsExecuted h1 = 0"
proof -
  obtain pm where pm: "mkMachine E L h slots regs word config = Inr \<lparr>machine_hart = mkHart E slots regs word pm mkHookManager\<rparr>"
      "pm_ok (env_os E) pm" "whole_pages pm" "fst ` set (devices pm) = set (ramRanges config)" "pm_peek pm = place segs (\<lambda>_. 0)"
    using boot_ok [OF assms(1)] by blast
  let ?h = "mkHart E slots regs word pm mkHookManager"
  have "mmap_ok (env_os E)" using assms(1) by (simp add: bootable_def)
  then have m: "mirrors E (range_area (ramRanges config)) prog ?h (isa_boot regs segs)"
    using mkHart_mirrors [OF _ pm(2-5) assms(2,3)] by blast
  have "fetchable (range_area (ramRanges config)) prog (isa_pc (isa_boot regs segs))" using fe by (simp add: isa_boot_def)
  from fetch_follows [OF m this] obtain h1
    where h1: "fetchBB ?h = Inr h1" "follows E (range_area (ramRanges config)) prog h1 (isa_boot regs segs)" by blast
  have "instrsExecuted h1 = 0" using fetchBB_counter [OF h1(1)] by (simp add: mkHart_def)
  then show ?thesis using pm(1) h1 by (simp add: getHart_def exec_BB_END_def)
qed

section \<open>Where a run ends\<close>

lemma step_reachable: "(hart_step E ^^ k) h h' \<Longrightarrow> reachable E h0 h \<Longrightarrow> reachable E h0 h'"
  by (induction k arbitrary: h') (auto intro: reachable_step)

text \<open>The environment-break word at the program counter.\<close>

definition isa_halted :: "(RV64Ptr \<Rightarrow> nat \<Rightarrow> bool) \<Rightarrow> RV64Ptr set \<Rightarrow> isa_state \<Rightarrow> bool" where
  "isa_halted area prog s \<longleftrightarrow>
     encode (Asm_System EBREAK) = Some (le_word (mem_get 4 (isa_pc s) (isa_mem s))) \<and> fetchable area prog (isa_pc s)"

lemma halted_dispatch:
  assumes f: "follows E area prog h s" and halt: "isa_halted area prog s" and i: "current h = Inr i" "operation i \<noteq> BB_END"
  shows "dispatch E h = Inr (Return h)"
proof -
  have "i = asm_instr (Asm_System EBREAK)"
    using current_text(2) [OF f i] parse_encode [of "Asm_System EBREAK"] halt by (simp add: isa_halted_def del: encode.simps)
  then show ?thesis using dispatch_eq [OF i(1)] by (simp add: exec_EBREAK_def)
qed

lemma halted_returns:
  assumes f: "follows E area prog h s" and halt: "isa_halted area prog s" and r: "reachable E h0 h"
  shows "\<exists>h'. reachable E h0 h' \<and> dispatch E h' = Inr (Return h') \<and> mirrors E area prog h' s \<and> instrsExecuted h' = instrsExecuted h"
proof -
  have ok: "hart_ok E h" and m: "mirrors E area prog h s" using f by (simp_all add: follows_def)
  obtain i where i: "current h = Inr i" using current_hart_ok [OF ok] by blast
  show ?thesis
  proof (cases "operation i = BB_END")
    case False
    then show ?thesis using halted_dispatch [OF f halt i] r m by blast
  next
    case True
    have "fetchable area prog (isa_pc s)" using halt by (simp add: isa_halted_def)
    from fetch_follows [OF m this] obtain h1 j
      where h1: "fetchBB h = Inr h1" "follows E area prog h1 s" "current h1 = Inr j" "operation j \<noteq> BB_END" by blast
    have "hart_step E h h1" using dispatch_eq [OF i] True h1(1) by (simp add: hart_step_iff exec_BB_END_def)
    then show ?thesis
      using halted_dispatch [OF h1(2) halt h1(3,4)] reachable_step [OF r] h1(2) fetchBB_counter [OF h1(1)] by (auto simp: follows_def)
  qed
qed

lemma reachable_chain: "reachable E h0 h \<Longrightarrow> exec_BB_END E h0 = Inr (Dispatch h1) \<Longrightarrow> \<exists>j. (hart_step E ^^ j) h1 h"
proof (induction rule: reachable.induct)
  case (reachable_start h)
  then have "(hart_step E ^^ 0) h1 h" by simp
  then show ?case by blast
next
  case (reachable_step h h')
  then show ?case by (metis relpowp_Suc_I)
qed

section \<open>Example programs\<close>

text \<open>An executable with the given bytes at address zero, on the example configuration.\<close>

definition code_elfio :: "u8 list \<Rightarrow> elfio" where
  "code_elfio bs = \<lparr>elfio_load = (\<lambda>p. Some \<lparr>rd_class = 2, rd_encoding = 1, rd_machine = 243,
       rd_segments = [\<lparr>seg_type = 1, seg_virtual_address = 0, seg_data = bs, seg_file_size = of_nat (length bs)\<rparr>]\<rparr>),
     ELFCLASS64 = 2, ELFDATA2LSB = 1, EM_RISCV = 243, PT_LOAD = 1\<rparr>"

definition code_seg :: "u8 list \<Rightarrow> LoadableSegment" where
  "code_seg bs = \<lparr>ls_address = 0, ls_data = bs, ls_size = of_nat (length bs)\<rparr>"

definition demo_text :: "RV64Ptr set" where
  "demo_text = {a. a < 64}"

lemma demo_config_simps:
  "executablePath demo_config = ''prog''" "ramRanges demo_config = [mkRange 0 0x100000]"
  "ramPageSize demo_config = 4096" "ramChunkSize demo_config = 65536"
  by (simp_all add: demo_config_def setRamChunkSize_def setRamPageSize_def addRamRange_def setExecutablePath_def mkConfigBuilder_def)

lemma segment_bytes_code: "length bs < 4096 \<Longrightarrow> segment_bytes (code_seg bs) = bs"
  by (simp add: segment_bytes_def code_seg_def unat_of_nat take_bit_eq_mod)

lemma code_bootable:
  assumes "length bs < 4096"
  shows "bootable demo_env (code_elfio bs) demo_config [code_seg bs]"
proof -
  let ?L = "code_elfio bs"
  let ?reader = "\<lparr>rd_class = 2, rd_encoding = 1, rd_machine = 243,
       rd_segments = [\<lparr>seg_type = 1, seg_virtual_address = 0, seg_data = bs, seg_file_size = of_nat (length bs)\<rparr>]\<rparr>"
  have parser: "createParser ?L ''prog'' = Inr \<lparr>reader = ?reader, loadableSegments = []\<rparr>"
    by (simp add: createParser_ok_iff code_elfio_def)
  have segs: "[code_seg bs] = fst (getLoadableSegments ?L \<lparr>reader = ?reader, loadableSegments = []\<rparr>)"
    by (simp add: getLoadableSegments_def Let_def code_elfio_def mkLoadableSegment_def code_seg_def)
  have addr: "ls_address (code_seg bs) = 0" by (simp add: code_seg_def)
  have "in_ranges [mkRange 0 0x100000] 0 (length bs)"
    using assms by (auto simp: in_ranges_def contains_pos_def mkRange_def word_less_nat_alt unat_of_nat take_bit_eq_mod)
  then have "\<forall>s\<in>set [code_seg bs]. in_ranges [mkRange 0 0x100000] (ls_address s) (length (segment_bytes s))"
    by (simp add: addr segment_bytes_code [OF assms])
  moreover have "\<forall>r\<in>set [mkRange 0 0x100000]. range_ok 4096 r" "ranges_apart [mkRange 0 0x100000]"
    by (simp_all add: range_ok_def ranges_apart_def mkRange_def range_size_def)
  moreover have "elfio_ok ?L" using assms by (simp add: elfio_ok_def code_elfio_def unat_of_nat take_bit_eq_mod)
  ultimately show ?thesis
    using cfg_ok_plenty mmap_ok_plenty parser segs unfolding bootable_def demo_config_simps demo_env_simps by blast
qed

lemma code_boot_state:
  "length bs < 4096 \<Longrightarrow> isa_boot regs [code_seg bs] = \<lparr>isa_pc = 0, isa_regs = (\<lambda>r. regs ! unat r), isa_mem = mem_put 0 bs (\<lambda>_. 0)\<rparr>"
  using segment_bytes_code [of bs] by (simp add: isa_boot_def place_def) (simp add: code_seg_def)

lemma demo_fetchable:
  assumes "unat pc \<le> 32" "4 dvd unat pc"
  shows "fetchable (range_area (ramRanges demo_config)) demo_text pc"
proof -
  have u: "unat (pc + of_nat (4 * k)) = unat pc + 4 * k" if "k < 7" for k
    by (rule unat_add_offset [where n = 28]) (use that assms(1) in simp_all)
  have v: "unat (pc + of_nat (4 * k) + of_nat j) = unat pc + 4 * k + j" if "k < 7" "j < 4" for j k
    using unat_add_offset [of "pc + of_nat (4 * k)" 4 j] u [OF that(1)] that assms(1) by simp
  have "range_area [mkRange 0 0x100000] (pc + of_nat (4 * k)) 4" if "k < 7" for k
    unfolding range_area_def using u [OF that] that assms by (simp add: mkRange_def access_width_def dvd_add)
  moreover have "pc + of_nat (4 * k) + of_nat j \<in> demo_text" if "k < 7" "j < 4" for j k
    using v [OF that] that assms(1) by (simp add: demo_text_def word_less_nat_alt)
  ultimately show ?thesis unfolding fetchable_def demo_config_simps using assms(2) by blast
qed

text \<open>\<^verbatim>\<open>addi x1, x0, 5; sd x1, 0x100(x0); ebreak\<close>\<close>

definition demo_code :: "u8 list" where
  "demo_code = [0x93, 0, 0x50, 0, 0x23, 0x30, 0x10, 0x10, 0x73, 0, 0x10, 0]"

lemma demo_encodes:
  "encode (Asm_I ADDI 1 0 5) = Some 0x00500093" "encode (Asm_S SD 0 1 0x100) = Some 0x10103023"
  "encode (Asm_System EBREAK) = Some 0x00100073" "encode (Asm_J JAL 0 0) = Some 0x6F"
  by (simp_all add: I_codes_def S_codes_def System_codes_def enc_I_def enc_S_def enc_J_def enc_U_def rv_word_def drop_bit_eq_div)

lemma demo_words:
  "le_word (mem_get 4 0 (mem_put 0 demo_code f)) = (0x00500093 :: u32)"
  "le_word (mem_get 4 4 (mem_put 0 demo_code f)) = (0x10103023 :: u32)"
  "le_word (mem_get 4 8 (mem_put 0 demo_code f)) = (0x00100073 :: u32)"
  by (simp_all add: mem_get_def mem_put_def in_area_def demo_code_def upt_rec)

text \<open>The states after the first and after the second instruction.\<close>

definition demo_s1 :: "RV64UDWord list \<Rightarrow> isa_state" where
  "demo_s1 regs = \<lparr>isa_pc = 4, isa_regs = (\<lambda>r. regs ! unat r)(1 := 5), isa_mem = mem_put 0 demo_code (\<lambda>_. 0)\<rparr>"

definition demo_s2 :: "RV64UDWord list \<Rightarrow> isa_state" where
  "demo_s2 regs = \<lparr>isa_pc = 8, isa_regs = (\<lambda>r. regs ! unat r)(1 := 5),
     isa_mem = mem_put 0x100 (le_bytes 8 (5 :: u64)) (mem_put 0 demo_code (\<lambda>_. 0))\<rparr>"

lemma demo_imm: "signed_take_bit 11 5 = (5 :: u64)" "signed_take_bit 11 0x100 = (0x100 :: u64)"
  by (simp_all add: SignExtend_12 [symmetric] SignExtend_def)

lemma demo_boot: "isa_boot regs [code_seg demo_code] = \<lparr>isa_pc = 0, isa_regs = (\<lambda>r. regs ! unat r), isa_mem = mem_put 0 demo_code (\<lambda>_. 0)\<rparr>"
  using code_boot_state [of demo_code regs] by (simp add: demo_code_def)

lemma demo_step1:
  fixes regs :: "RV64UDWord list"
  defines "s0 \<equiv> isa_boot regs [code_seg demo_code]"
  shows "encode (Asm_I ADDI 1 0 5) = Some (le_word (mem_get 4 (isa_pc s0) (isa_mem s0)))"
    and "fetchable (range_area (ramRanges demo_config)) demo_text (isa_pc s0)"
    and "agrees (range_area (ramRanges demo_config)) demo_text (asm_instr (Asm_I ADDI 1 0 5)) s0"
    and "isa_exec (asm_instr (Asm_I ADDI 1 0 5)) s0 = demo_s1 regs"
  unfolding s0_def demo_boot
  by (simp_all add: demo_encodes demo_words demo_fetchable agrees_def alu_exact_def demo_s1_def isa_exec_def isa_effect_def isa_target_def
      alu_ops_def branch_ops_def isa_write_def isa_value_def isa_operand2_def register_ops_def isa_reg_def demo_imm del: encode.simps)

lemma demo_step2:
  shows "encode (Asm_S SD 0 1 0x100) = Some (le_word (mem_get 4 (isa_pc (demo_s1 regs)) (isa_mem (demo_s1 regs))))"
    and "fetchable (range_area (ramRanges demo_config)) demo_text (isa_pc (demo_s1 regs))"
    and "agrees (range_area (ramRanges demo_config)) demo_text (asm_instr (Asm_S SD 0 1 0x100)) (demo_s1 regs)"
    and "isa_exec (asm_instr (Asm_S SD 0 1 0x100)) (demo_s1 regs) = demo_s2 regs"
proof -
  have apart: "\<forall>a\<in>demo_text. \<not> in_area 0x100 8 a" by (auto simp: demo_text_def in_area_def word_less_nat_alt)
  have ar: "range_area (ramRanges demo_config) 0x100 8" by (simp add: range_area_def demo_config_simps(2) access_width_def mkRange_def)
  show "encode (Asm_S SD 0 1 0x100) = Some (le_word (mem_get 4 (isa_pc (demo_s1 regs)) (isa_mem (demo_s1 regs))))"
      "fetchable (range_area (ramRanges demo_config)) demo_text (isa_pc (demo_s1 regs))"
    by (simp_all add: demo_s1_def demo_encodes demo_words demo_fetchable del: encode.simps)
  show "agrees (range_area (ramRanges demo_config)) demo_text (asm_instr (Asm_S SD 0 1 0x100)) (demo_s1 regs)"
    using ar apart by (simp add: demo_s1_def agrees_def store_ops_def isa_address_def isa_reg_def demo_imm)
  show "isa_exec (asm_instr (Asm_S SD 0 1 0x100)) (demo_s1 regs) = demo_s2 regs"
    by (simp add: demo_s1_def demo_s2_def isa_exec_def effect_store store_ops_def target_next branch_ops_def isa_address_def isa_reg_def demo_imm)
qed

lemma demo_s2_facts:
  "isa_halted (range_area (ramRanges demo_config)) demo_text (demo_s2 regs)" "isa_pc (demo_s2 regs) = 8" "isa_reg 1 (demo_s2 regs) = 5"
  "isa_mem (demo_s2 regs) 0x100 = 5"
proof -
  have "le_word (mem_get 4 8 (mem_put 0x100 (le_bytes 8 (5 :: u64)) (mem_put 0 demo_code (\<lambda>_. 0)))) = (0x00100073 :: u32)"
    using demo_words(3) [of "\<lambda>_. 0"] by (subst mem_get_put_disjoint) simp_all
  then show "isa_halted (range_area (ramRanges demo_config)) demo_text (demo_s2 regs)"
    using demo_fetchable [of 8] by (simp add: isa_halted_def demo_s2_def demo_encodes del: encode.simps)
  show "isa_pc (demo_s2 regs) = 8" "isa_reg 1 (demo_s2 regs) = 5" "isa_mem (demo_s2 regs) 0x100 = 5"
    by (simp_all add: demo_s2_def isa_reg_def mem_put_def in_area_def le_bytes_numeral)
qed

lemma demo_code_run: "(isa_step (range_area (ramRanges demo_config)) demo_text ^^ 2) (isa_boot regs [code_seg demo_code]) (demo_s2 regs)"
  by (rule two_steps [of _ _ "demo_s1 regs"])
     (use isa_stepI [OF demo_step1(1-3) [of regs]] isa_stepI [OF demo_step2(1-3) [of regs]] in
       \<open>simp_all only: demo_step1(4) demo_step2(4)\<close>)

text \<open>\<^verbatim>\<open>j .\<close>, the program that jumps to itself\<close>

definition demo_loop :: "u8 list" where
  "demo_loop = [0x6F, 0, 0, 0]"

lemma demo_loop_run:
  fixes regs :: "RV64UDWord list"
  defines "area \<equiv> range_area (ramRanges demo_config)"
  shows "\<exists>s. (isa_step area demo_text ^^ n) (isa_boot regs [code_seg demo_loop]) s \<and> isa_pc s = 0 \<and>
    isa_mem s = mem_put 0 demo_loop (\<lambda>_. 0)"
proof (induction n)
  case 0
  show ?case using code_boot_state [of demo_loop regs] by (simp add: demo_loop_def)
next
  case (Suc n)
  then obtain s where s: "(isa_step area demo_text ^^ n) (isa_boot regs [code_seg demo_loop]) s" "isa_pc s = 0"
      "isa_mem s = mem_put 0 demo_loop (\<lambda>_. 0)" by blast
  let ?i = "asm_instr (Asm_J JAL 0 0)"
  have "le_word (mem_get 4 0 (mem_put 0 demo_loop (\<lambda>_. 0))) = (0x6F :: u32)"
    by (simp add: mem_get_def mem_put_def in_area_def demo_loop_def upt_rec)
  then have "isa_step area demo_text s (isa_exec ?i s)"
    using s(2,3) demo_fetchable [of 0]
    by (intro isa_stepI) (simp_all add: area_def demo_encodes agrees_def del: encode.simps mem_get_def)
  moreover have "isa_pc (isa_exec ?i s) = 0" "isa_mem (isa_exec ?i s) = isa_mem s"
    using s(2) by (simp_all add: isa_exec_def isa_target_def isa_effect_def alu_ops_def load_ops_def store_ops_def isa_write_def)
  ultimately show ?case using relpowp_Suc_I [OF s(1)] s(3) by metis
qed

section \<open>Properties\<close>

text \<open>
  C8: whole programs, step by step.  Let the machine of the architecture, started at address zero on
  the memory image of the executable, execute \<open>n\<close> instructions, each of which is one the handlers
  implement as the architecture says for the operands at hand, fetched from mapped text that the
  program does not store to.  Then the constructed machine fetches its first block and
  after \<open>k\<close> further handler calls, with \<open>n \<le> k \<le> 2 n\<close>, its hart has the same program counter, the
  same registers and the same memory contents, and has counted \<open>n\<close> instructions.
\<close>
theorem program_simulated:
  assumes "bootable E L config segs" and "\<forall>i. length (slots i) = kCapacity" and "length regs = GPRF_Size"
    and "fetchable (range_area (ramRanges config)) prog 0"
    and "(isa_step (range_area (ramRanges config)) prog ^^ n) (isa_boot regs segs) s"
  shows "\<exists>m h1 k h'. mkMachine E L h slots regs word config = Inr m \<and> exec_BB_END E (getHart m) = Inr (Dispatch h1) \<and>
    n \<le> k \<and> k \<le> 2 * n \<and> (hart_step E ^^ k) h1 h' \<and>
    pc_of h' = isa_pc s \<and> (\<forall>r<32. reg_val (h_gprf h') r = isa_reg r s) \<and> pm_peek (h_mem h') = isa_mem s \<and>
    getInstrsExecuted h' = of_nat n"
proof -
  let ?area = "range_area (ramRanges config)"
  obtain m h1 where m: "mkMachine E L h slots regs word config = Inr m"
      and h1: "exec_BB_END E (getHart m) = Inr (Dispatch h1)" "follows E ?area prog h1 (isa_boot regs segs)" "instrsExecuted h1 = 0"
    using boot_follows [OF assms(1-4)] by blast
  obtain h' k where "n \<le> k" "k \<le> 2 * n" "(hart_step E ^^ k) h1 h'" "follows E ?area prog h' s" "instrsExecuted h' = of_nat n"
    using isa.run_simulated [OF assms(5) h1(2)] h1(3) by auto
  then show ?thesis using m h1(1) by (auto simp: follows_def mirrors_def getInstrsExecuted_def)
qed

theorem program_simulated_witness:
  "\<exists>m h1 k h'. mkMachine demo_env (code_elfio demo_code) [] (\<lambda>_. replicate 8 blank_instr) (replicate 33 0) (\<lambda>_. 0) demo_config = Inr m \<and>
     exec_BB_END demo_env (getHart m) = Inr (Dispatch h1) \<and> k \<le> 4 \<and> (hart_step demo_env ^^ k) h1 h' \<and>
     pc_of h' = 8 \<and> reg_val (h_gprf h') 1 = 5 \<and> pm_peek (h_mem h') 0x100 = 5"
proof -
  have "bootable demo_env (code_elfio demo_code) demo_config [code_seg demo_code]"
    by (rule code_bootable) (simp add: demo_code_def)
  moreover have "fetchable (range_area (ramRanges demo_config)) demo_text 0" by (rule demo_fetchable) simp_all
  ultimately show ?thesis
    using program_simulated [of demo_env _ demo_config _ "\<lambda>_. replicate 8 blank_instr" "replicate 33 0" demo_text 2 _ "[]" "\<lambda>_. 0", OF _ _ _ _ demo_code_run]
      demo_s2_facts [of "replicate 33 0"] by fastforce
qed

text \<open>
  C2: whole programs, result.  When that execution comes to an \<^verbatim>\<open>EBREAK\<close> after \<open>n\<close> instructions, running
  the constructed machine returns, with the program counter, the registers and the memory contents the
  architecture defines, and reports \<open>n\<close> executed instructions.
\<close>
theorem program_result:
  assumes "bootable E L config segs" and "\<forall>i. length (slots i) = kCapacity" and "length regs = GPRF_Size"
    and "fetchable (range_area (ramRanges config)) prog 0"
    and "(isa_step (range_area (ramRanges config)) prog ^^ n) (isa_boot regs segs) s"
    and "isa_halted (range_area (ramRanges config)) prog s"
  shows "\<exists>m m'. mkMachine E L h slots regs word config = Inr m \<and> machine_run E m = Some (Inr m') \<and>
    pc_of (getHart m') = isa_pc s \<and> (\<forall>r<32. reg_val (h_gprf (getHart m')) r = isa_reg r s) \<and>
    pm_peek (h_mem (getHart m')) = isa_mem s \<and> machine_getInstrsExecuted m' = of_nat n"
proof -
  let ?area = "range_area (ramRanges config)"
  obtain m h1 where m: "mkMachine E L h slots regs word config = Inr m"
      and h1: "exec_BB_END E (getHart m) = Inr (Dispatch h1)" "follows E ?area prog h1 (isa_boot regs segs)" "instrsExecuted h1 = 0"
    using boot_follows [OF assms(1-4)] by blast
  obtain h2 k where h2: "(hart_step E ^^ k) h1 h2" "follows E ?area prog h2 s" "instrsExecuted h2 = of_nat n"
    using isa.run_simulated [OF assms(5) h1(2)] h1(3) by auto
  have "reachable E (getHart m) h2" using step_reachable [OF h2(1) reachable_start [OF h1(1)]] .
  from halted_returns [OF h2(2) assms(6) this] obtain h'
    where h': "reachable E (getHart m) h'" "dispatch E h' = Inr (Return h')" "mirrors E ?area prog h' s" "instrsExecuted h' = of_nat n"
    using h2(3) by auto
  have "run E (getHart m) = Some (Inr h')" using h'(1,2) by (intro ends_run) (auto simp: ends_def)
  then have "machine_run E m = Some (Inr (m\<lparr>machine_hart := h'\<rparr>))" by (simp add: machine_run_def getHart_def)
  then show ?thesis
    using m h'(3,4) by (auto simp: mirrors_def getHart_def machine_getInstrsExecuted_def getInstrsExecuted_def)
qed

theorem program_result_witness:
  "\<exists>m m'. mkMachine demo_env (code_elfio demo_code) [] (\<lambda>_. replicate 8 blank_instr) (replicate 33 0) (\<lambda>_. 0) demo_config = Inr m \<and>
     machine_run demo_env m = Some (Inr m') \<and> pc_of (getHart m') = 8 \<and> reg_val (h_gprf (getHart m')) 1 = 5 \<and>
     pm_peek (h_mem (getHart m')) 0x100 = 5 \<and> machine_getInstrsExecuted m' = 2"
proof -
  have "bootable demo_env (code_elfio demo_code) demo_config [code_seg demo_code]"
    by (rule code_bootable) (simp add: demo_code_def)
  moreover have "fetchable (range_area (ramRanges demo_config)) demo_text 0" by (rule demo_fetchable) simp_all
  ultimately show ?thesis
    using program_result [of demo_env _ demo_config _ "\<lambda>_. replicate 8 blank_instr" "replicate 33 0" demo_text 2 _ "[]" "\<lambda>_. 0", OF _ _ _ _ demo_code_run]
      demo_s2_facts [of "replicate 33 0"] by fastforce
qed

text \<open>
  C16: whole programs, divergence.  When the execution of the architecture's machine goes on for ever,
  running the constructed machine has no result: it neither returns nor fails.
\<close>
theorem program_diverges:
  assumes "bootable E L config segs" and "\<forall>i. length (slots i) = kCapacity" and "length regs = GPRF_Size"
    and "\<forall>n. \<exists>s. (isa_step (range_area (ramRanges config)) prog ^^ n) (isa_boot regs segs) s"
  shows "\<exists>m. mkMachine E L h slots regs word config = Inr m \<and> machine_run E m = None"
proof -
  let ?area = "range_area (ramRanges config)" and ?s0 = "isa_boot regs segs"
  obtain s1 where "(isa_step ?area prog ^^ 1) ?s0 s1" using assms(4) by blast
  then have "fetchable ?area prog (isa_pc ?s0)" by (auto elim: isa_stepE)
  then have "fetchable ?area prog 0" by (simp add: isa_boot_def)
  from boot_follows [OF assms(1-3) this] obtain m h1 where m: "mkMachine E L h slots regs word config = Inr m"
      and h1: "exec_BB_END E (getHart m) = Inr (Dispatch h1)" "follows E ?area prog h1 ?s0" by blast
  have on: "\<exists>h'. hart_step E h h'" if h: "reachable E (getHart m) h" for h
    using reachable_chain [OF h h1(1)] isa.goes_on [OF h1(2) assms(4)] by blast
  have "run E (getHart m) \<noteq> Some x" for x
    using run_ends [of E "getHart m" x] on h1(1) by (fastforce simp: ends_def hart_step_iff split: sum.splits)
  then show ?thesis using m by (auto simp: machine_run_def getHart_def)
qed

theorem program_diverges_witness:
  "\<exists>m. mkMachine demo_env (code_elfio demo_loop) [] (\<lambda>_. replicate 8 blank_instr) (replicate 33 0) (\<lambda>_. 0) demo_config = Inr m \<and>
     machine_run demo_env m = None"
proof -
  have "bootable demo_env (code_elfio demo_loop) demo_config [code_seg demo_loop]"
    by (rule code_bootable) (simp add: demo_loop_def)
  moreover have "\<forall>n. \<exists>s. (isa_step (range_area (ramRanges demo_config)) demo_text ^^ n) (isa_boot (replicate 33 0) [code_seg demo_loop]) s"
    using demo_loop_run by blast
  ultimately show ?thesis
    using program_diverges [of demo_env _ demo_config _ "\<lambda>_. replicate 8 blank_instr" "replicate 33 0" demo_text "[]" "\<lambda>_. 0"] by simp
qed

end
