(* ===== verification/Standalone.thy ===== *)
theory Standalone
  imports Machine HookTrace
begin

text \<open>
  The command line simulator, \<^verbatim>\<open>standalone/main.cpp\<close>.  The global variables are the record \<open>App\<close>,
  the texts inserted into the stream of the trace file and into \<^verbatim>\<open>std::clog\<close> included; whether the file
  could be opened, which the program does not ask, is not part of it.  The command line as the library
  CLI11 delivers it is the record \<open>cli\<close>; the disassembler of the library Capstone and the printed form of
  the measured time and rate are arguments.  The hart logs
  the calls of callbacks; after every handler \<open>deliver\<close> executes the logged calls on the
  application and the hart.  A handler calls hooks as its last action, or, when it takes a trap,
  calls the block hook before the instruction hook, and neither callback reads what changes in
  between, so executing them at the end of the handler is executing them in place.  The theorems
  show that printing and parsing a range are inverse and that the address the tracer prints is
  the address of the slot the hart executes.
\<close>

section \<open>State and parameters\<close>

record App =
  optionDumpInstructions :: bool
  optionDumpRegisters :: bool
  optionTracingEnabled :: bool
  traceFile :: string
  clog :: string
  CurrentPC :: RV64Ptr
  capstoneInitialized :: bool
  CapstoneHandles :: nat
  exitHandlers :: nat

text \<open>\<^verbatim>\<open>cs_disasm\<close> on four bytes and an address: address, mnemonic and operands, or none.\<close>

type_synonym disassembler = "u8 list \<Rightarrow> RV64Ptr \<Rightarrow> (RV64Ptr \<times> string \<times> string) option"

text \<open>How \<^verbatim>\<open>std::clog\<close> prints the elapsed seconds and, from the number of instructions, the rate.\<close>

record clock =
  elapsed_text :: string
  mips_text :: "u64 \<Rightarrow> string"

record cli =
  cli_executable :: string
  cli_ram :: string
  cli_ram_page_size :: u64
  cli_ram_chunk_size :: u64
  cli_verbose :: bool
  cli_very_verbose :: bool
  cli_trace_dump :: string
  cli_a0_validation :: bool

section \<open>Text\<close>

definition newline :: string where "newline = [CHR 0x0A]"
definition tab :: string where "tab = [CHR 0x09]"

definition hex :: "u64 \<Rightarrow> string" where "hex v = show_base 16 (unat v)"
definition dec :: "u64 \<Rightarrow> string" where "dec v = show_base 10 (unat v)"

text \<open>\<^verbatim>\<open>std::toupper\<close> in the default locale.\<close>

definition toupper :: "char \<Rightarrow> char" where
  "toupper c = (if 97 \<le> (of_char c :: nat) \<and> (of_char c :: nat) \<le> 122 then char_of (of_char c - 32 :: nat) else c)"

definition str_toupper :: "string \<Rightarrow> string" where
  "str_toupper s = map toupper s"

definition say :: "string \<Rightarrow> App \<Rightarrow> App" where
  "say t a = a\<lparr>clog := clog a @ t @ newline\<rparr>"

section \<open>Callbacks\<close>

definition OnBBFetch :: "BasicBlock \<Rightarrow> App \<Rightarrow> App" where
  "OnBBFetch bb a =
     (let a = (if optionDumpInstructions a
               then a\<lparr>clog := clog a @ ''[BESM-666] VERBOSE: Fetched basic block at PC = '' @ dec (getPC bb) @ newline\<rparr>
               else a)
      in a\<lparr>CurrentPC := getPC bb\<rparr>)"

definition DumpReg :: "Register \<Rightarrow> GPRF \<Rightarrow> string res" where
  "DumpReg regId g =
     (if unat regId < GPRF_Size then
        bindE (gprf_read regId g) (\<lambda>value.
        Inr (tab @ getRegName regId @ '' = '' @ ''0x'' @ hex value @ '' / '' @ dec value @ newline))
      else Inr [])"

text \<open>The parts of \<^verbatim>\<open>OnInstrExecuted\<close> in the order of the source: instruction dump, then trace.\<close>

definition dump_instr :: "RV64Ptr \<times> string \<times> string \<Rightarrow> Instruction \<Rightarrow> Hart \<Rightarrow> App \<Rightarrow> string res" where
  "dump_instr dis instr h a =
     (if optionDumpInstructions a then
        bindE
          (if optionDumpRegisters a then
             bindE (DumpReg (rd instr) (h_gprf h)) (\<lambda>d.
             bindE (DumpReg (rs1 instr) (h_gprf h)) (\<lambda>s1.
             bindE (DumpReg (rs2 instr) (h_gprf h)) (\<lambda>s2.
             Inr (d @ s1 @ s2 @ ''imm = '' @ ''0x'' @ hex (immidiate instr) @ '' / '' @ dec (immidiate instr) @ newline))))
           else Inr [])
          (\<lambda>regs. Inr (hex (fst dis) @ '': '' @ fst (snd dis) @ '' '' @ snd (snd dis) @ newline @ regs))
      else Inr [])"

definition trace_mnemonic :: "string \<Rightarrow> string" where
  "trace_mnemonic m =
     (let mnem = str_toupper m;
          mnem = (if mnem = ''MV'' then ''ADDI'' else mnem)
      in if mnem = ''BNEZ'' then ''BNE'' else mnem)"

definition two_digits :: "string \<Rightarrow> string" where
  "two_digits s = replicate (2 - length s) (CHR ''0'') @ s"

definition trace_register :: "Instruction \<Rightarrow> Hart \<Rightarrow> string res" where
  "trace_register instr h =
     (if rd instr \<noteq> X0 then
        bindE (read_reg (rd instr) h) (\<lambda>v.
        Inr (tab @ ''Reg ['' @ two_digits (show_base 16 (unat (rd instr))) @ ''] <= '' @ hex v @ newline))
      else Inr [])"

definition trace_jump :: "Instruction \<Rightarrow> Hart \<Rightarrow> string res" where
  "trace_jump instr h =
     (if isJump instr then bindE (read_reg PC h) (\<lambda>v. Inr (tab @ ''Pc <= '' @ hex v @ newline)) else Inr [])"

definition stored_value :: "Instruction \<Rightarrow> RV64Ptr \<Rightarrow> PhysMem \<Rightarrow> (RV64UDWord \<times> PhysMem) res" where
  "stored_value instr addr pm =
     (case operation instr of
        SB \<Rightarrow> bindE (mmu_loadByte addr pm) (\<lambda>(v, pm). Inr (ucast v, pm))
      | SH \<Rightarrow> bindE (mmu_loadHWord addr pm) (\<lambda>(v, pm). Inr (ucast v, pm))
      | SW \<Rightarrow> bindE (mmu_loadWord addr pm) (\<lambda>(v, pm). Inr (ucast v, pm))
      | SD \<Rightarrow> mmu_loadDWord addr pm
      | _ \<Rightarrow> Inl UndefinedBehaviour)"

definition trace_store :: "Instruction \<Rightarrow> Hart \<Rightarrow> (string \<times> Hart) res" where
  "trace_store instr h =
     (if isStore instr then
        bindE (read_reg (rs1 instr) h) (\<lambda>base.
        let addr = base + SignExtend 12 (immidiate instr) in
        bindE (stored_value instr addr (h_mem h)) (\<lambda>(val, pm).
        Inr (tab @ ''Mem ['' @ hex addr @ ''] <= '' @ hex val @ newline, h\<lparr>h_mem := pm\<rparr>)))
      else Inr ([], h))"

definition trace_instr :: "string \<Rightarrow> Instruction \<Rightarrow> App \<Rightarrow> Hart \<Rightarrow> (string \<times> Hart) res" where
  "trace_instr mnemonic instr a h =
     (if optionTracingEnabled a then
        bindE (trace_register instr h) (\<lambda>reg.
        bindE (trace_jump instr h) (\<lambda>jmp.
        bindE (trace_store instr h) (\<lambda>(st, h).
        Inr (hex (CurrentPC a) @ '': '' @ trace_mnemonic mnemonic @ newline @ reg @ jmp @ st, h))))
      else Inr ([], h))"

definition OnInstrExecuted :: "disassembler \<Rightarrow> Instruction \<Rightarrow> App \<Rightarrow> Hart \<Rightarrow> (App \<times> Hart) res" where
  "OnInstrExecuted D instr a h =
     bindE (mmu_loadWord (CurrentPC a) (h_mem h)) (\<lambda>(bytecode, pm).
     let h = h\<lparr>h_mem := pm\<rparr> in
     bindE
       (case D (le_bytes 4 bytecode) (CurrentPC a) of
          None \<Rightarrow> Inr (a\<lparr>clog := clog a @ tab @ ''unimp'' @ newline\<rparr>, h)
        | Some dis \<Rightarrow>
            bindE (dump_instr dis instr h a) (\<lambda>text1.
            bindE (trace_instr (fst (snd dis)) instr a h) (\<lambda>(text2, h).
            Inr (a\<lparr>clog := clog a @ text1, traceFile := traceFile a @ text2\<rparr>, h))))
       (\<lambda>(a, h). Inr (a\<lparr>CurrentPC := CurrentPC a + 4\<rparr>, h)))"

text \<open>The two callbacks as the hook manager knows them.\<close>

definition OnBBFetch_ptr :: Callback where "OnBBFetch_ptr = 1"
definition OnInstrExecuted_ptr :: Callback where "OnInstrExecuted_ptr = 2"

fun callback :: "disassembler \<Rightarrow> hook_call \<Rightarrow> App \<times> Hart \<Rightarrow> (App \<times> Hart) res" where
  "callback D (BBFetchCall cb bb) (a, h) =
     (if cb = OnBBFetch_ptr then Inr (OnBBFetch bb a, h) else Inl UndefinedBehaviour)"
| "callback D (InstrExecutedCall cb instr) (a, h) =
     (if cb = OnInstrExecuted_ptr then OnInstrExecuted D instr a h else Inl UndefinedBehaviour)"

primrec callbacks :: "disassembler \<Rightarrow> hook_call list \<Rightarrow> App \<times> Hart \<Rightarrow> (App \<times> Hart) res" where
  "callbacks D [] s = Inr s"
| "callbacks D (c # cs) s = bindE (callback D c s) (callbacks D cs)"

definition deliver :: "disassembler \<Rightarrow> App \<Rightarrow> Hart \<Rightarrow> (App \<times> Hart) res" where
  "deliver D a h = callbacks D (hook_log h) (a, h\<lparr>hook_log := []\<rparr>)"

section \<open>The program\<close>

text \<open>
  The disassembler is opened once; \<open>CapstoneHandles\<close> counts the handles opened and \<open>exitHandlers\<close> the
  functions registered to close one at exit.
\<close>

definition InitCapstone :: "App \<Rightarrow> App" where
  "InitCapstone a =
     (if capstoneInitialized a then a
      else a\<lparr>CapstoneHandles := CapstoneHandles a + 1, exitHandlers := exitHandlers a + 1, capstoneInitialized := True\<rparr>)"

definition InitVerboseLogging :: "App \<Rightarrow> Machine \<Rightarrow> (App \<times> Machine) res" where
  "InitVerboseLogging a m =
     (let a = InitCapstone a;
          a = say ''[BESM-666] VERBOSE: Verbose logging enabled'' a
      in bindE (with_hooks (\<lambda>hm. bindE (registerBBFetchHook OnBBFetch_ptr hm) (registerInstrExecHook OnInstrExecuted_ptr)) m)
           (\<lambda>m. Inr (a, m)))"

definition isspace :: "char \<Rightarrow> bool" where
  "isspace c \<longleftrightarrow> (of_char c :: nat) \<in> {9, 10, 11, 12, 13, 32}"

definition isdigit :: "char \<Rightarrow> bool" where
  "isdigit c \<longleftrightarrow> 48 \<le> (of_char c :: nat) \<and> (of_char c :: nat) \<le> 57"

definition digits_value :: "string \<Rightarrow> nat" where
  "digits_value ds = foldl (\<lambda>v c. 10 * v + (of_char c - 48)) 0 ds"

text \<open>
  \<^verbatim>\<open>std::stoull\<close> in base ten: leading blanks, an optional sign, then digits up to the first other
  character.  A minus sign negates modulo the width.
\<close>

definition split_sign :: "string \<Rightarrow> bool \<times> string" where
  "split_sign s =
     (case s of
        c # t \<Rightarrow> if c = CHR ''-'' then (True, t) else if c = CHR ''+'' then (False, t) else (False, s)
      | [] \<Rightarrow> (False, s))"

definition stoull :: "string \<Rightarrow> u64 res" where
  "stoull s =
     (case split_sign (dropWhile isspace s) of (neg, t) \<Rightarrow>
        let ds = takeWhile isdigit t; n = digits_value ds in
        if ds = [] then Inl InvalidArgument
        else if 2 ^ 64 \<le> n then Inl OutOfRange
        else Inr (if neg then - of_nat n else of_nat n))"

definition ParseRange :: "string \<Rightarrow> RV64Ptr Range res" where
  "ParseRange rangeString =
     (case dropWhile (\<lambda>c. c \<noteq> CHR '','') rangeString of
        [] \<Rightarrow> Inl InvalidArgument
      | _ # rightBorderString \<Rightarrow>
          (let leftBorderString = takeWhile (\<lambda>c. c \<noteq> CHR '','') rangeString in
           bindE (stoull leftBorderString) (\<lambda>leftBorder.
           bindE (stoull rightBorderString) (\<lambda>n.
           Inr (mkRange leftBorder (leftBorder + n))))))"

text \<open>The callbacks of the options; a range that cannot be parsed is reported and skipped.\<close>

definition option_ram :: "string \<Rightarrow> ConfigData \<Rightarrow> ConfigData \<times> string" where
  "option_ram s d =
     (case ParseRange s of
        Inr r \<Rightarrow> (addRamRange r d, [])
      | Inl _ \<Rightarrow> (d, ''Invalid range in --ram: '' @ s @ newline))"

definition configure :: "cli \<Rightarrow> ConfigData \<Rightarrow> ConfigData \<times> string" where
  "configure c d =
     (let d = setExecutablePath (cli_executable c) d;
          (d, cerr) = option_ram (cli_ram c) d;
          d = setRamPageSize (cli_ram_page_size c) d
      in (setRamChunkSize (cli_ram_chunk_size c) d, cerr))"

text \<open>The global variables when \<^verbatim>\<open>main\<close> has parsed the command line, and the defaults of its options.\<close>

definition mkApp :: "cli \<Rightarrow> App" where
  "mkApp c = \<lparr>optionDumpInstructions = cli_verbose c, optionDumpRegisters = cli_very_verbose c,
     optionTracingEnabled = False, traceFile = [], clog = [], CurrentPC = 0,
     capstoneInitialized = False, CapstoneHandles = 0, exitHandlers = 0\<rparr>"

definition cli_defaults :: "string \<Rightarrow> cli" where
  "cli_defaults executable = \<lparr>cli_executable = executable, cli_ram = ''0,1073741824'', cli_ram_page_size = 4096,
     cli_ram_chunk_size = 2 * 1024 * 1024, cli_verbose = False, cli_very_verbose = False, cli_trace_dump = [],
     cli_a0_validation = False\<rparr>"

text \<open>
  \<^verbatim>\<open>Machine->run()\<close> with the callbacks executed: \<open>after_handler\<close> delivers the calls of the handler that
  just ended and goes on to the next one, unless the run is over.
\<close>

definition after_handler :: "disassembler \<Rightarrow> env \<Rightarrow> App \<Rightarrow> outcome \<Rightarrow> (App \<times> Hart) res + App \<times> outcome res" where
  "after_handler D E a x =
     (case deliver D a (outcome_hart x) of
        Inl e \<Rightarrow> Inl (Inl e)
      | Inr (a, h) \<Rightarrow> (case x of Return _ \<Rightarrow> Inl (Inr (a, h)) | Dispatch _ \<Rightarrow> Inr (a, dispatch E h)))"

partial_function (option) drive_app :: "disassembler \<Rightarrow> env \<Rightarrow> App \<times> outcome res \<Rightarrow> (App \<times> Hart) res option" where
  "drive_app D E s =
     (case snd s of
        Inl e \<Rightarrow> Some (Inl e)
      | Inr x \<Rightarrow> (case after_handler D E (fst s) x of Inl r \<Rightarrow> Some r | Inr s' \<Rightarrow> drive_app D E s'))"

definition run_app :: "disassembler \<Rightarrow> env \<Rightarrow> App \<Rightarrow> Machine \<Rightarrow> (App \<times> Hart) res option" where
  "run_app D E a m = drive_app D E (a, exec_BB_END E (machine_hart m))"

definition exit_status :: "cli \<Rightarrow> Hart \<Rightarrow> nat res" where
  "exit_status c h =
     (if cli_a0_validation c then bindE (read_reg 10 h) (\<lambda>a0. Inr (if a0 = 1 then 0 else 1)) else Inr 0)"

text \<open>\<^verbatim>\<open>main\<close> up to the start of the simulation, and the whole of it.\<close>

definition main_machine ::
    "env \<Rightarrow> elfio \<Rightarrow> host \<Rightarrow> (nat \<Rightarrow> Instruction list) \<Rightarrow> RV64UDWord list \<Rightarrow> (csr_ref \<Rightarrow> RV64UDWord) \<Rightarrow> string \<Rightarrow> ConfigData \<Rightarrow> cli \<Rightarrow>
     (App \<times> Machine) res" where
  "main_machine E L h slots regs word moved_from builder c =
     (let a = say ''[BESM-666] INFO: Creating RISCV Machine->'' (mkApp c) in
      bindE (config_build moved_from (fst (configure c builder))) (\<lambda>(config, _).
      bindE (mkMachine E L h slots regs word config) (\<lambda>m.
      let a = (if cli_trace_dump c \<noteq> [] then a\<lparr>optionTracingEnabled := True\<rparr> else a) in
      bindE (if optionDumpInstructions a \<or> optionTracingEnabled a then InitVerboseLogging a m else Inr (a, m)) (\<lambda>(a, m).
      Inr (say ''[BESM-666] INFO: Starting simulation'' a, m)))))"

definition report :: "clock \<Rightarrow> u64 \<Rightarrow> string \<Rightarrow> App \<Rightarrow> App" where
  "report T insns regs a =
     (let a = say ''[BESM-666] Simulation finished.'' a;
          a = say (''[BESM-666] Time = '' @ elapsed_text T @ ''s, Insns '' @ dec insns @ '', MIPS = '' @ mips_text T insns) a
      in a\<lparr>clog := clog a @ regs\<rparr>)"

definition besm_main ::
    "disassembler \<Rightarrow> clock \<Rightarrow> env \<Rightarrow> elfio \<Rightarrow> host \<Rightarrow> (nat \<Rightarrow> Instruction list) \<Rightarrow> RV64UDWord list \<Rightarrow> (csr_ref \<Rightarrow> RV64UDWord) \<Rightarrow> string \<Rightarrow> ConfigData \<Rightarrow>
     cli \<Rightarrow> (nat \<times> App) res option" where
  "besm_main D T E L h slots regs word moved_from builder c =
     (case main_machine E L h slots regs word moved_from builder c of
        Inl e \<Rightarrow> Some (Inl e)
      | Inr (a, m) \<Rightarrow>
          map_option (\<lambda>r. bindE r (\<lambda>(a, h).
            bindE (dump (h_gprf h)) (\<lambda>regs.
            bindE (exit_status c h) (\<lambda>status.
            Inr (status, report T (getInstrsExecuted h) regs a)))))
          (run_app D E a m))"

section \<open>Numbers survive printing and parsing\<close>

lemma digit_char_code: "d < 10 \<Longrightarrow> (of_char (digit_char d) :: nat) = 48 + d"
  by (auto simp: digit_char_def less_Suc_eq numeral_eq_Suc)

lemma digits_value_snoc: "digits_value (ds @ [c]) = 10 * digits_value ds + (of_char c - 48)"
  by (simp add: digits_value_def)

lemma show_base_10:
  "digits_value (show_base 10 n) = n \<and> (\<forall>c\<in>set (show_base 10 n). isdigit c) \<and> show_base 10 n \<noteq> []"
proof (induction n rule: less_induct)
  case (less n)
  show ?case
  proof (cases "n < 10")
    case True
    then have "show_base 10 n = [digit_char n]" by (subst show_base.simps) simp
    then show ?thesis using digit_char_code [OF True] True by (simp add: digits_value_def isdigit_def)
  next
    case False
    then have s: "show_base 10 n = show_base 10 (n div 10) @ [digit_char (n mod 10)]" by (subst show_base.simps) simp
    have "n div 10 < n" "n mod 10 < 10" using False by simp_all
    then show ?thesis
      using less.IH [of "n div 10"] digit_char_code [of "n mod 10"] by (auto simp: s digits_value_snoc isdigit_def)
  qed
qed

lemma digit_not: "isdigit c \<Longrightarrow> \<not> isspace c \<and> c \<noteq> CHR ''-'' \<and> c \<noteq> CHR ''+'' \<and> c \<noteq> CHR '',''"
  by (auto simp: isdigit_def isspace_def)

lemma stoull_dec: "stoull (dec v) = Inr v"
proof -
  obtain c cs where d: "show_base 10 (unat v) = c # cs" using show_base_10 [of "unat v"] by (cases "show_base 10 (unat v)") auto
  have digits: "\<forall>x\<in>set (c # cs). isdigit x" "digits_value (c # cs) = unat v" using show_base_10 [of "unat v"] d by auto
  have "isdigit c" using digits(1) by simp
  then have "split_sign (dropWhile isspace (c # cs)) = (False, c # cs)" using digit_not [of c] by (simp add: split_sign_def)
  moreover have "takeWhile isdigit (c # cs) = c # cs" using digits(1) by simp
  moreover have "unat v < 2 ^ 64" using unsigned_less [where 'a = nat, of v] by simp
  ultimately show ?thesis
    unfolding stoull_def dec_def d using digits(2) by (simp add: Let_def)
qed

text \<open>
  C25: printing an address and a size in decimal with a comma between them and parsing the text gives
  the range that starts at the address and has the size, modulo the width of an address; every text
  without a comma is refused.
\<close>
theorem parse_range_roundtrip:
  "ParseRange (dec address @ '','' @ dec n) = Inr (mkRange address (address + n)) \<and>
   (CHR '','' \<notin> set s \<longrightarrow> ParseRange s = Inl InvalidArgument)"
proof -
  have no_comma: "\<forall>c\<in>set (dec v). c \<noteq> CHR '',''" for v using show_base_10 [of "unat v"] digit_not by (auto simp: dec_def)
  then have cut: "takeWhile (\<lambda>c. c \<noteq> CHR '','') (dec address @ '','' @ dec n) = dec address"
    "dropWhile (\<lambda>c. c \<noteq> CHR '','') (dec address @ '','' @ dec n) = CHR '','' # dec n"
    by (simp_all add: takeWhile_append dropWhile_append)
  then have "ParseRange (dec address @ '','' @ dec n) = Inr (mkRange address (address + n))"
    unfolding ParseRange_def cut by (simp add: stoull_dec Let_def)
  moreover have "ParseRange s = Inl InvalidArgument" if "CHR '','' \<notin> set s"
  proof -
    have "dropWhile (\<lambda>c. c \<noteq> CHR '','') s = []" using that by (auto simp: dropWhile_eq_Nil_conv)
    then show ?thesis unfolding ParseRange_def by (simp only: list.case)
  qed
  ultimately show ?thesis by blast
qed

theorem parse_range_roundtrip_witness: "ParseRange ''0x10'' = Inl InvalidArgument"
  using parse_range_roundtrip [of 0 0 "''0x10''"] by simp

section \<open>What the callbacks change\<close>

lemma OnBBFetch_effect [simp]: "CurrentPC (OnBBFetch bb a) = getPC bb"
  by (simp add: OnBBFetch_def Let_def)

lemma stored_value_keeps:
  assumes "stored_value instr addr pm = Inr (v, pm')" and "pm_inv E pm"
  shows "pm_inv E pm' \<and> same_memory pm pm'"
  using assms(1)
  by (cases "operation instr") (auto simp: stored_value_def bindE_eq_Inr_iff mmu_defs pm_loadByte_def pm_loadHWord_def
      pm_loadWord_def pm_loadDWord_def dest: load_keeps [OF assms(2)])

text \<open>A callback changes nothing of the hart but the range the physical memory remembers.\<close>

definition only_looked :: "os \<Rightarrow> Hart \<Rightarrow> Hart \<Rightarrow> bool" where
  "only_looked E h h' \<longleftrightarrow>
     (\<exists>pm. h' = h\<lparr>h_mem := pm\<rparr> \<and> (pm_inv E (h_mem h) \<longrightarrow> pm_inv E pm \<and> same_memory (h_mem h) pm))"

lemma only_looked_refl: "only_looked E h h"
  unfolding only_looked_def by (rule exI [of _ "h_mem h"]) (simp add: same_memory_def)

lemma only_looked_trans: "only_looked E h h1 \<Longrightarrow> only_looked E h1 h2 \<Longrightarrow> only_looked E h h2"
  by (auto simp: only_looked_def same_memory_def)

lemma only_looked_load: "pm_load ld a (h_mem h) = Inr (v, pm) \<Longrightarrow> only_looked E h (h\<lparr>h_mem := pm\<rparr>)"
  using load_keeps [of E "h_mem h" ld a v pm] by (auto simp: only_looked_def)

lemma trace_store_looks:
  assumes "trace_store instr h = Inr (t, h')"
  shows "only_looked E h h'"
proof (cases "isStore instr")
  case True
  then obtain addr v pm where "stored_value instr addr (h_mem h) = Inr (v, pm)" "h' = h\<lparr>h_mem := pm\<rparr>"
    using assms by (auto simp: trace_store_def bindE_eq_Inr_iff Let_def)
  then show ?thesis using stored_value_keeps by (auto simp: only_looked_def)
qed (use assms in \<open>simp add: trace_store_def only_looked_refl\<close>)

lemma trace_instr_looks: "trace_instr m instr a h = Inr (t, h') \<Longrightarrow> only_looked E h h'"
  by (auto simp: trace_instr_def only_looked_refl bindE_eq_Inr_iff split: if_splits dest: trace_store_looks)

lemma OnInstrExecuted_effect:
  assumes "OnInstrExecuted D instr a h = Inr (a', h')"
  shows "CurrentPC a' = CurrentPC a + 4 \<and> only_looked E h h'"
proof -
  obtain w pm a1 h1 where l: "mmu_loadWord (CurrentPC a) (h_mem h) = Inr (w, pm)"
    and r: "(case D (le_bytes 4 w) (CurrentPC a) of
          None \<Rightarrow> Inr (a\<lparr>clog := clog a @ tab @ ''unimp'' @ newline\<rparr>, h\<lparr>h_mem := pm\<rparr>)
        | Some dis \<Rightarrow>
            bindE (dump_instr dis instr (h\<lparr>h_mem := pm\<rparr>) a) (\<lambda>text1.
            bindE (trace_instr (fst (snd dis)) instr a (h\<lparr>h_mem := pm\<rparr>)) (\<lambda>(text2, h).
            Inr (a\<lparr>clog := clog a @ text1, traceFile := traceFile a @ text2\<rparr>, h)))) = Inr (a1, h1)"
    and e: "a' = a1\<lparr>CurrentPC := CurrentPC a1 + 4\<rparr>" "h' = h1"
    using assms unfolding OnInstrExecuted_def Let_def by (auto simp: bindE_eq_Inr_iff)
  have "only_looked E h (h\<lparr>h_mem := pm\<rparr>)" using l by (auto simp: mmu_defs pm_loadWord_def intro: only_looked_load)
  moreover have "CurrentPC a1 = CurrentPC a \<and> only_looked E (h\<lparr>h_mem := pm\<rparr>) h1"
    using r by (auto simp: bindE_eq_Inr_iff only_looked_refl split: option.splits dest: trace_instr_looks)
  ultimately show ?thesis using e only_looked_trans by simp
qed

lemma callbacks_effect:
  "callbacks D cs (a, h) = Inr (a', h') \<Longrightarrow>
     CurrentPC a' = fold (follow OnBBFetch_ptr OnInstrExecuted_ptr) cs (CurrentPC a) \<and> only_looked E h h'"
proof (induction cs arbitrary: a h)
  case (Cons c cs)
  obtain a1 h1 where c: "callback D c (a, h) = Inr (a1, h1)" "callbacks D cs (a1, h1) = Inr (a', h')"
    using Cons.prems by (auto simp: bindE_eq_Inr_iff)
  have "CurrentPC a1 = follow OnBBFetch_ptr OnInstrExecuted_ptr c (CurrentPC a) \<and> only_looked E h h1"
    using c(1) OnInstrExecuted_effect by (cases c) (auto simp: only_looked_refl split: if_splits)
  then show ?case using Cons.IH [OF c(2)] only_looked_trans by auto
qed (simp add: only_looked_refl)

lemma deliver_effect:
  assumes "deliver D a h = Inr (a', h')"
  shows "CurrentPC a' = fold (follow OnBBFetch_ptr OnInstrExecuted_ptr) (hook_log h) (CurrentPC a)"
    and "only_looked E (h\<lparr>hook_log := []\<rparr>) h'"
  using callbacks_effect [OF assms [unfolded deliver_def]] by simp_all

section \<open>The tracer follows the hart\<close>

definition app_start :: "disassembler \<Rightarrow> env \<Rightarrow> App \<times> Hart \<Rightarrow> App \<times> Hart \<Rightarrow> bool" where
  "app_start D E s0 s \<longleftrightarrow> (\<exists>h. exec_BB_END E (snd s0) = Inr (Dispatch h) \<and> deliver D (fst s0) h = Inr s)"

inductive app_step :: "disassembler \<Rightarrow> env \<Rightarrow> App \<times> Hart \<Rightarrow> App \<times> Hart \<Rightarrow> bool" for D E where
  app_stepI: "dispatch E h = Inr (Dispatch h1) \<Longrightarrow> deliver D a h1 = Inr s \<Longrightarrow> app_step D E (a, h) s"

inductive_cases app_stepE: "app_step D E s s'"

text \<open>The states of application and hart in which a handler is called.\<close>

inductive app_reachable :: "disassembler \<Rightarrow> env \<Rightarrow> App \<times> Hart \<Rightarrow> App \<times> Hart \<Rightarrow> bool" for D E s0 where
  app_reachable_start: "app_start D E s0 s \<Longrightarrow> app_reachable D E s0 s"
| app_reachable_step: "app_reachable D E s0 s \<Longrightarrow> app_step D E s s' \<Longrightarrow> app_reachable D E s0 s'"

definition app_fresh :: "env \<Rightarrow> App \<times> Hart \<Rightarrow> bool" where
  "app_fresh E s \<longleftrightarrow> core_ok E (snd s) \<and> hook_log (snd s) = [] \<and> currentInstr (snd s) = None \<and>
     listening OnBBFetch_ptr OnInstrExecuted_ptr (hookManager (snd s))"

definition app_ok :: "env \<Rightarrow> App \<times> Hart \<Rightarrow> bool" where
  "app_ok E s \<longleftrightarrow> hart_ok E (snd s) \<and> hook_log (snd s) = [] \<and> CurrentPC (fst s) = slot_address (snd s) \<and>
     listening OnBBFetch_ptr OnInstrExecuted_ptr (hookManager (snd s))"

lemma hart_ok_looked: "only_looked (env_os E) h h' \<Longrightarrow> hart_ok E h \<Longrightarrow> hart_ok E h'"
  by (auto simp: only_looked_def hart_ok_def core_ok_def)

lemma hart_ok_current: "hart_ok E h \<Longrightarrow> currentInstr h \<noteq> None"
  by (auto simp: hart_ok_def within_def)

lemma deliver_app_ok:
  assumes "hart_ok E h" and "positioned OnBBFetch_ptr OnInstrExecuted_ptr (CurrentPC a) h" and "deliver D a h = Inr s"
  shows "app_ok E s"
proof -
  obtain a' h' where s: "s = (a', h')" by fastforce
  have d: "CurrentPC a' = fold (follow OnBBFetch_ptr OnInstrExecuted_ptr) (hook_log h) (CurrentPC a)"
      "only_looked (env_os E) (h\<lparr>hook_log := []\<rparr>) h'"
    using deliver_effect assms(3) s by blast+
  then obtain pm where h': "h' = h\<lparr>hook_log := [], h_mem := pm\<rparr>" by (auto simp: only_looked_def)
  have "hart_ok E (h\<lparr>hook_log := []\<rparr>)" using assms(1) by (simp add: hart_ok_def)
  then have "hart_ok E h'" by (rule hart_ok_looked [OF d(2)])
  moreover have "CurrentPC a' = slot_address h'"
    using d(1) assms(2) hart_ok_current [OF assms(1)] by (simp add: positioned_def h')
  ultimately show ?thesis using assms(2) by (simp add: app_ok_def s h' positioned_def)
qed

interpretation app: stepping "app_start D E" "app_step D E" "app_fresh E" "app_ok E" for D E
proof
  fix s0 s
  assume f: "app_fresh E s0" and st: "app_start D E s0 s"
  then obtain h where h: "exec_BB_END E (snd s0) = Inr (Dispatch h)" "deliver D (fst s0) h = Inr s" by (auto simp: app_start_def)
  have "positioned OnBBFetch_ptr OnInstrExecuted_ptr (CurrentPC (fst s0)) (snd s0)" using f by (simp add: app_fresh_def positioned_def)
  then have "positioned OnBBFetch_ptr OnInstrExecuted_ptr (CurrentPC (fst s0)) h"
    using validD [OF position.trap_keeps(3) h(1)] by simp
  moreover have "hart_ok E h" using exec_BB_END_ready [OF _ h(1)] f ready_hart_ok by (simp add: app_fresh_def)
  ultimately show "app_ok E s" using deliver_app_ok h(2) by blast
next
  fix s s'
  assume ok: "app_ok E s" and st: "app_step D E s s'"
  then obtain a h h1 where s: "s = (a, h)" and h: "dispatch E h = Inr (Dispatch h1)" "deliver D a h1 = Inr s'" by (auto elim: app_stepE)
  have "positioned OnBBFetch_ptr OnInstrExecuted_ptr (CurrentPC a) h" using ok by (simp add: app_ok_def s positioned_def)
  then have "positioned OnBBFetch_ptr OnInstrExecuted_ptr (CurrentPC a) h1"
    using validD [OF position.dispatch_keeps h(1)] by simp
  moreover have "hart_ok E h1" using validD [OF dispatch_ok h(1)] ok by (simp add: app_ok_def s)
  ultimately show "app_ok E s'" using deliver_app_ok h(2) by blast
qed

lemma app_reachable_reach: "app_reachable D E s0 s \<Longrightarrow> app.reach D E s0 s"
  by (induction rule: app_reachable.induct) (auto intro: app.reach.intros)

text \<open>A run that returns does so from a reachable state.\<close>

definition app_ends :: "disassembler \<Rightarrow> env \<Rightarrow> App \<times> Hart \<Rightarrow> App \<times> Hart \<Rightarrow> bool" where
  "app_ends D E s0 s' \<longleftrightarrow>
     (\<exists>s h1. app_reachable D E s0 s \<and> dispatch E (snd s) = Inr (Return h1) \<and> deliver D (fst s) h1 = Inr s')"

lemma drive_app_ends:
  "drive_app D E p = Some r \<Longrightarrow>
     \<forall>s0 s s'. app_reachable D E s0 s \<and> p = (fst s, dispatch E (snd s)) \<and> r = Inr s' \<longrightarrow> app_ends D E s0 s'"
proof (erule drive_app.raw_induct [rotated])
  fix drv :: "disassembler \<Rightarrow> env \<Rightarrow> App \<times> outcome res \<Rightarrow> (App \<times> Hart) res option" and D E p r
  let ?P = "\<lambda>D E p r. \<forall>s0 s s'. app_reachable D E s0 s \<and> p = (fst s, dispatch E (snd s)) \<and> r = Inr s' \<longrightarrow> app_ends D E s0 s'"
  assume IH: "\<And>D E p r. drv D E p = Some r \<Longrightarrow> ?P D E p r"
    and d: "(case snd p of Inl e \<Rightarrow> Some (Inl e)
      | Inr x \<Rightarrow> (case after_handler D E (fst p) x of Inl r \<Rightarrow> Some r | Inr s' \<Rightarrow> drv D E s')) = Some r"
  show "?P D E p r"
  proof (intro allI impI)
    fix s0 s s'
    assume a: "app_reachable D E s0 s \<and> p = (fst s, dispatch E (snd s)) \<and> r = Inr s'"
    then obtain x where x: "dispatch E (snd s) = Inr x" using d by (cases "dispatch E (snd s)") auto
    show "app_ends D E s0 s'"
    proof (cases x)
      case (Return h1)
      then have "deliver D (fst s) h1 = Inr s'" using a d x by (auto simp: after_handler_def split: sum.splits)
      then show ?thesis unfolding app_ends_def using a x Return by blast
    next
      case (Dispatch h1)
      then obtain a1 h2 where n: "deliver D (fst s) h1 = Inr (a1, h2)" "drv D E (a1, dispatch E h2) = Some (Inr s')"
        using a d x by (auto simp: after_handler_def split: sum.splits)
      have "app_step D E s (a1, h2)" using app_stepI [of E "snd s" h1 D "fst s" "(a1, h2)"] x Dispatch n(1) by simp
      then have "app_reachable D E s0 (a1, h2)" using a app_reachable_step by blast
      then show ?thesis using IH [OF n(2)] by (metis fst_conv snd_conv)
    qed
  qed
qed

lemma run_app_ends:
  assumes "run_app D E a m = Some (Inr s')"
  shows "app_ends D E (a, machine_hart m) s'"
proof -
  have d: "drive_app D E (a, exec_BB_END E (machine_hart m)) = Some (Inr s')" using assms by (simp add: run_app_def)
  then obtain x where x: "exec_BB_END E (machine_hart m) = Inr x" by (subst (asm) drive_app.simps) (auto split: sum.splits)
  show ?thesis
  proof (cases x)
    case (Dispatch h1)
    then obtain a1 h2 where n: "deliver D a h1 = Inr (a1, h2)" "drive_app D E (a1, dispatch E h2) = Some (Inr s')"
      using d x by (subst (asm) drive_app.simps) (auto simp: after_handler_def split: sum.splits)
    have "app_reachable D E (a, machine_hart m) (a1, h2)"
      by (rule app_reachable_start) (use x Dispatch n(1) in \<open>simp add: app_start_def\<close>)
    then show ?thesis using drive_app_ends [OF n(2)] by (metis fst_conv snd_conv)
  qed (use x in \<open>auto simp: exec_BB_END_def bindE_eq_Inr_iff\<close>)
qed

lemma InitVerboseLogging_listening:
  assumes "getHookManager m = mkHookManager"
  shows "\<exists>m'. InitVerboseLogging a m = Inr (say ''[BESM-666] VERBOSE: Verbose logging enabled'' (InitCapstone a), m') \<and> listening OnBBFetch_ptr OnInstrExecuted_ptr (getHookManager m') \<and>
    getHart m' = (getHart m)\<lparr>hookManager := getHookManager m'\<rparr>"
proof -
  obtain hm where "register_all [(BB_FETCHED, OnBBFetch_ptr), (INSTR_EXECUTED, OnInstrExecuted_ptr)] mkHookManager = Inr hm"
      "hooks_sorted hm" "\<forall>e. registered e hm = map snd (filter (\<lambda>q. fst q = e) [(BB_FETCHED, OnBBFetch_ptr), (INSTR_EXECUTED, OnInstrExecuted_ptr)])"
    using register_all_registered [OF hooks_sorted_mk, of "[(BB_FETCHED, OnBBFetch_ptr), (INSTR_EXECUTED, OnInstrExecuted_ptr)]"]
    by (auto simp: OnBBFetch_ptr_def OnInstrExecuted_ptr_def registered_def mkHookManager_def)
  then show ?thesis
    using assms by (auto simp: InitVerboseLogging_def with_hooks_def listening_def getHookManager_def getHart_def bindE_eq_Inr_iff)
qed

text \<open>
  C12: the tracer follows the hart.  On a new machine with verbose logging initialised, in every state
  in which a handler is called the tracer's address \<^verbatim>\<open>CurrentPC\<close> is the address of the slot the hart
  executes next: that of the current block plus four for each slot before it; the hart is
  well formed although the callbacks read its memory.  A run that returns does so from one of
  these states.
\<close>
theorem trace_position:
  assumes "fresh E (getHart m)" and "getHookManager m = mkHookManager"
  shows "\<exists>a0 m'. InitVerboseLogging a1 m = Inr (a0, m') \<and>
    (\<forall>a h. app_reachable D E (a0, getHart m') (a, h) \<longrightarrow> hart_ok E h \<and>
       (\<exists>b k. currentInstr h = Some (b, k) \<and> CurrentPC a = getPC (bbs (bbCache h) ! b) + of_nat (4 * k))) \<and>
    (\<forall>a' h'. run_app D E a0 m' = Some (Inr (a', h')) \<longrightarrow>
       (\<exists>a h h1. app_reachable D E (a0, getHart m') (a, h) \<and> dispatch E h = Inr (Return h1) \<and> deliver D a h1 = Inr (a', h')))"
proof -
  obtain a0 m' where m': "InitVerboseLogging a1 m = Inr (a0, m')" "listening OnBBFetch_ptr OnInstrExecuted_ptr (getHookManager m')"
      "getHart m' = (getHart m)\<lparr>hookManager := getHookManager m'\<rparr>"
    using InitVerboseLogging_listening [OF assms(2)] by blast
  have new: "hook_log (getHart m) = [] \<and> currentInstr (getHart m) = None"
    using assms(1) unfolding fresh_def by (metis mkHart_simps)
  have "core_ok E (getHart m')" using fresh_core [OF assms(1)] by (simp add: m'(3) core_ok_def)
  then have "app_fresh E (a0, getHart m')" using new m'(2) by (simp add: app_fresh_def m'(3))
  then have ok: "app_ok E (a, h)" if "app_reachable D E (a0, getHart m') (a, h)" for a h
    using app.reach_inv [OF app_reachable_reach [OF that]] by blast
  have "\<exists>b k. currentInstr h = Some (b, k) \<and> CurrentPC a = getPC (bbs (bbCache h) ! b) + of_nat (4 * k)" if "app_ok E (a, h)" for a h
    using that hart_ok_current [of E h] by (auto simp: app_ok_def slot_address_def getPC_def)
  then show ?thesis
    using m'(1) ok run_app_ends [of D E a0 m'] by (fastforce simp: app_ok_def app_ends_def getHart_def)
qed

definition demo_app :: App where
  "demo_app = \<lparr>optionDumpInstructions = True, optionDumpRegisters = False, optionTracingEnabled = True, traceFile = [], clog = [], CurrentPC = 0,
     capstoneInitialized = False, CapstoneHandles = 0, exitHandlers = 0\<rparr>"

theorem trace_position_witness:
  "\<exists>a0 m' a h b k. InitVerboseLogging demo_app \<lparr>machine_hart = demo_hart\<rparr> = Inr (a0, m') \<and>
     app_reachable (\<lambda>_ _. None) demo_env (a0, getHart m') (a, h) \<and>
     currentInstr h = Some (b, k) \<and> CurrentPC a = getPC (bbs (bbCache h) ! b) + of_nat (4 * k)"
proof -
  let ?m = "\<lparr>machine_hart = demo_hart\<rparr>" and ?m' = "\<lparr>machine_hart = demo_listener\<rparr>" and ?D = "\<lambda>_ _. None"
  let ?a = "say ''[BESM-666] VERBOSE: Verbose logging enabled'' (InitCapstone demo_app)"
  have m: "fresh demo_env (getHart ?m)" "getHookManager ?m = mkHookManager"
    using demo_hart_fresh by (simp_all add: getHart_def getHookManager_def demo_hart_def mkHart_def)
  then have init: "InitVerboseLogging demo_app ?m = Inr (?a, ?m')"
    by (simp add: InitVerboseLogging_def with_hooks_def registerBBFetchHook_def registerInstrExecHook_def doRegisterHook_def
        multimap_insert_def mkHookManager_def OnBBFetch_ptr_def OnInstrExecuted_ptr_def demo_listener_def Let_def)
  obtain h b where h: "fetchBB demo_listener = Inr h" using demo_listener_fetch by blast
  have "hooks_sorted (hookManager demo_listener)" "registered BB_FETCHED (hookManager demo_listener) = [1]" "hook_log demo_listener = []"
    using demo_listening by (simp_all add: listening_def demo_listener_def demo_hart_def mkHart_def)
  then obtain bb where "hook_log h = [BBFetchCall 1 bb]" using fetchBB_calls [OF h] by auto
  then have "deliver ?D ?a h = Inr (OnBBFetch bb ?a, h\<lparr>hook_log := []\<rparr>)"
    by (simp add: deliver_def OnBBFetch_ptr_def)
  then have r: "app_reachable ?D demo_env (?a, getHart ?m') (OnBBFetch bb ?a, h\<lparr>hook_log := []\<rparr>)"
    using h by (intro app_reachable_start) (simp add: app_start_def exec_BB_END_def getHart_def)
  then show ?thesis using trace_position [OF m, of demo_app ?D] init by fastforce
qed

text \<open>
  Initialising verbose logging again opens no second disassembler: exactly one handle is opened, and
  exactly one function closes one at exit.
\<close>
theorem capstone_opened_once:
  assumes "\<not> capstoneInitialized a" and "CapstoneHandles a = 0" and "exitHandlers a = 0"
  shows "let b = (InitCapstone ^^ Suc n) a in CapstoneHandles b = 1 \<and> exitHandlers b = 1 \<and> capstoneInitialized b"
proof -
  let ?b = "InitCapstone a"
  have "capstoneInitialized ?b" "CapstoneHandles ?b = 1" "exitHandlers ?b = 1" using assms by (simp_all add: InitCapstone_def)
  moreover from this(1) have "(InitCapstone ^^ n) ?b = ?b" by (induction n) (simp_all add: InitCapstone_def)
  ultimately show ?thesis by (simp add: funpow_swap1 Let_def)
qed

text \<open>
  The default options describe a machine that can be built: one gigabyte at address zero in whole pages,
  in chunks that consist of host pages.
\<close>
theorem default_configuration:
  "fst (configure (cli_defaults path) (mkConfigBuilder page chunk)) =
     \<lparr>executablePath = path, ramRanges = [mkRange 0 0x40000000], ramPageSize = 4096, ramChunkSize = 0x200000\<rparr> \<and>
   range_ok 4096 (mkRange 0 0x40000000) \<and> ranges_apart [mkRange 0 0x40000000] \<and> cfg_ok plenty 4096 0x200000"
proof -
  have "ParseRange ''0,1073741824'' = Inr (mkRange 0 0x40000000)"
    by (simp add: ParseRange_def stoull_def split_sign_def isspace_def isdigit_def digits_value_def Let_def)
  then have "fst (configure (cli_defaults path) (mkConfigBuilder page chunk)) =
     \<lparr>executablePath = path, ramRanges = [mkRange 0 0x40000000], ramPageSize = 4096, ramChunkSize = 0x200000\<rparr>"
    by (simp add: configure_def cli_defaults_def option_ram_def Let_def mkConfigBuilder_def setExecutablePath_def addRamRange_def
        setRamPageSize_def setRamChunkSize_def)
  moreover have "range_ok 4096 (mkRange 0 0x40000000)" "ranges_apart [mkRange 0 0x40000000]"
    by (simp_all add: range_ok_def ranges_apart_def mkRange_def range_size_def)
  moreover have "cfg_ok plenty 4096 0x200000"
    unfolding cfg_ok_def plenty_def by (intro conjI exI [of _ 12]) simp_all
  ultimately show ?thesis by blast
qed

end
