(* ===== verification/IsaTrace.thy ===== *)
theory IsaTrace
  imports IsaProgram Standalone
begin

text \<open>
  The command line simulator on a whole program.  The machine of the architecture, extended by the text
  a tracer would print for every instruction, is compared with the application: the handlers of the
  hart, the callbacks they call after every block and every instruction, and the files these
  write.  Under the hypotheses of the simulation the callbacks never fail and do not disturb the
  execution, the trace file gets exactly the expected text, and the exit status is the one the
  program's result calls for, whatever the logging options.
\<close>

section \<open>The expected trace\<close>

definition trace_line :: "disassembler \<Rightarrow> Instruction \<Rightarrow> isa_state \<Rightarrow> isa_state \<Rightarrow> string" where
  "trace_line D i s s' =
     (case D (mem_get 4 (isa_pc s) (isa_mem s)) (isa_pc s) of
        None \<Rightarrow> []
      | Some (_, mnemonic, _) \<Rightarrow>
          hex (isa_pc s) @ '': '' @ trace_mnemonic mnemonic @ newline @
          (if rd i \<noteq> 0 then tab @ ''Reg ['' @ two_digits (show_base 16 (unat (rd i))) @ ''] <= '' @ hex (isa_reg (rd i) s') @ newline else []) @
          (if isJump i then tab @ ''Pc <= '' @ hex (isa_pc s') @ newline else []) @
          (if isStore i
           then tab @ ''Mem ['' @ hex (isa_address i s) @ ''] <= '' @ hex (take_bit (8 * access_bytes (operation i)) (isa_reg (rs2 i) s)) @ newline
           else []))"

inductive isa_traced ::
    "disassembler \<Rightarrow> (RV64Ptr \<Rightarrow> nat \<Rightarrow> bool) \<Rightarrow> RV64Ptr set \<Rightarrow> isa_state \<times> string \<Rightarrow> isa_state \<times> string \<Rightarrow> bool" for D area prog where
  isa_tracedI: "encode a = Some (le_word (mem_get 4 (isa_pc s) (isa_mem s))) \<Longrightarrow> fetchable area prog (isa_pc s) \<Longrightarrow>
     agrees area prog (asm_instr a) s \<Longrightarrow>
     isa_traced D area prog (s, t) (isa_exec (asm_instr a) s, t @ trace_line D (asm_instr a) s (isa_exec (asm_instr a) s))"

inductive_cases isa_tracedE: "isa_traced D area prog p q"

section \<open>The callbacks on a hart that mirrors the machine\<close>

lemma le_bytes_le_word: "length bs = n \<Longrightarrow> LENGTH('a) = 8 * n \<Longrightarrow> le_bytes n (le_word bs :: 'a::len word) = bs"
  by (rule nth_equalityI)
     (auto simp: le_bytes_nth bit_le_word bit_ucast_iff bit_drop_bit_eq intro!: bit_word_eqI)

lemma stored_back:
  assumes "8 * n \<le> 64"
  shows "LENGTH('a) = 8 * n \<Longrightarrow> ucast (le_word (le_bytes n (v :: u64)) :: 'a::len word) = take_bit (8 * n) v"
proof -
  assume l: "LENGTH('a) = 8 * n"
  have "le_bytes n (ucast v :: 'a word) = le_bytes n v" by (rule le_bytes_ucast) (simp add: l)
  then have "(le_word (le_bytes n v) :: 'a word) = ucast v" using le_word_le_bytes [OF l, of "ucast v"] by simp
  then show ?thesis by (intro bit_word_eqI) (auto simp: bit_ucast_iff bit_take_bit_iff l)
qed

lemma stored_value_text:
  assumes pm: "pm_inv E pm" and st: "isStore i" and area: "pm_area pm addr (access_bytes (operation i))"
    and bs: "mem_get (access_bytes (operation i)) addr (pm_peek pm) = le_bytes (access_bytes (operation i)) (x :: u64)"
  shows "\<exists>pm'. stored_value i addr pm = Inr (take_bit (8 * access_bytes (operation i)) x, pm')"
proof -
  from st consider "operation i = SB" | "operation i = SH" | "operation i = SW" | "operation i = SD" by (auto simp: isStore_def)
  then show ?thesis
  proof cases
    case 1
    then show ?thesis using mmu.loadB [OF pm, of addr] area bs stored_back [of 1 x, where 'a = 8]
      by (auto simp: stored_value_def simp del: le_word.simps le_bytes.simps mem_get_def)
  next
    case 2
    then show ?thesis using mmu.loadH [OF pm, of addr] area bs stored_back [of 2 x, where 'a = 16]
      by (auto simp: stored_value_def simp del: le_word.simps le_bytes.simps mem_get_def)
  next
    case 3
    then show ?thesis using mmu.loadW [OF pm, of addr] area bs stored_back [of 4 x, where 'a = 32]
      by (auto simp: stored_value_def simp del: le_word.simps le_bytes.simps mem_get_def)
  next
    case 4
    then show ?thesis using mmu.loadD [OF pm, of addr] area bs stored_back [of 8 x, where 'a = 64]
      by (auto simp: stored_value_def simp del: le_word.simps le_bytes.simps mem_get_def)
  qed
qed

lemma mirrors_pm: "mirrors E area prog h s \<Longrightarrow> pm_inv (env_os E) (h_mem h)"
  by (simp add: mirrors_def core_ok_def)

lemma reg_texts:
  assumes m: "mirrors E area prog h s" and wf: "wf_instr i"
  shows "trace_register i h = Inr (if rd i \<noteq> 0
      then tab @ ''Reg ['' @ two_digits (show_base 16 (unat (rd i))) @ ''] <= '' @ hex (isa_reg (rd i) s) @ newline else [])"
    and "trace_jump i h = Inr (if isJump i then tab @ ''Pc <= '' @ hex (isa_pc s) @ newline else [])"
    and "\<exists>t. dump_instr dis i h a = Inr t"
proof -
  have r: "reg_val (h_gprf h) (rd i) = isa_reg (rd i) s" using m wf by (simp add: mirrors_def wf_instr_def)
  have lt: "unat (rd i) < 33" "unat (rs1 i) < 33" "unat (rs2 i) < 33"
    using wf unat_wf_reg by (simp_all add: wf_instr_def)
  show "trace_register i h = Inr (if rd i \<noteq> 0
      then tab @ ''Reg ['' @ two_digits (show_base 16 (unat (rd i))) @ ''] <= '' @ hex (isa_reg (rd i) s) @ newline else [])"
    using read_reg_eq [OF lt(1), of h] r by (simp add: trace_register_def)
  show "trace_jump i h = Inr (if isJump i then tab @ ''Pc <= '' @ hex (isa_pc s) @ newline else [])"
    using m unfolding trace_jump_def read_PC_eq by (simp add: mirrors_def)
  show "\<exists>t. dump_instr dis i h a = Inr t"
    using lt gprf_read_eq by (simp add: dump_instr_def DumpReg_def)
qed

lemma trace_store_text:
  assumes m: "mirrors E area prog h s" and wf: "wf_instr i" and ar: "isStore i \<Longrightarrow> area (isa_address i s) (access_bytes (operation i))"
    and bs: "isStore i \<Longrightarrow> mem_get (access_bytes (operation i)) (isa_address i s) (isa_mem s) = le_bytes (access_bytes (operation i)) (x :: u64)"
  shows "\<exists>h'. trace_store i h = Inr (if isStore i
    then tab @ ''Mem ['' @ hex (isa_address i s) @ ''] <= '' @ hex (take_bit (8 * access_bytes (operation i)) x) @ newline else [], h')"
proof (cases "isStore i")
  case True
  note reads = mirrors_reads [OF m wf]
  have rs1: "read_reg (rs1 i) h = Inr (isa_reg (rs1 i) s)"
    using read_reg_eq [of "rs1 i" h] wf unat_wf_reg reads(1) by (simp add: wf_instr_def)
  obtain pm' where "stored_value i (isa_address i s) (h_mem h) = Inr (take_bit (8 * access_bytes (operation i)) x, pm')"
    using stored_value_text [OF mirrors_pm [OF m] True] ar [OF True] bs [OF True] unfolding reads by blast
  then show ?thesis using True rs1 by (simp add: trace_store_def SignExtend_12 isa_address_def)
qed (simp add: trace_store_def)

text \<open>Looking at memory does not disturb the execution, nor does emptying the log of calls.\<close>

lemma mirrors_looked:
  assumes m: "mirrors E area prog h s" and l: "only_looked (env_os E) h h'"
  shows "mirrors E area prog h' s"
proof -
  obtain pm where h': "h' = h\<lparr>h_mem := pm\<rparr>" and pm: "pm_inv (env_os E) pm" "same_memory (h_mem h) pm"
    using l mirrors_pm [OF m] by (auto simp: only_looked_def)
  have "pf_ok pm (prefetcher h)"
    using pf_ok_ext [OF _ _ pm_ext_same [OF pm(2)]] m mirrors_pm [OF m] by (auto simp: mirrors_def pm_inv_def)
  moreover have "whole_pages pm" "pm_area pm = area" "pm_peek pm = isa_mem s"
    using m same_memory_transfer(1) [OF pm(2)] same_memory_peek [OF pm(2)] pm(2) pm_area_devices [of pm "h_mem h"]
    by (auto simp: mirrors_def same_memory_def)
  moreover have "pc_of h' = pc_of h" by (simp add: h' pc_of_def)
  ultimately show ?thesis using m pm(1) by (simp add: mirrors_def h' core_ok_def)
qed

lemma mirrors_log [simp]: "mirrors E area prog (h\<lparr>hook_log := l\<rparr>) s = mirrors E area prog h s"
  by (simp add: mirrors_def core_ok_def pc_of_def)

lemma follows_looked:
  assumes f: "follows E area prog h s" and l: "only_looked (env_os E) (h\<lparr>hook_log := []\<rparr>) h'"
  shows "follows E area prog h' s"
proof -
  obtain pm where h': "h' = h\<lparr>hook_log := [], h_mem := pm\<rparr>" using l by (auto simp: only_looked_def)
  have "hart_ok E (h\<lparr>hook_log := []\<rparr>)" using f by (simp add: follows_def hart_ok_def core_ok_def within_def)
  then have "hart_ok E h'" by (rule hart_ok_looked [OF l])
  moreover have "mirrors E area prog h' s" using mirrors_looked [OF _ l] f by (simp add: follows_def)
  moreover have "current h' = current h" "slot_address h' = slot_address h" "pc_of h' = pc_of h"
    by (simp_all add: h' current_def slot_address_def pc_of_def split: option.split)
  then have "at_slot h'" using f by (auto simp: follows_def at_slot_def h')
  ultimately show ?thesis by (simp add: follows_def)
qed

lemma store_after:
  assumes st: "isStore i" and ar: "area (isa_address i s) (access_bytes (operation i))" and pm: "pm_inv E pm" "pm_area pm = area"
  shows "isa_address i (isa_exec i s) = isa_address i s"
    and "mem_get (access_bytes (operation i)) (isa_address i s) (isa_mem (isa_exec i s)) =
      le_bytes (access_bytes (operation i)) (isa_reg (rs2 i) s)"
proof -
  have op: "operation i \<in> set store_ops" using st by (auto simp: isStore_def store_ops_def)
  show "isa_address i (isa_exec i s) = isa_address i s"
    by (simp add: isa_exec_def effect_store [OF op] isa_address_def isa_reg_def)
  have "unat (isa_address i s) + access_bytes (operation i) \<le> 2 ^ 64" using pm_area_fits ar pm(2) by blast
  then show "mem_get (access_bytes (operation i)) (isa_address i s) (isa_mem (isa_exec i s)) =
      le_bytes (access_bytes (operation i)) (isa_reg (rs2 i) s)"
    using mem_get_put_same [of "isa_address i s" "le_bytes (access_bytes (operation i)) (isa_reg (rs2 i) s)"]
    by (simp add: isa_exec_def effect_store [OF op] del: mem_get_def)
qed

definition same_options :: "App \<Rightarrow> App \<Rightarrow> bool" where
  "same_options a a' \<longleftrightarrow> optionDumpInstructions a' = optionDumpInstructions a \<and> optionDumpRegisters a' = optionDumpRegisters a \<and>
     optionTracingEnabled a' = optionTracingEnabled a"

lemma trace_instr_text:
  assumes m: "mirrors E area prog h (isa_exec i s)" and wf: "wf_instr i" and pc: "CurrentPC a = isa_pc s"
    and st: "isStore i \<Longrightarrow> area (isa_address i s) (access_bytes (operation i))"
    and D: "D (mem_get 4 (isa_pc s) (isa_mem s)) (isa_pc s) = Some (x, mnemonic, y)"
  shows "\<exists>h'. trace_instr mnemonic i a h = Inr (if optionTracingEnabled a then trace_line D i s (isa_exec i s) else [], h')"
proof -
  let ?s' = "isa_exec i s"
  have pm: "pm_inv (env_os E) (h_mem h)" "pm_area (h_mem h) = area" using mirrors_pm [OF m] m by (simp_all add: mirrors_def)
  note after = store_after [OF _ _ pm]
  have "isStore i \<Longrightarrow> area (isa_address i ?s') (access_bytes (operation i))" using after(1) st by metis
  moreover have "isStore i \<Longrightarrow>
      mem_get (access_bytes (operation i)) (isa_address i ?s') (isa_mem ?s') = le_bytes (access_bytes (operation i)) (isa_reg (rs2 i) s)"
    using after [OF _ st] by metis
  ultimately obtain h' where "trace_store i h = Inr (if isStore i
      then tab @ ''Mem ['' @ hex (isa_address i ?s') @ ''] <= '' @ hex (take_bit (8 * access_bytes (operation i)) (isa_reg (rs2 i) s)) @ newline
      else [], h')"
    using trace_store_text [OF m wf] by blast
  then show ?thesis
    using reg_texts(1,2) [OF m wf] D after(1) [OF _ st]
    by (simp add: trace_instr_def trace_line_def pc del: mem_get_def)
qed

lemma callback_text:
  assumes m: "mirrors E area prog h (isa_exec i s)" and wf: "wf_instr i" and pc: "CurrentPC a = isa_pc s"
    and same: "mem_get 4 (isa_pc s) (isa_mem (isa_exec i s)) = mem_get 4 (isa_pc s) (isa_mem s)"
    and ar: "area (isa_pc s) 4" and st: "isStore i \<Longrightarrow> area (isa_address i s) (access_bytes (operation i))"
  shows "\<exists>a' h'. OnInstrExecuted D i a h = Inr (a', h') \<and> same_options a a' \<and>
    traceFile a' = traceFile a @ (if optionTracingEnabled a then trace_line D i s (isa_exec i s) else [])"
proof -
  let ?bs = "mem_get 4 (isa_pc s) (isa_mem s)"
  have pm: "pm_inv (env_os E) (h_mem h)" "pm_area (h_mem h) = area" "pm_peek (h_mem h) = isa_mem (isa_exec i s)"
    using mirrors_pm [OF m] m by (simp_all add: mirrors_def)
  obtain pm' where l: "mmu_loadWord (isa_pc s) (h_mem h) = Inr (le_word ?bs, pm')"
    using mmu.loadW [OF pm(1), of "isa_pc s"] ar same pm(2,3) by auto
  have "only_looked (env_os E) h (h\<lparr>h_mem := pm'\<rparr>)" using l by (auto simp: mmu_defs pm_loadWord_def intro: only_looked_load)
  then have m': "mirrors E area prog (h\<lparr>h_mem := pm'\<rparr>) (isa_exec i s)" by (rule mirrors_looked [OF m])
  have w: "le_bytes 4 (le_word ?bs :: u32) = ?bs" by (rule le_bytes_le_word) simp_all
  show ?thesis
  proof (cases "D ?bs (isa_pc s)")
    case None
    then show ?thesis using l w
      by (simp add: OnInstrExecuted_def pc trace_line_def same_options_def del: mem_get_def le_bytes.simps le_word.simps)
  next
    case (Some dis)
    obtain x mn y where dis: "dis = (x, mn, y)" by (cases dis)
    obtain t1 where t1: "dump_instr dis i (h\<lparr>h_mem := pm'\<rparr>) a = Inr t1" using reg_texts(3) [OF m' wf] by blast
    obtain h' where "trace_instr mn i a (h\<lparr>h_mem := pm'\<rparr>) = Inr (if optionTracingEnabled a then trace_line D i s (isa_exec i s) else [], h')"
      using trace_instr_text [OF m' wf pc st] Some dis by blast
    then show ?thesis using l w Some t1 dis
      by (simp add: OnInstrExecuted_def pc same_options_def del: mem_get_def le_bytes.simps le_word.simps)
  qed
qed

section \<open>Application and hart follow the traced machine\<close>

definition verbose :: "App \<Rightarrow> bool" where
  "verbose a \<longleftrightarrow> optionDumpInstructions a \<or> optionTracingEnabled a"

text \<open>No calls are pending, and the callbacks are registered exactly when an option asks for them.\<close>

definition hooked :: "App \<Rightarrow> Hart \<Rightarrow> bool" where
  "hooked a h \<longleftrightarrow> hook_log h = [] \<and> hooks_sorted (hookManager h) \<and>
     registered BB_FETCHED (hookManager h) = (if verbose a then [OnBBFetch_ptr] else []) \<and>
     registered INSTR_EXECUTED (hookManager h) = (if verbose a then [OnInstrExecuted_ptr] else [])"

definition app_follows :: "env \<Rightarrow> (RV64Ptr \<Rightarrow> nat \<Rightarrow> bool) \<Rightarrow> RV64Ptr set \<Rightarrow> App \<times> Hart \<Rightarrow> isa_state \<times> string \<Rightarrow> bool" where
  "app_follows E area prog p q \<longleftrightarrow>
     follows E area prog (snd p) (fst q) \<and> hooked (fst p) (snd p) \<and> (verbose (fst p) \<longrightarrow> CurrentPC (fst p) = slot_address (snd p)) \<and>
     traceFile (fst p) = (if optionTracingEnabled (fst p) then snd q else [])"

lemma app_fetch:
  assumes hk: "hooked a h" and f: "fetchBB h = Inr h1" "follows E area prog h1 s"
    and t: "traceFile a = (if optionTracingEnabled a then t else [])"
  shows "\<exists>a'. deliver D a h1 = Inr (a', h1\<lparr>hook_log := []\<rparr>) \<and> app_follows E area prog (a', h1\<lparr>hook_log := []\<rparr>) (s, t) \<and> same_options a a'"
proof -
  have srt: "hooks_sorted (hookManager h)" using hk by (simp add: hooked_def)
  obtain b where b: "hookManager h1 = hookManager h" "currentInstr h1 = Some (b, 0)"
      "hook_log h1 = map (\<lambda>cb. BBFetchCall cb (bbs (bbCache h1) ! b)) (registered BB_FETCHED (hookManager h))"
    using fetchBB_calls [OF f(1) srt] hk by (auto simp: hooked_def)
  have fol: "follows E area prog (h1\<lparr>hook_log := []\<rparr>) s" by (rule follows_looked [OF f(2) only_looked_refl])
  let ?a = "if verbose a then OnBBFetch (bbs (bbCache h1) ! b) a else a"
  have opt: "same_options a ?a" "traceFile ?a = traceFile a" by (simp_all add: same_options_def OnBBFetch_def Let_def)
  then have v: "verbose ?a = verbose a" by (simp add: verbose_def same_options_def)
  have "deliver D a h1 = Inr (?a, h1\<lparr>hook_log := []\<rparr>)" using b(3) hk by (simp add: deliver_def hooked_def)
  moreover have "hooked ?a (h1\<lparr>hook_log := []\<rparr>)" using hk b(1) unfolding hooked_def v by simp
  moreover have "verbose a \<Longrightarrow> CurrentPC ?a = slot_address h1" using b(2) by (simp add: slot_address_def getPC_def)
  moreover have "traceFile ?a = (if optionTracingEnabled ?a then t else [])" using t opt by (simp add: same_options_def)
  ultimately show ?thesis using fol opt(1) v unfolding app_follows_def by auto
qed

lemma agrees_store: "agrees area prog i s \<Longrightarrow> isStore i \<Longrightarrow> area (isa_address i s) (access_bytes (operation i))"
  by (auto simp: agrees_def isStore_def alu_exact_def load_ops_def branch_ops_def)

lemma retire_calls:
  assumes "hooks_sorted (hookManager g)" and "hook_log g = []"
  shows "hook_log (retire i (jump t g)) = map (\<lambda>cb. InstrExecutedCall cb i) (registered INSTR_EXECUTED (hookManager g))"
  using assms equal_range_eq [of "hooks (hookManager g)" INSTR_EXECUTED]
  by (simp add: retire_def jump_def registered_def hooks_sorted_def comp_def)

text \<open>The calls an executed instruction leaves behind, made on a hart that is already in the next state.\<close>

lemma deliver_instr:
  assumes m: "mirrors E area prog h1 (isa_exec i s)" and wf: "wf_instr i"
    and log: "hook_log h1 = map (\<lambda>cb. InstrExecutedCall cb i) (if verbose a then [OnInstrExecuted_ptr] else [])"
    and pc: "verbose a \<Longrightarrow> CurrentPC a = isa_pc s"
    and same: "mem_get 4 (isa_pc s) (isa_mem (isa_exec i s)) = mem_get 4 (isa_pc s) (isa_mem s)"
    and ar: "area (isa_pc s) 4" and st: "isStore i \<Longrightarrow> area (isa_address i s) (access_bytes (operation i))"
  shows "\<exists>a' h'. deliver D a h1 = Inr (a', h') \<and> only_looked (env_os E) (h1\<lparr>hook_log := []\<rparr>) h' \<and> same_options a a' \<and>
    (verbose a \<longrightarrow> CurrentPC a' = CurrentPC a + 4) \<and>
    traceFile a' = traceFile a @ (if optionTracingEnabled a then trace_line D i s (isa_exec i s) else [])"
proof (cases "verbose a")
  case True
  have "mirrors E area prog (h1\<lparr>hook_log := []\<rparr>) (isa_exec i s)" using m by simp
  from callback_text [OF this wf pc [OF True] same ar st]
  obtain a' h' where c: "OnInstrExecuted D i a (h1\<lparr>hook_log := []\<rparr>) = Inr (a', h')" "same_options a a'"
      "traceFile a' = traceFile a @ (if optionTracingEnabled a then trace_line D i s (isa_exec i s) else [])" by blast
  then have "deliver D a h1 = Inr (a', h')" using log True by (simp add: deliver_def)
  then show ?thesis using c OnInstrExecuted_effect [OF c(1)] by blast
next
  case False
  then have "deliver D a h1 = Inr (a, h1\<lparr>hook_log := []\<rparr>)" "\<not> optionTracingEnabled a"
    using log by (simp_all add: deliver_def verbose_def)
  then show ?thesis using only_looked_refl False by (simp add: same_options_def)
qed

lemma app_exec:
  assumes f: "app_follows E area prog (a, h) (s, t)" and i: "current h = Inr i" "operation i \<noteq> BB_END"
    and st: "isa_traced D area prog (s, t) q"
  shows "\<exists>p'. app_step D E (a, h) p' \<and> app_follows E area prog p' q \<and> same_options a (fst p') \<and>
    instrsExecuted (snd p') = instrsExecuted h + 1"
proof -
  have fol: "follows E area prog h s" and hk: "hooked a h" and tr: "traceFile a = (if optionTracingEnabled a then t else [])"
      and cpc: "verbose a \<Longrightarrow> CurrentPC a = slot_address h" using f by (auto simp: app_follows_def)
  obtain x where x: "encode x = Some (le_word (mem_get 4 (isa_pc s) (isa_mem s)))" "fetchable area prog (isa_pc s)"
      "agrees area prog (asm_instr x) s" "q = (isa_exec (asm_instr x) s, t @ trace_line D (asm_instr x) s (isa_exec (asm_instr x) s))"
    using st by (auto elim: isa_tracedE)
  note hd = follows_handler [OF fol i x(1,3)]
  obtain g where g: "does i E h (isa_target i s) g" "carries h g (isa_effect i s)" "\<forall>y\<in>prog. isa_mem (isa_effect i s) y = isa_mem s y"
      "follows E area prog (retire i (jump (isa_target i s) g)) (isa_exec i s)" using hd(2) by blast
  let ?h1 = "retire i (jump (isa_target i s) g)" and ?s' = "isa_exec i s"
  have slot: "slot_address h = isa_pc s" using fol i by (auto simp: follows_def at_slot_def mirrors_def)
  have frame: "hookManager ?h1 = hookManager h" "instrsExecuted ?h1 = instrsExecuted h + 1" "slot_address ?h1 = slot_address h + 4"
    using g(2) fol by (auto simp: carries_def retire_def jump_def slot_address_def follows_def at_slot_def algebra_simps)
  have "hook_log ?h1 = map (\<lambda>cb. InstrExecutedCall cb i) (if verbose a then [OnInstrExecuted_ptr] else [])"
    using retire_calls [of g] g(2) hk by (simp add: carries_def hooked_def)
  moreover have "mirrors E area prog ?h1 ?s'" using g(4) by (simp add: follows_def)
  moreover have "area (isa_pc s) 4" "\<forall>j<4. isa_pc s + of_nat j \<in> prog" using x(2) by (force simp: fetchable_def)+
  then have "area (isa_pc s) 4" "mem_get 4 (isa_pc s) (isa_mem ?s') = mem_get 4 (isa_pc s) (isa_mem s)"
    using g(3) by (auto simp: isa_exec_def intro!: nth_equalityI)
  moreover have "isStore i \<Longrightarrow> area (isa_address i s) (access_bytes (operation i))" using agrees_store x(3) hd(1) by blast
  ultimately obtain a' h' where d: "deliver D a ?h1 = Inr (a', h')" "only_looked (env_os E) (?h1\<lparr>hook_log := []\<rparr>) h'" "same_options a a'"
      "verbose a \<longrightarrow> CurrentPC a' = CurrentPC a + 4"
      "traceFile a' = traceFile a @ (if optionTracingEnabled a then trace_line D i s ?s' else [])"
    using deliver_instr [of E area prog ?h1 i s a D] current_wf [OF current_text(1) [OF fol i] i(1)] cpc slot by metis
  obtain pm where h': "h' = ?h1\<lparr>hook_log := [], h_mem := pm\<rparr>" using d(2) by (auto simp: only_looked_def)
  have v: "verbose a' = verbose a" using d(3) by (simp add: same_options_def verbose_def)
  have "hooked a' h'" using hk frame(1) unfolding hooked_def v by (simp add: h')
  moreover have "verbose a' \<longrightarrow> CurrentPC a' = slot_address h'" using v d(4) cpc frame(3) by (simp add: h')
  moreover have "traceFile a' = (if optionTracingEnabled a' then snd q else [])"
    using d(3,5) tr x(4) hd(1) by (simp add: same_options_def)
  ultimately have "app_follows E area prog (a', h') q"
    using follows_looked [OF g(4) d(2)] x(4) hd(1) by (simp add: app_follows_def)
  moreover have "app_step D E (a, h) (a', h')" using g(1) d(1) by (intro app_stepI) (simp_all add: does_def)
  ultimately show ?thesis using d(3) frame(2) by (intro exI [of _ "(a', h')"]) (simp add: h')
qed

lemma current_log [simp]: "current (h\<lparr>hook_log := l\<rparr>) = current h"
  by (simp add: current_def split: option.split)

lemma same_options_trans: "same_options a b \<Longrightarrow> same_options b c \<Longrightarrow> same_options a c"
  by (simp add: same_options_def)

lemma app_at_end:
  assumes f: "app_follows E area prog (a, h) (s, t)" and i: "current h = Inr i" "operation i = BB_END" and fe: "fetchable area prog (isa_pc s)"
  shows "\<exists>a1 h1 j. app_step D E (a, h) (a1, h1) \<and> app_follows E area prog (a1, h1) (s, t) \<and> same_options a a1 \<and>
    instrsExecuted h1 = instrsExecuted h \<and> current h1 = Inr j \<and> operation j \<noteq> BB_END"
proof -
  have fol: "follows E area prog h s" and hk: "hooked a h" and tr: "traceFile a = (if optionTracingEnabled a then t else [])"
    using f by (auto simp: app_follows_def)
  have "mirrors E area prog h s" using fol by (simp add: follows_def)
  from fetch_follows [OF this fe] obtain h1 j
    where h1: "fetchBB h = Inr h1" "follows E area prog h1 s" "current h1 = Inr j" "operation j \<noteq> BB_END" by blast
  obtain a1 where a1: "deliver D a h1 = Inr (a1, h1\<lparr>hook_log := []\<rparr>)" "app_follows E area prog (a1, h1\<lparr>hook_log := []\<rparr>) (s, t)" "same_options a a1"
    using app_fetch [OF hk h1(1,2) tr] by blast
  have "app_step D E (a, h) (a1, h1\<lparr>hook_log := []\<rparr>)"
    using dispatch_eq [OF i(1)] i(2) h1(1) a1(1) by (intro app_stepI) (simp_all add: exec_BB_END_def)
  moreover have "current (h1\<lparr>hook_log := []\<rparr>) = Inr j" "instrsExecuted (h1\<lparr>hook_log := []\<rparr>) = instrsExecuted h"
    using h1(3) fetchBB_counter [OF h1(1)] by simp_all
  ultimately show ?thesis using a1(2,3) h1(4) by blast
qed

lemma app_simulates:
  assumes f: "app_follows E area prog p q" and st: "isa_traced D area prog q q'"
  shows "\<exists>p' k. k \<in> {1, 2} \<and> (app_step D E ^^ k) p p' \<and> (app_follows E area prog p' q' \<and> same_options (fst p) (fst p')) \<and>
    instrsExecuted (snd p') = instrsExecuted (snd p) + 1"
proof -
  obtain a h s t where pq: "p = (a, h)" "q = (s, t)" by (metis surj_pair)
  have fol: "follows E area prog h s" using f by (simp add: app_follows_def pq)
  obtain i where i: "current h = Inr i" using current_hart_ok fol unfolding follows_def by blast
  have fe: "fetchable area prog (isa_pc s)" using st by (auto simp: pq elim: isa_tracedE)
  show ?thesis
  proof (cases "operation i = BB_END")
    case False
    obtain p' where p': "app_step D E p p'" "app_follows E area prog p' q'" "same_options a (fst p')" "instrsExecuted (snd p') = instrsExecuted h + 1"
      using app_exec [OF f [unfolded pq] i False st [unfolded pq]] pq by blast
    then have "(app_step D E ^^ 1) p p'" by auto
    then show ?thesis using p'(2-4) unfolding pq fst_conv snd_conv by blast
  next
    case True
    obtain a1 h1 j where h1: "app_step D E (a, h) (a1, h1)" "app_follows E area prog (a1, h1) (s, t)" "same_options a a1"
        "instrsExecuted h1 = instrsExecuted h" "current h1 = Inr j" "operation j \<noteq> BB_END"
      using app_at_end [OF f [unfolded pq] i True fe] by blast
    obtain p' where p': "app_step D E (a1, h1) p'" "app_follows E area prog p' q'" "same_options a1 (fst p')"
        "instrsExecuted (snd p') = instrsExecuted h1 + 1"
      using app_exec [OF h1(2,5,6) st [unfolded pq]] by blast
    have "(app_step D E ^^ 2) p p'" using h1(1) p'(1) unfolding pq by (rule two_steps)
    moreover have "instrsExecuted (snd p') = instrsExecuted (snd p) + 1" using p'(4) h1(4) by (simp add: pq)
    ultimately show ?thesis using p'(2) same_options_trans [OF h1(3) p'(3)] unfolding pq fst_conv by blast
  qed
qed

interpretation traced: forward_simulation "isa_traced D area prog" "app_step D E"
    "\<lambda>p q. app_follows E area prog p q \<and> same_options a0 (fst p)" "\<lambda>p. instrsExecuted (snd p)" for D area prog E a0
proof
  show "app_follows E area prog h s \<and> same_options a0 (fst h) \<Longrightarrow> isa_traced D area prog s s' \<Longrightarrow>
      \<exists>h' k. k \<in> {1, 2} \<and> (app_step D E ^^ k) h h' \<and> (app_follows E area prog h' s' \<and> same_options a0 (fst h')) \<and>
        instrsExecuted (snd h') = instrsExecuted (snd h) + 1" for h s s'
    using app_simulates [of E area prog h s D s'] same_options_trans by blast
  show "app_step D E h x \<Longrightarrow> app_step D E h y \<Longrightarrow> x = y" for h x y
    by (auto elim!: app_stepE)
qed

section \<open>The end of a run\<close>

lemma drive_app_step:
  assumes "app_step D E p p'"
  shows "drive_app D E (fst p, dispatch E (snd p)) = drive_app D E (fst p', dispatch E (snd p'))"
proof -
  obtain a h h1 a' h' where st: "p = (a, h)" "p' = (a', h')" "dispatch E h = Inr (Dispatch h1)" "deliver D a h1 = Inr (a', h')"
    using assms by (metis app_stepE surj_pair)
  have "drive_app D E (a, dispatch E h) = drive_app D E (a', dispatch E h')"
    by (subst drive_app.simps) (simp add: st(3,4) after_handler_def)
  then show ?thesis by (simp add: st(1,2))
qed

lemma drive_app_steps:
  "(app_step D E ^^ k) p p' \<Longrightarrow> drive_app D E (fst p, dispatch E (snd p)) = drive_app D E (fst p', dispatch E (snd p'))"
proof (induction k arbitrary: p')
  case (Suc k)
  then obtain p1 where "(app_step D E ^^ k) p p1" "app_step D E p1 p'" by auto
  then show ?case using Suc.IH drive_app_step by metis
qed simp

text \<open>At the \<^verbatim>\<open>EBREAK\<close> the run returns, in the state the application is in.\<close>

lemma app_halts:
  assumes f: "app_follows E area prog (a, h) (s, t)" and halt: "isa_halted area prog s"
  shows "\<exists>a' h'. drive_app D E (a, dispatch E h) = Some (Inr (a', h')) \<and> app_follows E area prog (a', h') (s, t) \<and> same_options a a'"
proof -
  have stop: "drive_app D E (b, dispatch E g) = Some (Inr (b, g))"
    if "app_follows E area prog (b, g) (s, t)" "current g = Inr i" "operation i \<noteq> BB_END" for b g i
  proof -
    have "dispatch E g = Inr (Return g)" using halted_dispatch [OF _ halt that(2,3)] that(1) by (simp add: app_follows_def)
    moreover have "deliver D b g = Inr (b, g)" using that(1) by (simp add: deliver_def app_follows_def hooked_def)
    ultimately show ?thesis by (subst drive_app.simps) (simp add: after_handler_def)
  qed
  obtain i where i: "current h = Inr i" using f current_hart_ok [of E h] by (auto simp: app_follows_def follows_def)
  show ?thesis
  proof (cases "operation i = BB_END")
    case False
    then show ?thesis using stop [OF f i] f by (auto simp: same_options_def)
  next
    case True
    have "fetchable area prog (isa_pc s)" using halt by (simp add: isa_halted_def)
    from app_at_end [OF f i True this, of D] obtain a1 h1 j
      where h1: "app_step D E (a, h) (a1, h1)" "app_follows E area prog (a1, h1) (s, t)" "same_options a a1"
        "current h1 = Inr j" "operation j \<noteq> BB_END" by blast
    then show ?thesis using drive_app_step [OF h1(1)] stop [OF h1(2,4,5)] by auto
  qed
qed

section \<open>From the command line to the machine\<close>

lemma configure_executable: "executablePath (fst (configure c builder)) = cli_executable c"
  by (simp add: configure_def Let_def setExecutablePath_def setRamPageSize_def setRamChunkSize_def option_ram_def addRamRange_def
      split: sum.split)

text \<open>The application when the simulation starts.\<close>

definition starts :: "cli \<Rightarrow> App \<Rightarrow> bool" where
  "starts c a \<longleftrightarrow> optionTracingEnabled a = (cli_trace_dump c \<noteq> []) \<and> traceFile a = []"

lemma InitVerboseLogging_options:
  "InitVerboseLogging a m = Inr (a', m') \<Longrightarrow> same_options a a' \<and> traceFile a' = traceFile a"
  by (auto simp: InitVerboseLogging_def InitCapstone_def say_def same_options_def Let_def bindE_eq_Inr_iff split: if_splits)

lemma main_machine_ok:
  assumes "bootable E L (fst (configure c builder)) segs" and "cli_executable c \<noteq> []"
  shows "\<exists>a pm hm. main_machine E L h slots regs word moved_from builder c = Inr (a, \<lparr>machine_hart = mkHart E slots regs word pm hm\<rparr>) \<and>
    pm_ok (env_os E) pm \<and> whole_pages pm \<and> fst ` set (devices pm) = set (ramRanges (fst (configure c builder))) \<and>
    pm_peek pm = place segs (\<lambda>_. 0) \<and> hooked a (mkHart E slots regs word pm hm) \<and> starts c a"
proof -
  let ?config = "fst (configure c builder)" and ?go = "say ''[BESM-666] INFO: Starting simulation''"
  let ?a0 = "say ''[BESM-666] INFO: Creating RISCV Machine->'' (mkApp c)"
  let ?a = "if cli_trace_dump c \<noteq> [] then ?a0\<lparr>optionTracingEnabled := True\<rparr> else ?a0"
  obtain pm where pm: "mkMachine E L h slots regs word ?config = Inr \<lparr>machine_hart = mkHart E slots regs word pm mkHookManager\<rparr>"
      "pm_ok (env_os E) pm" "whole_pages pm" "fst ` set (devices pm) = set (ramRanges ?config)" "pm_peek pm = place segs (\<lambda>_. 0)"
    using boot_ok [OF assms(1)] by blast
  let ?m = "\<lparr>machine_hart = mkHart E slots regs word pm mkHookManager\<rparr>"
  have cfg: "\<exists>b. config_build moved_from ?config = Inr (?config, b)"
    using assms(2) by (simp add: config_build_def validateState_def configure_executable)
  have st: "starts c ?a" by (simp add: starts_def say_def mkApp_def)
  have main: "main_machine E L h slots regs word moved_from builder c =
      bindE (if verbose ?a then InitVerboseLogging ?a ?m else Inr (?a, ?m)) (\<lambda>(a, m). Inr (?go a, m))"
    using cfg pm(1) by (auto simp: main_machine_def Let_def verbose_def)
  have log: "hook_log (mkHart E slots regs word pm hm) = []" "hookManager (mkHart E slots regs word pm hm) = hm" for hm
    by (simp_all add: mkHart_def)
  have go: "hooked (?go a) x = hooked a x" "starts c (?go a) = starts c a" for a x
    by (simp_all add: hooked_def verbose_def say_def starts_def)
  show ?thesis
  proof (cases "verbose ?a")
    case True
    obtain a' m' where m': "InitVerboseLogging ?a ?m = Inr (a', m')" "listening OnBBFetch_ptr OnInstrExecuted_ptr (getHookManager m')"
        "getHart m' = (getHart ?m)\<lparr>hookManager := getHookManager m'\<rparr>"
      using InitVerboseLogging_listening [of ?m ?a] by (auto simp: getHookManager_def log)
    have hart: "m' = \<lparr>machine_hart = mkHart E slots regs word pm (getHookManager m')\<rparr>"
      using m'(3) by (cases m') (simp add: getHart_def mkHart_def)
    have "same_options ?a a'" "traceFile a' = traceFile ?a" using InitVerboseLogging_options [OF m'(1)] by simp_all
    then have "starts c a'" "verbose a'" using st True by (simp_all add: starts_def same_options_def verbose_def)
    moreover have "hooked a' (mkHart E slots regs word pm (getHookManager m'))"
      using m'(2) calculation(2) by (simp add: hooked_def listening_def log)
    moreover have "main_machine E L h slots regs word moved_from builder c = Inr (?go a', m')" using m'(1) True by (simp add: main)
    ultimately show ?thesis using pm(2-5) hart go by metis
  next
    case False
    then have "hooked ?a (mkHart E slots regs word pm mkHookManager)"
      using hooks_sorted_mk by (simp add: hooked_def log registered_def mkHookManager_def)
    moreover have "main_machine E L h slots regs word moved_from builder c = Inr (?go ?a, ?m)" using False by (simp add: main)
    ultimately show ?thesis using pm(2-5) st go by metis
  qed
qed

lemma run_app_follows:
  assumes m: "mirrors E area prog (machine_hart m) s0" and hk: "hooked a (machine_hart m)" and tr: "traceFile a = []"
    and fe: "fetchable area prog (isa_pc s0)" and run: "(isa_traced D area prog ^^ n) (s0, []) (s, t)" and halt: "isa_halted area prog s"
  shows "\<exists>a' h'. run_app D E a m = Some (Inr (a', h')) \<and> app_follows E area prog (a', h') (s, t) \<and> same_options a a'"
proof -
  obtain h1 where h1: "fetchBB (machine_hart m) = Inr h1" "follows E area prog h1 s0" using fetch_follows [OF m fe] by blast
  obtain a1 where a1: "deliver D a h1 = Inr (a1, h1\<lparr>hook_log := []\<rparr>)"
      "app_follows E area prog (a1, h1\<lparr>hook_log := []\<rparr>) (s0, [])" "same_options a a1"
    using app_fetch [OF hk h1, of "[]"] tr by auto
  have "run_app D E a m = drive_app D E (a, Inr (Dispatch h1))" using h1(1) by (simp add: run_app_def exec_BB_END_def)
  also have "\<dots> = drive_app D E (a1, dispatch E (h1\<lparr>hook_log := []\<rparr>))"
    by (subst drive_app.simps) (simp add: after_handler_def a1(1))
  finally have start: "run_app D E a m = drive_app D E (a1, dispatch E (h1\<lparr>hook_log := []\<rparr>))" .
  from traced.run_simulated [OF run, of E "(a1, h1\<lparr>hook_log := []\<rparr>)" a] a1(2,3)
  obtain a2 h2 k where k: "(app_step D E ^^ k) (a1, h1\<lparr>hook_log := []\<rparr>) (a2, h2)" "app_follows E area prog (a2, h2) (s, t)" "same_options a a2"
    by auto
  obtain a' h' where "drive_app D E (a2, dispatch E h2) = Some (Inr (a', h'))" "app_follows E area prog (a', h') (s, t)" "same_options a2 a'"
    using app_halts [OF k(2) halt] by blast
  then show ?thesis using start drive_app_steps [OF k(1)] same_options_trans [OF k(3)] by auto
qed

section \<open>Properties\<close>

text \<open>
  C1: the command line simulator.  Let the architecture's machine, started on the memory image of the
  executable, come to an \<^verbatim>\<open>EBREAK\<close> after \<open>n\<close> instructions within the hypotheses of the
  simulation.  Then the simulator ends, whatever its logging options and whatever the disassembler
  answers: the exit status is zero unless validation is on and the program left something other than one
  in register \<^verbatim>\<open>a0\<close>, and the trace file, if one was asked for and could be opened, holds for every executed instruction its
  address, its mnemonic and the values that the architecture gives the written register, the
  program counter after a jump and the written memory.
\<close>
theorem main_correct:
  assumes "config = fst (configure c builder)" and "cli_executable c \<noteq> []" and "bootable E L config segs"
    and "\<forall>i. length (slots i) = kCapacity" and "length regs = GPRF_Size"
    and "fetchable (range_area (ramRanges config)) prog 0"
    and "(isa_traced D (range_area (ramRanges config)) prog ^^ n) (isa_boot regs segs, []) (s, t)"
    and "isa_halted (range_area (ramRanges config)) prog s"
  shows "\<exists>a. besm_main D T E L h slots regs word moved_from builder c =
      Some (Inr (if cli_a0_validation c \<and> isa_reg 10 s \<noteq> 1 then 1 else 0, a)) \<and>
    traceFile a = (if cli_trace_dump c = [] then [] else t)"
proof -
  let ?area = "range_area (ramRanges config)"
  obtain a pm hm where m: "main_machine E L h slots regs word moved_from builder c = Inr (a, \<lparr>machine_hart = mkHart E slots regs word pm hm\<rparr>)"
      "pm_ok (env_os E) pm" "whole_pages pm" "fst ` set (devices pm) = set (ramRanges config)" "pm_peek pm = place segs (\<lambda>_. 0)"
      "hooked a (mkHart E slots regs word pm hm)" "starts c a"
    using main_machine_ok [OF assms(3) [unfolded assms(1)] assms(2)] assms(1) by metis
  let ?m = "\<lparr>machine_hart = mkHart E slots regs word pm hm\<rparr>"
  have mm: "mmap_ok (env_os E)" using assms(3) by (simp add: bootable_def)
  have mir: "mirrors E ?area prog (machine_hart ?m) (isa_boot regs segs)"
    using mkHart_mirrors [OF mm m(2-5) assms(4,5)] by simp
  have pc0: "isa_pc (isa_boot regs segs) = 0" by (simp add: isa_boot_def)
  have "hooked a (machine_hart ?m)" "traceFile a = []" using m(6,7) by (simp_all add: starts_def)
  from run_app_follows [OF mir this _ assms(7,8)] assms(6) obtain a' h'
    where r: "run_app D E a ?m = Some (Inr (a', h'))" "app_follows E ?area prog (a', h') (s, t)" "same_options a a'"
    unfolding pc0 by blast
  have "reg_val (h_gprf h') 10 = isa_reg 10 s" using r(2) by (simp add: app_follows_def follows_def mirrors_def)
  then have "exit_status c h' = Inr (if cli_a0_validation c \<and> isa_reg 10 s \<noteq> 1 then 1 else 0)"
    using read_reg_eq [of 10 h'] by (simp add: exit_status_def)
  moreover have "traceFile a' = (if cli_trace_dump c = [] then [] else t)"
    using r(2,3) m(7) by (simp add: app_follows_def same_options_def starts_def)
  ultimately show ?thesis using m(1) r(1) dump_nonzero [of "h_gprf h'"] by (simp add: besm_main_def report_def say_def)
qed

definition demo_cli :: cli where
  "demo_cli = \<lparr>cli_executable = ''prog'', cli_ram = ''0,1048576'', cli_ram_page_size = 4096, cli_ram_chunk_size = 65536,
     cli_verbose = False, cli_very_verbose = False, cli_trace_dump = ''trace'', cli_a0_validation = True\<rparr>"

definition demo_trace :: string where
  "demo_trace = ''0: SD'' @ newline @ tab @ ''Reg [01] <= 5'' @ newline @ ''4: SD'' @ newline @ tab @ ''Mem [100] <= 5'' @ newline"

lemma demo_configure: "fst (configure demo_cli (mkConfigBuilder 0 0)) = demo_config"
proof -
  have "ParseRange ''0,1048576'' = Inr (mkRange 0 0x100000)"
    by (simp add: ParseRange_def stoull_def split_sign_def isspace_def isdigit_def digits_value_def Let_def)
  then show ?thesis by (simp add: configure_def demo_cli_def option_ram_def demo_config_def Let_def)
qed

text \<open>A disassembler that calls every instruction \<^verbatim>\<open>sd\<close>.\<close>

lemma demo_traced:
  fixes regs :: "RV64UDWord list"
  defines "D \<equiv> \<lambda>_ pc. Some (pc, ''sd'', [])"
  shows "(isa_traced D (range_area (ramRanges demo_config)) demo_text ^^ 2) (isa_boot regs [code_seg demo_code], []) (demo_s2 regs, demo_trace)"
proof (rule two_steps)
  let ?t = "''0: SD'' @ newline @ tab @ ''Reg [01] <= 5'' @ newline"
  let ?i1 = "asm_instr (Asm_I ADDI 1 0 5)" and ?i2 = "asm_instr (Asm_S SD 0 1 0x100)" and ?s0 = "isa_boot regs [code_seg demo_code]"
  have sd: "trace_mnemonic ''sd'' = ''SD''" by code_simp
  have "trace_line D ?i1 ?s0 (demo_s1 regs) = ?t"
    unfolding demo_boot
    by (simp add: trace_line_def D_def demo_s1_def isa_reg_def isJump_def isStore_def sd hex_def two_digits_def show_base.simps digit_char_def)
  then show "isa_traced D (range_area (ramRanges demo_config)) demo_text (?s0, []) (demo_s1 regs, ?t)"
    using isa_tracedI [OF demo_step1(1-3) [of regs], of D "[]"] unfolding demo_step1(4) by simp
  have "trace_line D ?i2 (demo_s1 regs) (demo_s2 regs) = ''4: SD'' @ newline @ tab @ ''Mem [100] <= 5'' @ newline"
    by (simp add: trace_line_def D_def demo_s1_def isa_reg_def isa_address_def demo_imm isJump_def isStore_def sd hex_def show_base.simps digit_char_def)
  then show "isa_traced D (range_area (ramRanges demo_config)) demo_text (demo_s1 regs, ?t) (demo_s2 regs, demo_trace)"
    using isa_tracedI [OF demo_step2(1-3) [of regs], of D ?t] unfolding demo_step2(4) by (simp add: demo_trace_def)
qed

theorem main_correct_witness:
  "\<forall>T. \<exists>a. besm_main (\<lambda>_ pc. Some (pc, ''sd'', [])) T demo_env (code_elfio demo_code) [] (\<lambda>_. replicate 8 blank_instr) (replicate 33 0) (\<lambda>_. 0) []
      (mkConfigBuilder 0 0) demo_cli = Some (Inr (1, a)) \<and> traceFile a = demo_trace"
proof -
  have boot: "bootable demo_env (code_elfio demo_code) demo_config [code_seg demo_code]"
    by (rule code_bootable) (simp add: demo_code_def)
  have fe: "fetchable (range_area (ramRanges demo_config)) demo_text 0" by (rule demo_fetchable) simp_all
  have "isa_reg 10 (demo_s2 (replicate 33 0)) = 0" by (simp add: demo_s2_def isa_reg_def)
  then show ?thesis
    using main_correct [OF demo_configure [symmetric] _ boot _ _ fe demo_traced demo_s2_facts(1),
        where slots = "\<lambda>_. replicate 8 blank_instr" and h = "[]" and word = "\<lambda>_. 0" and moved_from = "[]" and regs = "replicate 33 0"]
    by (intro allI) (simp add: demo_cli_def)
qed

end
