(* ===== verification/AssocCache.thy ===== *)
theory AssocCache
  imports BasicBlock
begin

text \<open>
  The set-associative cache template of \<^verbatim>\<open>include/besm-666/util/assotiative-cache.hpp\<close>.  The template
  arguments \<^verbatim>\<open>TagFunc\<close> and \<^verbatim>\<open>HashFunc\<close> are arguments of the operations; a reference to an entry is its
  index.  Reading past an array is the error \<open>UndefinedBehaviour\<close>.  For a cache whose hash stays
  below the number of sets no operation reads past an array, and the cache satisfies the contract
  \<open>code_cache\<close> that the block cache of the hart satisfies too.
\<close>

section \<open>Entries\<close>

record ('p, 't) CacheEntry =
  ce_payload :: 'p
  ce_valid :: bool
  ce_tag :: 't

definition mkCacheEntry :: "'p \<Rightarrow> 't \<Rightarrow> ('p, 't) CacheEntry" where
  "mkCacheEntry default_payload zero = \<lparr>ce_payload = default_payload, ce_valid = False, ce_tag = zero\<rparr>"

definition setPayload :: "'p \<Rightarrow> 't \<Rightarrow> ('p, 't) CacheEntry \<Rightarrow> ('p, 't) CacheEntry" where
  "setPayload payload tag e = e\<lparr>ce_payload := payload, ce_tag := tag, ce_valid := True\<rparr>"

definition setTag :: "'t \<Rightarrow> ('p, 't) CacheEntry \<Rightarrow> ('p, 't) CacheEntry" where
  "setTag tag e = e\<lparr>ce_tag := tag, ce_valid := True\<rparr>"

definition getPayload :: "('p, 't) CacheEntry \<Rightarrow> 'p" where
  "getPayload e = ce_payload e"

definition getTag :: "('p, 't) CacheEntry \<Rightarrow> 't" where
  "getTag e = ce_tag e"

definition ce_invalidate :: "('p, 't) CacheEntry \<Rightarrow> ('p, 't) CacheEntry" where
  "ce_invalidate e = e\<lparr>ce_valid := False\<rparr>"

definition entry_valid :: "('p, 't) CacheEntry \<Rightarrow> bool" where
  "entry_valid e = ce_valid e"

section \<open>The cache\<close>

record ('p, 't) Cache =
  ways :: nat
  sets :: nat
  ac_size :: nat
  counters :: "nat list"
  cachedData :: "('p, 't) CacheEntry list"

definition mkCache :: "'p \<Rightarrow> 't \<Rightarrow> nat \<Rightarrow> nat \<Rightarrow> ('p, 't) Cache" where
  "mkCache default_payload zero w s =
     \<lparr>ways = w, sets = s, ac_size = w * s, counters = replicate s 0,
      cachedData = replicate (w * s) (mkCacheEntry default_payload zero)\<rparr>"

text \<open>Moving a cache takes its arrays; what is left of the source has none.\<close>

definition cache_move :: "('p, 't) Cache \<Rightarrow> ('p, 't) Cache \<times> ('p, 't) Cache" where
  "cache_move other =
     (\<lparr>ways = ways other, sets = sets other, ac_size = ac_size other, counters = counters other, cachedData = cachedData other\<rparr>,
      other\<lparr>counters := [], cachedData := []\<rparr>)"

text \<open>
  Move assignment exchanges all members and then reaches the end of a function that must return a
  reference: undefined behaviour whatever was exchanged.
\<close>

definition cache_move_assign :: "('p, 't) Cache \<Rightarrow> ('p, 't) Cache \<Rightarrow> (('p, 't) Cache \<times> ('p, 't) Cache) res" where
  "cache_move_assign this other = Inl UndefinedBehaviour"

definition entry_at :: "nat \<Rightarrow> ('p, 't) Cache \<Rightarrow> ('p, 't) CacheEntry res" where
  "entry_at i c = (if i < length (cachedData c) then Inr (cachedData c ! i) else Inl UndefinedBehaviour)"

definition getCounter :: "nat \<Rightarrow> ('p, 't) Cache \<Rightarrow> nat res" where
  "getCounter setIdx c = (if setIdx < length (counters c) then Inr (counters c ! setIdx) else Inl UndefinedBehaviour)"

definition getSize :: "('p, 't) Cache \<Rightarrow> nat" where "getSize c = ac_size c"
definition getWays :: "('p, 't) Cache \<Rightarrow> nat" where "getWays c = ways c"
definition getSets :: "('p, 't) Cache \<Rightarrow> nat" where "getSets c = sets c"

definition cache_add :: "('p \<Rightarrow> 't) \<Rightarrow> ('t \<Rightarrow> nat) \<Rightarrow> 'p \<Rightarrow> ('p, 't) Cache \<Rightarrow> ('p, 't) Cache res" where
  "cache_add TagFunc HashFunc payload c =
     (let tag = TagFunc payload; setIdx = HashFunc tag
      in bindE (getCounter setIdx c) (\<lambda>k.
         bindE (entry_at (setIdx * ways c + k) c) (\<lambda>e.
         if ways c = 0 then Inl UndefinedBehaviour
         else Inr (c\<lparr>cachedData := (cachedData c)[setIdx * ways c + k := setPayload payload tag e],
                     counters := (counters c)[setIdx := (k + 1) mod ways c]\<rparr>))))"

primrec find_loop :: "'t \<Rightarrow> nat \<Rightarrow> nat \<Rightarrow> ('p, 't) Cache \<Rightarrow> nat option res" where
  "find_loop tag 0 i c = Inr None"
| "find_loop tag (Suc n) i c =
     bindE (entry_at i c) (\<lambda>e.
     if entry_valid e \<and> getTag e = tag then Inr (Some i) else find_loop tag n (i + 1) c)"

definition cache_find :: "('t \<Rightarrow> nat) \<Rightarrow> 't \<Rightarrow> ('p, 't) Cache \<Rightarrow> nat res" where
  "cache_find HashFunc tag c =
     (let setIdx = HashFunc tag
      in bindE (find_loop tag (ways c) (setIdx * ways c) c) (\<lambda>found.
         case found of
           Some i \<Rightarrow> Inr i
         | None \<Rightarrow>
             bindE (getCounter setIdx c) (\<lambda>k.
             bindE (entry_at (setIdx * ways c + k) c) (\<lambda>_. Inr (setIdx * ways c + k)))))"

primrec invalidate_loop :: "'t \<Rightarrow> nat \<Rightarrow> nat \<Rightarrow> ('p, 't) Cache \<Rightarrow> ('p, 't) Cache res" where
  "invalidate_loop tag 0 i c = Inr c"
| "invalidate_loop tag (Suc n) i c =
     bindE (entry_at i c) (\<lambda>e.
     invalidate_loop tag n (i + 1)
       (if entry_valid e \<and> getTag e = tag then c\<lparr>cachedData := (cachedData c)[i := ce_invalidate e]\<rparr> else c))"

definition invalidate_tag :: "('t \<Rightarrow> nat) \<Rightarrow> 't \<Rightarrow> ('p, 't) Cache \<Rightarrow> ('p, 't) Cache res" where
  "invalidate_tag HashFunc tag c =
     (let setIdx = HashFunc tag in invalidate_loop tag (ways c) (setIdx * ways c) c)"

primrec invalidate_from :: "nat \<Rightarrow> nat \<Rightarrow> ('p, 't) Cache \<Rightarrow> ('p, 't) Cache res" where
  "invalidate_from 0 i c = Inr c"
| "invalidate_from (Suc n) i c =
     bindE (entry_at i c) (\<lambda>e.
     invalidate_from n (i + 1) (c\<lparr>cachedData := (cachedData c)[i := ce_invalidate e]\<rparr>))"

definition cache_invalidate :: "('p, 't) Cache \<Rightarrow> ('p, 't) Cache res" where
  "cache_invalidate c = invalidate_from (getSize c) 0 c"

definition incCounter :: "('t \<Rightarrow> nat) \<Rightarrow> 't \<Rightarrow> ('p, 't) Cache \<Rightarrow> ('p, 't) Cache res" where
  "incCounter HashFunc tag c =
     (let setIdx = HashFunc tag
      in bindE (getCounter setIdx c) (\<lambda>k. Inr (c\<lparr>counters := (counters c)[setIdx := (k + 1) mod 2 ^ 64]\<rparr>)))"

text \<open>The dump, for payloads printed by \<open>show_payload\<close>.\<close>

primrec dump_ways :: "('p \<Rightarrow> string) \<Rightarrow> nat \<Rightarrow> nat \<Rightarrow> ('p, 't) Cache \<Rightarrow> string res" where
  "dump_ways show_payload 0 i c = Inr []"
| "dump_ways show_payload (Suc n) i c =
     bindE (entry_at i c) (\<lambda>e.
     bindE (dump_ways show_payload n (i + 1) c) (\<lambda>rest.
     Inr ((if entry_valid e then show_payload (getPayload e) @ '' '' else ''inv '') @ rest)))"

primrec dump_sets :: "('p \<Rightarrow> string) \<Rightarrow> nat \<Rightarrow> nat \<Rightarrow> ('p, 't) Cache \<Rightarrow> string res" where
  "dump_sets show_payload 0 i c = Inr []"
| "dump_sets show_payload (Suc n) i c =
     bindE (dump_ways show_payload (getWays c) (i * getWays c) c) (\<lambda>line.
     bindE (dump_sets show_payload n (i + 1) c) (\<lambda>rest.
     Inr (line @ [CHR 0x0A] @ rest)))"

definition cache_dump :: "('p \<Rightarrow> string) \<Rightarrow> (nat \<Rightarrow> string) \<Rightarrow> ('p, 't) Cache \<Rightarrow> string res" where
  "cache_dump show_payload show_size c =
     bindE (dump_sets show_payload (getSets c) 0 c) (\<lambda>body.
     Inr (''[Cache] State dump'' @ [CHR 0x0A] @ body @ ''Size: '' @ show_size (getSize c) @ [CHR 0x0A]))"

section \<open>Well-formed caches\<close>

definition ac_ok :: "('t \<Rightarrow> nat) \<Rightarrow> ('p, 't) Cache \<Rightarrow> bool" where
  "ac_ok H c \<longleftrightarrow>
     0 < ways c \<and> ac_size c = ways c * sets c \<and>
     length (cachedData c) = ways c * sets c \<and> length (counters c) = sets c \<and> (\<forall>k\<in>set (counters c). k < ways c) \<and>
     (\<forall>s < sets c. \<forall>w < ways c. ce_valid (cachedData c ! (s * ways c + w)) \<longrightarrow> H (ce_tag (cachedData c ! (s * ways c + w))) = s)"

definition ac_holds :: "'t \<Rightarrow> ('p, 't) Cache \<Rightarrow> nat \<Rightarrow> bool" where
  "ac_holds t c i \<longleftrightarrow> ce_valid (cachedData c ! i) \<and> ce_tag (cachedData c ! i) = t"

lemma ac_slot: "s < n \<Longrightarrow> w < m \<Longrightarrow> s * m + w < m * (n :: nat)"
proof -
  assume "s < n" "w < m"
  then have "s * m + w < Suc s * m" by simp
  also have "\<dots> \<le> n * m" using \<open>s < n\<close> by (intro mult_le_mono1) simp
  finally show ?thesis by (simp add: mult.commute)
qed

lemma ac_counter: "ac_ok H c \<Longrightarrow> s < sets c \<Longrightarrow> getCounter s c = Inr (counters c ! s) \<and> counters c ! s < ways c"
  by (auto simp: ac_ok_def getCounter_def)

lemma ac_entry: "ac_ok H c \<Longrightarrow> s < sets c \<Longrightarrow> w < ways c \<Longrightarrow> entry_at (s * ways c + w) c = Inr (cachedData c ! (s * ways c + w))"
  using ac_slot [of s "sets c" w "ways c"] by (simp add: ac_ok_def entry_at_def)

lemma find_loop_eq:
  assumes "i + n \<le> length (cachedData c)"
  shows "find_loop t n i c = Inr (find (ac_holds t c) [i ..< i + n])"
  using assms
proof (induction n arbitrary: i)
  case (Suc n)
  have "[i ..< i + Suc n] = i # [Suc i ..< Suc i + n]" by (subst upt_rec) simp
  then show ?case using Suc by (simp add: entry_at_def ac_holds_def entry_valid_def getTag_def)
qed simp

text \<open>\<open>ac_content\<close> is what a user gets who takes the payload of a valid entry found for a tag.\<close>

definition ac_content :: "('t \<Rightarrow> nat) \<Rightarrow> 't \<Rightarrow> ('p, 't) Cache \<Rightarrow> 'p option" where
  "ac_content H t c =
     (case cache_find H t c of
        Inl _ \<Rightarrow> None
      | Inr i \<Rightarrow> if entry_valid (cachedData c ! i) \<and> getTag (cachedData c ! i) = t then Some (getPayload (cachedData c ! i)) else None)"

lemma cache_find_eq:
  assumes "ac_ok H c" and "H t < sets c"
  shows "cache_find H t c =
    Inr (case find (ac_holds t c) [H t * ways c ..< H t * ways c + ways c] of Some i \<Rightarrow> i | None \<Rightarrow> H t * ways c + counters c ! H t)"
proof -
  have "H t * ways c + ways c \<le> length (cachedData c)"
    using ac_slot [OF assms(2), of "ways c - 1" "ways c"] assms(1) by (simp add: ac_ok_def)
  note f = find_loop_eq [OF this, of t]
  have k: "getCounter (H t) c = Inr (counters c ! H t)" "counters c ! H t < ways c" using ac_counter [OF assms] by simp_all
  show ?thesis
    unfolding cache_find_def Let_def f bindE_Inr using k ac_entry [OF assms k(2)] by (simp split: option.split)
qed

lemma ac_content_eq:
  assumes "ac_ok H c" and "H t < sets c"
  shows "ac_content H t c = map_option (\<lambda>i. ce_payload (cachedData c ! i)) (find (ac_holds t c) [H t * ways c ..< H t * ways c + ways c])"
proof -
  let ?f = "find (ac_holds t c) [H t * ways c ..< H t * ways c + ways c]"
  have "counters c ! H t < ways c" using ac_counter [OF assms] by simp
  then have "\<not> ac_holds t c (H t * ways c + counters c ! H t)" if "?f = None" using that by (auto simp: find_None_iff)
  moreover have "ac_holds t c i" if "?f = Some i" for i using that by (auto simp: find_Some_iff)
  ultimately show ?thesis
    unfolding ac_content_def cache_find_eq [OF assms]
    by (auto simp: ac_holds_def entry_valid_def getTag_def getPayload_def split: option.split)
qed

section \<open>Adding\<close>

lemma cache_add_eq:
  assumes "ac_ok H c" and "H (T p) < sets c"
  defines "i \<equiv> H (T p) * ways c + counters c ! H (T p)"
  shows "cache_add T H p c = Inr (c\<lparr>cachedData := (cachedData c)[i := setPayload p (T p) (cachedData c ! i)],
     counters := (counters c)[H (T p) := (counters c ! H (T p) + 1) mod ways c]\<rparr>)"
proof -
  have k: "getCounter (H (T p)) c = Inr (counters c ! H (T p))" "counters c ! H (T p) < ways c" using ac_counter [OF assms(1,2)] by simp_all
  show ?thesis
    using k ac_entry [OF assms(1,2) k(2)] assms(1) by (simp add: cache_add_def Let_def i_def ac_ok_def)
qed

lemma slot_unique: "w < m \<Longrightarrow> v < m \<Longrightarrow> s * m + w = r * m + v \<longleftrightarrow> s = r \<and> w = (v :: nat)"
proof
  assume a: "w < m" "v < m" "s * m + w = r * m + v"
  have "(s * m + w) div m = s" "(r * m + v) div m = r" using a(1,2) by simp_all
  then have "s = r" using a(3) by simp
  then show "s = r \<and> w = v" using a(3) by simp
qed simp

lemma ac_ok_add:
  assumes ok: "ac_ok H c" and h: "H (T p) < sets c" and add: "cache_add T H p c = Inr c'"
  shows "ac_ok H c'" "sets c' = sets c" "ways c' = ways c"
proof -
  let ?k = "counters c ! H (T p)" let ?i = "H (T p) * ways c + ?k"
  have k: "?k < ways c" using ac_counter [OF ok h] by simp
  have c': "c' = c\<lparr>cachedData := (cachedData c)[?i := setPayload p (T p) (cachedData c ! ?i)],
     counters := (counters c)[H (T p) := (?k + 1) mod ways c]\<rparr>"
    using cache_add_eq [OF ok, of T p] h add by simp
  show "sets c' = sets c" "ways c' = ways c" by (simp_all add: c')
  have len: "?i < length (cachedData c)" using ok ac_slot [OF h k] by (simp add: ac_ok_def)
  have "H (ce_tag (cachedData c' ! (s * ways c + w))) = s"
    if "s < sets c" "w < ways c" "ce_valid (cachedData c' ! (s * ways c + w))" for s w
  proof (cases "s = H (T p) \<and> w = ?k")
    case True
    then show ?thesis using len by (simp add: c' setPayload_def)
  next
    case False
    then have "s * ways c + w \<noteq> ?i" using slot_unique [OF that(2) k] by simp
    then show ?thesis using that ok by (simp add: c' ac_ok_def)
  qed
  moreover have "\<forall>x\<in>set ((counters c)[H (T p) := (?k + 1) mod ways c]). x < ways c"
    using ok set_update_subset_insert [of "counters c" "H (T p)" "(?k + 1) mod ways c"] by (auto simp: ac_ok_def)
  ultimately show "ac_ok H c'" using ok by (simp add: ac_ok_def c')
qed

section \<open>The contract of a cache\<close>

text \<open>Entries that pair a key with a value, tagged by the key, and the usual access: look up, add on a miss.\<close>

definition ac_unique :: "('p, 't) Cache \<Rightarrow> bool" where
  "ac_unique c \<longleftrightarrow> (\<forall>t i j. i < length (cachedData c) \<longrightarrow> j < length (cachedData c) \<longrightarrow> ac_holds t c i \<longrightarrow> ac_holds t c j \<longrightarrow> i = j)"

definition assoc_access :: "('t \<Rightarrow> nat) \<Rightarrow> 't \<Rightarrow> 'v \<Rightarrow> ('t \<times> 'v, 't) Cache \<Rightarrow> ('t \<times> 'v, 't) Cache" where
  "assoc_access H k v c =
     (if ac_content H k c = None then (case cache_add fst H (k, v) c of Inl _ \<Rightarrow> c | Inr c' \<Rightarrow> c') else c)"

definition assoc_ok :: "('t \<Rightarrow> nat) \<Rightarrow> nat \<Rightarrow> ('t \<times> 'v, 't) Cache \<Rightarrow> bool" where
  "assoc_ok H n c \<longleftrightarrow> ac_ok H c \<and> ac_unique c \<and> sets c = n"

definition assoc_value :: "('t \<Rightarrow> nat) \<Rightarrow> 't \<Rightarrow> ('t \<times> 'v, 't) Cache \<Rightarrow> 'v option" where
  "assoc_value H k c = map_option snd (ac_content H k c)"

lemma set_region:
  assumes "ac_ok H c" and "s < sets c"
  shows "s * ways c + ways c \<le> length (cachedData c)"
  using ac_slot [OF assms(2), of "ways c - 1" "ways c"] assms(1) by (simp add: ac_ok_def)

text \<open>A key is held only in its own set.\<close>

lemma ac_content_Some:
  assumes ok: "ac_ok H c" and u: "ac_unique c" and t: "H t < sets c"
  shows "ac_content H t c = Some p \<longleftrightarrow> (\<exists>i<length (cachedData c). ac_holds t c i \<and> ce_payload (cachedData c ! i) = p)"
proof
  assume "ac_content H t c = Some p"
  then obtain i where i: "find (ac_holds t c) [H t * ways c ..< H t * ways c + ways c] = Some i" "ce_payload (cachedData c ! i) = p"
    unfolding ac_content_eq [OF ok t] by auto
  then show "\<exists>i<length (cachedData c). ac_holds t c i \<and> ce_payload (cachedData c ! i) = p"
    using set_region [OF ok t] find_upt_Some [OF i(1)] by (intro exI [of _ i]) simp
next
  assume "\<exists>i<length (cachedData c). ac_holds t c i \<and> ce_payload (cachedData c ! i) = p"
  then obtain i where i: "i < length (cachedData c)" "ac_holds t c i" "ce_payload (cachedData c ! i) = p" by blast
  have w: "0 < ways c" "length (cachedData c) = ways c * sets c" using ok by (simp_all add: ac_ok_def)
  then have dm: "i div ways c < sets c" "i mod ways c < ways c"
    using i(1) by (simp_all add: less_mult_imp_div_less mult.commute)
  moreover have "i div ways c * ways c + i mod ways c = i" by simp
  ultimately have "H t = i div ways c" using ok i(2) unfolding ac_ok_def ac_holds_def by metis
  then have "H t * ways c + i mod ways c = i" by simp
  then have r: "H t * ways c \<le> i" "i < H t * ways c + ways c"
    using dm(2) by linarith+
  have "find (ac_holds t c) [H t * ways c ..< H t * ways c + ways c] \<noteq> None"
    using r i(2) by (auto simp: find_None_iff)
  then obtain j where j: "find (ac_holds t c) [H t * ways c ..< H t * ways c + ways c] = Some j" by auto
  then have "ac_holds t c j" "j < length (cachedData c)" using set_region [OF ok t] by (auto simp: find_Some_iff)
  then have "j = i" using u i(1,2) unfolding ac_unique_def by blast
  then show "ac_content H t c = Some p" using j i(3) unfolding ac_content_eq [OF ok t] by simp
qed

lemma ac_content_None:
  assumes "ac_ok H c" and "ac_unique c" and "H t < sets c"
  shows "ac_content H t c = None \<longleftrightarrow> (\<forall>i<length (cachedData c). \<not> ac_holds t c i)"
proof -
  have "ac_content H t c = None \<longleftrightarrow> (\<forall>p. ac_content H t c \<noteq> Some p)" by (cases "ac_content H t c") auto
  then show ?thesis using ac_content_Some [OF assms] by auto
qed

lemma assoc_add_miss:
  assumes ok: "assoc_ok H n c" and k: "H k < n" and miss: "ac_content H k c = None"
  shows "\<exists>c' i. assoc_access H k v c = c' \<and> assoc_ok H n c' \<and> i < length (cachedData c) \<and> length (cachedData c') = length (cachedData c) \<and>
     (\<forall>t j. j < length (cachedData c) \<longrightarrow> ac_holds t c' j = (if j = i then t = k else ac_holds t c j)) \<and>
     (\<forall>j. ce_payload (cachedData c' ! j) = (if j = i \<and> j < length (cachedData c) then (k, v) else ce_payload (cachedData c ! j)))"
proof -
  have ac: "ac_ok H c" "ac_unique c" and kn: "H k < sets c" using ok k by (simp_all add: assoc_ok_def)
  let ?i = "H k * ways c + counters c ! H k"
  let ?c = "c\<lparr>cachedData := (cachedData c)[?i := setPayload (k, v) k (cachedData c ! ?i)],
     counters := (counters c)[H k := (counters c ! H k + 1) mod ways c]\<rparr>"
  have add: "cache_add fst H (k, v) c = Inr ?c" using cache_add_eq [OF ac(1), of fst "(k, v)"] kn by simp
  have i: "?i < length (cachedData c)"
    using ac_counter [OF ac(1) kn] ac_slot [OF kn] ac(1) by (simp add: ac_ok_def)
  have holds: "ac_holds t ?c j = (if j = ?i then t = k else ac_holds t c j)" if "j < length (cachedData c)" for t j
    using that i by (auto simp: ac_holds_def setPayload_def nth_list_update)
  have none: "\<not> ac_holds k c j" if "j < length (cachedData c)" for j
    using miss that ac_content_None [OF ac kn] by blast
  have "ac_unique ?c"
    unfolding ac_unique_def
  proof (intro allI impI)
    fix t a b
    assume ab: "a < length (cachedData ?c)" "b < length (cachedData ?c)" "ac_holds t ?c a" "ac_holds t ?c b"
    then have l: "a < length (cachedData c)" "b < length (cachedData c)" by simp_all
    have "if a = ?i then t = k else ac_holds t c a" "if b = ?i then t = k else ac_holds t c b"
      using ab(3,4) holds [OF l(1)] holds [OF l(2)] by simp_all
    moreover have "ac_holds t c a \<Longrightarrow> ac_holds t c b \<Longrightarrow> a = b" using l ac(2) unfolding ac_unique_def by blast
    ultimately show "a = b" using none [OF l(1)] none [OF l(2)] by (cases "a = ?i"; cases "b = ?i") simp_all
  qed
  moreover have "ac_ok H ?c" using ac_ok_add(1) [OF ac(1) _ add] kn by simp
  moreover have "sets ?c = n" using ok by (simp add: assoc_ok_def)
  ultimately have "assoc_ok H n ?c" by (simp add: assoc_ok_def)
  moreover have "assoc_access H k v c = ?c" using miss add by (simp add: assoc_access_def)
  moreover have "\<forall>j. ce_payload (cachedData ?c ! j) = (if j = ?i \<and> j < length (cachedData c) then (k, v) else ce_payload (cachedData c ! j))"
    using i by (auto simp: setPayload_def nth_list_update)
  ultimately show ?thesis using i holds by (intro exI [of _ ?c] exI [of _ ?i]) simp
qed

interpretation assoc: code_cache "assoc_ok H n" "\<lambda>k. H k < n" "assoc_value H" "assoc_access H" for H n
proof
  fix c :: "('a \<times> 'b, 'a) Cache" and k q :: 'a and v :: 'b
  assume ok: "assoc_ok H n c" and k: "H k < n"
  show inv: "assoc_ok H n (assoc_access H k v c)"
    using assoc_add_miss [OF ok k] ok by (cases "ac_content H k c") (auto simp: assoc_access_def)
  have ac: "ac_ok H c" "ac_unique c" "sets c = n" using ok by (simp_all add: assoc_ok_def)
  have ac': "ac_ok H (assoc_access H k v c)" "ac_unique (assoc_access H k v c)" "sets (assoc_access H k v c) = n"
    using inv by (simp_all add: assoc_ok_def)
  show "assoc_value H k (assoc_access H k v c) = (case assoc_value H k c of None \<Rightarrow> Some v | Some u \<Rightarrow> Some u)"
  proof (cases "ac_content H k c")
    case None
    obtain i where i: "i < length (cachedData c)" "length (cachedData (assoc_access H k v c)) = length (cachedData c)"
        "ac_holds k (assoc_access H k v c) i" "ce_payload (cachedData (assoc_access H k v c) ! i) = (k, v)"
      using assoc_add_miss [OF ok k None, of v] by auto
    then have "ac_content H k (assoc_access H k v c) = Some (k, v)"
      using ac_content_Some [OF ac'(1,2), of k "(k, v)"] k ac'(3) by auto
    then show ?thesis using None by (simp add: assoc_value_def)
  next
    case (Some p)
    then show ?thesis by (simp add: assoc_access_def assoc_value_def)
  qed
  assume q: "H q < n" "q \<noteq> k"
  show "assoc_value H q (assoc_access H k v c) = assoc_value H q c \<or> assoc_value H q (assoc_access H k v c) = None"
  proof (cases "ac_content H k c")
    case None
    obtain i where i: "i < length (cachedData c)" "length (cachedData (assoc_access H k v c)) = length (cachedData c)"
        "\<forall>t j. j < length (cachedData c) \<longrightarrow> ac_holds t (assoc_access H k v c) j = (if j = i then t = k else ac_holds t c j)"
        "\<forall>j. ce_payload (cachedData (assoc_access H k v c) ! j) = (if j = i \<and> j < length (cachedData c) then (k, v) else ce_payload (cachedData c ! j))"
      using assoc_add_miss [OF ok k None, of v] by blast
    show ?thesis
    proof (cases "ac_content H q (assoc_access H k v c)")
      case (Some p)
      then obtain j where j: "j < length (cachedData c)" "ac_holds q (assoc_access H k v c) j" "ce_payload (cachedData (assoc_access H k v c) ! j) = p"
        using ac_content_Some [OF ac'(1,2), of q p] q(1) ac'(3) i(2) by auto
      then have "j \<noteq> i" "ac_holds q c j" "ce_payload (cachedData c ! j) = p"
        using i(3) [rule_format, of j q] i(4) [rule_format, of j] q(2) by (auto split: if_splits)
      then have "ac_content H q c = Some p" using ac_content_Some [OF ac(1,2), of q p] q(1) ac(3) j(1) by auto
      then show ?thesis using Some by (simp add: assoc_value_def)
    qed (simp add: assoc_value_def)
  next
    case (Some p)
    then show ?thesis by (simp add: assoc_access_def)
  qed
qed

section \<open>Invalidating\<close>

lemma invalidate_loop_eq:
  assumes "i + n \<le> length (cachedData c)"
  shows "\<exists>c'. invalidate_loop t n i c = Inr c' \<and> ways c' = ways c \<and> sets c' = sets c \<and> ac_size c' = ac_size c \<and> counters c' = counters c \<and>
    length (cachedData c') = length (cachedData c) \<and>
    (\<forall>j. cachedData c' ! j = (if i \<le> j \<and> j < i + n \<and> ac_holds t c j then ce_invalidate (cachedData c ! j) else cachedData c ! j))"
  using assms
proof (induction n arbitrary: i c)
  case (Suc n)
  let ?c = "if ac_holds t c i then c\<lparr>cachedData := (cachedData c)[i := ce_invalidate (cachedData c ! i)]\<rparr> else c"
  have at: "\<And>j. cachedData ?c ! j = (if j = i \<and> ac_holds t c i then ce_invalidate (cachedData c ! i) else cachedData c ! j)"
    "length (cachedData ?c) = length (cachedData c)" "ways ?c = ways c" "sets ?c = sets c" "ac_size ?c = ac_size c" "counters ?c = counters c"
    using Suc.prems by (auto simp: nth_list_update)
  have holds: "ac_holds t ?c j = ac_holds t c j" if "j \<noteq> i" for j using that at(1) [of j] by (simp add: ac_holds_def)
  obtain c' where c': "invalidate_loop t n (Suc i) ?c = Inr c'" "ways c' = ways ?c" "sets c' = sets ?c" "ac_size c' = ac_size ?c"
      "counters c' = counters ?c" "length (cachedData c') = length (cachedData ?c)"
      "\<forall>j. cachedData c' ! j = (if Suc i \<le> j \<and> j < Suc i + n \<and> ac_holds t ?c j then ce_invalidate (cachedData ?c ! j) else cachedData ?c ! j)"
    using Suc.IH [of "Suc i" ?c] Suc.prems at(2) by auto
  have "invalidate_loop t (Suc n) i c = Inr c'"
    using c'(1) Suc.prems by (simp add: entry_at_def ac_holds_def entry_valid_def getTag_def)
  moreover have "cachedData c' ! j = (if i \<le> j \<and> j < i + Suc n \<and> ac_holds t c j then ce_invalidate (cachedData c ! j) else cachedData c ! j)" for j
  proof (cases "j = i")
    case False
    then show ?thesis using c'(7) [rule_format, of j] at(1) [of j] holds [OF False] by auto
  qed (use c'(7) at(1) in simp)
  ultimately show ?case using c'(2-6) at(2-6) by (intro exI [of _ c']) simp
next
  case 0
  then show ?case by (intro exI [of _ c]) auto
qed

text \<open>
  A cache in which some entries of one tag were made invalid and nothing else changed is still
  well formed and holds the same for every other key.
\<close>

lemma thinned_ok:
  assumes ok: "assoc_ok H n c" and shape: "ways c' = ways c" "sets c' = sets c" "ac_size c' = ac_size c" "counters c' = counters c"
      "length (cachedData c') = length (cachedData c)"
    and keep: "\<And>j. cachedData c' ! j = cachedData c ! j \<or> \<not> ce_valid (cachedData c' ! j) \<and> ac_holds t c j"
  shows "assoc_ok H n c'" and "H q < n \<Longrightarrow> q \<noteq> t \<Longrightarrow> ac_content H q c' = ac_content H q c"
proof -
  have ac: "ac_ok H c" "ac_unique c" "sets c = n" using ok by (simp_all add: assoc_ok_def)
  have "H (ce_tag (cachedData c' ! (s * ways c + w))) = s" if "s < sets c" "w < ways c" "ce_valid (cachedData c' ! (s * ways c + w))" for s w
  proof -
    have "cachedData c' ! (s * ways c + w) = cachedData c ! (s * ways c + w)" using keep that(3) by blast
    then show ?thesis using ac(1) that by (simp add: ac_ok_def)
  qed
  then have "ac_ok H c'" using ac(1) shape by (simp add: ac_ok_def)
  moreover have holds: "ac_holds q c' j \<longrightarrow> ac_holds q c j \<and> cachedData c' ! j = cachedData c ! j" for q j
    using keep [of j] by (auto simp: ac_holds_def)
  then have "ac_unique c'" using ac(2) unfolding ac_unique_def shape(5) by blast
  ultimately show ok': "assoc_ok H n c'" using shape(2) ac(3) by (simp add: assoc_ok_def)
  have ac': "ac_ok H c'" "ac_unique c'" "sets c' = n" using ok' by (simp_all add: assoc_ok_def)
  assume q: "H q < n" "q \<noteq> t"
  have same: "ac_holds q c' j = ac_holds q c j \<and> (ac_holds q c j \<longrightarrow> cachedData c' ! j = cachedData c ! j)" for j
    using keep [of j] q(2) by (auto simp: ac_holds_def)
  have qs: "H q < sets c'" "H q < sets c" using q(1) ac(3) ac'(3) by simp_all
  have "ac_content H q c' = Some p \<longleftrightarrow> ac_content H q c = Some p" for p
    unfolding ac_content_Some [OF ac'(1,2) qs(1)] ac_content_Some [OF ac(1,2) qs(2)] shape(5) using same by metis
  then show "ac_content H q c' = ac_content H q c" by (metis not_Some_eq)
qed

lemma invalidate_tag_ok:
  assumes ok: "assoc_ok H n c" and t: "H t < n"
  shows "\<exists>c'. invalidate_tag H t c = Inr c' \<and> assoc_ok H n c' \<and> assoc_value H t c' = None \<and>
    (\<forall>q. H q < n \<longrightarrow> q \<noteq> t \<longrightarrow> assoc_value H q c' = assoc_value H q c)"
proof -
  have ac: "ac_ok H c" "sets c = n" using ok by (simp_all add: assoc_ok_def)
  let ?lo = "H t * ways c"
  have "?lo + ways c \<le> length (cachedData c)" using set_region [OF ac(1), of "H t"] t ac(2) by simp
  from invalidate_loop_eq [OF this, of t]
  obtain c' where c': "invalidate_tag H t c = Inr c'" "ways c' = ways c" "sets c' = sets c" "ac_size c' = ac_size c" "counters c' = counters c"
      "length (cachedData c') = length (cachedData c)"
      "\<forall>j. cachedData c' ! j = (if ?lo \<le> j \<and> j < ?lo + ways c \<and> ac_holds t c j then ce_invalidate (cachedData c ! j) else cachedData c ! j)"
    unfolding invalidate_tag_def Let_def by blast
  have keep: "cachedData c' ! j = cachedData c ! j \<or> \<not> ce_valid (cachedData c' ! j) \<and> ac_holds t c j" for j
    by (subst (1 2) c'(7) [rule_format, of j]) (simp add: ce_invalidate_def)
  note thin = thinned_ok [OF ok c'(2-6) keep]
  have ac': "ac_ok H c'" "sets c' = n" using thin(1) by (simp_all add: assoc_ok_def)
  have "ac_content H t c' \<noteq> Some p" for p
  proof
    assume s: "ac_content H t c' = Some p"
    have "H t < sets c'" using t ac'(2) by simp
    then obtain i where i: "find (ac_holds t c') [H t * ways c' ..< H t * ways c' + ways c'] = Some i"
      using s unfolding ac_content_eq [OF ac'(1) \<open>H t < sets c'\<close>] by auto
    have h: "ac_holds t c' i" "?lo \<le> i" "i < ?lo + ways c" using find_upt_Some [OF i] c'(2) by simp_all
    moreover have "ac_holds t c i" using keep [of i] h(1) by (auto simp: ac_holds_def)
    ultimately have "cachedData c' ! i = ce_invalidate (cachedData c ! i)" using c'(7) [rule_format, of i] by simp
    then show False using h(1) by (simp add: ac_holds_def ce_invalidate_def)
  qed
  then have "ac_content H t c' = None" by (cases "ac_content H t c'") auto
  then show ?thesis using c'(1) thin by (auto simp: assoc_value_def)
qed

section \<open>Properties\<close>

lemma assoc_ok_mk:
  assumes "0 < w"
  shows "assoc_ok H n (mkCache p z w n)" and "assoc_value H k (mkCache p z w n) = None \<or> \<not> H k < n"
proof -
  let ?c = "mkCache p z w n"
  have none: "\<not> ce_valid (cachedData ?c ! i)" if "i < w * n" for i
    using that by (simp add: mkCache_def mkCacheEntry_def)
  have "\<not> ce_valid (cachedData ?c ! (s * w + v))" if "s < n" "v < w" for s v
    using none ac_slot [OF that] by blast
  then have "ac_ok H ?c" using assms by (simp add: ac_ok_def) (simp add: mkCache_def)
  moreover have "ac_unique ?c" using none by (auto simp: ac_unique_def ac_holds_def) (auto simp: mkCache_def)
  ultimately show ok: "assoc_ok H n ?c" by (simp add: assoc_ok_def) (simp add: mkCache_def)
  have "ac_content H k ?c = None" if "H k < n"
    using ac_content_None [of H ?c k] ok that none by (auto simp: assoc_ok_def ac_holds_def) (simp_all add: mkCache_def)
  then show "assoc_value H k ?c = None \<or> \<not> H k < n" by (auto simp: assoc_value_def)
qed

text \<open>
  C29: the set-associative cache, used by looking a key up and adding an entry on a miss, is
  transparent: after any sequence of accesses to keys in range it answers a key with the value of
  that key; \<^verbatim>\<open>invalidate\<close> of a key removes exactly that key.
\<close>
theorem assoc_cache_transparent:
  assumes "0 < w" and "\<forall>k\<in>set ks. H k < n" and "H k < n"
  shows "let c = fold (\<lambda>k. assoc_access H k (f k)) ks (mkCache p z w n) in
     assoc_value H k (assoc_access H k (f k) c) = Some (f k) \<and>
     (\<exists>c'. invalidate_tag H k c = Inr c' \<and> assoc_value H k c' = None \<and>
       (\<forall>q. H q < n \<longrightarrow> q \<noteq> k \<longrightarrow> assoc_value H q c' = assoc_value H q c))"
proof -
  have ok: "assoc_ok H n (mkCache p z w n)" by (rule assoc_ok_mk(1) [OF assms(1)])
  have coh: "assoc.coherent H n f (mkCache p z w n)"
    using assoc_ok_mk(2) [OF assms(1), of H _ p z n] unfolding assoc.coherent_def by (metis option.distinct(1))
  note r = assoc.accesses_coherent [OF ok coh assms(2)]
  show ?thesis
    using assoc.access_gives [of H n _ k f] invalidate_tag_ok [of H n _ k] r assms(3) unfolding Let_def by blast
qed

theorem assoc_cache_transparent_witness:
  "let c = fold (\<lambda>k. assoc_access (\<lambda>k. k mod 2) k (k + 7)) [0, 2, 4, 2, 3] (mkCache (0, 0) 0 2 2) in
     assoc_value (\<lambda>k. k mod 2) 2 (assoc_access (\<lambda>k. k mod 2) (2 :: nat) (9 :: nat) c) = Some 9"
  using assoc_cache_transparent [of 2 "[0, 2, 4, 2, 3]" "\<lambda>k. k mod 2" 2 2 "\<lambda>k. k + 7" "(0, 0)" 0]
  by (simp add: Let_def)

text \<open>
  Adding a second entry under a tag that is already cached does not replace the first: in a new
  cache with at least two ways the lookup still finds the older payload.
\<close>
theorem assoc_readd_stale:
  assumes "2 \<le> w" and "H (T p) < n" and "T q = T p"
  shows "\<exists>c1 c2 i. cache_add T H p (mkCache d z w n) = Inr c1 \<and> cache_add T H q c1 = Inr c2 \<and>
    cache_find H (T p) c2 = Inr i \<and> entry_valid (cachedData c2 ! i) \<and> getPayload (cachedData c2 ! i) = p"
proof -
  let ?c = "mkCache d z w n" and ?s = "H (T p)"
  have ok: "ac_ok H ?c"
  proof -
    have "\<not> ce_valid (cachedData ?c ! (s * w + v))" if "s < n" "v < w" for s v
      using ac_slot [OF that] by (simp add: mkCache_def mkCacheEntry_def)
    then show ?thesis using assms(1) by (simp add: ac_ok_def) (simp add: mkCache_def)
  qed
  have sn: "?s < sets ?c" using assms(2) by (simp add: mkCache_def)
  obtain c1 where add1: "cache_add T H p ?c = Inr c1" using cache_add_eq [OF ok, of T p] sn by blast
  note ok1 = ac_ok_add [OF ok sn add1]
  have c1: "c1 = ?c\<lparr>cachedData := (cachedData ?c)[?s * w := setPayload p (T p) (cachedData ?c ! (?s * w))], counters := (counters ?c)[?s := 1]\<rparr>"
    using cache_add_eq [OF ok, of T p] sn add1 assms(1,2) by (simp add: mkCache_def)
  have sn1: "H (T q) < sets c1" using sn ok1(2) assms(3) by simp
  obtain c2 where add2: "cache_add T H q c1 = Inr c2" using cache_add_eq [OF ok1(1), of T q] sn1 by blast
  note ok2 = ac_ok_add [OF ok1(1) sn1 add2]
  have k1: "counters c1 ! ?s = 1" "ways c1 = w" "ways c2 = w" using c1 assms(2) ok1(3) ok2(3) by (simp_all add: mkCache_def)
  have len: "?s * w + 1 < w * n" using ac_slot [OF assms(2), of 1 w] assms(1) by simp
  have "cachedData c2 ! (?s * w) = cachedData c1 ! (?s * w)"
    using cache_add_eq [OF ok1(1), of T q] sn1 add2 assms(3) k1 by auto
  then have first: "cachedData c2 ! (?s * w) = setPayload p (T p) (cachedData ?c ! (?s * w))"
    using c1 len by (simp add: mkCache_def Suc_lessD)
  have "[?s * w ..< ?s * w + w] = ?s * w # [Suc (?s * w) ..< ?s * w + w]" using assms(1) by (subst upt_rec) simp
  then have "find (ac_holds (T p) c2) [?s * ways c2 ..< ?s * ways c2 + ways c2] = Some (?s * w)"
    using first k1(3) by (simp add: ac_holds_def setPayload_def)
  then have "cache_find H (T p) c2 = Inr (?s * w)"
    using cache_find_eq [OF ok2(1), of "T p"] sn1 ok2(2) assms(3) by simp
  then show ?thesis using add1 add2 first by (auto simp: setPayload_def entry_valid_def getPayload_def)
qed

theorem assoc_readd_stale_witness:
  "\<exists>c1 c2 i. cache_add fst (\<lambda>t. t mod 4) (5 :: nat, 10 :: nat) (mkCache (0, 0) 0 2 4) = Inr c1 \<and>
     cache_add fst (\<lambda>t. t mod 4) (5, 20) c1 = Inr c2 \<and> cache_find (\<lambda>t. t mod 4) 5 c2 = Inr i \<and>
     getPayload (cachedData c2 ! i) = (5, 10)"
  using assoc_readd_stale [of 2 "\<lambda>t. t mod 4" fst "(5 :: nat, 10 :: nat)" 4 "(5, 20)" "(0, 0)" 0] by auto

end
