(* ===== verification/UnitTests.thy ===== *)
theory UnitTests
  imports Mmu AssocCache Csrf Gprf
begin

text \<open>
  The unit tests of the repository for the utilities and the register files
  (\<^verbatim>\<open>src/unit_test/util\<close>, \<^verbatim>\<open>gprf-tests.cpp\<close> and \<^verbatim>\<open>csr-field-tests.cpp\<close>), each as a
  computation over the definitions of the components.  A test yields whether all of its
  expectations hold, or the error that ends it.  That it \<open>passes\<close> is proved by evaluation for the
  pure functions and by the laws of the component for those with state.  What a test leaves
  uninitialised is an argument.
\<close>

definition passes :: "bool res \<Rightarrow> bool" where
  "passes t \<longleftrightarrow> t = Inr True"

lemma passes_Inr [simp]: "passes (Inr b) \<longleftrightarrow> b"
  by (simp add: passes_def)

section \<open>Bit utilities\<close>

definition test_SUConverter_UtoS :: bool where
  "test_SUConverter_UtoS = (let a = - 1 :: u32 in Signify a = - 1)"

definition test_SUConverter_StoU :: bool where
  "test_SUConverter_StoU = (let a = 2 ^ 31 - 1 :: int in (Unsignify a :: u32) = push_bit (4 * 8 - 1) 1 - 1)"

definition test_SignExtend_PositiveValue :: bool where
  "test_SignExtend_PositiveValue = (let v = 3 :: u32; r = SignExtend 3 v in r = 3)"

definition test_SignExtend_NegativeValue :: bool where
  "test_SignExtend_NegativeValue = (let v = 7 :: u32; r = SignExtend 3 v in r = - 1)"

definition test_SignExtend_VeryLongNegativeValue :: bool where
  "test_SignExtend_VeryLongNegativeValue = (let v = 15 :: u32; r = SignExtend 3 v in r = - 1)"

definition test_Signify_PositiveValue :: bool where
  "test_Signify_PositiveValue = (let v = 3 :: u32; r = Signify v in r = 3)"

definition test_Signify_NegativeValue :: bool where
  "test_Signify_NegativeValue = (let v = - 1 :: u32; r = Signify v in r = - 1)"

definition test_Unsignify_PositiveValue :: bool where
  "test_Unsignify_PositiveValue = (let v = 3; r = Unsignify v :: u32 in r = 3)"

definition test_Unsignify_NegativeValue :: bool where
  "test_Unsignify_NegativeValue = (let v = - 1; r = Unsignify v :: u32 in r = - 1)"

definition test_ExtractBits_Dummy :: bool where
  "test_ExtractBits_Dummy = (let v = 0b00111101111 :: u32; r = ExtractBits 4 5 v in r = 0b1111)"

definition test_ClearBits_Dummy :: bool where
  "test_ClearBits_Dummy = (let v = 0b1111111 :: u32; r = ClearBits 3 2 v in r = 0b1100011)"

definition test_ChangeBits_Dummy :: bool where
  "test_ChangeBits_Dummy =
     (let v = 0b11111111 :: u32; newBits = 0b1010; r = ChangeBits 3 2 v newBits in r = 0b11101011)"

definition test_ExtractMasked_Dummy :: bool where
  "test_ExtractMasked_Dummy =
     (let Mask = 0b10001110000 :: u32; v = 0b11101010111; r = ExtractMasked Mask v in r = 0b1101)"

definition test_InsertMasked_Dummy :: bool where
  "test_InsertMasked_Dummy =
     (let Mask = 0b1000111000 :: u32; v = 0b1010; setPlace = 0b1111111111; r = InsertMasked Mask v setPlace
      in r = 0b1111010111)"

definition test_InsertMasked_MTVecDummyCase :: bool where
  "test_InsertMasked_MTVecDummyCase =
     (let Mask = NOT 3 :: u64; v = 0x24; setPlace = 0b1; r = InsertMasked Mask v setPlace
      in r = push_bit 2 v + setPlace)"

lemma bit_magic_tests:
  "test_SUConverter_UtoS" "test_SUConverter_StoU" "test_SignExtend_PositiveValue" "test_SignExtend_NegativeValue"
  "test_SignExtend_VeryLongNegativeValue" "test_Signify_PositiveValue" "test_Signify_NegativeValue"
  "test_Unsignify_PositiveValue" "test_Unsignify_NegativeValue" "test_ExtractBits_Dummy" "test_ClearBits_Dummy"
  "test_ChangeBits_Dummy"
  by code_simp+

lemma masked_tests: "test_ExtractMasked_Dummy" "test_InsertMasked_Dummy" "test_InsertMasked_MTVecDummyCase"
  by code_simp+

section \<open>Ranges\<close>

definition test_EmptyRange :: bool where
  "test_EmptyRange = (let r = mkRange 0 0 :: int Range in \<not> contains_pos r 0)"

lemma range_tests: "test_EmptyRange"
  by code_simp

section \<open>The set-associative cache\<close>

text \<open>\<^verbatim>\<open>std::hash\<close> of an integer is the implementation's; the number of the counter test is for the identity.\<close>

definition fhash :: "(nat \<Rightarrow> nat) \<Rightarrow> nat \<Rightarrow> nat" where
  "fhash std_hash tag = std_hash tag mod 25"

definition ftag :: "nat \<Rightarrow> nat" where
  "ftag payload = 2 * payload"

primrec add_all :: "('p \<Rightarrow> 't) \<Rightarrow> ('t \<Rightarrow> nat) \<Rightarrow> 'p list \<Rightarrow> ('p, 't) Cache \<Rightarrow> ('p, 't) Cache res" where
  "add_all T H [] c = Inr c"
| "add_all T H (p # ps) c = bindE (cache_add T H p c) (add_all T H ps)"

definition CacheTest_SetUp :: "(nat \<Rightarrow> nat) \<Rightarrow> (nat, nat) Cache res" where
  "CacheTest_SetUp std_hash = add_all ftag (fhash std_hash) [5, 5, 5, 25, 42, 5] (mkCache 0 0 2 25)"

definition found :: "('t \<Rightarrow> nat) \<Rightarrow> 't \<Rightarrow> ('p, 't) Cache \<Rightarrow> ('p, 't) CacheEntry res" where
  "found H tag c = bindE (cache_find H tag c) (\<lambda>i. entry_at i c)"

definition test_Cache_find :: "(nat \<Rightarrow> nat) \<Rightarrow> bool res" where
  "test_Cache_find std_hash =
     bindE (CacheTest_SetUp std_hash) (\<lambda>cache.
     bindE (found (fhash std_hash) (ftag 5) cache) (\<lambda>e1.
     bindE (found (fhash std_hash) (ftag 25) cache) (\<lambda>e2.
     bindE (found (fhash std_hash) (ftag 42) cache) (\<lambda>e3.
     Inr (getPayload e1 = 5 \<and> getPayload e2 = 25 \<and> getPayload e3 = 42)))))"

definition test_Cache_valid :: "(nat \<Rightarrow> nat) \<Rightarrow> bool res" where
  "test_Cache_valid std_hash =
     bindE (CacheTest_SetUp std_hash) (\<lambda>cache.
     bindE (found (fhash std_hash) (ftag 5) cache) (\<lambda>e1.
     bindE (found (fhash std_hash) (ftag 25) cache) (\<lambda>e2.
     bindE (found (fhash std_hash) (ftag 42) cache) (\<lambda>e3.
     Inr (entry_valid e1 \<and> entry_valid e2 \<and> entry_valid e3)))))"

definition test_Cache_invalid :: "(nat \<Rightarrow> nat) \<Rightarrow> bool res" where
  "test_Cache_invalid std_hash =
     bindE (CacheTest_SetUp std_hash) (\<lambda>cache.
     bindE (found (fhash std_hash) 228 cache) (\<lambda>e1.
     bindE (found (fhash std_hash) 1488 cache) (\<lambda>e2.
     bindE (found (fhash std_hash) 404 cache) (\<lambda>e3.
     Inr (\<not> entry_valid e1 \<and> \<not> entry_valid e2 \<and> \<not> entry_valid e3)))))"

definition test_Cache_counters :: "(nat \<Rightarrow> nat) \<Rightarrow> bool res" where
  "test_Cache_counters std_hash =
     bindE (CacheTest_SetUp std_hash) (\<lambda>cache.
     bindE (getCounter (5 * 2 mod 25) cache) (\<lambda>k1.
     bindE (getCounter (25 * 2 mod 25) cache) (\<lambda>k2.
     bindE (getCounter (42 * 2 mod 25) cache) (\<lambda>k3.
     Inr (k1 = 0 \<and> k2 = 1 \<and> k3 = 1)))))"

record TLBEntry =
  virtualPageId :: RV64Size
  physicalPageId :: RV64Size

definition TLBSets :: nat where "TLBSets = 64"
definition TLBWays :: nat where "TLBWays = 4"

definition TLBTag :: "TLBEntry \<Rightarrow> RV64Ptr" where
  "TLBTag entry = virtualPageId entry"

definition TLBHash :: "RV64Ptr \<Rightarrow> nat" where
  "TLBHash tag = unat (tag AND (of_nat TLBSets - 1))"

definition test_ComplexPayload :: "TLBEntry \<Rightarrow> bool res" where
  "test_ComplexPayload uninitialised =
     bindE (add_all TLBTag TLBHash
       [\<lparr>virtualPageId = 64 * 0, physicalPageId = 64 * 0\<rparr>, \<lparr>virtualPageId = 64 * 1, physicalPageId = 64 * 1\<rparr>,
        \<lparr>virtualPageId = 64 * 2, physicalPageId = 64 * 2\<rparr>, \<lparr>virtualPageId = 64 * 3, physicalPageId = 64 * 3\<rparr>,
        \<lparr>virtualPageId = 64 * 4, physicalPageId = 64 * 4\<rparr>] (mkCache uninitialised 0 TLBWays TLBSets)) (\<lambda>cache.
     bindE (found TLBHash (64 * 4) cache) (\<lambda>entry.
     Inr (entry_valid entry \<and> getTag entry = 64 * 4 \<and> virtualPageId (getPayload entry) = 64 * 4 \<and>
          physicalPageId (getPayload entry) = 64 * 4)))"

lemma cache_tests:
  "passes (test_Cache_find (\<lambda>n. n))" "passes (test_Cache_valid (\<lambda>n. n))" "passes (test_Cache_invalid (\<lambda>n. n))"
  "passes (test_Cache_counters (\<lambda>n. n))"
  by code_simp+

lemma TLB_test: "passes (test_ComplexPayload e)"
  by code_simp

section \<open>General purpose registers\<close>

primrec write_loop :: "nat list \<Rightarrow> GPRF \<Rightarrow> GPRF res" where
  "write_loop [] gprf = Inr gprf"
| "write_loop (i # is) gprf = bindE (gprf_write (of_nat i) (of_nat i) gprf) (write_loop is)"

primrec read_loop :: "nat list \<Rightarrow> GPRF \<Rightarrow> bool res" where
  "read_loop [] gprf = Inr True"
| "read_loop (i # is) gprf =
     bindE (gprf_read (of_nat i) gprf) (\<lambda>v. bindE (read_loop is gprf) (\<lambda>rest. Inr (v = of_nat i \<and> rest)))"

definition test_gprf_read_write :: "RV64UDWord list \<Rightarrow> bool res" where
  "test_gprf_read_write indeterminate =
     bindE (write_loop [0 ..< GPRF_Size] (mkGPRF indeterminate)) (read_loop [0 ..< GPRF_Size])"

lemma write_loop_append: "write_loop (is @ js) g = bindE (write_loop is g) (write_loop js)"
  by (induction "is" arbitrary: g) (simp_all add: bindE_def split: sum.split)

lemma write_loop_ok:
  assumes "wf_gprf g" and "n \<le> 33"
  shows "\<exists>g'. write_loop [0 ..< n] g = Inr g' \<and> wf_gprf g' \<and> (\<forall>k<n. reg_val g' (of_nat k) = of_nat k)"
  using assms(2)
proof (induction n)
  case 0
  then show ?case using assms(1) by simp
next
  case (Suc n)
  then obtain g' where g': "write_loop [0 ..< n] g = Inr g'" "wf_gprf g'" "\<forall>k<n. reg_val g' (of_nat k) = of_nat k"
    by auto
  have small: "unat (of_nat k :: Register) = k" if "k \<le> n" for k using that Suc.prems by (simp add: unat_of_nat)
  have same: "(of_nat k :: Register) = of_nat n \<longleftrightarrow> k = n" if "k \<le> n" for k
    using small [of k] small [of n] that by (simp add: word_unat_eq_iff)
  have zero: "(of_nat n :: Register) = 0 \<longleftrightarrow> n = 0" using small [of n] by (simp add: word_unat_eq_iff)
  have w: "gprf_write (of_nat n) (of_nat n) g' = Inr (set_reg (of_nat n) (of_nat n) g')"
    using small [of n] Suc.prems by (simp add: gprf_write_eq)
  have "reg_val (set_reg (of_nat n) (of_nat n) g') (of_nat k) = of_nat k" if "k < Suc n" for k
  proof -
    have "unat (of_nat n :: Register) < 33" using small [of n] Suc.prems by simp
    then show ?thesis
      using reg_val_set_reg [OF g'(2), of "of_nat n" "of_nat n" "of_nat k"] g'(3) same [of k] zero that
      by (cases "k = n") auto
  qed
  then show ?case using g'(1,2) w by (auto simp: write_loop_append intro!: wf_set_reg)
qed

lemma read_loop_ok:
  "\<forall>k\<in>set is. k < 33 \<and> reg_val g (of_nat k) = of_nat k \<Longrightarrow> read_loop is g = Inr True"
  by (induction "is") (auto simp: gprf_read_eq unat_of_nat)

lemma gprf_test: "length regs = GPRF_Size \<Longrightarrow> passes (test_gprf_read_write regs)"
  using write_loop_ok [OF wf_mkGPRF, of regs 33] read_loop_ok [of "[0 ..< 33]"]
  by (auto simp: test_gprf_read_write_def passes_def simp del: upt_rec_numeral)

section \<open>Control register fields\<close>

definition NUM_IDS :: Id where "NUM_IDS = MCAUSE + 1"

definition dummy_fields :: "CSRField list" where
  "dummy_fields = [CSRUncheckedField 0b11 0, CSRUncheckedField 0b1100 0, CSRWPRIField 0b1110000]"

definition test_CSRStructure_DummyField :: "RV64UDWord \<Rightarrow> bool" where
  "test_CSRStructure_DummyField indeterminate =
     (let Field1 = CSRUncheckedField 0b11 0; Field2 = CSRUncheckedField 0b1100 0;
          reg = mkCSRStructure dummy_fields NUM_IDS indeterminate;
          (e1, reg) = csr_set Field1 3 reg;
          (e2, reg) = csr_set Field2 2 reg
      in e1 \<and> e2 \<and> csr_get Field2 reg = 2 \<and> csr_get Field1 reg = 3)"

definition test_CSRStructure_DummyWrite :: "RV64UDWord \<Rightarrow> bool" where
  "test_CSRStructure_DummyWrite indeterminate =
     (let Field1 = CSRUncheckedField 0b11 0; Field2 = CSRUncheckedField 0b1100 0; Field3 = CSRWPRIField 0b1110000;
          reg = mkCSRStructure dummy_fields NUM_IDS indeterminate;
          (e, reg) = csr_write dummy_fields 0b1010110 reg
      in e \<and> csr_read reg = 0b0000110 \<and> csr_get Field1 reg = 0b10 \<and> csr_get Field2 reg = 0b01 \<and> csr_get Field3 reg = 0)"

text \<open>A field of \<open>n\<close> bits from bit \<open>k\<close> on.\<close>

lemma rank_field: "k + n \<le> LENGTH('a) \<Longrightarrow> j \<le> LENGTH('a) \<Longrightarrow> rank (push_bit k (mask n) :: 'a::len word) j = min (j - k) n"
  by (induction j) (auto simp: bit_push_bit_iff bit_mask_iff min_def)

lemma ExtractMasked_field:
  assumes "k + n \<le> LENGTH('a)"
  shows "ExtractMasked (push_bit k (mask n)) v = (take_bit n (drop_bit k v) :: 'a::len word)"
proof (rule bit_word_eqI)
  fix i
  let ?m = "push_bit k (mask n) :: 'a word"
  have "bit ?m j \<and> rank ?m j = i \<longleftrightarrow> i < n \<and> j = k + i" if "j < LENGTH('a)" for j
    using that assms rank_field [OF assms, of j] by (auto simp: bit_push_bit_iff bit_mask_iff)
  then have "(\<exists>j. bit ?m j \<and> rank ?m j = i \<and> bit v j) \<longleftrightarrow> i < n \<and> bit v (k + i)"
    using bit_imp_le_length [of v] by metis
  then show "bit (ExtractMasked ?m v) i = bit (take_bit n (drop_bit k v)) i"
    by (simp add: bit_ExtractMasked bit_take_bit_iff bit_drop_bit_eq)
qed

lemma dummy_masks: "(3 :: u64) = push_bit 0 (mask 2)" "(12 :: u64) = push_bit 2 (mask 2)"
  by (simp_all add: mask_eq_exp_minus_1)

lemma dummy_extract: "ExtractMasked (3 :: u64) v = take_bit 2 v" "ExtractMasked (12 :: u64) v = take_bit 2 (drop_bit 2 v)"
  unfolding dummy_masks by (simp_all only: ExtractMasked_field len_of_numeral_defs) simp_all

lemma dummy_ranks: "rank (3 :: u64) 64 = 2" "rank (12 :: u64) 64 = 2"
  unfolding dummy_masks using rank_field [where 'a = 64, of 0 2 64] rank_field [where 'a = 64, of 2 2 64] by simp_all

lemma dummy_insert: "ExtractMasked (3 :: u64) (InsertMasked 12 v w) = ExtractMasked 3 w"
  by (rule ExtractMasked_InsertMasked_disjoint) simp

lemma dummy_reset: "csr_value (mkCSRStructure dummy_fields i w) = 0"
  using reset_zero [of dummy_fields]
  by (simp add: mkCSRStructure_def csr_reset_def dummy_fields_def CSRUncheckedField_def CSRWPRIField_def del: unroller_reset.simps)

lemma dummy_write: "InsertMasked (12 :: u64) 1 (InsertMasked 3 2 0) = 6"
proof -
  have "InsertMasked (12 :: u64) (ExtractMasked 12 86) (InsertMasked 3 (ExtractMasked 3 86) 0) = 6"
    unfolding InsertMasked_ExtractMasked by simp
  then show ?thesis unfolding dummy_extract by simp
qed

lemmas csr_ops = csr_set_def csr_get_def csr_write_def csr_read_def field_set_def field_get_def field_extract_def onUpdate_def

lemma csr_field_tests: "test_CSRStructure_DummyField w" "test_CSRStructure_DummyWrite w"
proof -
  show "test_CSRStructure_DummyField w"
    unfolding test_CSRStructure_DummyField_def
    by (simp add: csr_ops CSRUncheckedField_def ExtractMasked_InsertMasked dummy_insert dummy_ranks Let_def)
  show "test_CSRStructure_DummyWrite w"
    unfolding test_CSRStructure_DummyWrite_def Let_def csr_ops dummy_reset
    by (simp add: dummy_fields_def CSRUncheckedField_def CSRWPRIField_def csr_ops dummy_write dummy_extract)
qed

end
