(* ===== verification/MemoryTests.thy ===== *)
theory MemoryTests
  imports IsaMachine UnitTests
begin

text \<open>
  The unit tests of the repository for memory (\<^verbatim>\<open>src/unit_test/memory\<close>, \<^verbatim>\<open>prefetcher_test.cpp\<close>), the
  generator of executables they use (\<^verbatim>\<open>src/unit_test/elfgen/elf-gen.hpp\<close>) and the tests of the parser
  of executables (\<^verbatim>\<open>src/unit_test/util/elf\<close>), over the models of the components.  They pass for every
  operating system that grants its mappings and has pages of 4096 bytes, by the laws of the memory
  interface.
\<close>

section \<open>The page allocator\<close>

text \<open>
  The tests replace the system call by one that returns \<^verbatim>\<open>MMapReturnValue\<close>.  The numeric value of a
  pointer is a base address chosen for its block plus the offset.
\<close>

definition wrapped_os :: "hptr \<Rightarrow> os" where
  "wrapped_os MMapReturnValue =
     \<lparr>os_mmap = \<lambda>h n. (MMapReturnValue, h), os_munmap = \<lambda>p n h. h, os_getpagesize = 4096\<rparr>"

definition pointer_value :: "(nat \<Rightarrow> u64) \<Rightarrow> hptr \<Rightarrow> u64" where
  "pointer_value base p = (case p of Ptr b x \<Rightarrow> base b + of_nat x | NullPtr \<Rightarrow> 0 | MapFailed \<Rightarrow> - 1)"

definition test_out_of_memory :: "host \<Rightarrow> bool res" where
  "test_out_of_memory h =
     (case bindE (mkRAMPageAllocator 4096 (1024 * 1024)) (\<lambda>pageAllocator. allocPage (wrapped_os NullPtr) pageAllocator h) of
        Inl BadAlloc \<Rightarrow> Inr True
      | _ \<Rightarrow> Inr False)"

definition test_page_overlapping :: "(nat \<Rightarrow> u64) \<Rightarrow> (nat \<Rightarrow> u8) \<Rightarrow> bool res" where
  "test_page_overlapping base bytes =
     (let PageSize = 1024; ChunkSize = PageSize * 2; h = [(unat ChunkSize, bytes)]
      in bindE (mkRAMPageAllocator PageSize ChunkSize) (\<lambda>allocator.
         bindE (allocPage (wrapped_os (Ptr 0 0)) allocator h) (\<lambda>(page1, allocator, h).
         let pageAddr1 = pointer_value base page1
         in bindE (allocPage (wrapped_os NullPtr) allocator h) (\<lambda>(page2, allocator, h).
            let pageAddr2 = pointer_value base page2
            in Inr (max pageAddr1 pageAddr2 - min pageAddr1 pageAddr2 \<ge> PageSize)))))"

primrec write_chars :: "nat \<Rightarrow> hptr \<Rightarrow> host \<Rightarrow> host res" where
  "write_chars 0 c h = Inr h"
| "write_chars (Suc n) c h = bindE (host_write [42] c h) (\<lambda>h. bindE (hptr_add c 1) (\<lambda>c. write_chars n c h))"

definition test_page_writting :: "(nat \<Rightarrow> u8) \<Rightarrow> bool res" where
  "test_page_writting bytes =
     (let PageSize = 1024; ChunkSize = PageSize * 2; h = [(unat ChunkSize, bytes)]
      in bindE (mkRAMPageAllocator PageSize ChunkSize) (\<lambda>allocator.
         bindE (allocPage (wrapped_os (Ptr 0 0)) allocator h) (\<lambda>(page1, allocator, h).
         bindE (write_chars (unat PageSize) page1 h) (\<lambda>h. Inr True))))"

lemma test_sizes: "Is2Pow (1024 :: u64)" "Is2Pow (4096 :: u64)" "Nearest2PowDivident 2048 (4096 :: u64) = 4096"
  by (simp_all add: Is2Pow_def Nearest2PowDivident_def)

lemmas allocator_defs = mkRAMPageAllocator_def allocPage_def alloc_last_def mkChunk_def besm666_mmap_def chunk_allocPage_def

lemma out_of_memory_test: "passes (test_out_of_memory h)"
  by (simp add: test_out_of_memory_def wrapped_os_def allocator_defs test_sizes Let_def)

lemma page_overlapping_test: "passes (test_page_overlapping base bytes)"
proof -
  have far: "1024 \<le> max p (p + 1024) - min p (p + 1024)" for p :: u64
    by (cases "p \<le> p + 1024") (simp_all add: max_def min_def)
  show ?thesis
    using far [of "base 0"]
    by (simp add: test_page_overlapping_def wrapped_os_def allocator_defs test_sizes Let_def pointer_value_def)
qed

lemma write_chars_ok: "b < length h \<Longrightarrow> x + n \<le> fst (h ! b) \<Longrightarrow> \<exists>h'. write_chars n (Ptr b x) h = Inr h'"
  by (induction n arbitrary: x h) (simp_all add: host_write_Ptr nth_list_update)

lemma page_writting_test: "passes (test_page_writting bytes)"
  using write_chars_ok [of 0 "[(2048, bytes)]" 0 1024]
  by (auto simp: test_page_writting_def wrapped_os_def allocator_defs test_sizes Let_def)

section \<open>Store and load\<close>

context mem_device
begin

lemma store_load_byte:
  assumes "inv s" "area s a 1" and "\<And>s'. inv s' \<Longrightarrow> area s' = area s \<Longrightarrow> passes (k v s')"
  shows "passes (bindE (stB a v s) (\<lambda>s. bindE (ldB a s) (\<lambda>(x, s). k x s)))"
proof -
  obtain s1 where s1: "stB a v s = Inr s1" "inv s1" "area s1 = area s" using storeB [OF assms(1,2), of v] by blast
  obtain x s2 where s2: "ldB a s1 = Inr (x, s2)" "inv s2" "area s2 = area s"
    using loadB [OF s1(2), of a] assms(2) s1(3) by auto
  then have "x = v" using load_stored_byte [OF assms(1,2) s1(1)] by auto
  then show ?thesis using s1(1) s2 assms(3) by simp
qed

lemma store_load_half:
  assumes "inv s" "area s a 2" and "\<And>s'. inv s' \<Longrightarrow> area s' = area s \<Longrightarrow> passes (k v s')"
  shows "passes (bindE (stH a v s) (\<lambda>s. bindE (ldH a s) (\<lambda>(x, s). k x s)))"
proof -
  obtain s1 where s1: "stH a v s = Inr s1" "inv s1" "area s1 = area s" using storeH [OF assms(1,2), of v] by blast
  obtain x s2 where s2: "ldH a s1 = Inr (x, s2)" "inv s2" "area s2 = area s"
    using loadH [OF s1(2), of a] assms(2) s1(3) by auto
  then have "x = v" using load_stored_half [OF assms(1,2) s1(1)] by auto
  then show ?thesis using s1(1) s2 assms(3) by simp
qed

lemma store_load_word:
  assumes "inv s" "area s a 4" and "\<And>s'. inv s' \<Longrightarrow> area s' = area s \<Longrightarrow> passes (k v s')"
  shows "passes (bindE (stW a v s) (\<lambda>s. bindE (ldW a s) (\<lambda>(x, s). k x s)))"
proof -
  obtain s1 where s1: "stW a v s = Inr s1" "inv s1" "area s1 = area s" using storeW [OF assms(1,2), of v] by blast
  obtain x s2 where s2: "ldW a s1 = Inr (x, s2)" "inv s2" "area s2 = area s"
    using loadW [OF s1(2), of a] assms(2) s1(3) by auto
  then have "x = v" using load_stored_word [OF assms(1,2) s1(1)] by auto
  then show ?thesis using s1(1) s2 assms(3) by simp
qed

lemma store_load_double:
  assumes "inv s" "area s a 8" and "\<And>s'. inv s' \<Longrightarrow> area s' = area s \<Longrightarrow> passes (k v s')"
  shows "passes (bindE (stD a v s) (\<lambda>s. bindE (ldD a s) (\<lambda>(x, s). k x s)))"
proof -
  obtain s1 where s1: "stD a v s = Inr s1" "inv s1" "area s1 = area s" using storeD [OF assms(1,2), of v] by blast
  obtain x s2 where s2: "ldD a s1 = Inr (x, s2)" "inv s2" "area s2 = area s"
    using loadD [OF s1(2), of a] assms(2) s1(3) by auto
  then have "x = v" using load_stored_double [OF assms(1,2) s1(1)] by auto
  then show ?thesis using s1(1) s2 assms(3) by simp
qed

end

text \<open>The memory of a test: one RAM from address zero.\<close>

definition ram_at_zero :: "host \<Rightarrow> u64 \<Rightarrow> u64 \<Rightarrow> u64 \<Rightarrow> PhysMem res" where
  "ram_at_zero h RAMSize PageSize ChunkSize =
     bindE (mapRAM 0 RAMSize PageSize ChunkSize mkPhysMemBuilder) (\<lambda>b. Inr (build h b))"

lemma ram_at_zero_ok:
  assumes "cfg_ok E ps cs" "mmap_ok E" "rs \<noteq> 0"
  shows "\<exists>pm. ram_at_zero h rs ps cs = Inr pm \<and> pm_inv E pm \<and> set (devices pm) = {(mkRange 0 rs, 0)} \<and> pm_peek pm = (\<lambda>_. 0) \<and>
    (unat ps dvd unat rs \<longrightarrow> whole_pages pm)"
proof -
  obtain b where b: "mapRAM 0 rs ps cs mkPhysMemBuilder = Inr b" "b_ok E b" "set (b_devices b) = {(mkRange 0 rs, 0)}"
    using mapRAM_ok [OF b_ok_empty assms(1,3), of 0] unsigned_less [of rs] by (auto simp: mkPhysMemBuilder_def)
  obtain ram where ram: "mkRAM rs ps cs = Inr ram" "pageSize ram = ps"
    using cfg_ok_facts(1-4) [OF assms(1)] assms(3) by (auto simp: mkRAM_eq)
  then have "b_rams b = [ram]" using b(1) by (auto simp: mapRAM_def mapDevice_def mkPhysMemBuilder_def Let_def split: if_splits)
  then have "unat ps dvd unat rs \<longrightarrow> whole_pages (build h b)"
    using b(3) ram(2) by (simp add: whole_pages_def build_def range_size_def mkRange_def)
  moreover have "pm_inv E (build h b)" "pm_peek (build h b) = (\<lambda>_. 0)"
    using build_ok [OF b(2)] assms(2) by (simp_all add: pm_inv_def)
  ultimately show ?thesis using b by (simp add: ram_at_zero_def build_def)
qed

lemma ram_at_zero_area:
  "set (devices pm) = {(mkRange 0 rs, 0)} \<Longrightarrow> access_width n \<Longrightarrow> unat a + n \<le> unat rs \<Longrightarrow> n dvd unat a \<Longrightarrow> pm_area pm a n"
  by (simp add: pm_area_def mkRange_def)

section \<open>Physical memory\<close>

definition RAMSize :: u64 where "RAMSize = 64 * 1024 * 1024 * 1024"
definition PageSize :: u64 where "PageSize = 4096"
definition ChunkSize :: u64 where "ChunkSize = 1024 * 1024"

definition test_load_store_byte :: "os \<Rightarrow> host \<Rightarrow> bool res" where
  "test_load_store_byte E h =
     bindE (ram_at_zero h RAMSize PageSize ChunkSize) (\<lambda>mem.
     bindE (pm_storeByte E 0xBAD0BABE 42 mem) (\<lambda>mem.
     bindE (pm_loadByte 0xBAD0BABE mem) (\<lambda>(v, mem).
     Inr (v = 42))))"

definition Area :: "u8 list" where
  "Area = map of_char ''Hello, world!'' @ [0]"

primrec expect_bytes :: "RV64Ptr \<Rightarrow> u8 list \<Rightarrow> PhysMem \<Rightarrow> bool res" where
  "expect_bytes a [] mem = Inr True"
| "expect_bytes a (c # cs) mem =
     bindE (pm_loadByte a mem) (\<lambda>(v, mem). bindE (expect_bytes (a + 1) cs mem) (\<lambda>rest. Inr (v = c \<and> rest)))"

definition test_cont_area :: "os \<Rightarrow> host \<Rightarrow> bool res" where
  "test_cont_area E h =
     (let Address = PageSize - 3
      in bindE (ram_at_zero h RAMSize PageSize ChunkSize) (\<lambda>mem.
         bindE (storeContArea E Address Area mem) (\<lambda>mem.
         expect_bytes Address Area mem)))"

lemma test_cfg: "os_getpagesize E = 4096 \<Longrightarrow> cs \<in> {0x100000, 0x200000} \<Longrightarrow> cfg_ok E 4096 cs"
  unfolding cfg_ok_def by (auto intro!: exI [of _ 12])

lemma phys_mem_start:
  assumes "mmap_ok E" "os_getpagesize E = 4096"
  obtains pm where "ram_at_zero h RAMSize PageSize ChunkSize = Inr pm" "pm_inv E pm" "set (devices pm) = {(mkRange 0 RAMSize, 0)}"
    "pm_peek pm = (\<lambda>_. 0)" "whole_pages pm"
  using ram_at_zero_ok [OF test_cfg [OF assms(2)] assms(1), where rs = RAMSize and cs = ChunkSize and h = h]
  by (auto simp: PageSize_def ChunkSize_def RAMSize_def)

lemma load_store_byte_test:
  assumes "mmap_ok E" "os_getpagesize E = 4096"
  shows "passes (test_load_store_byte E h)"
proof -
  obtain pm where pm: "ram_at_zero h RAMSize PageSize ChunkSize = Inr pm" "pm_inv E pm" "set (devices pm) = {(mkRange 0 RAMSize, 0)}"
    using phys_mem_start [OF assms, of h] by blast
  have "pm_area pm 0xBAD0BABE 1" using pm(3) by (rule ram_at_zero_area) (simp_all add: access_width_def RAMSize_def)
  then show ?thesis
    using pm(1) pm.store_load_byte [OF pm(2), of "0xBAD0BABE" "\<lambda>v _. Inr (v = 42)" 42] by (simp add: test_load_store_byte_def)
qed

lemma expect_bytes_ok:
  assumes "\<forall>i<length cs. pm_area pm (a + of_nat i) 1 \<and> pm_peek pm (a + of_nat i) = cs ! i" "pm_inv E pm"
  shows "passes (expect_bytes a cs pm)"
  using assms
proof (induction cs arbitrary: a pm)
  case (Cons c cs)
  have first: "pm_area pm a 1" "pm_peek pm a = c" using Cons.prems(1) [rule_format, of 0] by simp_all
  obtain v pm' where l: "pm_loadByte a pm = Inr (v, pm')" "v = le_word (mem_get 1 a (pm_peek pm))" "pm_inv E pm'"
      "pm_peek pm' = pm_peek pm" "pm_area pm' = pm_area pm"
    using pm.loadB [OF Cons.prems(2) first(1)] by auto
  have "v = c" using l(2) first(2) by (simp add: mem_get_def)
  moreover have "passes (expect_bytes (a + 1) cs pm')"
  proof (rule Cons.IH)
    show "\<forall>i<length cs. pm_area pm' (a + 1 + of_nat i) 1 \<and> pm_peek pm' (a + 1 + of_nat i) = cs ! i"
      using Cons.prems(1) l(4,5) by (force simp: algebra_simps dest: spec [of _ "Suc _"])
  qed (rule l(3))
  ultimately show ?case using l(1) by (simp add: passes_def)
qed simp

lemma copied_bytes:
  assumes "pm_inv E pm" "whole_pages pm" "set (devices pm) = {(mkRange 0 rs, 0)}" "unat a + length cs \<le> unat rs"
  shows "\<exists>pm'. storeContArea E a cs pm = Inr pm' \<and> passes (expect_bytes a cs pm')"
proof -
  have top: "unat a + length cs < 2 ^ 64" using assms(4) unsigned_less [of rs, where ?'a = nat] by simp
  have at: "unat (a + of_nat i) = unat a + i" if "i < length cs" for i using unat_add_offset [of a "length cs" i] top that by simp
  have "dev_at pm (a + of_nat i) \<noteq> None" if "i < length cs" for i
    using at [OF that] that assms(4) by (auto simp: dev_at_None_iff assms(3) contains_pos_def mkRange_def word_less_nat_alt)
  then have "covered pm a (length cs)" using top by (simp add: covered_def)
  then obtain pm' where pm': "storeContArea E a cs pm = Inr pm'" "pm_ok E pm'" "devices pm' = devices pm"
      "pm_peek pm' = mem_put a cs (pm_peek pm)"
    using storeContArea_loop_ok [of E pm a 0 cs "length cs"] assms(1,2) by (auto simp: pm_inv_def storeContArea_def)
  have "pm_area pm' (a + of_nat i) 1" if "i < length cs" for i
    using at [OF that] that assms(4) ram_at_zero_area [of pm' rs 1 "a + of_nat i"] pm'(3) assms(3) by (simp add: access_width_def)
  moreover have "pm_peek pm' (a + of_nat i) = cs ! i" if "i < length cs" for i
    using at [OF that] that pm'(4) by (simp add: mem_put_def in_area_def)
  moreover have "pm_inv E pm'" using pm'(2) assms(1) by (simp add: pm_inv_def)
  ultimately show ?thesis using pm'(1) expect_bytes_ok [of cs pm' a E] by blast
qed

lemma cont_area_test:
  assumes "mmap_ok E" "os_getpagesize E = 4096"
  shows "passes (test_cont_area E h)"
proof -
  obtain pm where pm: "ram_at_zero h RAMSize PageSize ChunkSize = Inr pm" "pm_inv E pm" "set (devices pm) = {(mkRange 0 RAMSize, 0)}"
      "whole_pages pm"
    using phys_mem_start [OF assms, of h] by blast
  have "unat (PageSize - 3) + length Area \<le> unat RAMSize" by (simp add: PageSize_def RAMSize_def Area_def)
  then show ?thesis using copied_bytes [OF pm(2,4,3)] pm(1) by (fastforce simp: test_cont_area_def Let_def)
qed

section \<open>Generated executables\<close>

text \<open>
  \<^verbatim>\<open>elf-gen.hpp\<close> writes an executable with ELFIO.  The library's file is what it reports when the file
  is read back, so that writing one is a change of the parameter \<open>elfio\<close>: the class, encoding and
  machine given, and one \<^verbatim>\<open>PT_LOAD\<close> segment of the given data.
\<close>

definition defaultData :: "u8 list" where "defaultData = [0x62, 0x6F, 0x6F, 0x62, 0x73, 0x00]"
definition defaultPtr :: RV64Ptr where "defaultPtr = 0xDEADEBABE"

definition generateElf :: "string \<Rightarrow> nat \<Rightarrow> nat \<Rightarrow> nat \<Rightarrow> u8 list \<Rightarrow> u64 \<Rightarrow> RV64Ptr \<Rightarrow> elfio \<Rightarrow> elfio" where
  "generateElf path fileClass encoding arch loadData loadSize loadPtr L =
     L\<lparr>elfio_load := (elfio_load L)(path \<mapsto>
         \<lparr>rd_class = fileClass, rd_encoding = encoding, rd_machine = arch,
          rd_segments = [\<lparr>seg_type = PT_LOAD L, seg_virtual_address = loadPtr,
                          seg_data = take (unat loadSize) loadData, seg_file_size = loadSize\<rparr>]\<rparr>)\<rparr>"

definition generateSuitableElf :: "string \<Rightarrow> elfio \<Rightarrow> elfio" where
  "generateSuitableElf path L =
     generateElf path (ELFCLASS64 L) (ELFDATA2LSB L) (EM_RISCV L) defaultData (of_nat (length defaultData)) defaultPtr L"

definition generateUnsuitableElf :: "string \<Rightarrow> nat \<Rightarrow> nat \<Rightarrow> nat \<Rightarrow> elfio \<Rightarrow> elfio" where
  "generateUnsuitableElf path fileClass encoding arch L =
     generateElf path fileClass encoding arch defaultData (of_nat (length defaultData)) defaultPtr L"

definition test_load_elf :: "os \<Rightarrow> elfio \<Rightarrow> host \<Rightarrow> bool res" where
  "test_load_elf E L h =
     (let elfPath = ''./generated_elf''; L = generateSuitableElf elfPath L
      in bindE (ram_at_zero h RAMSize PageSize ChunkSize) (\<lambda>memory.
         bindE (loadElf E L elfPath memory) (\<lambda>memory.
         expect_bytes defaultPtr defaultData memory)))"

definition test_requirements_true :: "elfio \<Rightarrow> bool res" where
  "test_requirements_true L =
     (let elfPath = ''./generated_elf''; L = generateSuitableElf elfPath L
      in case createParser L elfPath of Inl _ \<Rightarrow> Inr False | Inr _ \<Rightarrow> Inr True)"

text \<open>The numbers of the 32-bit class and of the 80386 are further constants of the library.\<close>

definition test_requirements_false :: "nat \<Rightarrow> nat \<Rightarrow> elfio \<Rightarrow> bool res" where
  "test_requirements_false ELFCLASS32 EM_386 L =
     (let elfPath = ''./generated_elf''; L = generateUnsuitableElf elfPath ELFCLASS32 (ELFDATA2LSB L) EM_386 L
      in case createParser L elfPath of Inl UnavailableELFRequirements \<Rightarrow> Inr True | _ \<Rightarrow> Inr False)"

definition test_get_loadable_segments :: "elfio \<Rightarrow> bool res" where
  "test_get_loadable_segments L =
     (let elfPath = ''./generated_elf''; L = generateSuitableElf elfPath L
      in bindE (createParser L elfPath) (\<lambda>parser.
         Inr (list_all (\<lambda>seg. ls_size seg = of_nat (length defaultData) \<and> ls_address seg = defaultPtr \<and>
                list_all (\<lambda>i. ls_data seg ! i = defaultData ! i) [0 ..< unat (ls_size seg)])
              (fst (getLoadableSegments L parser)))))"

lemma generated_parser:
  "createParser (generateSuitableElf p L) p =
     Inr \<lparr>reader = \<lparr>rd_class = ELFCLASS64 L, rd_encoding = ELFDATA2LSB L, rd_machine = EM_RISCV L,
        rd_segments = [\<lparr>seg_type = PT_LOAD L, seg_virtual_address = defaultPtr, seg_data = defaultData, seg_file_size = 6\<rparr>]\<rparr>,
        loadableSegments = []\<rparr>"
  by (simp add: createParser_ok_iff generateSuitableElf_def generateElf_def defaultData_def)

lemma generated_segments:
  "fst (getLoadableSegments (generateSuitableElf p L)
      \<lparr>reader = \<lparr>rd_class = c, rd_encoding = e, rd_machine = m,
        rd_segments = [\<lparr>seg_type = PT_LOAD L, seg_virtual_address = defaultPtr, seg_data = defaultData, seg_file_size = 6\<rparr>]\<rparr>,
        loadableSegments = []\<rparr>) = [mkLoadableSegment defaultPtr defaultData 6]"
  by (simp add: getLoadableSegments_def generateSuitableElf_def generateElf_def Let_def)

lemma load_elf_test:
  assumes "mmap_ok E" "os_getpagesize E = 4096"
  shows "passes (test_load_elf E L h)"
proof -
  obtain pm where pm: "ram_at_zero h RAMSize PageSize ChunkSize = Inr pm" "pm_inv E pm" "set (devices pm) = {(mkRange 0 RAMSize, 0)}"
      "whole_pages pm"
    using phys_mem_start [OF assms, of h] by blast
  have "unat defaultPtr + length defaultData \<le> unat RAMSize" by (simp add: defaultPtr_def RAMSize_def defaultData_def)
  from copied_bytes [OF pm(2,4,3) this] obtain pm'
    where pm': "storeContArea E defaultPtr defaultData pm = Inr pm'" "passes (expect_bytes defaultPtr defaultData pm')" by blast
  have "take 6 defaultData = defaultData" "length defaultData = 6" by (simp_all add: defaultData_def)
  then have "loadElf E (generateSuitableElf p L) p pm = Inr pm'" for p
    using pm'(1) by (simp add: loadElf_def generated_parser generated_segments mkLoadableSegment_def)
  then show ?thesis using pm(1) pm'(2) by (simp add: test_load_elf_def Let_def)
qed

lemma elf_parser_tests:
  "passes (test_requirements_true L)" "ELFCLASS32 \<noteq> ELFCLASS64 L \<Longrightarrow> passes (test_requirements_false ELFCLASS32 EM_386 L)"
  "passes (test_get_loadable_segments L)"
  by (simp_all add: test_requirements_true_def test_requirements_false_def test_get_loadable_segments_def Let_def generated_parser
      generated_segments mkLoadableSegment_def list_all_iff)
    (simp_all add: createParser_def mkElfParser_def checkRequirements_def generateUnsuitableElf_def generateElf_def defaultData_def)

section \<open>The MMU and the prefetcher\<close>

definition test_mmu_storeByte :: "os \<Rightarrow> host \<Rightarrow> bool res" where
  "test_mmu_storeByte E h =
     (let ADDR = 1000; VAL = 0xDEADBABEBAD0BEEF :: u64
      in bindE (ram_at_zero h (1024 * 1024 * 1024) 4096 (2 * 1024 * 1024)) (\<lambda>pMem.
         bindE (mmu_storeByte E ADDR (ucast VAL) pMem) (\<lambda>pMem. bindE (mmu_loadByte ADDR pMem) (\<lambda>(b, pMem).
         bindE (mmu_storeHWord E ADDR (sint (ucast VAL :: u16)) pMem) (\<lambda>pMem. bindE (mmu_loadHWord ADDR pMem) (\<lambda>(hw, pMem).
         bindE (mmu_storeWord E ADDR (sint (ucast VAL :: u32)) pMem) (\<lambda>pMem. bindE (mmu_loadWord ADDR pMem) (\<lambda>(w, pMem).
         bindE (mmu_storeDWord E ADDR (sint VAL) pMem) (\<lambda>pMem. bindE (mmu_loadDWord ADDR pMem) (\<lambda>(d, pMem).
         Inr (b = ucast VAL \<and> hw = ucast VAL \<and> w = ucast VAL \<and> d = VAL)))))))))))"

lemma mmu_storeByte_test:
  assumes "mmap_ok E" "os_getpagesize E = 4096"
  shows "passes (test_mmu_storeByte E h)"
proof -
  obtain pm where pm: "ram_at_zero h 0x40000000 4096 0x200000 = Inr pm" "pm_inv E pm" "set (devices pm) = {(mkRange 0 0x40000000, 0)}"
    using ram_at_zero_ok [OF test_cfg [OF assms(2)] assms(1), where rs = "0x40000000" and cs = "0x200000" and h = h] by auto
  have area: "pm_area pm 1000 1" "pm_area pm 1000 2" "pm_area pm 1000 4" "pm_area pm 1000 8"
    by (rule ram_at_zero_area [OF pm(3)]; simp add: access_width_def)+
  have sizes: "1024 * 1024 * 1024 = (0x40000000 :: u64)" "2 * 1024 * 1024 = (0x200000 :: u64)" by simp_all
  note steps = mmu.store_load_byte mmu.store_load_half mmu.store_load_word mmu.store_load_double
  show ?thesis
    unfolding test_mmu_storeByte_def Let_def sizes pm(1) bindE_Inr
    by (rule steps, rule pm(2), rule area, rule steps, assumption, simp only: area, rule steps, assumption, simp only: area,
        rule steps, assumption, simp only: area, simp)
qed

primrec store_words :: "os \<Rightarrow> RV64Ptr \<Rightarrow> nat list \<Rightarrow> PhysMem \<Rightarrow> PhysMem res" where
  "store_words E ADDR [] pMem = Inr pMem"
| "store_words E ADDR (i # is) pMem = bindE (mmu_storeWord E (ADDR + of_nat i * 4) (int i) pMem) (store_words E ADDR is)"

primrec load_words :: "RV64Ptr \<Rightarrow> nat list \<Rightarrow> Prefetcher \<Rightarrow> PhysMem \<Rightarrow> bool res" where
  "load_words ADDR [] pf pMem = Inr True"
| "load_words ADDR (i # is) pf pMem =
     bindE (pf_loadWord (ADDR + of_nat i * 4) pf pMem) (\<lambda>(w, pf, pMem).
     bindE (load_words ADDR is pf pMem) (\<lambda>rest. Inr (w = of_nat i \<and> rest)))"

definition test_fetch_not_fails :: "os \<Rightarrow> host \<Rightarrow> bool res" where
  "test_fetch_not_fails E h =
     (let ADDR = 1000; to_store = 4096
      in bindE (ram_at_zero h (1024 * 1024 * 1024) 4096 (2 * 1024 * 1024)) (\<lambda>pMem.
         bindE (store_words E ADDR [0 ..< to_store] pMem) (\<lambda>pMem.
         load_words ADDR [0 ..< to_store] mkPrefetcher pMem)))"

text \<open>\<open>holds_words a n pm\<close>: the first \<open>n\<close> words from \<open>a\<close> on are mapped and are 0, 1, 2, ...\<close>

definition holds_words :: "RV64Ptr \<Rightarrow> nat \<Rightarrow> PhysMem \<Rightarrow> bool" where
  "holds_words a n pm \<longleftrightarrow> (\<forall>k<n. mem_get 4 (a + of_nat k * 4) (pm_peek pm) = le_bytes 4 (of_nat k :: u32))"

lemma store_words_append: "store_words E a (is @ js) pm = bindE (store_words E a is pm) (store_words E a js)"
  by (induction "is" arbitrary: pm) (simp_all add: bindE_def split: sum.split)

lemma store_words_ok:
  assumes "pm_inv E pm" "whole_pages pm" "\<forall>k<n. pm_area pm (a + of_nat k * 4) 4" "unat a + n * 4 < 2 ^ 64"
  shows "\<exists>pm'. store_words E a [0 ..< n] pm = Inr pm' \<and> pm_inv E pm' \<and> whole_pages pm' \<and> pm_area pm' = pm_area pm \<and> holds_words a n pm'"
  using assms(3,4)
proof (induction n)
  case 0
  then show ?case using assms(1,2) by (simp add: holds_words_def)
next
  case (Suc n)
  then obtain p where p: "store_words E a [0 ..< n] pm = Inr p" "pm_inv E p" "whole_pages p" "pm_area p = pm_area pm" "holds_words a n p"
    by auto
  have at: "unat (a + of_nat k * 4) = unat a + k * 4" if "k \<le> n" for k
    using unat_add_offset [of a "n * 4 + 1" "k * 4"] Suc.prems(2) that by simp
  have area: "pm_area p (a + of_nat n * 4) 4" using Suc.prems(1) p(4) by simp
  obtain q where q: "mmu_storeWord E (a + of_nat n * 4) (sint (of_nat n :: u32)) p = Inr q" "pm_inv E q"
      "pm_peek q = mem_put (a + of_nat n * 4) (le_bytes 4 (of_nat n :: u32)) (pm_peek p)" "pm_area q = pm_area p"
    using mmu.storeW [OF p(2) area, of "of_nat n"] by blast
  have "mmu_storeWord E (a + of_nat n * 4) (int n) p = Inr q" using q(1) by (simp add: mmu_storeWord_def)
  moreover have "whole_pages q" using pm_ext_whole_pages [OF p(2,3)] store_ext(3) [OF p(2) q(1)] by blast
  moreover have "holds_words a (Suc n) q"
    unfolding holds_words_def
  proof (intro allI impI)
    fix k assume k: "k < Suc n"
    show "mem_get 4 (a + of_nat k * 4) (pm_peek q) = le_bytes 4 (of_nat k :: u32)"
    proof (cases "k = n")
      case True
      then show ?thesis
        using mem_get_put_same [of "a + of_nat n * 4" "le_bytes 4 (of_nat n :: u32)"] at [of n] Suc.prems(2) by (simp add: q(3))
    next
      case False
      then have "mem_get 4 (a + of_nat k * 4) (pm_peek q) = mem_get 4 (a + of_nat k * 4) (pm_peek p)"
        unfolding q(3) using at [of k] at [of n] k Suc.prems(2) by (intro mem_get_put_disjoint) simp_all
      then show ?thesis using p(5) k False by (simp add: holds_words_def)
    qed
  qed
  ultimately show ?case using p(1,4) q(2,4) by (simp add: store_words_append)
qed

lemma load_words_ok:
  assumes "pm_inv E pm" "whole_pages pm" "pf_ok pm p" "\<forall>k\<in>set is. k < n \<and> pm_area pm (a + of_nat k * 4) 4 \<and> 4 dvd unat (a + of_nat k * 4)"
    and "holds_words a n pm"
  shows "passes (load_words a is p pm)"
  using assms
proof (induction "is" arbitrary: p pm)
  case (Cons i "is")
  have i: "i < n" "pm_area pm (a + of_nat i * 4) 4" "4 dvd unat (a + of_nat i * 4)" using Cons.prems(4) by simp_all
  obtain p' pm' where l: "pf_loadWord (a + of_nat i * 4) p pm = Inr (le_word (mem_get 4 (a + of_nat i * 4) (pm_peek pm)), p', pm')"
      "pf_ok pm' p'" "pm_inv E pm'" "same_memory pm pm'"
    using pf_loadWord_ok [OF Cons.prems(1-3) i(2,3)] by blast
  have same: "pm_area pm' = pm_area pm" "pm_peek pm' = pm_peek pm" "whole_pages pm'"
    using l(4) pm_area_devices [of pm' pm] same_memory_peek [OF l(4)] same_memory_transfer(1) [OF l(4)] Cons.prems(2)
    by (simp_all add: same_memory_def)
  have "le_word (mem_get 4 (a + of_nat i * 4) (pm_peek pm)) = (of_nat i :: u32)"
    using Cons.prems(5) i(1) le_word_le_bytes [of 4 "of_nat i :: u32"] by (simp add: holds_words_def)
  moreover have "passes (load_words a is p' pm')"
    using Cons.IH [OF l(3) same(3) l(2)] Cons.prems(4,5) same(1,2) by (simp add: holds_words_def)
  ultimately show ?case using l(1) by (simp add: passes_def)
qed simp

lemma fetch_not_fails_test:
  assumes "mmap_ok E" "os_getpagesize E = 4096"
  shows "passes (test_fetch_not_fails E h)"
proof -
  obtain pm where pm: "ram_at_zero h 0x40000000 4096 0x200000 = Inr pm" "pm_inv E pm" "set (devices pm) = {(mkRange 0 0x40000000, 0)}" "whole_pages pm"
    using ram_at_zero_ok [OF test_cfg [OF assms(2)] assms(1), where rs = "0x40000000" and cs = "0x200000" and h = h] by auto
  have sizes: "1024 * 1024 * 1024 = (0x40000000 :: u64)" "2 * 1024 * 1024 = (0x200000 :: u64)" by simp_all
  have at: "unat (1000 + of_nat k * 4 :: u64) = 1000 + k * 4" if "k < 4096" for k
    using unat_add_offset [of 1000 "4096 * 4" "k * 4"] that by simp
  have area: "pm_area pm (1000 + of_nat k * 4) 4 \<and> 4 dvd unat (1000 + of_nat k * 4 :: u64)" if "k < 4096" for k
  proof -
    have "4 dvd unat (1000 + of_nat k * 4 :: u64)" unfolding at [OF that] by simp
    then show ?thesis using ram_at_zero_area [OF pm(3), of 4 "1000 + of_nat k * 4"] at [OF that] that by (simp add: access_width_def)
  qed
  obtain pm' where pm': "store_words E 1000 [0 ..< 4096] pm = Inr pm'" "pm_inv E pm'" "whole_pages pm'" "pm_area pm' = pm_area pm"
      "holds_words 1000 4096 pm'"
    using store_words_ok [OF pm(2,4), of 4096 1000] area by auto
  have "passes (load_words 1000 [0 ..< 4096] mkPrefetcher pm')"
    by (rule load_words_ok [OF pm'(2,3) pf_ok_mk _ pm'(5)]) (simp add: pm'(4) area del: upt_rec_numeral)
  then show ?thesis
    unfolding test_fetch_not_fails_def Let_def sizes pm(1) bindE_Inr pm'(1) .
qed

end
