(* ===== verification/ExecutorTests.thy ===== *)
theory ExecutorTests
  imports MemoryTests
begin

text \<open>
  The tests of single instructions, \<^verbatim>\<open>src/unit_test/exec/RV64I-executor-tests.cpp\<close>, and of two small
  programs, the first half of \<^verbatim>\<open>src/unit_test/exec/simple-programs.cpp\<close>.  They call a member
  function \<^verbatim>\<open>Hart::exec\<close> that executes one given instruction and that the hart no longer has, so they do
  not compile against the program: the function is a parameter of every test, about which nothing is
  known.  \<open>ExecutorTestRuns\<close> runs the tests with a harness of this development in its place.
\<close>

section \<open>The fixture\<close>

type_synonym hart_exec = "Instruction \<Rightarrow> Hart \<Rightarrow> Hart res"

record executor_test =
  fx_instr :: Instruction
  fx_hart :: Hart

definition mkExecutorTest :: "env \<Rightarrow> (nat \<Rightarrow> Instruction list) \<Rightarrow> RV64UDWord list \<Rightarrow> (csr_ref \<Rightarrow> RV64UDWord) \<Rightarrow> Instruction \<Rightarrow> host \<Rightarrow> executor_test res" where
  "mkExecutorTest E slots regs word uninitialised h =
     bindE (ram_at_zero h (1 * 1024 * 1024) 4096 (2 * 1024 * 1024)) (\<lambda>pMem.
     Inr \<lparr>fx_instr = uninitialised, fx_hart = mkHart E slots regs word pMem mkHookManager\<rparr>)"

definition SetupInstrR :: "InstructionOp \<Rightarrow> Register \<Rightarrow> Register \<Rightarrow> Register \<Rightarrow> executor_test \<Rightarrow> executor_test" where
  "SetupInstrR op d s1 s2 t = t\<lparr>fx_instr := (fx_instr t)\<lparr>operation := op, rd := d, rs1 := s1, rs2 := s2\<rparr>\<rparr>"

definition SetupInstrI :: "InstructionOp \<Rightarrow> Register \<Rightarrow> Register \<Rightarrow> RV64UDWord \<Rightarrow> executor_test \<Rightarrow> executor_test" where
  "SetupInstrI op d s1 imm t =
     t\<lparr>fx_instr := (fx_instr t)\<lparr>operation := op, rd := d, rs1 := s1, immidiate := ExtractBits 12 0 imm\<rparr>\<rparr>"

definition SetupInstrISigned :: "InstructionOp \<Rightarrow> Register \<Rightarrow> Register \<Rightarrow> int \<Rightarrow> executor_test \<Rightarrow> executor_test" where
  "SetupInstrISigned op d s1 imm t = SetupInstrI op d s1 (Unsignify imm) t"

definition SetupInstrU :: "InstructionOp \<Rightarrow> Register \<Rightarrow> RV64UDWord \<Rightarrow> executor_test \<Rightarrow> executor_test" where
  "SetupInstrU op d imm t =
     t\<lparr>fx_instr := (fx_instr t)\<lparr>operation := op, rd := d, immidiate := ExtractBits 20 0 imm\<rparr>\<rparr>"

definition SetupInstrB :: "InstructionOp \<Rightarrow> Register \<Rightarrow> Register \<Rightarrow> RV64UDWord \<Rightarrow> executor_test \<Rightarrow> executor_test" where
  "SetupInstrB op s1 s2 imm t =
     t\<lparr>fx_instr := (fx_instr t)\<lparr>operation := op, rs1 := s1, rs2 := s2, immidiate := imm\<rparr>\<rparr>"

definition SetupInstrS :: "InstructionOp \<Rightarrow> Register \<Rightarrow> Register \<Rightarrow> RV64UDWord \<Rightarrow> executor_test \<Rightarrow> executor_test" where
  "SetupInstrS op s1 s2 imm t = SetupInstrB op s1 s2 imm t"

definition ReadReg :: "Register \<Rightarrow> executor_test \<Rightarrow> RV64UDWord res" where
  "ReadReg r t = gprf_read r (h_gprf (fx_hart t))"

definition Exec :: "hart_exec \<Rightarrow> executor_test \<Rightarrow> executor_test res" where
  "Exec exec t = bindE (exec (fx_instr t) (fx_hart t)) (\<lambda>h. Inr (t\<lparr>fx_hart := h\<rparr>))"

definition LoadImm12 :: "hart_exec \<Rightarrow> Register \<Rightarrow> int \<Rightarrow> executor_test \<Rightarrow> executor_test res" where
  "LoadImm12 exec d v t = Exec exec (SetupInstrISigned ADDI d 0 v t)"

text \<open>
  How nearly every test ends: the program counter is read, the instruction executed, and a register
  (or, for \<open>expect_pc\<close>, only the program counter) and the new program counter are compared.  \<^verbatim>\<open>ReadRegS\<close>
  is \<open>Signify\<close> of \<open>ReadReg\<close>.
\<close>

definition expect_reg :: "hart_exec \<Rightarrow> Register \<Rightarrow> (RV64UDWord \<Rightarrow> bool) \<Rightarrow> executor_test \<Rightarrow> bool res" where
  "expect_reg exec r P t =
     bindE (ReadReg PC t) (\<lambda>prevPC. bindE (Exec exec t) (\<lambda>t.
     bindE (ReadReg r t) (\<lambda>v. bindE (ReadReg PC t) (\<lambda>pc. Inr (P v \<and> pc = prevPC + 4)))))"

definition expect_pc :: "hart_exec \<Rightarrow> RV64UDWord \<Rightarrow> executor_test \<Rightarrow> bool res" where
  "expect_pc exec offset t =
     bindE (ReadReg PC t) (\<lambda>prevPC. bindE (Exec exec t) (\<lambda>t. bindE (ReadReg PC t) (\<lambda>pc. Inr (pc = prevPC + offset))))"

definition expect_jump :: "hart_exec \<Rightarrow> Register \<Rightarrow> RV64UDWord \<Rightarrow> executor_test \<Rightarrow> bool res" where
  "expect_jump exec r target t =
     bindE (ReadReg PC t) (\<lambda>prevPC. bindE (Exec exec t) (\<lambda>t.
     bindE (ReadReg r t) (\<lambda>v. bindE (ReadReg PC t) (\<lambda>pc. Inr (v = prevPC + 4 \<and> pc = target)))))"

section \<open>Integer computations\<close>

definition test_MOVI :: "hart_exec \<Rightarrow> executor_test \<Rightarrow> bool res" where
  "test_MOVI exec t =
     bindE (ReadReg PC t) (\<lambda>prevPC. bindE (LoadImm12 exec 1 (- 3) t) (\<lambda>t. bindE (LoadImm12 exec 2 3 t) (\<lambda>t.
     bindE (ReadReg 1 t) (\<lambda>x1. bindE (ReadReg 2 t) (\<lambda>x2. bindE (ReadReg PC t) (\<lambda>pc.
     Inr (Signify x1 = - 3 \<and> Signify x2 = 3 \<and> pc = prevPC + 8)))))))"

text \<open>Immediate operations on \<^verbatim>\<open>X1\<close>, register operations on \<^verbatim>\<open>X1\<close> and \<^verbatim>\<open>X2\<close>.\<close>

definition test_ADDI :: "hart_exec \<Rightarrow> executor_test \<Rightarrow> bool res" where
  "test_ADDI exec t =
     bindE (LoadImm12 exec 1 (- 3) t) (\<lambda>t. expect_reg exec 2 (\<lambda>v. Signify v = - 8) (SetupInstrISigned ADDI 2 1 (- 5) t))"

definition test_SLTI_True :: "hart_exec \<Rightarrow> executor_test \<Rightarrow> bool res" where
  "test_SLTI_True exec t =
     bindE (LoadImm12 exec 1 (- 3) t) (\<lambda>t. expect_reg exec 2 (\<lambda>v. v = 1) (SetupInstrISigned SLTI 2 1 (- 2) t))"

definition test_SLTI_False :: "hart_exec \<Rightarrow> executor_test \<Rightarrow> bool res" where
  "test_SLTI_False exec t =
     bindE (LoadImm12 exec 1 (- 2) t) (\<lambda>t. expect_reg exec 2 (\<lambda>v. v = 0) (SetupInstrISigned SLTI 2 1 (- 3) t))"

definition test_SLTIU_True :: "hart_exec \<Rightarrow> executor_test \<Rightarrow> bool res" where
  "test_SLTIU_True exec t =
     bindE (LoadImm12 exec 1 2 t) (\<lambda>t. expect_reg exec 2 (\<lambda>v. v = 1) (SetupInstrISigned SLTIU 2 1 3 t))"

definition test_SLTIU_False :: "hart_exec \<Rightarrow> executor_test \<Rightarrow> bool res" where
  "test_SLTIU_False exec t =
     bindE (LoadImm12 exec 1 3 t) (\<lambda>t. expect_reg exec 2 (\<lambda>v. v = 0) (SetupInstrISigned SLTIU 2 1 2 t))"

definition test_ANDI :: "hart_exec \<Rightarrow> executor_test \<Rightarrow> bool res" where
  "test_ANDI exec t =
     bindE (LoadImm12 exec 1 (- 1) t) (\<lambda>t. expect_reg exec 2 (\<lambda>v. v = 1) (SetupInstrISigned ANDI 2 1 1 t))"

definition test_ORI :: "hart_exec \<Rightarrow> executor_test \<Rightarrow> bool res" where
  "test_ORI exec t =
     bindE (LoadImm12 exec 1 (- 2) t) (\<lambda>t. expect_reg exec 2 (\<lambda>v. Signify v = - 1) (SetupInstrISigned ORI 2 1 1 t))"

definition test_XORI :: "hart_exec \<Rightarrow> executor_test \<Rightarrow> bool res" where
  "test_XORI exec t =
     bindE (LoadImm12 exec 1 (- 1) t) (\<lambda>t. expect_reg exec 2 (\<lambda>v. Signify v = - 3) (SetupInstrISigned XORI 2 1 2 t))"

definition test_SLLI :: "hart_exec \<Rightarrow> executor_test \<Rightarrow> bool res" where
  "test_SLLI exec t =
     bindE (LoadImm12 exec 1 2 t) (\<lambda>t. expect_reg exec 2 (\<lambda>v. v = 4) (SetupInstrI SLLI 2 1 1 t))"

definition test_SRLI :: "hart_exec \<Rightarrow> executor_test \<Rightarrow> bool res" where
  "test_SRLI exec t =
     bindE (LoadImm12 exec 1 4 t) (\<lambda>t. expect_reg exec 2 (\<lambda>v. v = 2) (SetupInstrI SRLI 2 1 1 t))"

definition test_SRAI :: "hart_exec \<Rightarrow> executor_test \<Rightarrow> bool res" where
  "test_SRAI exec t =
     bindE (LoadImm12 exec 1 (- 2) t) (\<lambda>t. expect_reg exec 2 (\<lambda>v. Signify v = - 1) (SetupInstrI SRAI 2 1 1 t))"

definition test_LUI :: "hart_exec \<Rightarrow> executor_test \<Rightarrow> bool res" where
  "test_LUI exec t =
     (let IMM = 0b10101010101010101010 in expect_reg exec 2 (\<lambda>v. v = push_bit 12 IMM) (SetupInstrU LUI 2 IMM t))"

definition test_AUIPC :: "hart_exec \<Rightarrow> executor_test \<Rightarrow> bool res" where
  "test_AUIPC exec t =
     (let IMM = 0b10101010101010101010 in expect_reg exec 2 (\<lambda>v. v = push_bit 12 IMM) (SetupInstrU AUIPC 2 IMM t))"

definition test_ADD :: "hart_exec \<Rightarrow> executor_test \<Rightarrow> bool res" where
  "test_ADD exec t =
     bindE (LoadImm12 exec 1 5 t) (\<lambda>t. bindE (LoadImm12 exec 2 (- 2) t) (\<lambda>t.
     expect_reg exec 3 (\<lambda>v. v = 3) (SetupInstrR ADD 3 2 1 t)))"

definition test_SLT_True :: "hart_exec \<Rightarrow> executor_test \<Rightarrow> bool res" where
  "test_SLT_True exec t =
     bindE (LoadImm12 exec 1 (- 3) t) (\<lambda>t. bindE (LoadImm12 exec 2 (- 2) t) (\<lambda>t.
     expect_reg exec 3 (\<lambda>v. v = 1) (SetupInstrR SLT 3 1 2 t)))"

definition test_SLT_False :: "hart_exec \<Rightarrow> executor_test \<Rightarrow> bool res" where
  "test_SLT_False exec t =
     bindE (LoadImm12 exec 1 (- 2) t) (\<lambda>t. bindE (LoadImm12 exec 2 (- 3) t) (\<lambda>t.
     expect_reg exec 3 (\<lambda>v. v = 0) (SetupInstrR SLT 3 1 2 t)))"

definition test_SLTU_True :: "hart_exec \<Rightarrow> executor_test \<Rightarrow> bool res" where
  "test_SLTU_True exec t =
     bindE (LoadImm12 exec 1 2 t) (\<lambda>t. bindE (LoadImm12 exec 2 3 t) (\<lambda>t.
     expect_reg exec 3 (\<lambda>v. v = 1) (SetupInstrR SLTU 3 1 2 t)))"

definition test_SLTU_False :: "hart_exec \<Rightarrow> executor_test \<Rightarrow> bool res" where
  "test_SLTU_False exec t =
     bindE (LoadImm12 exec 1 3 t) (\<lambda>t. bindE (LoadImm12 exec 2 2 t) (\<lambda>t.
     expect_reg exec 3 (\<lambda>v. v = 0) (SetupInstrR SLTU 3 1 2 t)))"

definition test_SLL :: "hart_exec \<Rightarrow> executor_test \<Rightarrow> bool res" where
  "test_SLL exec t =
     bindE (LoadImm12 exec 1 2 t) (\<lambda>t. bindE (LoadImm12 exec 2 2 t) (\<lambda>t.
     expect_reg exec 3 (\<lambda>v. v = 8) (SetupInstrR SLL 3 1 2 t)))"

definition test_SRL :: "hart_exec \<Rightarrow> executor_test \<Rightarrow> bool res" where
  "test_SRL exec t =
     bindE (LoadImm12 exec 1 8 t) (\<lambda>t. bindE (LoadImm12 exec 2 2 t) (\<lambda>t.
     expect_reg exec 3 (\<lambda>v. v = 2) (SetupInstrR SRL 3 1 2 t)))"

definition test_SUB :: "hart_exec \<Rightarrow> executor_test \<Rightarrow> bool res" where
  "test_SUB exec t =
     bindE (LoadImm12 exec 1 (- 4) t) (\<lambda>t. bindE (LoadImm12 exec 2 2 t) (\<lambda>t.
     expect_reg exec 3 (\<lambda>v. Signify v = - 6) (SetupInstrR SUB 3 1 2 t)))"

definition test_SRA :: "hart_exec \<Rightarrow> executor_test \<Rightarrow> bool res" where
  "test_SRA exec t =
     bindE (LoadImm12 exec 1 (- 4) t) (\<lambda>t. bindE (LoadImm12 exec 2 2 t) (\<lambda>t.
     expect_reg exec 3 (\<lambda>v. Signify v = - 1) (SetupInstrR SRA 3 1 2 t)))"

section \<open>Jumps and branches\<close>

definition test_JAL :: "hart_exec \<Rightarrow> executor_test \<Rightarrow> bool res" where
  "test_JAL exec t = expect_jump exec 1 15 (SetupInstrU JAL 1 15 t)"

definition test_JALR :: "hart_exec \<Rightarrow> executor_test \<Rightarrow> bool res" where
  "test_JALR exec t =
     bindE (LoadImm12 exec 2 11 t) (\<lambda>t. expect_jump exec 1 (11 + 15) (SetupInstrI JALR 1 2 15 t))"

definition test_BEQ_True :: "hart_exec \<Rightarrow> executor_test \<Rightarrow> bool res" where
  "test_BEQ_True exec t =
     bindE (LoadImm12 exec 2 15 t) (\<lambda>t. bindE (LoadImm12 exec 3 15 t) (\<lambda>t.
     expect_pc exec 15 (SetupInstrB BEQ 2 3 15 t)))"

definition test_BEQ_False :: "hart_exec \<Rightarrow> executor_test \<Rightarrow> bool res" where
  "test_BEQ_False exec t =
     bindE (LoadImm12 exec 2 15 t) (\<lambda>t. bindE (LoadImm12 exec 3 16 t) (\<lambda>t.
     expect_pc exec 4 (SetupInstrB BEQ 2 3 15 t)))"

definition test_BNE_True :: "hart_exec \<Rightarrow> executor_test \<Rightarrow> bool res" where
  "test_BNE_True exec t =
     bindE (LoadImm12 exec 2 15 t) (\<lambda>t. bindE (LoadImm12 exec 3 16 t) (\<lambda>t.
     expect_pc exec 15 (SetupInstrB BNE 2 3 15 t)))"

definition test_BNE_False :: "hart_exec \<Rightarrow> executor_test \<Rightarrow> bool res" where
  "test_BNE_False exec t =
     bindE (LoadImm12 exec 2 15 t) (\<lambda>t. bindE (LoadImm12 exec 3 15 t) (\<lambda>t.
     expect_pc exec 4 (SetupInstrB BNE 2 3 15 t)))"

definition test_BLT_True :: "hart_exec \<Rightarrow> executor_test \<Rightarrow> bool res" where
  "test_BLT_True exec t =
     bindE (LoadImm12 exec 2 (- 3) t) (\<lambda>t. bindE (LoadImm12 exec 3 (- 2) t) (\<lambda>t.
     expect_pc exec 15 (SetupInstrB BLT 2 3 15 t)))"

definition test_BLT_False :: "hart_exec \<Rightarrow> executor_test \<Rightarrow> bool res" where
  "test_BLT_False exec t =
     bindE (LoadImm12 exec 2 (- 2) t) (\<lambda>t. bindE (LoadImm12 exec 3 (- 2) t) (\<lambda>t.
     expect_pc exec 4 (SetupInstrB BLT 2 3 15 t)))"

definition test_BLTU_True :: "hart_exec \<Rightarrow> executor_test \<Rightarrow> bool res" where
  "test_BLTU_True exec t =
     bindE (LoadImm12 exec 2 2 t) (\<lambda>t. bindE (LoadImm12 exec 3 3 t) (\<lambda>t.
     expect_pc exec 15 (SetupInstrB BLTU 2 3 15 t)))"

definition test_BLTU_False :: "hart_exec \<Rightarrow> executor_test \<Rightarrow> bool res" where
  "test_BLTU_False exec t =
     bindE (LoadImm12 exec 2 3 t) (\<lambda>t. bindE (LoadImm12 exec 3 2 t) (\<lambda>t.
     expect_pc exec 4 (SetupInstrB BLTU 2 3 15 t)))"

definition test_BGE_Greater_True :: "hart_exec \<Rightarrow> executor_test \<Rightarrow> bool res" where
  "test_BGE_Greater_True exec t =
     bindE (LoadImm12 exec 2 (- 2) t) (\<lambda>t. bindE (LoadImm12 exec 3 (- 3) t) (\<lambda>t.
     expect_pc exec 15 (SetupInstrB BGE 2 3 15 t)))"

definition test_BGE_Greater_False :: "hart_exec \<Rightarrow> executor_test \<Rightarrow> bool res" where
  "test_BGE_Greater_False exec t =
     bindE (LoadImm12 exec 2 (- 3) t) (\<lambda>t. bindE (LoadImm12 exec 3 (- 2) t) (\<lambda>t.
     expect_pc exec 4 (SetupInstrB BGE 2 3 15 t)))"

definition test_BGE_Equal_True :: "hart_exec \<Rightarrow> executor_test \<Rightarrow> bool res" where
  "test_BGE_Equal_True exec t =
     bindE (LoadImm12 exec 2 (- 3) t) (\<lambda>t. bindE (LoadImm12 exec 3 (- 3) t) (\<lambda>t.
     expect_pc exec 15 (SetupInstrB BGE 2 3 15 t)))"

definition test_BGE_Equal_False :: "hart_exec \<Rightarrow> executor_test \<Rightarrow> bool res" where
  "test_BGE_Equal_False exec t =
     bindE (LoadImm12 exec 2 (- 3) t) (\<lambda>t. bindE (LoadImm12 exec 3 (- 2) t) (\<lambda>t.
     expect_pc exec 4 (SetupInstrB BGE 2 3 15 t)))"

definition test_BGEU_Greater_True :: "hart_exec \<Rightarrow> executor_test \<Rightarrow> bool res" where
  "test_BGEU_Greater_True exec t =
     bindE (LoadImm12 exec 2 3 t) (\<lambda>t. bindE (LoadImm12 exec 3 2 t) (\<lambda>t.
     expect_pc exec 15 (SetupInstrB BGEU 2 3 15 t)))"

definition test_BGEU_Greater_False :: "hart_exec \<Rightarrow> executor_test \<Rightarrow> bool res" where
  "test_BGEU_Greater_False exec t =
     bindE (LoadImm12 exec 2 2 t) (\<lambda>t. bindE (LoadImm12 exec 3 3 t) (\<lambda>t.
     expect_pc exec 4 (SetupInstrB BGEU 2 3 15 t)))"

definition test_BGEU_Equal_True :: "hart_exec \<Rightarrow> executor_test \<Rightarrow> bool res" where
  "test_BGEU_Equal_True exec t =
     bindE (LoadImm12 exec 2 3 t) (\<lambda>t. bindE (LoadImm12 exec 3 3 t) (\<lambda>t.
     expect_pc exec 15 (SetupInstrB BGEU 2 3 15 t)))"

definition test_BGEU_Equal_False :: "hart_exec \<Rightarrow> executor_test \<Rightarrow> bool res" where
  "test_BGEU_Equal_False exec t =
     bindE (LoadImm12 exec 2 2 t) (\<lambda>t. bindE (LoadImm12 exec 3 3 t) (\<lambda>t.
     expect_pc exec 4 (SetupInstrB BGEU 2 3 15 t)))"

section \<open>Loads and stores\<close>

text \<open>The test's MMU refers to the same memory as the hart's.\<close>

definition test_storeDWord :: "env \<Rightarrow> RV64Ptr \<Rightarrow> int \<Rightarrow> executor_test \<Rightarrow> executor_test res" where
  "test_storeDWord E a v t =
     bindE (mmu_storeDWord (env_os E) a v (h_mem (fx_hart t))) (\<lambda>m. Inr (t\<lparr>fx_hart := (fx_hart t)\<lparr>h_mem := m\<rparr>\<rparr>))"

definition test_load :: "(RV64Ptr \<Rightarrow> PhysMem \<Rightarrow> ('v \<times> PhysMem) res) \<Rightarrow> RV64Ptr \<Rightarrow> executor_test \<Rightarrow> ('v \<times> executor_test) res" where
  "test_load ld a t =
     bindE (ld a (h_mem (fx_hart t))) (\<lambda>(v, m). Inr (v, t\<lparr>fx_hart := (fx_hart t)\<lparr>h_mem := m\<rparr>\<rparr>))"

primrec exec_loads :: "hart_exec \<Rightarrow> RV64UDWord \<Rightarrow> (InstructionOp \<times> Register) list \<Rightarrow> executor_test \<Rightarrow> executor_test res" where
  "exec_loads exec OFFSET [] t = Inr t"
| "exec_loads exec OFFSET (x # xs) t =
     bindE (Exec exec (SetupInstrI (fst x) (snd x) 2 OFFSET t)) (exec_loads exec OFFSET xs)"

primrec expect_regs :: "(Register \<times> RV64UDWord) list \<Rightarrow> executor_test \<Rightarrow> bool res" where
  "expect_regs [] t = Inr True"
| "expect_regs (x # xs) t = bindE (ReadReg (fst x) t) (\<lambda>v. bindE (expect_regs xs t) (\<lambda>rest. Inr (v = snd x \<and> rest)))"

definition test_LOAD_Positive :: "env \<Rightarrow> hart_exec \<Rightarrow> executor_test \<Rightarrow> bool res" where
  "test_LOAD_Positive E exec t =
     (let BASE = 42; OFFSET = 22; ADDRESS = of_int BASE + OFFSET
      in bindE (LoadImm12 exec 2 BASE t) (\<lambda>t. bindE (test_storeDWord E ADDRESS 100 t) (\<lambda>t.
         bindE (ReadReg PC t) (\<lambda>prevPC.
         bindE (exec_loads exec OFFSET [(LB, 3), (LH, 4), (LW, 5), (LD, 6), (LBU, 7), (LHU, 8), (LWU, 9)] t) (\<lambda>t.
         expect_regs [(PC, prevPC + 4 * 7), (3, 100), (4, 100), (5, 100), (6, 100), (7, 100), (8, 100), (9, 100)] t)))))"

definition test_LOAD_Negative :: "env \<Rightarrow> hart_exec \<Rightarrow> executor_test \<Rightarrow> bool res" where
  "test_LOAD_Negative E exec t =
     (let BASE = 42; OFFSET = 22; ADDRESS = of_int BASE + OFFSET
      in bindE (LoadImm12 exec 2 BASE t) (\<lambda>t. bindE (test_storeDWord E ADDRESS (- 1) t) (\<lambda>t.
         bindE (ReadReg PC t) (\<lambda>prevPC.
         bindE (exec_loads exec OFFSET [(LB, 3), (LH, 4), (LW, 5), (LD, 6), (LBU, 7), (LHU, 8), (LWU, 9)] t) (\<lambda>t.
         expect_regs [(PC, prevPC + 4 * 7), (3, Unsignify (- 1)), (4, Unsignify (- 1)), (5, Unsignify (- 1)), (6, Unsignify (- 1)),
           (7, 2 ^ 8 - 1), (8, 2 ^ 16 - 1), (9, 2 ^ 32 - 1)] t)))))"

definition test_STORE :: "hart_exec \<Rightarrow> executor_test \<Rightarrow> bool res" where
  "test_STORE exec t =
     (let BASE = 42; OFFSET = 22; ADDRESS = of_int BASE + OFFSET
      in bindE (LoadImm12 exec 2 BASE t) (\<lambda>t. bindE (LoadImm12 exec 3 100 t) (\<lambda>t. bindE (ReadReg PC t) (\<lambda>prevPC.
         bindE (Exec exec (SetupInstrS SB 2 3 OFFSET t)) (\<lambda>t. bindE (test_load mmu_loadByte ADDRESS t) (\<lambda>(b, t).
         bindE (Exec exec (SetupInstrS SH 2 3 OFFSET t)) (\<lambda>t. bindE (test_load mmu_loadHWord ADDRESS t) (\<lambda>(hw, t).
         bindE (Exec exec (SetupInstrS SW 2 3 OFFSET t)) (\<lambda>t. bindE (test_load mmu_loadWord ADDRESS t) (\<lambda>(w, t).
         bindE (Exec exec (SetupInstrS SD 2 3 OFFSET t)) (\<lambda>t. bindE (test_load mmu_loadDWord ADDRESS t) (\<lambda>(d, t).
         bindE (ReadReg PC t) (\<lambda>pc.
         Inr (b = 100 \<and> hw = 100 \<and> w = 100 \<and> d = 100 \<and> pc = prevPC + 4 * 4))))))))))))))"

section \<open>Two programs\<close>

text \<open>The instructions of the arrays, and the loop that executes them up to the given address.\<close>

definition sum_instrs :: "Instruction list" where
  "sum_instrs =
     [\<lparr>rd = 1, rs1 = 0, rs2 = 0, immidiate = 0, operation = ADD\<rparr>,
      \<lparr>rd = 2, rs1 = 0, rs2 = 0, immidiate = 0, operation = ADD\<rparr>,
      \<lparr>rd = 3, rs1 = 0, rs2 = 0, immidiate = 5, operation = ADDI\<rparr>,
      \<lparr>rd = 1, rs1 = 1, rs2 = 2, immidiate = 0, operation = ADD\<rparr>,
      \<lparr>rd = 2, rs1 = 2, rs2 = 0, immidiate = 1, operation = ADDI\<rparr>,
      \<lparr>rd = 0, rs1 = 2, rs2 = 3, immidiate = ucast (Unsignify (- 8) :: u32), operation = BLT\<rparr>,
      \<lparr>rd = 0, rs1 = 0, rs2 = 0, immidiate = 0, operation = ADD\<rparr>]"

definition mul_instrs :: "Instruction list" where
  "mul_instrs =
     [\<lparr>rd = 1, rs1 = 0, rs2 = 0, immidiate = 15, operation = ADDI\<rparr>,
      \<lparr>rd = 2, rs1 = 0, rs2 = 0, immidiate = 8, operation = ADDI\<rparr>,
      \<lparr>rd = 3, rs1 = 0, rs2 = 0, immidiate = 0, operation = ADD\<rparr>,
      \<lparr>rd = 4, rs1 = 0, rs2 = 0, immidiate = 32, operation = ADDI\<rparr>,
      \<lparr>rd = 5, rs1 = 0, rs2 = 0, immidiate = 0, operation = ADD\<rparr>,
      \<lparr>rd = 6, rs1 = 2, rs2 = 0, immidiate = 1, operation = ANDI\<rparr>,
      \<lparr>rd = 0, rs1 = 6, rs2 = 0, immidiate = 8, operation = BEQ\<rparr>,
      \<lparr>rd = 3, rs1 = 3, rs2 = 1, immidiate = 0, operation = ADD\<rparr>,
      \<lparr>rd = 2, rs1 = 2, rs2 = 0, immidiate = 1, operation = SRLI\<rparr>,
      \<lparr>rd = 1, rs1 = 1, rs2 = 0, immidiate = 1, operation = SLLI\<rparr>,
      \<lparr>rd = 0, rs1 = 2, rs2 = 0, immidiate = ucast (Unsignify (- 20) :: u32), operation = BNE\<rparr>,
      \<lparr>rd = 0, rs1 = 0, rs2 = 0, immidiate = 0, operation = ADD\<rparr>]"

fun exec_program :: "nat \<Rightarrow> hart_exec \<Rightarrow> Instruction list \<Rightarrow> RV64UDWord \<Rightarrow> Hart \<Rightarrow> Hart res" where
  "exec_program fuel exec is end_pc h =
     bindE (gprf_read PC (h_gprf h)) (\<lambda>pc.
     if pc \<le> end_pc then
       (case fuel of
          0 \<Rightarrow> Inl OutOfFuel
        | Suc n \<Rightarrow> bindE (exec (is ! unat (pc div 4)) h) (\<lambda>h. exec_program n exec is end_pc h))
     else Inr h)"

declare exec_program.simps [simp del]

definition test_program_Sum :: "nat \<Rightarrow> hart_exec \<Rightarrow> Hart \<Rightarrow> bool res" where
  "test_program_Sum fuel exec h =
     bindE (exec_program fuel exec sum_instrs 20 h) (\<lambda>h. bindE (gprf_read 1 (h_gprf h)) (\<lambda>v. Inr (v = 10)))"

definition test_program_Mul :: "nat \<Rightarrow> hart_exec \<Rightarrow> Hart \<Rightarrow> bool res" where
  "test_program_Mul fuel exec h =
     bindE (exec_program fuel exec mul_instrs 40 h) (\<lambda>h. bindE (gprf_read 3 (h_gprf h)) (\<lambda>v. Inr (v = 15 * 8)))"

end
