(* ===== verification/ExecutorTestRuns.thy ===== *)
theory ExecutorTestRuns
  imports ExecutorTests
begin

text \<open>
  The tests of \<open>ExecutorTests\<close> run against the handlers.  The member function they call does not exist
  in the repository and nothing says what it did; \<open>with_instr\<close> and \<open>run_handler\<close> are a harness of this
  development in its place, which makes the instruction the current one and calls its handler.  The
  results are about the handlers under this harness, not about the program's tests as they stand.
  The lemmas of the locale \<open>executor\<close> run the tests on the architecture's machine of \<open>IsaMachine\<close>, which the
  handlers follow: all tests pass but those of \<^verbatim>\<open>LUI\<close> and \<^verbatim>\<open>AUIPC\<close>, which expect the handler to shift
  the immediate.
\<close>

section \<open>The harness\<close>

definition with_instr :: "Instruction \<Rightarrow> Hart \<Rightarrow> Hart" where
  "with_instr i h =
     h\<lparr>bbCache := set_bb 0 \<lparr>instrs = i # replicate 7 (i\<lparr>operation := BB_END\<rparr>), bb_pc = 1\<rparr> (bbCache h), currentInstr := Some (0, 0)\<rparr>"

definition run_handler :: "env \<Rightarrow> hart_exec" where
  "run_handler E i h =
     bindE (dispatch E (with_instr i h)) (\<lambda>r. case r of Dispatch g \<Rightarrow> Inr g | Return g \<Rightarrow> Inr g)"

text \<open>\<open>plain h s\<close>: the hart shows the registers and memory of \<open>s\<close>, and no block of its cache is in use.\<close>

definition plain :: "env \<Rightarrow> (RV64Ptr \<Rightarrow> nat \<Rightarrow> bool) \<Rightarrow> Hart \<Rightarrow> isa_state \<Rightarrow> bool" where
  "plain E area h s \<longleftrightarrow> mirrors E area {} h s \<and> (\<forall>bb\<in>set (bbs (bbCache h)). bb_pc bb = 1)"

definition reads :: "Hart \<Rightarrow> isa_state \<Rightarrow> bool" where
  "reads h s \<longleftrightarrow> pc_of h = isa_pc s \<and> (\<forall>r<32. reg_val (h_gprf h) r = isa_reg r s)"

lemma plain_reads: "plain E area h s \<Longrightarrow> reads h s"
  by (simp add: plain_def mirrors_def reads_def)

lemma current_with_instr:
  assumes "cache_ok (bbCache h)"
  shows "current (with_instr i h) = Inr i"
  using cache_okD [OF assms] by (simp add: current_def with_instr_def set_bb_def cache_shape_def)

lemma plain_with_instr:
  assumes p: "plain E area h s" and wf: "wf_instr i"
  shows "plain E area (with_instr i h) s" and "ready E (with_instr i h)" and "current (with_instr i h) = Inr i"
proof -
  let ?bb = "\<lparr>instrs = i # replicate 7 (i\<lparr>operation := BB_END\<rparr>), bb_pc = 1\<rparr>" and ?c = "bbCache h"
  have m: "mirrors E area {} h s" and used: "\<forall>bb\<in>set (bbs ?c). bb_pc bb = 1" using p by (simp_all add: plain_def)
  have core: "core_ok E h" using m by (simp add: mirrors_def)
  then have cache: "cache_ok ?c" "blocks_ok ?c" by (simp_all add: core_ok_def)
  have shape: "cache_shape ?c" using cache(1) by (rule cache_okD)
  have len: "0 < length (bbs ?c)" using shape by (simp add: cache_shape_def)
  have sub: "set (bbs (set_bb 0 ?bb ?c)) \<subseteq> insert ?bb (set (bbs ?c))"
    using set_update_subset_insert [of "bbs ?c" 0 ?bb] by (simp add: set_bb_def)
  then have unused: "\<forall>bb\<in>set (bbs (set_bb 0 ?bb ?c)). bb_pc bb = 1" using used by auto
  have shape': "cache_shape (set_bb 0 ?bb ?c)" by (rule cache_shape_set_bb [OF shape])
  have "way_pc (set_bb 0 ?bb ?c) a w = 1" if "a < 128" "w < 8" for a w
    using unused shape' that by (simp add: way_pc_def cache_shape_def)
  then have "cache_ok (set_bb 0 ?bb ?c)" using shape' by (simp add: cache_ok_def)
  moreover have be: "block_end ?bb 1" using wf by (simp add: block_end_def)
  then have "blocks_ok (set_bb 0 ?bb ?c)" using cache(2) sub by (auto simp: blocks_ok_def)
  ultimately have core': "core_ok E (with_instr i h)" using core by (simp add: core_ok_def with_instr_def)
  show "plain E area (with_instr i h) s"
    using m core' unused by (auto simp: plain_def mirrors_def with_instr_def pc_of_def)
  show "current (with_instr i h) = Inr i" by (rule current_with_instr [OF cache(1)])
  have "within (<) (with_instr i h)"
    using be len by (auto simp: within_def with_instr_def set_bb_def intro!: exI [of _ 1])
  then show "ready E (with_instr i h)" using core' by (simp add: ready_def)
qed

text \<open>
  Jumps by an odd offset, which no instruction word encodes but the tests use: the program counter and
  the registers afterwards.
\<close>

lemma reads_jump:
  assumes "wf_gprf (h_gprf h)" and "\<forall>r<32. reg_val (h_gprf h) r = isa_reg r s" and "t = isa_pc s"
  shows "reads (retire i (jump t h)) s"
proof -
  have g: "h_gprf (retire i (jump t h)) = set_reg PC t (h_gprf h)" by (simp add: retire_def jump_def)
  then have "pc_of (retire i (jump t h)) = t" using reg_val_set_reg [OF assms(1), of PC t] by (simp add: pc_of_def)
  moreover have "reg_val (h_gprf (retire i (jump t h))) r = isa_reg r s" if "r < 32" for r
    using g reg_val_set_reg [OF assms(1), of PC t] assms(2) that by auto
  ultimately show ?thesis using assms(3) by (simp add: reads_def)
qed

lemma odd_branch:
  assumes p: "plain E area h s" and rs: "rs1 i < 32" "rs2 i < 32" and op: "operation i \<in> set branch_ops"
    and b: "bit (immidiate i) 11 = bit (immidiate i) 12"
  shows "\<exists>g. dispatch E (with_instr i h) = Inr (Dispatch g) \<and> reads g (isa_exec i s)"
proof -
  let ?w = "with_instr i h" and ?t = "isa_target i s"
  have m: "mirrors E area {} h s" using p by (simp add: plain_def)
  have cur: "current ?w = Inr i" by (rule current_with_instr) (use m in \<open>simp add: mirrors_def core_ok_def\<close>)
  have w: "h_gprf ?w = h_gprf h" by (simp add: with_instr_def)
  have pc: "pc_of ?w = isa_pc s" using m w by (simp add: mirrors_def pc_of_def)
  have regs: "\<forall>r<32. reg_val (h_gprf ?w) r = isa_reg r s" using m w by (simp add: mirrors_def)
  have rd: "read_reg (rs1 i) ?w = Inr (isa_reg (rs1 i) s)" "read_reg (rs2 i) ?w = Inr (isa_reg (rs2 i) s)"
    using rs regs unat_wf_reg by (simp_all add: read_reg_eq)
  have bt: "branch_to taken target ?w = Inr (Dispatch (retire i (jump (if taken then target else isa_pc s + 4) ?w)))" for taken target
    using execNextInstr_eq [of "jump target ?w" i] execNextInstr_eq [of "jump (pc_of ?w + 4) ?w" i] cur pc
    unfolding branch_to_def by (simp add: write_PC_eq nextPC_eq del: reg_const_simps)
  have "signed_take_bit 11 (immidiate i) = signed_take_bit 12 (immidiate i)"
    using signed_take_bit_agree [of 11 "immidiate i"] b by simp
  then have "dispatch E ?w = Inr (Dispatch (retire i (jump ?t ?w)))"
    using op dispatch_eq [OF cur, of E] cur rd pc read_PC_eq [of ?w] bt
    unfolding branch_ops_def
    by (auto simp: branch_defs SignExtend_12 Signify_def word_sless_alt word_sle_eq isa_target_def branch_ops_def simp del: reg_const_simps)
  moreover have "reads (retire i (jump ?t ?w)) (isa_exec i s)"
  proof (rule reads_jump)
    show "wf_gprf (h_gprf ?w)" using m w by (simp add: mirrors_def core_ok_def)
    show "\<forall>r<32. reg_val (h_gprf ?w) r = isa_reg r (isa_exec i s)"
      using regs effect_branch [OF op] by (simp add: isa_exec_def isa_reg_def)
  qed (simp add: isa_exec_def)
  ultimately show ?thesis by blast
qed

lemma odd_jal:
  assumes p: "plain E area h s" and d: "rd i < 32" and op: "operation i = JAL" and b: "bit (immidiate i) 19 = bit (immidiate i) 20"
  shows "\<exists>g. dispatch E (with_instr i h) = Inr (Dispatch g) \<and> reads g (isa_exec i s)"
proof -
  let ?w = "with_instr i h" and ?t = "isa_target i s"
  let ?v = "put_rd i (isa_pc s + 4) ?w"
  have m: "mirrors E area {} h s" using p by (simp add: plain_def)
  have cur: "current ?w = Inr i" by (rule current_with_instr) (use m in \<open>simp add: mirrors_def core_ok_def\<close>)
  have w: "h_gprf ?w = h_gprf h" by (simp add: with_instr_def)
  have gprf: "wf_gprf (h_gprf ?w)" using m w by (simp add: mirrors_def core_ok_def)
  have pc: "pc_of ?w = isa_pc s" using m w by (simp add: mirrors_def pc_of_def)
  have wr: "write_reg (rd i) (isa_pc s + 4) ?w = Inr ?v"
    using write_reg_eq [OF unat_wf_reg [OF d], of "isa_pc s + 4" ?w] by (simp add: put_rd_def)
  have "signed_take_bit 19 (immidiate i) = signed_take_bit 20 (immidiate i)"
    using signed_take_bit_agree [of 19 "immidiate i"] b by simp
  then have t: "isa_pc s + SignExtend 20 (immidiate i) = ?t"
    by (simp add: isa_target_def op SignExtend_eq_signed_take_bit)
  have "dispatch E ?w = Inr (Dispatch (retire i (jump ?t ?v)))"
    using dispatch_eq [OF cur, of E] cur op wr pc read_PC_eq [of ?w] execNextInstr_eq [of "jump ?t ?v" i] t
    by (simp add: exec_JAL_def write_PC_eq Let_def del: reg_const_simps)
  moreover have "reads (retire i (jump ?t ?v)) (isa_exec i s)"
  proof (rule reads_jump)
    show "wf_gprf (h_gprf ?v)" using gprf by (simp add: put_rd_def wf_set_reg)
    have regs: "\<forall>r<32. reg_val (h_gprf ?w) r = isa_reg r s" using m w by (simp add: mirrors_def)
    have size: "unat (rd i) < GPRF_Size" using unat_wf_reg [OF d] by simp
    have "isa_effect i s = isa_write (rd i) (isa_pc s + 4) s"
      by (simp add: isa_effect_def op alu_ops_def load_ops_def store_ops_def)
    then show "\<forall>r<32. reg_val (h_gprf ?v) r = isa_reg r (isa_exec i s)"
      using reg_val_set_reg [OF gprf size, of "isa_pc s + 4"] regs
      by (auto simp: put_rd_def isa_exec_def isa_reg_def isa_write_def)
  qed (simp add: isa_exec_def)
  ultimately show ?thesis by blast
qed

lemma read_pc: "reads h s \<Longrightarrow> gprf_read PC (h_gprf h) = Inr (isa_pc s)"
proof -
  assume "reads h s"
  then have pc: "reg_val (h_gprf h) PC = isa_pc s" by (simp add: reads_def pc_of_def)
  have "gprf_read PC (h_gprf h) = Inr (reg_val (h_gprf h) PC)" by (rule gprf_read_eq) simp
  then show ?thesis unfolding pc .
qed

lemma read_reg_32: "reads h s \<Longrightarrow> r < 32 \<Longrightarrow> gprf_read r (h_gprf h) = Inr (isa_reg r s)"
  using unat_wf_reg [of r] by (simp add: gprf_read_eq reads_def)

text \<open>The programs on the architecture's machine, as long as the handlers follow it.\<close>

definition program_ok :: "Instruction \<Rightarrow> isa_state \<Rightarrow> bool" where
  "program_ok i s \<longleftrightarrow>
     alu_exact (operation i) (isa_operand2 i s) \<or>
     operation i \<in> set branch_ops \<and> bit (immidiate i) 11 = bit (immidiate i) 12"

fun isa_program :: "nat \<Rightarrow> Instruction list \<Rightarrow> RV64UDWord \<Rightarrow> isa_state \<Rightarrow> isa_state option" where
  "isa_program fuel is end_pc s =
     (if isa_pc s \<le> end_pc then
        (case fuel of
           0 \<Rightarrow> None
         | Suc n \<Rightarrow>
             (let i = is ! unat (isa_pc s div 4)
              in if program_ok i s then isa_program n is end_pc (isa_exec i s) else None))
      else Some s)"

declare isa_program.simps [simp del]

lemma program_wf:
  "\<forall>i\<in>set sum_instrs. wf_instr i" "unat (20 div 4 :: RV64UDWord) < length sum_instrs"
  "\<forall>i\<in>set mul_instrs. wf_instr i" "unat (40 div 4 :: RV64UDWord) < length mul_instrs"
  by (simp_all add: sum_instrs_def mul_instrs_def wf_instr_def is_direct_jump_def Unsignify_def)

lemma sum_runs: "\<exists>s'. isa_program 18 sum_instrs 20 \<lparr>isa_pc = 0, isa_regs = r, isa_mem = m\<rparr> = Some s' \<and> isa_reg 1 s' = 10"
proof -
  have "map_option (isa_reg 1) (isa_program 18 sum_instrs 20 \<lparr>isa_pc = 0, isa_regs = r, isa_mem = m\<rparr>) = Some 10"
    by code_simp
  then show ?thesis by auto
qed

lemma mul_runs: "\<exists>s'. isa_program 29 mul_instrs 40 \<lparr>isa_pc = 0, isa_regs = r, isa_mem = m\<rparr> = Some s' \<and> isa_reg 3 s' = 120"
proof -
  have "map_option (isa_reg 3) (isa_program 29 mul_instrs 40 \<lparr>isa_pc = 0, isa_regs = r, isa_mem = m\<rparr>) = Some 120"
    by code_simp
  then show ?thesis by auto
qed

text \<open>\<open>fits E area t s\<close>: the same for the fixture of a test; \<open>waits\<close>: with the registers of the store test.\<close>

definition fits :: "env \<Rightarrow> (RV64Ptr \<Rightarrow> nat \<Rightarrow> bool) \<Rightarrow> executor_test \<Rightarrow> isa_state \<Rightarrow> bool" where
  "fits E area t s \<longleftrightarrow> plain E area (fx_hart t) s \<and> rd (fx_instr t) < 32 \<and> rs1 (fx_instr t) < 32 \<and> rs2 (fx_instr t) < 32"

definition load_imm :: "Register \<Rightarrow> int \<Rightarrow> isa_state \<Rightarrow> isa_state" where
  "load_imm d v s = s\<lparr>isa_regs := (isa_regs s)(d := word_of_int v), isa_pc := isa_pc s + 4\<rparr>"

definition waits :: "env \<Rightarrow> (RV64Ptr \<Rightarrow> nat \<Rightarrow> bool) \<Rightarrow> executor_test \<Rightarrow> RV64Ptr \<Rightarrow> bool" where
  "waits E area t pc \<longleftrightarrow> (\<exists>s. fits E area t s \<and> isa_reg 2 s = 42 \<and> isa_reg 3 s = 100 \<and> isa_pc s = pc)"

locale executor =
  fixes E :: env and exec :: "Instruction \<Rightarrow> Hart \<Rightarrow> Hart res"
  assumes exec_dispatch: "dispatch E (with_instr i h) = Inr (Dispatch g) \<Longrightarrow> exec i h = Inr g"
begin

text \<open>An instruction for which the handler follows the architecture.\<close>

lemma exec_plain:
  assumes p: "plain E area h s" and wf: "wf_instr i" and a: "agrees area {} i s"
  shows "\<exists>h'. exec i h = Inr h' \<and> plain E area h' (isa_exec i s)"
proof -
  let ?h = "with_instr i h"
  note w = plain_with_instr [OF p wf]
  have m: "mirrors E area {} ?h s" and used: "\<forall>bb\<in>set (bbs (bbCache ?h)). bb_pc bb = 1" using w(1) by (simp_all add: plain_def)
  obtain g where g: "does i E ?h (isa_target i s) g" "carries ?h g (isa_effect i s)"
    using exec_agrees [OF w(2,3) m a] by blast
  let ?g = "retire i (jump (isa_target i s) g)"
  have d: "dispatch E ?h = Inr (Dispatch ?g)" using g(1) by (simp add: does_def)
  have core: "core_ok E ?g" using validD [OF dispatch_ok [OF ready_hart_ok [OF w(2)]] d] by (simp add: hart_ok_def)
  have c: "bbCache g = bbCache ?h" "prefetcher g = prefetcher ?h" "wf_gprf (h_gprf g)" "pm_ext (h_mem ?h) (h_mem g)"
      "pm_peek (h_mem g) = isa_mem (isa_effect i s)" "\<forall>r<32. reg_val (h_gprf g) r = isa_reg r (isa_effect i s)"
    using g(2) by (simp_all add: carries_def)
  have s': "isa_mem (isa_exec i s) = isa_mem (isa_effect i s)" "isa_pc (isa_exec i s) = isa_target i s"
      "isa_reg r (isa_exec i s) = isa_reg r (isa_effect i s)" for r
    unfolding isa_exec_def isa_reg_def by simp_all
  have "mirrors E area {} ?g (isa_exec i s)"
    by (rule mirrors_next [OF m c(1-4)]) (simp_all add: c(5,6) s' core)
  moreover have "bbCache ?g = bbCache ?h" using c(1) by (simp add: retire_def jump_def)
  ultimately show ?thesis using exec_dispatch [OF d] used by (auto simp: plain_def)
qed

lemma fits_setup [simp]:
  "fits E area t s \<Longrightarrow> d < 32 \<Longrightarrow> s1 < 32 \<Longrightarrow> s2 < 32 \<Longrightarrow> fits E area (SetupInstrR op d s1 s2 t) s"
  "fits E area t s \<Longrightarrow> d < 32 \<Longrightarrow> s1 < 32 \<Longrightarrow> fits E area (SetupInstrI op d s1 imm t) s"
  "fits E area t s \<Longrightarrow> d < 32 \<Longrightarrow> fits E area (SetupInstrU op d imm t) s"
  "fits E area t s \<Longrightarrow> s1 < 32 \<Longrightarrow> s2 < 32 \<Longrightarrow> fits E area (SetupInstrB op s1 s2 imm t) s"
  by (simp_all add: fits_def SetupInstrR_def SetupInstrI_def SetupInstrU_def SetupInstrB_def)

lemma exec_fits:
  assumes f: "fits E area t s" and j: "is_direct_jump (operation (fx_instr t)) \<longrightarrow> even (immidiate (fx_instr t))"
    and e: "operation (fx_instr t) \<noteq> BB_END" and a: "agrees area {} (fx_instr t) s"
  shows "\<exists>t'. Exec exec t = Inr t' \<and> fits E area t' (isa_exec (fx_instr t) s)"
  using exec_plain [of area "fx_hart t" s "fx_instr t"] assms by (auto simp: fits_def wf_instr_def Exec_def)

lemma read_fits:
  assumes "reads (fx_hart t) s"
  shows "ReadReg PC t = Inr (isa_pc s)" and "r < 32 \<Longrightarrow> ReadReg r t = Inr (isa_reg r s)"
proof -
  have pc: "reg_val (h_gprf (fx_hart t)) PC = isa_pc s" using assms by (simp add: reads_def pc_of_def)
  have "gprf_read PC (h_gprf (fx_hart t)) = Inr (reg_val (h_gprf (fx_hart t)) PC)" by (rule gprf_read_eq) simp
  then show "ReadReg PC t = Inr (isa_pc s)" unfolding ReadReg_def pc .
  show "ReadReg r t = Inr (isa_reg r s)" if "r < 32"
    using assms that unat_wf_reg [OF that] by (simp add: ReadReg_def gprf_read_eq reads_def)
qed

lemma fits_reads: "fits E area t s \<Longrightarrow> reads (fx_hart t) s"
  unfolding fits_def using plain_reads by blast

text \<open>A test that ends by comparing a register says what the architecture's machine has in it.\<close>

lemma expect_reg_eq:
  assumes f: "fits E area t s" and e: "operation (fx_instr t) \<notin> {BB_END, JAL, JALR} \<union> set branch_ops" and a: "agrees area {} (fx_instr t) s"
    and r: "r < 32"
  shows "expect_reg exec r P t = Inr (P (isa_reg r (isa_effect (fx_instr t) s)))"
proof -
  have "\<not> is_direct_jump (operation (fx_instr t))" using e by (auto simp: is_direct_jump_def branch_ops_def)
  then obtain t' where t': "Exec exec t = Inr t'" "fits E area t' (isa_exec (fx_instr t) s)" using exec_fits [OF f _ _ a] e by auto
  have "isa_pc (isa_exec (fx_instr t) s) = isa_pc s + 4" "isa_reg r (isa_exec (fx_instr t) s) = isa_reg r (isa_effect (fx_instr t) s)"
    using e target_next [of "fx_instr t" s] by (simp_all add: isa_exec_def isa_reg_def)
  then show ?thesis
    using t'(1) read_fits [OF fits_reads [OF t'(2)]] read_fits(1) [OF fits_reads [OF f]] r
    by (simp add: expect_reg_def del: reg_const_simps)
qed

lemma imm12: "- 2048 \<le> v \<Longrightarrow> v < 2048 \<Longrightarrow> signed_take_bit 11 (ExtractBits 12 0 (Unsignify v :: u64)) = word_of_int v"
proof -
  assume "- 2048 \<le> v" "v < 2048"
  then have "signed_take_bit 11 v = v" by (intro signed_take_bit_int_eq_self) simp_all
  then have b: "bit v n = bit (signed_take_bit 11 v) n" for n by simp
  show ?thesis
  proof (rule bit_word_eqI)
    fix n
    assume n: "n < LENGTH(64)"
    have "bit (word_of_int v :: u64) n = bit v (min 11 n)"
      using n b [of n] by (simp add: bit_signed_take_bit_iff bit_word_of_int_iff)
    moreover have "bit (signed_take_bit 11 (ExtractBits 12 0 (Unsignify v :: u64))) n = bit v (min 11 n)"
      using n by (simp add: ExtractBits_eq Unsignify_def bit_signed_take_bit_iff bit_take_bit_iff bit_word_of_int_iff min_less_iff_disj)
    ultimately show "bit (signed_take_bit 11 (ExtractBits 12 0 (Unsignify v :: u64))) n = bit (word_of_int v :: u64) n" by simp
  qed
qed

lemma LoadImm12_fits:
  assumes f: "fits E area t s" and d: "d < 32" and v: "- 2048 \<le> v" "v < 2048"
  shows "\<exists>t'. LoadImm12 exec d v t = Inr t' \<and> fits E area t' (load_imm d v s)"
proof -
  let ?t = "SetupInstrISigned ADDI d 0 v t"
  have f': "fits E area ?t s" using f d by (simp add: SetupInstrISigned_def)
  have i: "operation (fx_instr ?t) = ADDI" "rd (fx_instr ?t) = d" "rs1 (fx_instr ?t) = 0" "immidiate (fx_instr ?t) = ExtractBits 12 0 (Unsignify v)"
    by (simp_all add: SetupInstrISigned_def SetupInstrI_def)
  have "agrees area {} (fx_instr ?t) s" by (simp add: agrees_def i alu_exact_def)
  then obtain t' where t': "Exec exec ?t = Inr t'" "fits E area t' (isa_exec (fx_instr ?t) s)"
    using exec_fits [OF f'] i by (auto simp: is_direct_jump_def)
  have "isa_exec (fx_instr ?t) s = load_imm d v s"
    using imm12 [OF v] by (simp add: isa_exec_def isa_effect_def isa_target_def i alu_ops_def branch_ops_def isa_write_def isa_value_def
        isa_operand2_def register_ops_def isa_reg_def load_imm_def)
  then show ?thesis using t' by (auto simp: LoadImm12_def)
qed

lemma immediate_test:
  assumes f: "fits E area t s" and op: "op \<in> {ADDI, SLTI, SLTIU, ANDI, ORI, XORI, SLLI, SRLI, SRAI}"
    and ab: "- 2048 \<le> a" "a < 2048" "- 2048 \<le> b" "b < 2048" "imm = Unsignify b" and e: "alu_exact op (word_of_int b)"
    and P: "P (isa_alu op (word_of_int a) (word_of_int b))"
  shows "passes (bindE (LoadImm12 exec 1 a t) (\<lambda>t. expect_reg exec 2 P (SetupInstrI op 2 1 imm t)))"
proof -
  obtain t1 where t1: "LoadImm12 exec 1 a t = Inr t1" "fits E area t1 (load_imm 1 a s)" using LoadImm12_fits [OF f _ ab(1,2), of 1] by auto
  let ?t = "SetupInstrI op 2 1 imm t1" and ?s = "load_imm 1 a s"
  have i: "operation (fx_instr ?t) = op" "rd (fx_instr ?t) = 2" "rs1 (fx_instr ?t) = 1" "immidiate (fx_instr ?t) = ExtractBits 12 0 imm"
    by (simp_all add: SetupInstrI_def)
  have ops: "op \<notin> set register_ops" "op \<in> set alu_ops" "op \<notin> {BB_END, JAL, JALR} \<union> set branch_ops"
    using op by (auto simp: register_ops_def alu_ops_def branch_ops_def)
  have "signed_take_bit 11 (ExtractBits 12 0 imm) = word_of_int b" using imm12 [OF ab(3,4)] ab(5) by simp
  then have o2: "isa_operand2 (fx_instr ?t) ?s = word_of_int b" using ops(1) by (simp add: isa_operand2_def i)
  have "isa_reg 1 ?s = word_of_int a" by (simp add: isa_reg_def load_imm_def)
  then have "isa_reg 2 (isa_effect (fx_instr ?t) ?s) = isa_alu op (word_of_int a) (word_of_int b)"
    using ops(2) o2 effect_alu [of "fx_instr ?t" ?s] by (simp add: i isa_write_def isa_value_def) (simp add: isa_reg_def)
  moreover have "expect_reg exec 2 P ?t = Inr (P (isa_reg 2 (isa_effect (fx_instr ?t) ?s)))"
    by (rule expect_reg_eq [of area]) (use t1(2) ops(3) e in \<open>simp_all add: i agrees_def o2\<close>)
  ultimately show ?thesis using t1(1) P by simp
qed

lemma register_test:
  assumes f: "fits E area t s" and op: "op \<in> {ADD, SUB, SLT, SLTU, SLL, SRL, SRA}"
    and ab: "- 2048 \<le> a" "a < 2048" "- 2048 \<le> b" "b < 2048"
    and xy: "(s1, x) \<in> {(1, a), (2, b)}" "(s2, y) \<in> {(1, a), (2, b)}" and e: "alu_exact op (word_of_int y)"
    and P: "P (isa_alu op (word_of_int x) (word_of_int y))"
  shows "passes (bindE (LoadImm12 exec 1 a t) (\<lambda>t. bindE (LoadImm12 exec 2 b t) (\<lambda>t. expect_reg exec 3 P (SetupInstrR op 3 s1 s2 t))))"
proof -
  let ?s = "load_imm 2 b (load_imm 1 a s)"
  obtain t1 where t1: "LoadImm12 exec 1 a t = Inr t1" "fits E area t1 (load_imm 1 a s)" using LoadImm12_fits [OF f _ ab(1,2), of 1] by auto
  then obtain t2 where t2: "LoadImm12 exec 2 b t1 = Inr t2" "fits E area t2 ?s" using LoadImm12_fits [OF t1(2) _ ab(3,4), of 2] by auto
  let ?t = "SetupInstrR op 3 s1 s2 t2"
  have i: "operation (fx_instr ?t) = op" "rd (fx_instr ?t) = 3" "rs1 (fx_instr ?t) = s1" "rs2 (fx_instr ?t) = s2"
    by (simp_all add: SetupInstrR_def)
  have regs: "isa_reg s1 ?s = word_of_int x" "isa_reg s2 ?s = word_of_int y" "s1 < 32" "s2 < 32"
    using xy by (auto simp: isa_reg_def load_imm_def)
  have ops: "op \<in> set register_ops" "op \<in> set alu_ops" "op \<notin> {BB_END, JAL, JALR} \<union> set branch_ops"
    using op by (auto simp: register_ops_def alu_ops_def branch_ops_def)
  have o2: "isa_operand2 (fx_instr ?t) ?s = word_of_int y" using ops(1) regs(2) by (simp add: isa_operand2_def i)
  have "isa_reg 3 (isa_effect (fx_instr ?t) ?s) = isa_alu op (word_of_int x) (word_of_int y)"
    using ops(2) o2 regs(1) effect_alu [of "fx_instr ?t" ?s] by (simp add: i isa_write_def isa_value_def) (simp add: isa_reg_def)
  moreover have "expect_reg exec 3 P ?t = Inr (P (isa_reg 3 (isa_effect (fx_instr ?t) ?s)))"
    by (rule expect_reg_eq [of area]) (use t2(2) ops(3) e regs(3,4) in \<open>simp_all add: i agrees_def o2\<close>)
  ultimately show ?thesis using t1(1) t2(1) P by simp
qed

lemma branch_test:
  assumes f: "fits E area t s" and op: "op \<in> set branch_ops" and ab: "- 2048 \<le> a" "a < 2048" "- 2048 \<le> b" "b < 2048"
    and P: "offset = (if isa_taken op (word_of_int a) (word_of_int b) then 15 else 4)"
  shows "passes (bindE (LoadImm12 exec 2 a t) (\<lambda>t. bindE (LoadImm12 exec 3 b t) (\<lambda>t. expect_pc exec offset (SetupInstrB op 2 3 15 t))))"
proof -
  let ?s = "load_imm 3 b (load_imm 2 a s)"
  obtain t1 where t1: "LoadImm12 exec 2 a t = Inr t1" "fits E area t1 (load_imm 2 a s)" using LoadImm12_fits [OF f _ ab(1,2), of 2] by auto
  then obtain t2 where t2: "LoadImm12 exec 3 b t1 = Inr t2" "fits E area t2 ?s" using LoadImm12_fits [OF t1(2) _ ab(3,4), of 3] by auto
  let ?t = "SetupInstrB op 2 3 15 t2"
  have i: "operation (fx_instr ?t) = op" "rs1 (fx_instr ?t) = 2" "rs2 (fx_instr ?t) = 3" "immidiate (fx_instr ?t) = 15"
      "fx_hart ?t = fx_hart t2"
    by (simp_all add: SetupInstrB_def)
  obtain g where g: "dispatch E (with_instr (fx_instr ?t) (fx_hart t2)) = Inr (Dispatch g)" "reads g (isa_exec (fx_instr ?t) ?s)"
    using odd_branch [of E area "fx_hart t2" ?s "fx_instr ?t"] t2(2) op by (auto simp: fits_def i bit_numeral_rec)
  have x: "Exec exec ?t = Inr (?t\<lparr>fx_hart := g\<rparr>)" using exec_dispatch [OF g(1)] by (simp add: Exec_def i)
  have "isa_reg 2 ?s = word_of_int a" "isa_reg 3 ?s = word_of_int b" by (simp_all add: isa_reg_def load_imm_def)
  then have "isa_target (fx_instr ?t) ?s = isa_pc ?s + offset"
    using op P by (auto simp: isa_target_def i branch_ops_def)
  then have "isa_pc (isa_exec (fx_instr ?t) ?s) = isa_pc ?s + offset" by (simp add: isa_exec_def)
  moreover have "ReadReg PC ?t = Inr (isa_pc ?s)" using read_fits(1) [of t2] fits_reads [OF t2(2)] by (simp add: ReadReg_def i)
  ultimately show ?thesis
    using t1(1) t2(1) x read_fits(1) [of "?t\<lparr>fx_hart := g\<rparr>" "isa_exec (fx_instr ?t) ?s"] g(2)
    by (simp add: expect_pc_def del: reg_const_simps)
qed

lemmas eval_simps = alu_exact_def Unsignify_def Signify_def low6_def bit_numeral_rec word_sless_alt

lemma immediate_tests:
  assumes f: "fits E area t s"
  shows "passes (test_ADDI exec t)"
    "passes (test_SLTI_True exec t)"
    "passes (test_SLTI_False exec t)"
    "passes (test_SLTIU_True exec t)"
    "passes (test_SLTIU_False exec t)"
    "passes (test_ANDI exec t)"
    "passes (test_ORI exec t)"
    "passes (test_XORI exec t)"
    "passes (test_SLLI exec t)"
    "passes (test_SRLI exec t)"
    "passes (test_SRAI exec t)"
proof -
  show "passes (test_ADDI exec t)"
    unfolding test_ADDI_def SetupInstrISigned_def by (rule immediate_test [OF f, where b = "- 5"]) (simp_all add: eval_simps)
  show "passes (test_SLTI_True exec t)"
    unfolding test_SLTI_True_def SetupInstrISigned_def by (rule immediate_test [OF f, where b = "- 2"]) (simp_all add: eval_simps)
  show "passes (test_SLTI_False exec t)"
    unfolding test_SLTI_False_def SetupInstrISigned_def by (rule immediate_test [OF f, where b = "- 3"]) (simp_all add: eval_simps)
  show "passes (test_SLTIU_True exec t)"
    unfolding test_SLTIU_True_def SetupInstrISigned_def by (rule immediate_test [OF f, where b = "3"]) (simp_all add: eval_simps)
  show "passes (test_SLTIU_False exec t)"
    unfolding test_SLTIU_False_def SetupInstrISigned_def by (rule immediate_test [OF f, where b = "2"]) (simp_all add: eval_simps)
  show "passes (test_ANDI exec t)"
    unfolding test_ANDI_def SetupInstrISigned_def by (rule immediate_test [OF f, where b = "1"]) (simp_all add: eval_simps)
  show "passes (test_ORI exec t)"
    unfolding test_ORI_def SetupInstrISigned_def by (rule immediate_test [OF f, where b = "1"]) (simp_all add: eval_simps)
  show "passes (test_XORI exec t)"
    unfolding test_XORI_def SetupInstrISigned_def by (rule immediate_test [OF f, where b = "2"]) (simp_all add: eval_simps)
  show "passes (test_SLLI exec t)"
    unfolding test_SLLI_def SetupInstrISigned_def by (rule immediate_test [OF f, where b = "1"]) (simp_all add: eval_simps)
  show "passes (test_SRLI exec t)"
    unfolding test_SRLI_def SetupInstrISigned_def by (rule immediate_test [OF f, where b = "1"]) (simp_all add: eval_simps)
  show "passes (test_SRAI exec t)"
    unfolding test_SRAI_def SetupInstrISigned_def by (rule immediate_test [OF f, where b = "1"]) (simp_all add: eval_simps)
qed

lemma register_tests:
  assumes f: "fits E area t s"
  shows "passes (test_ADD exec t)"
    "passes (test_SLT_True exec t)"
    "passes (test_SLT_False exec t)"
    "passes (test_SLTU_True exec t)"
    "passes (test_SLTU_False exec t)"
    "passes (test_SLL exec t)"
    "passes (test_SRL exec t)"
    "passes (test_SUB exec t)"
    "passes (test_SRA exec t)"
proof -
  show "passes (test_ADD exec t)"
    unfolding test_ADD_def by (rule register_test [OF f, where x = "- 2" and y = "5"]) (simp_all add: eval_simps)
  show "passes (test_SLT_True exec t)"
    unfolding test_SLT_True_def by (rule register_test [OF f, where x = "- 3" and y = "- 2"]) (simp_all add: eval_simps)
  show "passes (test_SLT_False exec t)"
    unfolding test_SLT_False_def by (rule register_test [OF f, where x = "- 2" and y = "- 3"]) (simp_all add: eval_simps)
  show "passes (test_SLTU_True exec t)"
    unfolding test_SLTU_True_def by (rule register_test [OF f, where x = "2" and y = "3"]) (simp_all add: eval_simps)
  show "passes (test_SLTU_False exec t)"
    unfolding test_SLTU_False_def by (rule register_test [OF f, where x = "3" and y = "2"]) (simp_all add: eval_simps)
  show "passes (test_SLL exec t)"
    unfolding test_SLL_def by (rule register_test [OF f, where x = "2" and y = "2"]) (simp_all add: eval_simps)
  show "passes (test_SRL exec t)"
    unfolding test_SRL_def by (rule register_test [OF f, where x = "8" and y = "2"]) (simp_all add: eval_simps)
  show "passes (test_SUB exec t)"
    unfolding test_SUB_def by (rule register_test [OF f, where x = "- 4" and y = "2"]) (simp_all add: eval_simps)
  show "passes (test_SRA exec t)"
    unfolding test_SRA_def by (rule register_test [OF f, where x = "- 4" and y = "2"]) (simp_all add: eval_simps)
qed

lemma branch_tests:
  assumes f: "fits E area t s"
  shows "passes (test_BEQ_True exec t)"
    "passes (test_BEQ_False exec t)"
    "passes (test_BNE_True exec t)"
    "passes (test_BNE_False exec t)"
    "passes (test_BLT_True exec t)"
    "passes (test_BLT_False exec t)"
    "passes (test_BLTU_True exec t)"
    "passes (test_BLTU_False exec t)"
    "passes (test_BGE_Greater_True exec t)"
    "passes (test_BGE_Greater_False exec t)"
    "passes (test_BGE_Equal_True exec t)"
    "passes (test_BGE_Equal_False exec t)"
    "passes (test_BGEU_Greater_True exec t)"
    "passes (test_BGEU_Greater_False exec t)"
    "passes (test_BGEU_Equal_True exec t)"
    "passes (test_BGEU_Equal_False exec t)"
proof -
  show "passes (test_BEQ_True exec t)"
    unfolding test_BEQ_True_def by (rule branch_test [OF f]) (simp_all add: branch_ops_def eval_simps)
  show "passes (test_BEQ_False exec t)"
    unfolding test_BEQ_False_def by (rule branch_test [OF f]) (simp_all add: branch_ops_def eval_simps)
  show "passes (test_BNE_True exec t)"
    unfolding test_BNE_True_def by (rule branch_test [OF f]) (simp_all add: branch_ops_def eval_simps)
  show "passes (test_BNE_False exec t)"
    unfolding test_BNE_False_def by (rule branch_test [OF f]) (simp_all add: branch_ops_def eval_simps)
  show "passes (test_BLT_True exec t)"
    unfolding test_BLT_True_def by (rule branch_test [OF f]) (simp_all add: branch_ops_def eval_simps)
  show "passes (test_BLT_False exec t)"
    unfolding test_BLT_False_def by (rule branch_test [OF f]) (simp_all add: branch_ops_def eval_simps)
  show "passes (test_BLTU_True exec t)"
    unfolding test_BLTU_True_def by (rule branch_test [OF f]) (simp_all add: branch_ops_def eval_simps)
  show "passes (test_BLTU_False exec t)"
    unfolding test_BLTU_False_def by (rule branch_test [OF f]) (simp_all add: branch_ops_def eval_simps)
  show "passes (test_BGE_Greater_True exec t)"
    unfolding test_BGE_Greater_True_def by (rule branch_test [OF f]) (simp_all add: branch_ops_def eval_simps)
  show "passes (test_BGE_Greater_False exec t)"
    unfolding test_BGE_Greater_False_def by (rule branch_test [OF f]) (simp_all add: branch_ops_def eval_simps)
  show "passes (test_BGE_Equal_True exec t)"
    unfolding test_BGE_Equal_True_def by (rule branch_test [OF f]) (simp_all add: branch_ops_def eval_simps)
  show "passes (test_BGE_Equal_False exec t)"
    unfolding test_BGE_Equal_False_def by (rule branch_test [OF f]) (simp_all add: branch_ops_def eval_simps)
  show "passes (test_BGEU_Greater_True exec t)"
    unfolding test_BGEU_Greater_True_def by (rule branch_test [OF f]) (simp_all add: branch_ops_def eval_simps)
  show "passes (test_BGEU_Greater_False exec t)"
    unfolding test_BGEU_Greater_False_def by (rule branch_test [OF f]) (simp_all add: branch_ops_def eval_simps)
  show "passes (test_BGEU_Equal_True exec t)"
    unfolding test_BGEU_Equal_True_def by (rule branch_test [OF f]) (simp_all add: branch_ops_def eval_simps)
  show "passes (test_BGEU_Equal_False exec t)"
    unfolding test_BGEU_Equal_False_def by (rule branch_test [OF f]) (simp_all add: branch_ops_def eval_simps)
qed

lemma MOVI_test:
  assumes f: "fits E area t s"
  shows "passes (test_MOVI exec t)"
proof -
  let ?s1 = "load_imm 1 (- 3) s"
  let ?s2 = "load_imm 2 3 ?s1"
  obtain t1 where t1: "LoadImm12 exec 1 (- 3) t = Inr t1" "fits E area t1 ?s1" using LoadImm12_fits [OF f, of 1 "- 3"] by auto
  then obtain t2 where t2: "LoadImm12 exec 2 3 t1 = Inr t2" "fits E area t2 ?s2" using LoadImm12_fits [OF t1(2), of 2 3] by auto
  have "isa_reg 1 ?s2 = - 3" "isa_reg 2 ?s2 = 3" "isa_pc ?s2 = isa_pc s + 8" by (simp_all add: isa_reg_def load_imm_def)
  then show ?thesis
    using t1(1) t2(1) read_fits [OF fits_reads [OF t2(2)]] read_fits(1) [OF fits_reads [OF f]]
    by (simp add: test_MOVI_def Signify_def del: reg_const_simps)
qed

text \<open>The upper immediates: the handler takes the immediate as the decoder delivers it, shifted already.\<close>

lemma upper_tests:
  assumes f: "fits E area t s" and pc: "isa_pc s = 0"
  shows "test_LUI exec t = Inr False" and "test_AUIPC exec t = Inr False"
proof -
  have e: "expect_reg exec 2 P (SetupInstrU op 2 0xAAAAA t) = Inr (P 0xAAAAA)" if op: "op \<in> {LUI, AUIPC}" for op P
  proof -
    let ?t = "SetupInstrU op 2 0xAAAAA t"
    have i: "operation (fx_instr (SetupInstrU x 2 0xAAAAA t)) = x" "rd (fx_instr (SetupInstrU x 2 0xAAAAA t)) = 2"
        "immidiate (fx_instr (SetupInstrU x 2 0xAAAAA t)) = 0xAAAAA" for x
      by (simp_all add: SetupInstrU_def ExtractBits_eq)
    have "(signed_take_bit 31 0xAAAAA :: u64) = 0xAAAAA" by simp
    then have "isa_reg 2 (isa_effect (fx_instr ?t) s) = 0xAAAAA"
      using op pc by (auto simp: isa_effect_def i alu_ops_def load_ops_def isa_write_def isa_reg_def)
    moreover have "drop_bit 20 (0xAAAAA :: u64) = 0" by simp
    then have "agrees area {} (fx_instr ?t) s" using op unfolding agrees_def i by blast
    ultimately show ?thesis
      using expect_reg_eq [of area ?t s 2 P] f op by (auto simp: i branch_ops_def)
  qed
  show "test_LUI exec t = Inr False" "test_AUIPC exec t = Inr False"
    using e by (simp_all add: test_LUI_def test_AUIPC_def)
qed

lemma jump_tests:
  assumes f: "fits E area t s" and pc: "isa_pc s = 0"
  shows "passes (test_JAL exec t)" and "passes (test_JALR exec t)"
proof -
  let ?t = "SetupInstrU JAL 1 15 t"
  have i: "operation (fx_instr ?t) = JAL" "rd (fx_instr ?t) = 1" "immidiate (fx_instr ?t) = 15" "fx_hart ?t = fx_hart t"
    by (simp_all add: SetupInstrU_def ExtractBits_eq)
  obtain g where g: "dispatch E (with_instr (fx_instr ?t) (fx_hart t)) = Inr (Dispatch g)" "reads g (isa_exec (fx_instr ?t) s)"
    using odd_jal [of E area "fx_hart t" s "fx_instr ?t"] f by (auto simp: fits_def i bit_numeral_rec)
  have x: "Exec exec ?t = Inr (?t\<lparr>fx_hart := g\<rparr>)" using exec_dispatch [OF g(1)] by (simp add: Exec_def i)
  have "isa_pc (isa_exec (fx_instr ?t) s) = 15" "isa_reg 1 (isa_exec (fx_instr ?t) s) = 4"
    by (simp_all add: isa_exec_def isa_target_def isa_effect_def i pc alu_ops_def load_ops_def store_ops_def isa_write_def isa_reg_def)
  moreover have "ReadReg PC ?t = Inr 0" using read_fits(1) [of t] fits_reads [OF f] by (simp add: ReadReg_def i pc)
  ultimately show "passes (test_JAL exec t)"
    using x read_fits [of "?t\<lparr>fx_hart := g\<rparr>" "isa_exec (fx_instr ?t) s"] g(2)
    by (simp add: test_JAL_def expect_jump_def del: reg_const_simps)
  let ?s = "load_imm 2 11 s"
  obtain t1 where t1: "LoadImm12 exec 2 11 t = Inr t1" "fits E area t1 ?s" using LoadImm12_fits [OF f, of 2 11] by auto
  let ?r = "SetupInstrI JALR 1 2 15 t1"
  have j: "operation (fx_instr ?r) = JALR" "rd (fx_instr ?r) = 1" "rs1 (fx_instr ?r) = 2" "immidiate (fx_instr ?r) = 15"
    by (simp_all add: SetupInstrI_def ExtractBits_eq)
  have "fits E area ?r ?s" using t1(2) by simp
  moreover have "agrees area {} (fx_instr ?r) ?s" by (simp add: agrees_def j)
  ultimately obtain t2 where t2: "Exec exec ?r = Inr t2" "fits E area t2 (isa_exec (fx_instr ?r) ?s)"
    using exec_fits [of area ?r ?s] by (auto simp: j is_direct_jump_def)
  have "isa_pc (isa_exec (fx_instr ?r) ?s) = 26" "isa_reg 1 (isa_exec (fx_instr ?r) ?s) = 8"
    by (simp_all add: isa_exec_def isa_target_def isa_effect_def j pc alu_ops_def load_ops_def store_ops_def branch_ops_def isa_write_def
        isa_reg_def load_imm_def isa_address_def)
  moreover have "ReadReg PC ?r = Inr 4"
    using read_fits(1) [of ?r ?s] fits_reads [OF t1(2)] by (simp add: SetupInstrI_def load_imm_def pc)
  ultimately show "passes (test_JALR exec t)"
    using t1(1) t2(1) read_fits [OF fits_reads [OF t2(2)]]
    by (simp add: test_JALR_def expect_jump_def del: reg_const_simps)
qed

text \<open>The test writing and reading memory itself.\<close>

lemma fits_memory:
  assumes f: "fits E area t s" and pm: "pm_inv (env_os E) m" "pm_ext (h_mem (fx_hart t)) m" "pm_peek m = x"
  shows "fits E area (t\<lparr>fx_hart := (fx_hart t)\<lparr>h_mem := m\<rparr>\<rparr>) (s\<lparr>isa_mem := x\<rparr>)"
proof -
  have m: "mirrors E area {} (fx_hart t) s" and used: "\<forall>bb\<in>set (bbs (bbCache (fx_hart t))). bb_pc bb = 1"
    using f by (simp_all add: fits_def plain_def)
  have old: "pm_inv (env_os E) (h_mem (fx_hart t))" using m by (simp add: mirrors_def core_ok_def)
  then have "pf_ok m (prefetcher (fx_hart t))" using pf_ok_ext [OF _ _ pm(2)] m by (auto simp: mirrors_def pm_inv_def)
  moreover have "whole_pages m" using pm_ext_whole_pages [OF old _ pm(2)] m by (simp add: mirrors_def)
  moreover have "pm_area m = area" using pm_area_devices [of m "h_mem (fx_hart t)"] pm(2) m by (simp add: mirrors_def pm_ext_def)
  ultimately show ?thesis
    using f m used pm(1,3) by (auto simp: fits_def plain_def mirrors_def core_ok_def pc_of_def isa_reg_def)
qed

lemma fits_pm: "fits E area t s \<Longrightarrow> pm_inv (env_os E) (h_mem (fx_hart t)) \<and> pm_area (h_mem (fx_hart t)) = area \<and> pm_peek (h_mem (fx_hart t)) = isa_mem s"
  by (simp add: fits_def plain_def mirrors_def core_ok_def)

lemma test_storeDWord_fits:
  assumes f: "fits E area t s" and a: "area a 8"
  shows "\<exists>t'. test_storeDWord E a v t = Inr t' \<and> fits E area t' (s\<lparr>isa_mem := mem_put a (le_bytes 8 (word_of_int v :: u64)) (isa_mem s)\<rparr>)"
proof -
  have pm: "pm_inv (env_os E) (h_mem (fx_hart t))" "pm_area (h_mem (fx_hart t)) a 8" "pm_peek (h_mem (fx_hart t)) = isa_mem s"
    using fits_pm [OF f] a by simp_all
  obtain m where st: "mmu_storeDWord (env_os E) a (sint (word_of_int v :: u64)) (h_mem (fx_hart t)) = Inr m"
      and m: "pm_inv (env_os E) m" "pm_peek m = mem_put a (le_bytes 8 (word_of_int v :: u64)) (isa_mem s)"
    using mmu.storeD [OF pm(1,2), of "word_of_int v"] pm(3) by auto
  have "mmu_storeDWord (env_os E) a v (h_mem (fx_hart t)) = Inr m" using st by (simp add: mmu_storeDWord_def)
  then show ?thesis
    using fits_memory [OF f m(1) _ m(2)] store_ext(4) [OF pm(1) st] by (auto simp: test_storeDWord_def)
qed

lemma test_load_fits:
  assumes f: "fits E area t s" and l: "ld a (h_mem (fx_hart t)) = Inr (v, m)" and pm: "pm_inv (env_os E) m" "pm_ext (h_mem (fx_hart t)) m"
      "pm_peek m = isa_mem s"
  shows "\<exists>t'. test_load ld a t = Inr (v, t') \<and> fits E area t' s"
  using fits_memory [OF f pm] l by (auto simp: test_load_def)

lemma test_loads_fit:
  assumes f: "fits E area t s"
  shows "area a 1 \<Longrightarrow> \<exists>t'. test_load mmu_loadByte a t = Inr (le_word (mem_get 1 a (isa_mem s)), t') \<and> fits E area t' s"
    and "area a 2 \<Longrightarrow> \<exists>t'. test_load mmu_loadHWord a t = Inr (le_word (mem_get 2 a (isa_mem s)), t') \<and> fits E area t' s"
    and "area a 4 \<Longrightarrow> \<exists>t'. test_load mmu_loadWord a t = Inr (le_word (mem_get 4 a (isa_mem s)), t') \<and> fits E area t' s"
    and "area a 8 \<Longrightarrow> \<exists>t'. test_load mmu_loadDWord a t = Inr (le_word (mem_get 8 a (isa_mem s)), t') \<and> fits E area t' s"
proof -
  have pm: "pm_inv (env_os E) (h_mem (fx_hart t))" "pm_area (h_mem (fx_hart t)) = area" "pm_peek (h_mem (fx_hart t)) = isa_mem s"
    using fits_pm [OF f] by simp_all
  note ext = load_ext [OF pm(1)]
  show "area a 1 \<Longrightarrow> \<exists>t'. test_load mmu_loadByte a t = Inr (le_word (mem_get 1 a (isa_mem s)), t') \<and> fits E area t' s"
    using mmu.loadB [OF pm(1), of a] pm(2,3) test_load_fits [OF f] ext(1) by metis
  show "area a 2 \<Longrightarrow> \<exists>t'. test_load mmu_loadHWord a t = Inr (le_word (mem_get 2 a (isa_mem s)), t') \<and> fits E area t' s"
    using mmu.loadH [OF pm(1), of a] pm(2,3) test_load_fits [OF f] ext(2) by metis
  show "area a 4 \<Longrightarrow> \<exists>t'. test_load mmu_loadWord a t = Inr (le_word (mem_get 4 a (isa_mem s)), t') \<and> fits E area t' s"
    using mmu.loadW [OF pm(1), of a] pm(2,3) test_load_fits [OF f] ext(3) by metis
  show "area a 8 \<Longrightarrow> \<exists>t'. test_load mmu_loadDWord a t = Inr (le_word (mem_get 8 a (isa_mem s)), t') \<and> fits E area t' s"
    using mmu.loadD [OF pm(1), of a] pm(2,3) test_load_fits [OF f] ext(4) by metis
qed

lemma exec_load_fits:
  assumes f: "fits E area t s" and op: "op \<in> set load_ops" and r: "isa_reg 2 s = 42" "d < 32" and a: "area 64 (access_bytes op)"
  shows "\<exists>t'. Exec exec (SetupInstrI op d 2 22 t) = Inr t' \<and>
    fits E area t' (s\<lparr>isa_regs := (isa_regs s)(d := isa_load op (mem_get (access_bytes op) 64 (isa_mem s))), isa_pc := isa_pc s + 4\<rparr>)"
proof -
  let ?t = "SetupInstrI op d 2 22 t"
  have i: "operation (fx_instr ?t) = op" "rd (fx_instr ?t) = d" "rs1 (fx_instr ?t) = 2" "immidiate (fx_instr ?t) = 22"
    by (simp_all add: SetupInstrI_def ExtractBits_eq)
  have ad: "isa_address (fx_instr ?t) s = 64" by (simp add: isa_address_def i r(1))
  have nj: "op \<notin> {BB_END, JAL, JALR} \<union> set branch_ops" "\<not> is_direct_jump op" using op by (auto simp: load_ops_def branch_ops_def is_direct_jump_def)
  have "agrees area {} (fx_instr ?t) s" using op a by (simp add: agrees_def i ad)
  then obtain t' where t': "Exec exec ?t = Inr t'" "fits E area t' (isa_exec (fx_instr ?t) s)"
    using exec_fits [of area ?t s] f r(2) nj by (auto simp: i)
  have "isa_exec (fx_instr ?t) s = s\<lparr>isa_regs := (isa_regs s)(d := isa_load op (mem_get (access_bytes op) 64 (isa_mem s))), isa_pc := isa_pc s + 4\<rparr>"
    using op nj by (simp add: isa_exec_def effect_load target_next i ad isa_write_def)
  then show ?thesis using t' by simp
qed

lemma exec_loads_fit:
  assumes "fits E area t s" "isa_reg 2 s = 42" "\<forall>x\<in>set xs. fst x \<in> set load_ops \<and> snd x < 32 \<and> snd x \<noteq> 2 \<and> area 64 (access_bytes (fst x))"
  shows "\<exists>t'. exec_loads exec 22 xs t = Inr t' \<and>
    fits E area t' (s\<lparr>isa_regs := fold (\<lambda>x r. r(snd x := isa_load (fst x) (mem_get (access_bytes (fst x)) 64 (isa_mem s)))) xs (isa_regs s),
      isa_pc := isa_pc s + 4 * of_nat (length xs)\<rparr>)"
  using assms
proof (induction xs arbitrary: t s)
  case Nil
  then show ?case by simp
next
  case (Cons x xs)
  let ?s = "s\<lparr>isa_regs := (isa_regs s)(snd x := isa_load (fst x) (mem_get (access_bytes (fst x)) 64 (isa_mem s))), isa_pc := isa_pc s + 4\<rparr>"
  obtain t1 where t1: "Exec exec (SetupInstrI (fst x) (snd x) 2 22 t) = Inr t1" "fits E area t1 ?s"
    using exec_load_fits [of area t s "fst x" "snd x"] Cons.prems by auto
  have "isa_reg 2 ?s = 42" using Cons.prems(2,3) by (auto simp: isa_reg_def)
  then show ?case using Cons.IH [OF t1(2)] Cons.prems(3) t1(1) by (simp add: algebra_simps)
qed

lemma expect_regs_ok:
  "reads (fx_hart t) s \<Longrightarrow> \<forall>(r, v)\<in>set xs. r = PC \<and> v = isa_pc s \<or> r < 32 \<and> v = isa_reg r s \<Longrightarrow> passes (expect_regs xs t)"
  using read_fits [of t s] by (induction xs) (auto simp: passes_def simp del: reg_const_simps)

lemma double_loads:
  fixes w :: u64
  shows "n \<le> 8 \<Longrightarrow> mem_get n 64 (mem_put 64 (le_bytes 8 w) m) = take n (le_bytes 8 w)"
  using mem_get_put_inside [of 64 "le_bytes 8 w" 0 n m] by simp

lemma all_ones_loads:
  "isa_load LB (take (Suc 0) (le_bytes 8 (- 1 :: u64))) = - 1" "isa_load LH (take 2 (le_bytes 8 (- 1 :: u64))) = - 1"
  "isa_load LW (take 4 (le_bytes 8 (- 1 :: u64))) = - 1" "isa_load LD (le_bytes 8 (- 1 :: u64)) = - 1"
  "isa_load LBU (take (Suc 0) (le_bytes 8 (- 1 :: u64))) = 255" "isa_load LHU (take 2 (le_bytes 8 (- 1 :: u64))) = 65535"
  "isa_load LWU (take 4 (le_bytes 8 (- 1 :: u64))) = 4294967295"
  by code_simp+

lemma load_tests:
  assumes f: "fits E area t s" and a: "area 64 1" "area 64 2" "area 64 4" "area 64 8"
  shows "passes (test_LOAD_Positive E exec t)" and "passes (test_LOAD_Negative E exec t)"
proof -
  let ?xs = "[(LB, 3), (LH, 4), (LW, 5), (LD, 6), (LBU, 7), (LHU, 8), (LWU, 9)] :: (InstructionOp \<times> Register) list"
  obtain t1 where t1: "LoadImm12 exec 2 42 t = Inr t1" "fits E area t1 (load_imm 2 42 s)" using LoadImm12_fits [OF f, of 2 42] by auto
  have ad: "of_int 42 + 22 = (64 :: RV64Ptr)" by simp
  have run: "\<exists>t2 t3 s3. test_storeDWord E 64 v t1 = Inr t2 \<and> ReadReg PC t2 = Inr (isa_pc s + 4) \<and> exec_loads exec 22 ?xs t2 = Inr t3 \<and>
      reads (fx_hart t3) s3 \<and> isa_pc s3 = isa_pc s + 32 \<and>
      (\<forall>x\<in>set ?xs. isa_reg (snd x) s3 = isa_load (fst x) (take (access_bytes (fst x)) (le_bytes 8 (word_of_int v :: u64))))" for v
  proof -
    let ?w = "word_of_int v :: u64"
    let ?s2 = "(load_imm 2 42 s)\<lparr>isa_mem := mem_put 64 (le_bytes 8 ?w) (isa_mem (load_imm 2 42 s))\<rparr>"
    let ?s3 = "?s2\<lparr>isa_regs := fold (\<lambda>x r. r(snd x := isa_load (fst x) (mem_get (access_bytes (fst x)) 64 (isa_mem ?s2)))) ?xs (isa_regs ?s2),
      isa_pc := isa_pc ?s2 + 4 * of_nat (length ?xs)\<rparr>"
    obtain t2 where t2: "test_storeDWord E 64 v t1 = Inr t2" "fits E area t2 ?s2" using test_storeDWord_fits [OF t1(2) a(4), of v] by auto
    have "isa_reg 2 ?s2 = 42" by (simp add: isa_reg_def load_imm_def)
    moreover have "\<forall>x\<in>set ?xs. fst x \<in> set load_ops \<and> snd x < 32 \<and> snd x \<noteq> 2 \<and> area 64 (access_bytes (fst x))"
      using a by (simp add: load_ops_def)
    ultimately obtain t3 where t3: "exec_loads exec 22 ?xs t2 = Inr t3" "fits E area t3 ?s3" using exec_loads_fit [OF t2(2)] by blast
    have "isa_pc ?s3 = isa_pc s + 32" by (simp add: load_imm_def)
    moreover have "ReadReg PC t2 = Inr (isa_pc s + 4)" using read_fits(1) [OF fits_reads [OF t2(2)]] by (simp add: load_imm_def)
    moreover have "\<forall>x\<in>set ?xs. isa_reg (snd x) ?s3 = isa_load (fst x) (take (access_bytes (fst x)) (le_bytes 8 ?w))"
      using double_loads [of _ ?w] by (simp add: isa_reg_def)
    ultimately show ?thesis using t2(1) t3(1) fits_reads [OF t3(2)] by blast
  qed
  show "passes (test_LOAD_Positive E exec t)"
  proof -
    obtain t2 t3 s3 where r: "test_storeDWord E 64 100 t1 = Inr t2" "ReadReg PC t2 = Inr (isa_pc s + 4)" "exec_loads exec 22 ?xs t2 = Inr t3"
      "reads (fx_hart t3) s3" "isa_pc s3 = isa_pc s + 32"
      "\<forall>x\<in>set ?xs. isa_reg (snd x) s3 = isa_load (fst x) (take (access_bytes (fst x)) (le_bytes 8 (word_of_int 100 :: u64)))"
      using run [of 100] by blast
    show ?thesis
      unfolding test_LOAD_Positive_def Let_def t1(1) bindE_Inr ad r(1-3)
      by (rule expect_regs_ok [OF r(4)]) (use r(5,6) in \<open>simp add: le_bytes_numeral\<close>)
  qed
  show "passes (test_LOAD_Negative E exec t)"
  proof -
    obtain t2 t3 s3 where r: "test_storeDWord E 64 (- 1) t1 = Inr t2" "ReadReg PC t2 = Inr (isa_pc s + 4)" "exec_loads exec 22 ?xs t2 = Inr t3"
      "reads (fx_hart t3) s3" "isa_pc s3 = isa_pc s + 32"
      "\<forall>x\<in>set ?xs. isa_reg (snd x) s3 = isa_load (fst x) (take (access_bytes (fst x)) (le_bytes 8 (word_of_int (- 1) :: u64)))"
      using run [of "- 1"] by blast
    show ?thesis
      unfolding test_LOAD_Negative_def Let_def t1(1) bindE_Inr ad r(1-3)
      by (rule expect_regs_ok [OF r(4)]) (use r(5,6) in \<open>simp add: all_ones_loads Unsignify_def del: isa_load.simps le_bytes.simps\<close>)
  qed
qed

lemma exec_store_fits:
  assumes f: "fits E area t s" and op: "op \<in> set store_ops" and r: "isa_reg 2 s = 42" "isa_reg 3 s = 100" and a: "area 64 (access_bytes op)"
  shows "\<exists>t'. Exec exec (SetupInstrS op 2 3 22 t) = Inr t' \<and>
    fits E area t' (s\<lparr>isa_mem := mem_put 64 (le_bytes (access_bytes op) (100 :: u64)) (isa_mem s), isa_pc := isa_pc s + 4\<rparr>)"
proof -
  let ?t = "SetupInstrS op 2 3 22 t"
  have i: "operation (fx_instr ?t) = op" "rs1 (fx_instr ?t) = 2" "rs2 (fx_instr ?t) = 3" "immidiate (fx_instr ?t) = 22"
    by (simp_all add: SetupInstrS_def SetupInstrB_def)
  have f': "fits E area ?t s" using f by (simp add: SetupInstrS_def)
  have ad: "isa_address (fx_instr ?t) s = 64" by (simp add: isa_address_def i r(1))
  have nj: "op \<notin> {BB_END, JAL, JALR} \<union> set branch_ops" "\<not> is_direct_jump op" using op by (auto simp: store_ops_def branch_ops_def is_direct_jump_def)
  have "agrees area {} (fx_instr ?t) s" using op a by (simp add: agrees_def i ad)
  then obtain t' where t': "Exec exec ?t = Inr t'" "fits E area t' (isa_exec (fx_instr ?t) s)"
    using exec_fits [OF f'] nj by (auto simp: i)
  have "isa_exec (fx_instr ?t) s = s\<lparr>isa_mem := mem_put 64 (le_bytes (access_bytes op) (100 :: u64)) (isa_mem s), isa_pc := isa_pc s + 4\<rparr>"
    using op nj by (simp add: isa_exec_def effect_store target_next i ad r(2))
  then show ?thesis using t' by simp
qed

text \<open>A store and the test's load of the same width.\<close>

lemma stored: "n \<le> 8 \<Longrightarrow> mem_get n 64 (mem_put 64 (le_bytes n (100 :: u64)) m) = le_bytes n (100 :: u64)"
  using mem_get_put_same [of 64 "le_bytes n (100 :: u64)" m] by simp

lemma exec_store_waits:
  assumes w: "waits E area t pc" and op: "op \<in> set store_ops" and a: "area 64 (access_bytes op)"
  shows "\<exists>t' s'. Exec exec (SetupInstrS op 2 3 22 t) = Inr t' \<and> fits E area t' s' \<and> isa_reg 2 s' = 42 \<and> isa_reg 3 s' = 100 \<and> isa_pc s' = pc + 4 \<and>
    mem_get (access_bytes op) 64 (isa_mem s') = le_bytes (access_bytes op) (100 :: u64)"
proof -
  obtain s where s: "fits E area t s" "isa_reg 2 s = 42" "isa_reg 3 s = 100" "isa_pc s = pc" using w by (auto simp: waits_def)
  let ?s = "s\<lparr>isa_mem := mem_put 64 (le_bytes (access_bytes op) (100 :: u64)) (isa_mem s), isa_pc := isa_pc s + 4\<rparr>"
  obtain t' where t': "Exec exec (SetupInstrS op 2 3 22 t) = Inr t'" "fits E area t' ?s"
    using exec_store_fits [OF s(1) op s(2,3) a] by blast
  have "access_bytes op \<le> 8" using op by (auto simp: store_ops_def)
  then have "mem_get (access_bytes op) 64 (isa_mem ?s) = le_bytes (access_bytes op) (100 :: u64)" using stored by simp
  moreover have "isa_reg 2 ?s = 42" "isa_reg 3 ?s = 100" "isa_pc ?s = pc + 4" using s(2-4) by (simp_all add: isa_reg_def)
  ultimately show ?thesis using t' by blast
qed

lemma store_test:
  assumes f: "fits E area t s" and a: "area 64 1" "area 64 2" "area 64 4" "area 64 8"
  shows "passes (test_STORE exec t)"
proof -
  have ad: "of_int 42 + 22 = (64 :: RV64Ptr)" by simp
  have ops: "SB \<in> set store_ops" "SH \<in> set store_ops" "SW \<in> set store_ops" "SD \<in> set store_ops" by (simp_all add: store_ops_def)
  obtain t1 where t1: "LoadImm12 exec 2 42 t = Inr t1" "fits E area t1 (load_imm 2 42 s)" using LoadImm12_fits [OF f, of 2 42] by auto
  obtain t2 where t2: "LoadImm12 exec 3 100 t1 = Inr t2" "fits E area t2 (load_imm 3 100 (load_imm 2 42 s))"
    using LoadImm12_fits [OF t1(2), of 3 100] by auto
  let ?pc = "isa_pc (load_imm 3 100 (load_imm 2 42 s))"
  have pc: "ReadReg PC t2 = Inr ?pc" by (rule read_fits(1) [OF fits_reads [OF t2(2)]])
  have "waits E area t2 ?pc" using t2(2) by (auto simp: waits_def isa_reg_def load_imm_def)
  from exec_store_waits [OF this ops(1)] obtain b sb where b: "Exec exec (SetupInstrS SB 2 3 22 t2) = Inr b" "fits E area b sb"
      "isa_reg 2 sb = 42" "isa_reg 3 sb = 100" "isa_pc sb = ?pc + 4" "mem_get 1 64 (isa_mem sb) = le_bytes 1 (100 :: u64)" using a by auto
  obtain b' where b': "test_load mmu_loadByte 64 b = Inr (le_word (le_bytes 1 (100 :: u64)), b')" "fits E area b' sb"
    using test_loads_fit(1) [OF b(2) a(1)] b(6) by auto
  have "waits E area b' (?pc + 4)" using b b'(2) by (auto simp: waits_def)
  from exec_store_waits [OF this ops(2)] obtain h sh where h: "Exec exec (SetupInstrS SH 2 3 22 b') = Inr h" "fits E area h sh"
      "isa_reg 2 sh = 42" "isa_reg 3 sh = 100" "isa_pc sh = ?pc + 4 + 4" "mem_get 2 64 (isa_mem sh) = le_bytes 2 (100 :: u64)" using a by auto
  obtain h' where h': "test_load mmu_loadHWord 64 h = Inr (le_word (le_bytes 2 (100 :: u64)), h')" "fits E area h' sh"
    using test_loads_fit(2) [OF h(2) a(2)] h(6) by auto
  have "waits E area h' (?pc + 4 + 4)" using h h'(2) by (auto simp: waits_def)
  from exec_store_waits [OF this ops(3)] obtain w sw where w: "Exec exec (SetupInstrS SW 2 3 22 h') = Inr w" "fits E area w sw"
      "isa_reg 2 sw = 42" "isa_reg 3 sw = 100" "isa_pc sw = ?pc + 4 + 4 + 4" "mem_get 4 64 (isa_mem sw) = le_bytes 4 (100 :: u64)" using a by auto
  obtain w' where w': "test_load mmu_loadWord 64 w = Inr (le_word (le_bytes 4 (100 :: u64)), w')" "fits E area w' sw"
    using test_loads_fit(3) [OF w(2) a(3)] w(6) by auto
  have "waits E area w' (?pc + 4 + 4 + 4)" using w w'(2) by (auto simp: waits_def)
  from exec_store_waits [OF this ops(4)] obtain d sd where d: "Exec exec (SetupInstrS SD 2 3 22 w') = Inr d" "fits E area d sd"
      "isa_pc sd = ?pc + 4 + 4 + 4 + 4" "mem_get 8 64 (isa_mem sd) = le_bytes 8 (100 :: u64)" using a by auto
  obtain d' where d': "test_load mmu_loadDWord 64 d = Inr (le_word (le_bytes 8 (100 :: u64)), d')" "fits E area d' sd"
    using test_loads_fit(4) [OF d(2) a(4)] d(4) by auto
  have end_pc: "ReadReg PC d' = Inr (?pc + 4 + 4 + 4 + 4)" using read_fits(1) [OF fits_reads [OF d'(2)]] d(3) by simp
  have v: "(le_word (le_bytes 1 (100 :: u64)) :: u8) = 100" "(le_word (le_bytes 2 (100 :: u64)) :: u16) = 100"
      "(le_word (le_bytes 4 (100 :: u64)) :: u32) = 100" "(le_word (le_bytes 8 (100 :: u64)) :: u64) = 100"
    by code_simp+
  show ?thesis
    unfolding test_STORE_def Let_def t1(1) t2(1) bindE_Inr ad pc b(1) b'(1) h(1) h'(1) w(1) w'(1) d(1) d'(1) prod.case end_pc
    by (simp add: v)
qed

lemma exec_program_plain:
  assumes wf: "\<forall>i\<in>set is. wf_instr i" "unat (e div 4) < length is"
  shows "plain E area h s \<Longrightarrow> isa_program fuel is e s = Some s' \<Longrightarrow> \<exists>h'. exec_program fuel exec is e h = Inr h' \<and> plain E area h' s'"
proof (induction fuel arbitrary: h s)
  case 0
  have "gprf_read PC (h_gprf h) = Inr (isa_pc s)" using read_pc [OF plain_reads [OF 0(1)]] .
  then show ?case using 0 by (auto simp: exec_program.simps [of 0] isa_program.simps [of 0] split: if_splits simp del: reg_const_simps)
next
  case (Suc n)
  have pc: "gprf_read PC (h_gprf h) = Inr (isa_pc s)" using read_pc [OF plain_reads [OF Suc.prems(1)]] .
  let ?i = "is ! unat (isa_pc s div 4)"
  show ?case
  proof (cases "isa_pc s \<le> e")
    case True
    then have ok: "program_ok ?i s" and rest: "isa_program n is e (isa_exec ?i s) = Some s'"
      using Suc.prems(2) by (auto simp: isa_program.simps [of "Suc n"] Let_def split: if_splits)
    have "agrees area {} ?i s" using ok by (auto simp: program_ok_def agrees_def)
    moreover have "unat (isa_pc s div 4) \<le> unat (e div 4)" using True by (simp add: unat_div word_le_nat_alt div_le_mono)
    then have "wf_instr ?i" using wf by simp
    ultimately obtain h1 where h1: "exec ?i h = Inr h1" "plain E area h1 (isa_exec ?i s)"
      using exec_plain [OF Suc.prems(1)] by blast
    then show ?thesis using Suc.IH [OF h1(2) rest] pc True by (simp add: exec_program.simps [of "Suc n"] del: reg_const_simps)
  next
    case False
    then show ?thesis using Suc.prems pc by (auto simp: exec_program.simps [of "Suc n"] isa_program.simps [of "Suc n"] simp del: reg_const_simps)
  qed
qed

lemma program_tests:
  assumes p: "plain E area h s" and pc: "isa_pc s = 0"
  shows "passes (test_program_Sum 18 exec h)" and "passes (test_program_Mul 29 exec h)"
proof -
  have s: "s = \<lparr>isa_pc = 0, isa_regs = isa_regs s, isa_mem = isa_mem s\<rparr>" using pc by simp
  obtain s1 where s1: "isa_program 18 sum_instrs 20 s = Some s1" "isa_reg 1 s1 = 10" using sum_runs [of "isa_regs s" "isa_mem s"] s by metis
  then obtain h1 where "exec_program 18 exec sum_instrs 20 h = Inr h1" "plain E area h1 s1"
    using exec_program_plain [OF program_wf(1,2) p] by blast
  then show "passes (test_program_Sum 18 exec h)"
    using read_reg_32 [OF plain_reads, of E area h1 s1 1] s1(2) by (simp add: test_program_Sum_def)
  obtain s2 where s2: "isa_program 29 mul_instrs 40 s = Some s2" "isa_reg 3 s2 = 120" using mul_runs [of "isa_regs s" "isa_mem s"] s by metis
  then obtain h2 where "exec_program 29 exec mul_instrs 40 h = Inr h2" "plain E area h2 s2"
    using exec_program_plain [OF program_wf(3,4) p] by blast
  then show "passes (test_program_Mul 29 exec h)"
    using read_reg_32 [OF plain_reads, of E area h2 s2 3] s2(2) by (simp add: test_program_Mul_def)
qed

end

interpretation handlers: executor E "run_handler E" for E
  by unfold_locales (simp add: run_handler_def)

section \<open>Properties\<close>

text \<open>The tests of the file other than those of \<^verbatim>\<open>LUI\<close> and \<^verbatim>\<open>AUIPC\<close>.\<close>

definition executor_tests :: "env \<Rightarrow> (hart_exec \<Rightarrow> executor_test \<Rightarrow> bool res) list" where
  "executor_tests E =
     [test_MOVI, test_ADDI, test_SLTI_True, test_SLTI_False, test_SLTIU_True, test_SLTIU_False, test_ANDI, test_ORI,
      test_XORI, test_SLLI, test_SRLI, test_SRAI, test_ADD, test_SLT_True, test_SLT_False, test_SLTU_True,
      test_SLTU_False, test_SLL, test_SRL, test_SUB, test_SRA, test_JAL, test_JALR, test_BEQ_True,
      test_BEQ_False, test_BNE_True, test_BNE_False, test_BLT_True, test_BLT_False, test_BLTU_True,
      test_BLTU_False, test_BGE_Greater_True, test_BGE_Greater_False, test_BGE_Equal_True,
      test_BGE_Equal_False, test_BGEU_Greater_True, test_BGEU_Greater_False, test_BGEU_Equal_True,
      test_BGEU_Equal_False, test_LOAD_Positive E, test_LOAD_Negative E, test_STORE]"

lemma fixture_fits:
  assumes E: "mmap_ok (env_os E)" "os_getpagesize (env_os E) = 4096" and l: "\<forall>i. length (slots i) = kCapacity" "length regs = GPRF_Size"
    and u: "rd uninit < 32" "rs1 uninit < 32" "rs2 uninit < 32"
  shows "\<exists>t s area. mkExecutorTest E slots regs word uninit h = Inr t \<and> fits E area t s \<and> isa_pc s = 0 \<and>
    area 64 1 \<and> area 64 2 \<and> area 64 4 \<and> area 64 8"
proof -
  obtain pm where pm: "ram_at_zero h 0x100000 4096 0x200000 = Inr pm" "pm_inv (env_os E) pm" "set (devices pm) = {(mkRange 0 0x100000, 0)}"
      "pm_peek pm = (\<lambda>_. 0)" "whole_pages pm"
    using ram_at_zero_ok [OF test_cfg [OF E(2)] E(1), where rs = "0x100000" and cs = "0x200000" and h = h] by auto
  have sizes: "1 * 1024 * 1024 = (0x100000 :: u64)" "2 * 1024 * 1024 = (0x200000 :: u64)" by simp_all
  let ?h = "mkHart E slots regs word pm mkHookManager"
  let ?s = "\<lparr>isa_pc = 0, isa_regs = reg_val (mkGPRF regs), isa_mem = (\<lambda>_. 0)\<rparr>"
  have parts: "h_mem ?h = pm" "h_gprf ?h = mkGPRF regs" "prefetcher ?h = mkPrefetcher" "bbCache ?h = mkBasicBlockCache slots"
    by (simp_all add: mkHart_def)
  have "fresh E ?h" unfolding fresh_def parts(1) using pm(2) l by blast
  then have "core_ok E ?h" by (rule fresh_core)
  moreover have unused: "\<forall>bb\<in>set (bbs (mkBasicBlockCache slots)). bb_pc bb = 1" by (auto simp: mkBasicBlock_def dest!: mem_bbs_mk)
  moreover have "pc_of ?h = 0" using reg_val_mkGPRF [OF l(2)] by (simp add: pc_of_def parts)
  ultimately have "plain E (pm_area pm) ?h ?s"
    using pm(4,5) by (simp add: plain_def mirrors_def parts pf_ok_mk isa_reg_def)
  then have "fits E (pm_area pm) \<lparr>fx_instr = uninit, fx_hart = ?h\<rparr> ?s"
    using u by (simp add: fits_def)
  moreover have "mkExecutorTest E slots regs word uninit h = Inr \<lparr>fx_instr = uninit, fx_hart = ?h\<rparr>"
    unfolding mkExecutorTest_def sizes pm(1) by simp
  moreover have "pm_area pm 64 1" "pm_area pm 64 2" "pm_area pm 64 4" "pm_area pm 64 8"
    by (rule ram_at_zero_area [OF pm(3)]; simp add: access_width_def)+
  ultimately show ?thesis by (metis isa_state.select_convs(1))
qed

lemma program_plain:
  assumes "mmap_ok (env_os E)" "\<forall>i. length (slots i) = kCapacity" "length regs = GPRF_Size"
  shows "\<exists>s area. plain E area (mkHart E slots regs word (build h mkPhysMemBuilder) mkHookManager) s \<and> isa_pc s = 0"
proof -
  let ?pm = "build h mkPhysMemBuilder" and ?s = "\<lparr>isa_pc = 0, isa_regs = reg_val (mkGPRF regs), isa_mem = (\<lambda>_. 0)\<rparr>"
  let ?h = "mkHart E slots regs word ?pm mkHookManager"
  have parts: "h_mem ?h = ?pm" "h_gprf ?h = mkGPRF regs" "prefetcher ?h = mkPrefetcher" "bbCache ?h = mkBasicBlockCache slots"
    by (simp_all add: mkHart_def)
  have pm: "pm_ok (env_os E) ?pm" "pm_peek ?pm = (\<lambda>_. 0)" by (rule build_ok [OF b_ok_empty])+
  have "pm_inv (env_os E) ?pm" using pm(1) assms(1) by (simp add: pm_inv_def)
  then have "fresh E ?h" unfolding fresh_def parts(1) using assms(2,3) by blast
  then have "core_ok E ?h" by (rule fresh_core)
  moreover have "\<forall>bb\<in>set (bbs (mkBasicBlockCache slots)). bb_pc bb = 1" by (auto simp: mkBasicBlock_def dest!: mem_bbs_mk)
  moreover have "pc_of ?h = 0" using reg_val_mkGPRF [OF assms(3)] by (simp add: pc_of_def parts)
  moreover have "whole_pages ?pm" by (simp add: whole_pages_def build_def mkPhysMemBuilder_def)
  ultimately have "plain E (pm_area ?pm) ?h ?s"
    using pm(2) by (simp add: plain_def mirrors_def parts pf_ok_mk isa_reg_def)
  then show ?thesis by (metis isa_state.select_convs(1))
qed

text \<open>
  The instruction tests of the repository under the harness, on a new hart over one megabyte of RAM,
  whatever the registers and the block slots hold before, and when the fields of the instruction
  object of the fixture, which nothing initialises, name registers: every test of the file passes
  except those of \<^verbatim>\<open>LUI\<close> and \<^verbatim>\<open>AUIPC\<close>, which fail: they expect the handler to shift the immediate.
\<close>
theorem executor_tests_pass:
  assumes "\<And>i h g. dispatch E (with_instr i h) = Inr (Dispatch g) \<Longrightarrow> exec i h = Inr g"
    and "mmap_ok (env_os E)" "os_getpagesize (env_os E) = 4096" and "\<forall>i. length (slots i) = kCapacity" "length regs = GPRF_Size"
    and "rd uninit < 32" "rs1 uninit < 32" "rs2 uninit < 32"
  shows "\<exists>t. mkExecutorTest E slots regs word uninit h = Inr t \<and> (\<forall>test\<in>set (executor_tests E). test exec t = Inr True) \<and>
    test_LUI exec t = Inr False \<and> test_AUIPC exec t = Inr False"
proof -
  have ex: "executor E exec" using assms(1) by (rule executor.intro)
  obtain t s area where t: "mkExecutorTest E slots regs word uninit h = Inr t" "fits E area t s" "isa_pc s = 0"
      and a: "area 64 1" "area 64 2" "area 64 4" "area 64 8"
    using fixture_fits [OF assms(2-8), of word h] by blast
  note facts = executor.immediate_tests [OF ex t(2)] executor.register_tests [OF ex t(2)] executor.branch_tests [OF ex t(2)]
    executor.MOVI_test [OF ex t(2)] executor.jump_tests [OF ex t(2,3)] executor.load_tests [OF ex t(2) a] executor.store_test [OF ex t(2) a]
  have "\<forall>test\<in>set (executor_tests E). test exec t = Inr True"
    using facts by (simp add: executor_tests_def passes_def)
  then show ?thesis using t(1) executor.upper_tests [OF ex t(2,3)] by blast
qed

theorem executor_tests_pass_witness:
  "\<exists>t. mkExecutorTest demo_env (\<lambda>_. replicate 8 blank_instr) (replicate 33 0x60) (\<lambda>_. 0) blank_instr [] = Inr t \<and>
     test_SRA (run_handler demo_env) t = Inr True \<and> test_LUI (run_handler demo_env) t = Inr False"
  using executor_tests_pass [where E = demo_env and exec = "run_handler demo_env" and slots = "\<lambda>_. replicate 8 blank_instr"
      and regs = "replicate 33 0x60" and uninit = blank_instr and word = "\<lambda>_. 0" and h = "[]"] mmap_ok_plenty
  by (auto simp: run_handler_def executor_tests_def blank_instr_def plenty_def)

text \<open>
  The two programs of the first half of the file, run instruction by instruction on a hart with
  no memory at all: the loops end after 18 and 29 instructions with the sum and the product.
\<close>
theorem program_tests_pass:
  assumes "\<And>i h g. dispatch E (with_instr i h) = Inr (Dispatch g) \<Longrightarrow> exec i h = Inr g"
    and "mmap_ok (env_os E)" "\<forall>i. length (slots i) = kCapacity" "length regs = GPRF_Size"
  shows "passes (test_program_Sum 18 exec (mkHart E slots regs word (build h mkPhysMemBuilder) mkHookManager))"
    and "passes (test_program_Mul 29 exec (mkHart E slots regs word (build h mkPhysMemBuilder) mkHookManager))"
proof -
  have ex: "executor E exec" using assms(1) by (rule executor.intro)
  obtain s area where "plain E area (mkHart E slots regs word (build h mkPhysMemBuilder) mkHookManager) s" "isa_pc s = 0"
    using program_plain [OF assms(2-4)] by blast
  from executor.program_tests [OF ex this]
  show "passes (test_program_Sum 18 exec (mkHart E slots regs word (build h mkPhysMemBuilder) mkHookManager))"
    "passes (test_program_Mul 29 exec (mkHart E slots regs word (build h mkPhysMemBuilder) mkHookManager))" .
qed

end
