(* ===== verification/DecoderTests.thy ===== *)
theory DecoderTests
  imports Decoder UnitTests
begin

text \<open>
  The tests of the decoder, \<^verbatim>\<open>src/unit_test/decoder/decoder_test.cpp\<close>: each decodes one word and
  compares fields of the result with those of an expected instruction.  All of them pass.  No test
  decodes a FENCE or a 64-bit right shift by an immediate, the words the decoder gets wrong
  (\<open>DecoderRoundtrip\<close>).
\<close>

section \<open>The fixtures\<close>

definition equal_R :: "Instruction \<Rightarrow> Instruction \<Rightarrow> bool" where
  "equal_R lhs rhs \<longleftrightarrow> operation lhs = operation rhs \<and> rd lhs = rd rhs \<and> rs1 lhs = rs1 rhs \<and> rs2 lhs = rs2 rhs"

definition equal_I :: "Instruction \<Rightarrow> Instruction \<Rightarrow> bool" where
  "equal_I lhs rhs \<longleftrightarrow> operation lhs = operation rhs \<and> immidiate lhs = immidiate rhs \<and> rs1 lhs = rs1 rhs \<and> rd lhs = rd rhs"

definition build_I :: "Register \<Rightarrow> Register \<Rightarrow> RV64UDWord \<Rightarrow> InstructionOp \<Rightarrow> Instruction" where
  "build_I d s1 imm op = \<lparr>rd = d, rs1 = s1, rs2 = 0b0, immidiate = imm, operation = op\<rparr>"

definition equal_S :: "Instruction \<Rightarrow> Instruction \<Rightarrow> bool" where
  "equal_S lhs rhs \<longleftrightarrow> operation lhs = operation rhs \<and> immidiate lhs = immidiate rhs \<and> rs1 lhs = rs1 rhs \<and> rs2 lhs = rs2 rhs"

definition build_S :: "Register \<Rightarrow> Register \<Rightarrow> RV64UDWord \<Rightarrow> InstructionOp \<Rightarrow> Instruction" where
  "build_S s1 s2 imm op = \<lparr>rd = 0, rs1 = s1, rs2 = s2, immidiate = imm, operation = op\<rparr>"

definition equal_U :: "Instruction \<Rightarrow> Instruction \<Rightarrow> bool" where
  "equal_U lhs rhs \<longleftrightarrow> operation lhs = operation rhs \<and> immidiate lhs = immidiate rhs"

definition build_U :: "Register \<Rightarrow> RV64UDWord \<Rightarrow> InstructionOp \<Rightarrow> Instruction" where
  "build_U d shifted_imm op =
     (let IMM_SHIFT = 12 in \<lparr>rd = d, rs1 = 0b0, rs2 = 0b0, immidiate = push_bit IMM_SHIFT shifted_imm, operation = op\<rparr>)"

definition equal_J :: "Instruction \<Rightarrow> Instruction \<Rightarrow> bool" where
  "equal_J lhs rhs \<longleftrightarrow> operation lhs = operation rhs \<and> immidiate lhs = immidiate rhs"

definition build_J :: "Register \<Rightarrow> RV64UDWord \<Rightarrow> InstructionOp \<Rightarrow> Instruction" where
  "build_J d imm op = \<lparr>rd = d, rs1 = 0b0, rs2 = 0b0, immidiate = imm, operation = op\<rparr>"

text \<open>The bodies the tests share: decode the word and compare.\<close>

definition expect_R :: "Instruction \<Rightarrow> u32 \<Rightarrow> bool res" where
  "expect_R inst w =
     bindE (parse w) (\<lambda>parsed.
     Inr (operation inst = operation parsed \<and> rs1 inst = rs1 parsed \<and> rs2 inst = rs2 parsed \<and>
          rd inst = rd parsed \<and> equal_R parsed inst))"

definition expect_equal :: "(Instruction \<Rightarrow> Instruction \<Rightarrow> bool) \<Rightarrow> Instruction \<Rightarrow> u32 \<Rightarrow> bool res" where
  "expect_equal equal inst w = bindE (parse w) (\<lambda>parsed. Inr (equal parsed inst))"

definition expect_different :: "(Instruction \<Rightarrow> Instruction \<Rightarrow> bool) \<Rightarrow> Instruction \<Rightarrow> u32 \<Rightarrow> bool res" where
  "expect_different equal inst w = bindE (parse w) (\<lambda>parsed. Inr (\<not> equal parsed inst))"

definition expect_fields :: "(Instruction \<Rightarrow> Instruction \<Rightarrow> bool) \<Rightarrow> Instruction \<Rightarrow> u32 \<Rightarrow> bool res" where
  "expect_fields equal inst w =
     bindE (parse w) (\<lambda>parsed.
     Inr (operation parsed = operation inst \<and> immidiate parsed = immidiate inst \<and> equal parsed inst))"

definition expect_operation :: "(Instruction \<Rightarrow> Instruction \<Rightarrow> bool) \<Rightarrow> Instruction \<Rightarrow> u32 \<Rightarrow> bool res" where
  "expect_operation equal inst w =
     bindE (parse w) (\<lambda>parsed. Inr (operation parsed = operation inst \<and> equal parsed inst))"

definition expect_invalid :: "u32 \<Rightarrow> bool res" where
  "expect_invalid w = bindE (parse w) (\<lambda>parsed. Inr (operation parsed = INV_OP))"

section \<open>Register operations\<close>

definition test_Decoder_R_decodes_ADD :: "bool res" where
  "test_Decoder_R_decodes_ADD =
     expect_R
       \<lparr>rd = 0b11111, rs1 = 0b11111, rs2 = 0b11111, immidiate = IMMIDIATE_POISON, operation = ADD\<rparr>
       0b00000001111111111000111110110011"

definition test_Decoder_R_decodes_SUB :: "bool res" where
  "test_Decoder_R_decodes_SUB =
     expect_R
       \<lparr>rd = 0b00010, rs1 = 0b10011, rs2 = 0b01111, immidiate = IMMIDIATE_POISON, operation = SUB\<rparr>
       0b01000000111110011000000100110011"

definition test_Decoder_R_decodes_SLL :: "bool res" where
  "test_Decoder_R_decodes_SLL =
     expect_R
       \<lparr>rd = 0b10000, rs1 = 0b01011, rs2 = 0b01011, immidiate = IMMIDIATE_POISON, operation = SLL\<rparr>
       0b00000000101101011001100000110011"

definition test_Decoder_R_decodes_SLT :: "bool res" where
  "test_Decoder_R_decodes_SLT =
     expect_R
       \<lparr>rd = 0b11111, rs1 = 0b11111, rs2 = 0b11111, immidiate = IMMIDIATE_POISON, operation = SLT\<rparr>
       0b00000001111111111010111110110011"

definition test_Decoder_R_decodes_SLTU :: "bool res" where
  "test_Decoder_R_decodes_SLTU =
     expect_R
       \<lparr>rd = 0b00011, rs1 = 0b10011, rs2 = 0b00000, immidiate = IMMIDIATE_POISON, operation = SLTU\<rparr>
       0b00000000000010011011000110110011"

definition test_Decoder_R_decodes_XOR :: "bool res" where
  "test_Decoder_R_decodes_XOR =
     expect_R
       \<lparr>rd = 0b00010, rs1 = 0b10011, rs2 = 0b11000, immidiate = IMMIDIATE_POISON, operation = XOR_op\<rparr>
       0b00000001100010011100000100110011"

definition test_Decoder_R_decodes_SRL :: "bool res" where
  "test_Decoder_R_decodes_SRL =
     expect_R
       \<lparr>rd = 0b01010, rs1 = 0b10011, rs2 = 0b00111, immidiate = IMMIDIATE_POISON, operation = SRL\<rparr>
       0b00000000011110011101010100110011"

definition test_Decoder_R_decodes_SRA :: "bool res" where
  "test_Decoder_R_decodes_SRA =
     expect_R
       \<lparr>rd = 0b11011, rs1 = 0b11011, rs2 = 0b11011, immidiate = IMMIDIATE_POISON, operation = SRA\<rparr>
       0b01000001101111011101110110110011"

definition test_Decoder_R_decodes_OR :: "bool res" where
  "test_Decoder_R_decodes_OR =
     expect_R
       \<lparr>rd = 0b00100, rs1 = 0b11011, rs2 = 0b01011, immidiate = IMMIDIATE_POISON, operation = OR_op\<rparr>
       0b00000000101111011110001000110011"

definition test_Decoder_R_decodes_AND :: "bool res" where
  "test_Decoder_R_decodes_AND =
     expect_R
       \<lparr>rd = 0b11011, rs1 = 0b11011, rs2 = 0b11011, immidiate = IMMIDIATE_POISON, operation = AND_op\<rparr>
       0b00000001101111011111110110110011"

definition test_Decoder_R_decodes_ADDW :: "bool res" where
  "test_Decoder_R_decodes_ADDW =
     expect_R
       \<lparr>rd = 0b10011, rs1 = 0b11011, rs2 = 0b11010, immidiate = IMMIDIATE_POISON, operation = ADDW\<rparr>
       0b00000001101011011000100110111011"

definition test_Decoder_R_decodes_SUBW :: "bool res" where
  "test_Decoder_R_decodes_SUBW =
     expect_R
       \<lparr>rd = 0b11011, rs1 = 0b11011, rs2 = 0b11011, immidiate = IMMIDIATE_POISON, operation = SUBW\<rparr>
       0b01000001101111011000110110111011"

definition test_Decoder_R_decodes_SLLW :: "bool res" where
  "test_Decoder_R_decodes_SLLW =
     expect_R
       \<lparr>rd = 0b01011, rs1 = 0b11011, rs2 = 0b10011, immidiate = IMMIDIATE_POISON, operation = SLLW\<rparr>
       0b00000001001111011001010110111011"

definition test_Decoder_R_decodes_SRLW :: "bool res" where
  "test_Decoder_R_decodes_SRLW =
     expect_R
       \<lparr>rd = 0b01000, rs1 = 0b11010, rs2 = 0b10001, immidiate = IMMIDIATE_POISON, operation = SRLW\<rparr>
       0b00000001000111010101010000111011"

definition test_Decoder_R_decodes_SRAW :: "bool res" where
  "test_Decoder_R_decodes_SRAW =
     expect_R
       \<lparr>rd = 0b00000, rs1 = 0b00101, rs2 = 0b00001, immidiate = IMMIDIATE_POISON, operation = SRAW\<rparr>
       0b01000000000100101101000000111011"

definition test_Decoder_R_decodes_SUBW_fails :: "bool res" where
  "test_Decoder_R_decodes_SUBW_fails =
     (let inst = \<lparr>rd = 0b11011, rs1 = 0b11011, rs2 = 0b1111, immidiate = IMMIDIATE_POISON, operation = SUBW\<rparr>
      in bindE (parse 0b01000001101111011000110110111011) (\<lambda>parsed.
         Inr (operation inst = operation parsed \<and> rs1 inst = rs1 parsed \<and> rs2 inst \<noteq> rs2 parsed \<and>
              rd inst = rd parsed \<and> \<not> equal_R parsed inst)))"

section \<open>Upper immediates\<close>

definition test_Decoder_U_LUI1 :: "bool res" where
  "test_Decoder_U_LUI1 =
     expect_equal equal_U (build_U 0b10000 0b01000101001001001100 LUI) 0b01000101001001001100100000110111"

definition test_Decoder_U_LUI2 :: "bool res" where
  "test_Decoder_U_LUI2 =
     expect_equal equal_U (build_U 0b01101 0b01011011001110000100 LUI) 0b01011011001110000100011010110111"

definition test_Decoder_U_AUIPC1 :: "bool res" where
  "test_Decoder_U_AUIPC1 =
     expect_equal equal_U (build_U 0b11000 0b01010101101111101101 AUIPC) 0b01010101101111101101110000010111"

definition test_Decoder_U_AUIPC2 :: "bool res" where
  "test_Decoder_U_AUIPC2 =
     expect_equal equal_U (build_U 0b00001 0b10100100011000111010 AUIPC) 0b10100100011000111010000010010111"

definition test_Decoder_U_NOT_AUIPC :: "bool res" where
  "test_Decoder_U_NOT_AUIPC =
     expect_different equal_U (build_U 0b00001 0b00100100011000111010 AUIPC) 0b10100100011000111010000010010111"

section \<open>Jumps\<close>

definition test_Decoder_J_JAL1 :: "bool res" where
  "test_Decoder_J_JAL1 =
     expect_fields equal_J (build_J 0b00000 0b111111111111111111110 JAL) 0b11111111111111111111000001101111"

definition test_Decoder_J_JAL2 :: "bool res" where
  "test_Decoder_J_JAL2 =
     expect_fields equal_J (build_J 0b11011 0b000000000000000000010 JAL) 0b00000000001000000000110111101111"

definition test_Decoder_J_JAL3 :: "bool res" where
  "test_Decoder_J_JAL3 =
     expect_fields equal_J (build_J 0b11011 0b011001111000010111110 JAL) 0b00001011111011001111110111101111"

definition test_Decoder_J_JAL4 :: "bool res" where
  "test_Decoder_J_JAL4 =
     expect_fields equal_J (build_J 0b01110 0b110111010001000010110 JAL) 0b10100001011010111010011101101111"

definition test_Decoder_J_JAL5 :: "bool res" where
  "test_Decoder_J_JAL5 =
     expect_fields equal_J (build_J 0b11011 0b000000000100000000000 JAL) 0b00000000000100000000110111101111"

definition test_Decoder_J_JAL6 :: "bool res" where
  "test_Decoder_J_JAL6 =
     expect_fields equal_J (build_J 0b11011 0b000000010000000000000 JAL) 0b00000000000000000010110111101111"

definition test_Decoder_J_JAL7 :: "bool res" where
  "test_Decoder_J_JAL7 =
     expect_fields equal_J (build_J 0b11011 0b100000000000000000000 JAL) 0b10000000000000000000110111101111"

definition test_Decoder_J_JAL8 :: "bool res" where
  "test_Decoder_J_JAL8 =
     expect_fields equal_J (build_J 0b11011 0b010000000000000000000 JAL) 0b00000000000010000000110111101111"

section \<open>Immediates, loads and system instructions\<close>

definition test_Decoder_I_JALR1 :: "bool res" where
  "test_Decoder_I_JALR1 =
     expect_equal equal_I (build_I 0b01011 0b11101 0b000111000000 JALR) 0b00011100000011101000010111100111"

definition test_Decoder_I_JALR2 :: "bool res" where
  "test_Decoder_I_JALR2 =
     expect_equal equal_I (build_I 0b10010 0b01101 0b101011001010 JALR) 0b10101100101001101000100101100111"

definition test_Decoder_I_LB :: "bool res" where
  "test_Decoder_I_LB =
     expect_equal equal_I (build_I 0b10001 0b11011 0b111111100010 LB) 0b11111110001011011000100010000011"

definition test_Decoder_I_LH :: "bool res" where
  "test_Decoder_I_LH =
     expect_equal equal_I (build_I 0b10011 0b11001 0b011000101011 LH) 0b01100010101111001001100110000011"

definition test_Decoder_I_LW :: "bool res" where
  "test_Decoder_I_LW =
     expect_equal equal_I (build_I 0b01111 0b01010 0b100110101101 LW) 0b10011010110101010010011110000011"

definition test_Decoder_I_LBU :: "bool res" where
  "test_Decoder_I_LBU =
     expect_equal equal_I (build_I 0b01000 0b11111 0b111110000001 LBU) 0b11111000000111111100010000000011"

definition test_Decoder_I_LHU :: "bool res" where
  "test_Decoder_I_LHU =
     expect_equal equal_I (build_I 0b01111 0b01100 0b101000000111 LHU) 0b10100000011101100101011110000011"

definition test_Decoder_I_ADDI :: "bool res" where
  "test_Decoder_I_ADDI =
     expect_equal equal_I (build_I 0b10111 0b01000 0b100011100101 ADDI) 0b10001110010101000000101110010011"

definition test_Decoder_I_SLTI :: "bool res" where
  "test_Decoder_I_SLTI =
     expect_equal equal_I (build_I 0b00111 0b00001 0b010101010111 SLTI) 0b01010101011100001010001110010011"

definition test_Decoder_I_SLTIU :: "bool res" where
  "test_Decoder_I_SLTIU =
     expect_equal equal_I (build_I 0b11100 0b00101 0b000010100011 SLTIU) 0b00001010001100101011111000010011"

definition test_Decoder_I_XORI :: "bool res" where
  "test_Decoder_I_XORI =
     expect_equal equal_I (build_I 0b00101 0b00011 0b001011100000 XORI) 0b00101110000000011100001010010011"

definition test_Decoder_I_ORI :: "bool res" where
  "test_Decoder_I_ORI =
     expect_equal equal_I (build_I 0b10001 0b01111 0b100110101111 ORI) 0b10011010111101111110100010010011"

definition test_Decoder_I_ANDI :: "bool res" where
  "test_Decoder_I_ANDI =
     expect_equal equal_I (build_I 0b01011 0b01101 0b100001010111 ANDI) 0b10000101011101101111010110010011"

definition test_Decoder_I_ECALL :: "bool res" where
  "test_Decoder_I_ECALL =
     expect_fields equal_I (build_I 0b0 0b0 0b0 ECALL) 0b1110011"

definition test_Decoder_I_EBREAK :: "bool res" where
  "test_Decoder_I_EBREAK =
     expect_fields equal_I (build_I 0b0 0b0 0b1 EBREAK) 0b100000000000001110011"

definition test_Decoder_I_SRET :: "bool res" where
  "test_Decoder_I_SRET =
     expect_fields equal_I (build_I 0b0 0b0 0b100000010 SRET) 0b00010000001000000000000001110011"

definition test_Decoder_I_MRET :: "bool res" where
  "test_Decoder_I_MRET =
     expect_fields equal_I (build_I 0b0 0b0 0b1100000010 MRET) 0b00110000001000000000000001110011"

definition test_Decoder_I_NOT_EACALL_AND_EBREAK :: "bool res" where
  "test_Decoder_I_NOT_EACALL_AND_EBREAK =
     expect_different equal_I (build_I 0b0 0b0 0b1 EBREAK) 0b100001000000001110011"

definition test_Decoder_I_NOT_SRET_AND_MRET :: "bool res" where
  "test_Decoder_I_NOT_SRET_AND_MRET =
     expect_invalid 0b01110000001000000000000001110011"

definition test_Decoder_I_LWU1 :: "bool res" where
  "test_Decoder_I_LWU1 =
     expect_equal equal_I (build_I 0b00001 0b10111 0b010110110110 LWU) 0b01011011011010111110000010000011"

definition test_Decoder_I_LWU2 :: "bool res" where
  "test_Decoder_I_LWU2 =
     expect_equal equal_I (build_I 0b11011 0b01001 0b000010001111 LWU) 0b00001000111101001110110110000011"

definition test_Decoder_I_LD1 :: "bool res" where
  "test_Decoder_I_LD1 =
     expect_equal equal_I (build_I 0b00011 0b10100 0b100110101011 LD) 0b10011010101110100011000110000011"

definition test_Decoder_I_LD2 :: "bool res" where
  "test_Decoder_I_LD2 =
     expect_equal equal_I (build_I 0b10101 0b10110 0b000010010111 LD) 0b00001001011110110011101010000011"

definition test_Decoder_I_NOT_LD :: "bool res" where
  "test_Decoder_I_NOT_LD =
     expect_different equal_I (build_I 0b11011 0b10010 0b100110010001 LD) 0b10011001000110010001110110000011"

definition test_Decoder_I_ADDIW :: "bool res" where
  "test_Decoder_I_ADDIW =
     expect_equal equal_I (build_I 0b10110 0b00101 0b101101000001 ADDIW) 0b10110100000100101000101100011011"

definition test_Decoder_I_SLLIW :: "bool res" where
  "test_Decoder_I_SLLIW =
     expect_equal equal_I (build_I 0b11110 0b01010 0b000000010010 SLLIW) 0b00000001001001010001111100011011"

definition test_Decoder_I_SRLIW :: "bool res" where
  "test_Decoder_I_SRLIW =
     expect_equal equal_I (build_I 0b10110 0b11010 0b000000001001 SRLIW) 0b00000000100111010101101100011011"

definition test_Decoder_I_SRAIW :: "bool res" where
  "test_Decoder_I_SRAIW =
     expect_equal equal_I (build_I 0b11001 0b00100 0b010000001000 SRAIW) 0b01000000100000100101110010011011"

definition test_Decoder_I_NOT_SRLIW_OR_SRAIW :: "bool res" where
  "test_Decoder_I_NOT_SRLIW_OR_SRAIW =
     expect_invalid 0b01100000100000100101110010011011"

definition test_Decoder_I_CSRRW :: "bool res" where
  "test_Decoder_I_CSRRW =
     expect_equal equal_I (build_I 0b01010 0b10111 0b001000111100 CSRRW) 0b00100011110010111001010101110011"

definition test_Decoder_I_CSRRS :: "bool res" where
  "test_Decoder_I_CSRRS =
     expect_equal equal_I (build_I 0b01101 0b00100 0b111110011100 CSRRS) 0b11111001110000100010011011110011"

definition test_Decoder_I_CSRRC :: "bool res" where
  "test_Decoder_I_CSRRC =
     expect_equal equal_I (build_I 0b01011 0b00110 0b011001010001 CSRRC) 0b01100101000100110011010111110011"

definition test_Decoder_I_CSRRWI :: "bool res" where
  "test_Decoder_I_CSRRWI =
     expect_equal equal_I (build_I 0b10101 0b01110 0b101110111100 CSRRWI) 0b10111011110001110101101011110011"

definition test_Decoder_I_CSRRSI :: "bool res" where
  "test_Decoder_I_CSRRSI =
     expect_equal equal_I (build_I 0b11010 0b10001 0b110000010010 CSRRSI) 0b11000001001010001110110101110011"

definition test_Decoder_I_CSRRCI :: "bool res" where
  "test_Decoder_I_CSRRCI =
     expect_equal equal_I (build_I 0b00011 0b11001 0b101111001011 CSRRCI) 0b10111100101111001111000111110011"

section \<open>Stores\<close>

definition test_Decoder_S_SD1 :: "bool res" where
  "test_Decoder_S_SD1 =
     expect_operation equal_S (build_S 0b00100 0b00100 0b111111111111 SD) 0b11111110010000100011111110100011"

definition test_Decoder_S_SD2 :: "bool res" where
  "test_Decoder_S_SD2 =
     expect_operation equal_S (build_S 0b00100 0b00100 0b000000000001 SD) 0b00000000010000100011000010100011"

definition test_Decoder_S_SD3 :: "bool res" where
  "test_Decoder_S_SD3 =
     expect_operation equal_S (build_S 0b11011 0b11011 0b000000010000 SD) 0b00000001101111011011100000100011"

definition test_Decoder_S_SD4 :: "bool res" where
  "test_Decoder_S_SD4 =
     expect_operation equal_S (build_S 0b11011 0b11011 0b000000100000 SD) 0b00000011101111011011000000100011"

definition test_Decoder_S_SD5 :: "bool res" where
  "test_Decoder_S_SD5 =
     expect_operation equal_S (build_S 0b11011 0b11011 0b100000000000 SD) 0b10000001101111011011000000100011"

definition test_Decoder_S_SB :: "bool res" where
  "test_Decoder_S_SB =
     expect_equal equal_S (build_S 0b01000 0b11110 0b101000111010 SB) 0b10100011111001000000110100100011"

definition test_Decoder_S_SH :: "bool res" where
  "test_Decoder_S_SH =
     expect_equal equal_S (build_S 0b11011 0b10010 0b010101111010 SH) 0b01010111001011011001110100100011"

definition test_Decoder_S_SW :: "bool res" where
  "test_Decoder_S_SW =
     expect_equal equal_S (build_S 0b11010 0b10100 0b110101111010 SW) 0b11010111010011010010110100100011"

section \<open>Branches\<close>

definition test_Decoder_B_BEQ1 :: "bool res" where
  "test_Decoder_B_BEQ1 =
     expect_operation equal_S (build_S 0b11011 0b11011 0b1111111111110 BEQ) 0b11111111101111011000111111100011"

definition test_Decoder_B_BEQ2 :: "bool res" where
  "test_Decoder_B_BEQ2 =
     expect_operation equal_S (build_S 0b11011 0b11011 0b0000000000000 BEQ) 0b00000001101111011000000001100011"

definition test_Decoder_B_BEQ3 :: "bool res" where
  "test_Decoder_B_BEQ3 =
     expect_equal equal_S (build_S 0b01001 0b11101 0b0111001110010 BEQ) 0b01100111110101001000100111100011"

definition test_Decoder_B_BNE :: "bool res" where
  "test_Decoder_B_BNE =
     expect_equal equal_S (build_S 0b01001 0b11101 0b0111001110010 BNE) 0b01100111110101001001100111100011"

definition test_Decoder_B_BLT :: "bool res" where
  "test_Decoder_B_BLT =
     expect_equal equal_S (build_S 0b00101 0b11011 0b1101010011100 BLT) 0b10101001101100101100111011100011"

definition test_Decoder_B_BGE :: "bool res" where
  "test_Decoder_B_BGE =
     expect_equal equal_S (build_S 0b00110 0b00000 0b0100000001110 BGE) 0b00000000000000110101011111100011"

definition test_Decoder_B_BLTU :: "bool res" where
  "test_Decoder_B_BLTU =
     expect_equal equal_S (build_S 0b00101 0b10110 0b0111100101010 BLTU) 0b01110011011000101110010111100011"

definition test_Decoder_B_BGEU :: "bool res" where
  "test_Decoder_B_BGEU =
     expect_equal equal_S (build_S 0b01100 0b00000 0b0111101001110 BGEU) 0b01110100000001100111011111100011"

definition test_Decoder_B_NOT_BEQ :: "bool res" where
  "test_Decoder_B_NOT_BEQ =
     expect_invalid 0b01110100000001100010011111100011"

section \<open>The tests pass\<close>

lemmas decoder_test_bodies =
  expect_R_def expect_equal_def expect_different_def expect_fields_def expect_operation_def expect_invalid_def
  equal_R_def equal_I_def equal_S_def equal_U_def equal_J_def build_I_def build_S_def build_U_def build_J_def

text \<open>Decoding of a given word: the fields are cut out by evaluation and the rows of the table are known.\<close>

lemmas decode_word =
  parse_def parse_R_def parse_I_def parse_S_def parse_B_def parse_U_def parse_J_def op_R_def ExtractRegister_def
  ExtractBits_def ExtractBits_ret_def BitMask_def decoder_constants assertE_def INSTR_WHO_nth

lemma register_decoder_tests:
  "passes test_Decoder_R_decodes_ADD" "passes test_Decoder_R_decodes_SUB"
  "passes test_Decoder_R_decodes_SLL" "passes test_Decoder_R_decodes_SLT"
  "passes test_Decoder_R_decodes_SLTU" "passes test_Decoder_R_decodes_XOR"
  "passes test_Decoder_R_decodes_SRL" "passes test_Decoder_R_decodes_SRA"
  "passes test_Decoder_R_decodes_OR" "passes test_Decoder_R_decodes_AND"
  "passes test_Decoder_R_decodes_ADDW" "passes test_Decoder_R_decodes_SUBW"
  "passes test_Decoder_R_decodes_SLLW" "passes test_Decoder_R_decodes_SRLW"
  "passes test_Decoder_R_decodes_SRAW" "passes test_Decoder_R_decodes_SUBW_fails"
  unfolding test_Decoder_R_decodes_ADD_def test_Decoder_R_decodes_SUB_def test_Decoder_R_decodes_SLL_def
    test_Decoder_R_decodes_SLT_def test_Decoder_R_decodes_SLTU_def test_Decoder_R_decodes_XOR_def
    test_Decoder_R_decodes_SRL_def test_Decoder_R_decodes_SRA_def test_Decoder_R_decodes_OR_def
    test_Decoder_R_decodes_AND_def test_Decoder_R_decodes_ADDW_def test_Decoder_R_decodes_SUBW_def
    test_Decoder_R_decodes_SLLW_def test_Decoder_R_decodes_SRLW_def test_Decoder_R_decodes_SRAW_def
    test_Decoder_R_decodes_SUBW_fails_def
    decoder_test_bodies
  by (simp_all add: decode_word Let_def)

lemma upper_decoder_tests:
  "passes test_Decoder_U_LUI1" "passes test_Decoder_U_LUI2"
  "passes test_Decoder_U_AUIPC1" "passes test_Decoder_U_AUIPC2"
  "passes test_Decoder_U_NOT_AUIPC"
  unfolding test_Decoder_U_LUI1_def test_Decoder_U_LUI2_def test_Decoder_U_AUIPC1_def test_Decoder_U_AUIPC2_def
    test_Decoder_U_NOT_AUIPC_def
    decoder_test_bodies
  by (simp_all add: decode_word Let_def)

lemma jump_decoder_tests:
  "passes test_Decoder_J_JAL1" "passes test_Decoder_J_JAL2"
  "passes test_Decoder_J_JAL3" "passes test_Decoder_J_JAL4"
  "passes test_Decoder_J_JAL5" "passes test_Decoder_J_JAL6"
  "passes test_Decoder_J_JAL7" "passes test_Decoder_J_JAL8"
  unfolding test_Decoder_J_JAL1_def test_Decoder_J_JAL2_def test_Decoder_J_JAL3_def test_Decoder_J_JAL4_def
    test_Decoder_J_JAL5_def test_Decoder_J_JAL6_def test_Decoder_J_JAL7_def test_Decoder_J_JAL8_def
    decoder_test_bodies
  by (simp_all add: decode_word Let_def)

lemma immediate_decoder_tests:
  "passes test_Decoder_I_JALR1" "passes test_Decoder_I_JALR2"
  "passes test_Decoder_I_LB" "passes test_Decoder_I_LH"
  "passes test_Decoder_I_LW" "passes test_Decoder_I_LBU"
  "passes test_Decoder_I_LHU" "passes test_Decoder_I_ADDI"
  "passes test_Decoder_I_SLTI" "passes test_Decoder_I_SLTIU"
  "passes test_Decoder_I_XORI" "passes test_Decoder_I_ORI"
  "passes test_Decoder_I_ANDI" "passes test_Decoder_I_ECALL"
  "passes test_Decoder_I_EBREAK" "passes test_Decoder_I_SRET"
  "passes test_Decoder_I_MRET" "passes test_Decoder_I_NOT_EACALL_AND_EBREAK"
  "passes test_Decoder_I_NOT_SRET_AND_MRET" "passes test_Decoder_I_LWU1"
  "passes test_Decoder_I_LWU2" "passes test_Decoder_I_LD1"
  "passes test_Decoder_I_LD2" "passes test_Decoder_I_NOT_LD"
  "passes test_Decoder_I_ADDIW" "passes test_Decoder_I_SLLIW"
  "passes test_Decoder_I_SRLIW" "passes test_Decoder_I_SRAIW"
  "passes test_Decoder_I_NOT_SRLIW_OR_SRAIW" "passes test_Decoder_I_CSRRW"
  "passes test_Decoder_I_CSRRS" "passes test_Decoder_I_CSRRC"
  "passes test_Decoder_I_CSRRWI" "passes test_Decoder_I_CSRRSI"
  "passes test_Decoder_I_CSRRCI"
  unfolding test_Decoder_I_JALR1_def test_Decoder_I_JALR2_def test_Decoder_I_LB_def test_Decoder_I_LH_def
    test_Decoder_I_LW_def test_Decoder_I_LBU_def test_Decoder_I_LHU_def test_Decoder_I_ADDI_def
    test_Decoder_I_SLTI_def test_Decoder_I_SLTIU_def test_Decoder_I_XORI_def test_Decoder_I_ORI_def
    test_Decoder_I_ANDI_def test_Decoder_I_ECALL_def test_Decoder_I_EBREAK_def test_Decoder_I_SRET_def
    test_Decoder_I_MRET_def test_Decoder_I_NOT_EACALL_AND_EBREAK_def test_Decoder_I_NOT_SRET_AND_MRET_def
    test_Decoder_I_LWU1_def test_Decoder_I_LWU2_def test_Decoder_I_LD1_def test_Decoder_I_LD2_def
    test_Decoder_I_NOT_LD_def test_Decoder_I_ADDIW_def test_Decoder_I_SLLIW_def test_Decoder_I_SRLIW_def
    test_Decoder_I_SRAIW_def test_Decoder_I_NOT_SRLIW_OR_SRAIW_def test_Decoder_I_CSRRW_def test_Decoder_I_CSRRS_def
    test_Decoder_I_CSRRC_def test_Decoder_I_CSRRWI_def test_Decoder_I_CSRRSI_def test_Decoder_I_CSRRCI_def
    decoder_test_bodies
  by (simp_all add: decode_word Let_def)

lemma store_decoder_tests:
  "passes test_Decoder_S_SD1" "passes test_Decoder_S_SD2"
  "passes test_Decoder_S_SD3" "passes test_Decoder_S_SD4"
  "passes test_Decoder_S_SD5" "passes test_Decoder_S_SB"
  "passes test_Decoder_S_SH" "passes test_Decoder_S_SW"
  unfolding test_Decoder_S_SD1_def test_Decoder_S_SD2_def test_Decoder_S_SD3_def test_Decoder_S_SD4_def
    test_Decoder_S_SD5_def test_Decoder_S_SB_def test_Decoder_S_SH_def test_Decoder_S_SW_def
    decoder_test_bodies
  by (simp_all add: decode_word Let_def)

lemma branch_decoder_tests:
  "passes test_Decoder_B_BEQ1" "passes test_Decoder_B_BEQ2"
  "passes test_Decoder_B_BEQ3" "passes test_Decoder_B_BNE"
  "passes test_Decoder_B_BLT" "passes test_Decoder_B_BGE"
  "passes test_Decoder_B_BLTU" "passes test_Decoder_B_BGEU"
  "passes test_Decoder_B_NOT_BEQ"
  unfolding test_Decoder_B_BEQ1_def test_Decoder_B_BEQ2_def test_Decoder_B_BEQ3_def test_Decoder_B_BNE_def
    test_Decoder_B_BLT_def test_Decoder_B_BGE_def test_Decoder_B_BLTU_def test_Decoder_B_BGEU_def
    test_Decoder_B_NOT_BEQ_def
    decoder_test_bodies
  by (simp_all add: decode_word Let_def)

end
