(* ===== verification/Spec2Isabelle.thy ===== *)
theory Spec2Isabelle
  imports IsaTrace ExecutorTestRuns DecoderTests
begin

text \<open>
  \<^bold>\<open>Verification of the BESM-666 simulator.\<close>

  BESM-666 is a functional simulator of a RISC-V RV64I machine with one hart.  A configuration
  names an executable and the ranges of RAM; the machine builds physical memory from them, loads
  the executable and runs the hart.  The hart fetches basic blocks through a prefetcher and a
  decoder into a cache of blocks and executes them by a table of handlers, which work on the
  general purpose registers, the control and status registers and, through the MMU, on physical
  memory.  Hooks report fetched blocks and executed instructions to the embedding application.
  This development models all of these parts from the C++ sources and proves what makes them
  correct, down to the bytes of the host's memory.

  \<^bold>\<open>How the code is modelled.\<close>  A class is a record, an operation a function that returns the changed
  record.  An operation that can throw, fail an assertion, terminate or reach undefined behaviour
  returns a sum whose left values are the errors (\<open>besm_error\<close> in \<open>Prelude\<close>).  Unsigned integers are
  words of their width, signed ones the integers they denote, converted where the code converts.
  What the constructors leave uninitialised is an argument, one value for every such member of every
  object.  Code outside the repository is a
  parameter: the operating system's page size and mapping calls (\<open>os\<close>, with \<open>mmap_ok\<close> for what is
  documented of them), the file reader ELFIO (\<open>elfio\<close>, with \<open>elfio_ok\<close>: a segment has the bytes its size
  announces), the masks of the generated header
  \<^verbatim>\<open>encoding.out.h\<close> (\<open>mstatus_masks\<close>, with \<open>masks_ok\<close>), the disassembler Capstone, the clock and the
  parsed command line.

  \<^bold>\<open>Theories and sources\<close> (paths below \<^verbatim>\<open>include/besm-666\<close> and \<^verbatim>\<open>src\<close>).
    \<^item> \<open>Prelude\<close>: machine integers, errors, sequencing, little-endian bytes, lemma collections.
    \<^item> \<open>BitMagic\<close>: \<^verbatim>\<open>util/bit-magic.hpp\<close>, \<^verbatim>\<open>util/math.hpp\<close>; \<open>RangeUtil\<close>: \<^verbatim>\<open>util/range.hpp\<close>.
    \<^item> \<open>Instr\<close>: \<^verbatim>\<open>rv-instruction-op.hpp\<close>, \<^verbatim>\<open>riscv-types.hpp\<close>, \<^verbatim>\<open>instruction.hpp\<close>; \<open>OpMatrix\<close>: the tables
      of \<^verbatim>\<open>autogen\<close>.
    \<^item> \<open>Decoder\<close>: \<^verbatim>\<open>decoder/decoder.cpp\<close>; \<open>DecoderRoundtrip\<close>: the encoder that specifies it.
    \<^item> \<open>Gprf\<close>: \<^verbatim>\<open>exec/gprf.cpp\<close>; \<open>Csr\<close>: \<^verbatim>\<open>exec/csr.hpp\<close>, \<^verbatim>\<open>exec/csrs.hpp\<close>, \<^verbatim>\<open>exec/icsr.hpp\<close>; \<open>Csrf\<close>:
      \<^verbatim>\<open>exec/csrf.cpp\<close>.
    \<^item> \<open>BasicBlock\<close>: \<^verbatim>\<open>exec/basic-block.cpp\<close>, with the interface \<open>code_cache\<close>, also provided by
      \<open>AssocCache\<close>: \<^verbatim>\<open>util/assotiative-cache.hpp\<close>.
    \<^item> \<open>HostMem\<close>: the host's mapped blocks and \<^verbatim>\<open>memory/mmap-wrapper.cpp\<close>; \<open>MemSpec\<close>: the flat byte
      array and the interface \<open>mem_device\<close>.
    \<^item> \<open>Ram\<close>, \<open>RamRefinement\<close>: \<^verbatim>\<open>memory/ram.cpp\<close>; \<open>PhysMem\<close>, \<open>PhysMemRefinement\<close>: \<^verbatim>\<open>memory/phys-mem.cpp\<close>,
      \<^verbatim>\<open>memory/phys-mem-device.cpp\<close>; \<open>ElfParser\<close>: \<^verbatim>\<open>util/elf-parser.cpp\<close>; \<open>Mmu\<close>: \<^verbatim>\<open>memory/mmu.cpp\<close>,
      \<^verbatim>\<open>memory/prefetcher.cpp\<close>.
    \<^item> \<open>Hooks\<close>: \<^verbatim>\<open>sim/hooks.cpp\<close>; \<open>Hart\<close>: \<^verbatim>\<open>sim/hart.cpp\<close>, with its theorems in \<open>HartInvariant\<close>, \<open>HartRun\<close>,
      \<open>HartSemantics\<close>, \<open>HartTraps\<close> and \<open>HookTrace\<close>.
    \<^item> \<open>Machine\<close>: \<^verbatim>\<open>sim/config.cpp\<close>, \<^verbatim>\<open>sim/machine.cpp\<close>; \<open>Standalone\<close>: \<^verbatim>\<open>standalone/main.cpp\<close>.
    \<^item> \<open>WordShifts\<close>: the 32-bit right shifts of \<^verbatim>\<open>sim/hart.cpp\<close>; \<open>IsaMachine\<close>: the architecture as a machine of its
      own and the simulation of it by the hart; \<open>IsaProgram\<close>: whole programs on a booted machine;
      \<open>IsaTrace\<close>: whole programs on the command line simulator, with the trace file.
    \<^item> The unit tests, \<^verbatim>\<open>src/unit_test\<close>: \<open>UnitTests\<close> those of the utilities, the associative cache and the
      registers; \<open>DecoderTests\<close> those of the decoder; \<open>MemoryTests\<close> those of the page allocator, physical
      memory, the MMU, the prefetcher and the parser of executables with the generator \<^verbatim>\<open>elf-gen.hpp\<close>;
      \<open>ExecutorTests\<close> those of single instructions and of two programs, run in \<open>ExecutorTestRuns\<close>.

  \<^bold>\<open>What the theorems show.\<close>
    \<^item> Decoding: the decoder is total on 32-bit words, yields well-formed instructions, and inverts
      the encoding of every instruction of the tables; two operations are never decoded.
    \<^item> Registers: reads after writes, legality of the control registers in every reachable state,
      access rights, the exact value a write leaves.
    \<^item> Memory: RAM, physical memory and the MMU implement one flat byte array for every access width
      (interpretations of \<open>mem_device\<close>); building and loading terminate and write exactly the given
      bytes; the prefetcher agrees with the MMU.  The conditions under which the code breaks these
      promises (overlapping ranges, chunks that are no whole number of pages, refused mappings) are theorems too.
    \<^item> Caches: both caches are transparent, in whatever order addresses are accessed.
    \<^item> The hart: an invariant of all reachable states (locale \<open>stepping\<close>); fetching delivers the code in
      memory; for every instruction class the effect of its handler against the architecture's
      definition, with the exact condition where they differ; trap entry, return from a trap, and
      how a run ends.
    \<^item> Composition: a machine built from a sound configuration holds the executable's segments and
      starts in the initial state of the invariant; the hooks report every counted instruction
      (locale \<open>observation\<close>), and the tracer's address is that of the executing slot.

    \<^item> Whole programs: the hart, built and booted from an executable, follows the architecture's machine
      (\<open>isa_step\<close>) by a forward simulation (locale \<open>forward_simulation\<close>, interpreted for the hart and for
      the command line application).  \<open>follows\<close> relates the states: same registers, program counter and
      memory, every block in use holds the instructions its words in memory encode, and the
      current slot is that of the program counter.  One instruction is one handler call, or two
      when a block has to be fetched first.  From this: the result of a run, that an endless program
      does not return, the exit status and the trace file of the command line simulator.  The hypothesis
      \<open>agrees\<close> of each step collects exactly the operands for which the handlers are shown to do
      what the architecture says; the program must not store to its own text, and the seven words from
      every program counter on must be mapped, as a block is read ahead.

    \<^item> Unit tests: every test is a computation over the model that yields whether its expectations hold.
      The tests of pure functions, of the decoder and of the associative cache pass by evaluation, those of memory
      by the laws of \<open>mem_device\<close>, for every operating system that grants its mappings.  The tests of the
      executor call a member function that does not exist; they are run, by the simulation of the
      architecture's machine (locale \<open>executor\<close>), with a harness of this development in its place, under
      which those of LUI and AUIPC fail.

  \<^bold>\<open>Loops.\<close>  Loops over lists and counters are structural recursion.  The copy loop of
  \<^verbatim>\<open>storeContArea\<close> is bounded by the number of bytes (every iteration copies at least one) and the
  assembling loop of \<^verbatim>\<open>assembleBB\<close> by the capacity of a block; reaching a bound would be the error
  \<open>OutOfFuel\<close>, and it is shown for both (\<open>PhysMemRefinement\<close>, \<open>HartRun\<close>) that it does not happen.  The
  calls between handlers, which are the last statements of the handlers, are steps of a loop.  The run
  of the hart, which need not end, is a \<open>partial_function\<close> with value \<open>None\<close> for a run that goes
  on forever; \<open>HartRun\<close> characterises its results by the reachable states.

  \<^bold>\<open>Which build.\<close>  Assertions are part of the model: a failed one is the error \<open>AssertFailed\<close>.  A build with
  \<^verbatim>\<open>NDEBUG\<close>, as the Release build of the Makefile, has none; what is proved speaks for it about
  executions in which no assertion would fail.  On a machine built from a sound configuration the only
  assertion a program can fail is that of a misaligned fetch (\<open>Mmu\<close>).  A copy from a segment's
  data past its end is the error \<open>UndefinedBehaviour\<close>.

  \<^bold>\<open>Not modelled.\<close>  The stack the calls between handlers use when the compiler does not turn them into
  jumps; whether the trace file could be opened; the destruction of objects at exit (no result depends on it); parsing of the command line, of ELF files and
  disassembly (third-party libraries); end-to-end tests and build scripts; the second half of
  \<^verbatim>\<open>unit_test/exec/simple-programs.cpp\<close>, which calls members of the hart and of basic blocks that the
  classes no longer have (the one such member of the other tests, \<^verbatim>\<open>Hart::exec\<close>, is a parameter); the
  header \<^verbatim>\<open>exec/mstatus.hpp\<close>, a duplicate that nothing includes; sizes of the associative cache are
  natural numbers, as its arrays could not be allocated otherwise.
\<close>

end
